(* ===== verification/Kinetic_Prelude.thy ===== *)
theory Kinetic_Prelude
  imports Complex_Main "HOL-Library.Sublist"
begin

text \<open>
  The shared vocabulary of the development: Python exceptions as values, the Python string
  operations the sources use, and generic facts on lists and association lists.

  A Python \<open>str\<close> is a \<^typ>\<open>string\<close>, a list of characters in the Latin-1 range; a code point
  outside it is written as one stand-in character, so that \<open>len\<close> counts what Python counts.
  A Python \<open>dict\<close> is an association list with distinct keys in insertion order. An exception is
  its class name and its message.
\<close>

named_theorems pystr_simps \<open>characteristic equations of the Python string operations\<close>
named_theorems alist_simps \<open>lookup and update in insertion-ordered dictionaries\<close>

section \<open>Exceptions and results\<close>

datatype exn = Exn (exn_class: string) (exn_msg: string)

type_synonym 'a result = "exn + 'a"

definition exn_text :: "exn \<Rightarrow> string" where
  "exn_text e = exn_class e @ '': '' @ exn_msg e"

fun bind_res :: "'a result \<Rightarrow> ('a \<Rightarrow> 'b result) \<Rightarrow> 'b result" where
  "bind_res (Inl e) f = Inl e"
| "bind_res (Inr x) f = f x"

definition value_error :: "string \<Rightarrow> 'a result" where
  "value_error msg = Inl (Exn ''ValueError'' msg)"

lemma bind_res_Inr_iff: "bind_res m f = Inr y \<longleftrightarrow> (\<exists>x. m = Inr x \<and> f x = Inr y)"
  by (cases m) auto

section \<open>Characters and strings\<close>

abbreviation LF :: char where "LF \<equiv> CHR 0x0A"
abbreviation CR :: char where "CR \<equiv> CHR 0x0D"
abbreviation TAB :: char where "TAB \<equiv> CHR 0x09"
abbreviation DQ :: char where "DQ \<equiv> CHR 0x22"
abbreviation SQ :: char where "SQ \<equiv> CHR 0x27"
abbreviation BSL :: char where "BSL \<equiv> CHR 0x5C"

definition code_of :: "char \<Rightarrow> nat" where
  "code_of c = of_char c"

text \<open>\<open>str.isspace\<close> for one character, on the Latin-1 range.\<close>

definition is_space :: "char \<Rightarrow> bool" where
  "is_space c = (let n = code_of c in (9 \<le> n \<and> n \<le> 13) \<or> (28 \<le> n \<and> n \<le> 32) \<or> n = 133 \<or> n = 160)"

text \<open>The line boundaries of \<open>str.splitlines\<close> on the Latin-1 range.\<close>

definition is_linebreak :: "char \<Rightarrow> bool" where
  "is_linebreak c = (let n = code_of c in (10 \<le> n \<and> n \<le> 13) \<or> (28 \<le> n \<and> n \<le> 30) \<or> n = 133)"

definition lower_char :: "char \<Rightarrow> char" where
  "lower_char c = (let n = code_of c in
     if (65 \<le> n \<and> n \<le> 90) \<or> (192 \<le> n \<and> n \<le> 222 \<and> n \<noteq> 215) then char_of (n + 32) else c)"

definition py_lower :: "string \<Rightarrow> string" where
  "py_lower s = map lower_char s"

definition lstrip_by :: "(char \<Rightarrow> bool) \<Rightarrow> string \<Rightarrow> string" where
  "lstrip_by p s = dropWhile p s"

definition rstrip_by :: "(char \<Rightarrow> bool) \<Rightarrow> string \<Rightarrow> string" where
  "rstrip_by p s = rev (dropWhile p (rev s))"

definition py_strip :: "string \<Rightarrow> string" where
  "py_strip s = rstrip_by is_space (lstrip_by is_space s)"

definition is_blank :: "string \<Rightarrow> bool" where
  "is_blank s = (py_strip s = [])"

definition startswith :: "string \<Rightarrow> string \<Rightarrow> bool" where
  "startswith p s = (take (length p) s = p)"

definition endswith :: "string \<Rightarrow> string \<Rightarrow> bool" where
  "endswith p s = (length p \<le> length s \<and> drop (length s - length p) s = p)"

fun contains :: "string \<Rightarrow> string \<Rightarrow> bool" where
  "contains p [] = (p = [])"
| "contains p (c # cs) = (startswith p (c # cs) \<or> contains p cs)"

fun py_join :: "string \<Rightarrow> string list \<Rightarrow> string" where
  "py_join sep [] = []"
| "py_join sep [x] = x"
| "py_join sep (x # y # ys) = x @ sep @ py_join sep (y # ys)"

text \<open>\<open>str.splitlines(keepends=True)\<close>.\<close>

fun splitlines_keep :: "string \<Rightarrow> string list" where
  "splitlines_keep [] = []"
| "splitlines_keep (c # cs) =
     (if c = CR \<and> cs \<noteq> [] \<and> hd cs = LF then [c, LF] # splitlines_keep (tl cs)
      else if is_linebreak c then [c] # splitlines_keep cs
      else case splitlines_keep cs of [] \<Rightarrow> [[c]] | l # ls \<Rightarrow> (c # l) # ls)"

text \<open>\<open>str.splitlines()\<close>.\<close>

definition drop_eol :: "string \<Rightarrow> string" where
  "drop_eol l = (if endswith [CR, LF] l then take (length l - 2) l else if l \<noteq> [] \<and> is_linebreak (last l) then butlast l else l)"

definition splitlines :: "string \<Rightarrow> string list" where
  "splitlines s = map drop_eol (splitlines_keep s)"

text \<open>\<open>text[:n]\<close> and \<open>text[-n:]\<close> for a non-negative \<open>n\<close>; \<open>text[-0:]\<close> is the whole text.\<close>

definition slice_last :: "nat \<Rightarrow> 'a list \<Rightarrow> 'a list" where
  "slice_last n xs = (if n = 0 then xs else drop (length xs - n) xs)"

fun digits_rev :: "nat \<Rightarrow> string" where
  "digits_rev n = (if n < 10 then [char_of (48 + n)] else char_of (48 + n mod 10) # digits_rev (n div 10))"

declare digits_rev.simps [simp del]

definition str_of_nat :: "nat \<Rightarrow> string" where
  "str_of_nat n = rev (digits_rev n)"

definition str_of_int :: "int \<Rightarrow> string" where
  "str_of_int i = (if i < 0 then CHR ''-'' # str_of_nat (nat (- i)) else str_of_nat (nat i))"

section \<open>Generic facts\<close>

lemma startswith_prefix [pystr_simps]: "startswith p s \<longleftrightarrow> prefix p s"
  by (auto simp: startswith_def prefix_def) (metis append_take_drop_id)

lemma startswith_append [simp]: "startswith p (p @ s)"
  by (simp add: startswith_def)

lemma contains_sublist [pystr_simps]: "contains p s \<longleftrightarrow> sublist p s"
  by (induction s) (auto simp: startswith_prefix sublist_Cons_right)

lemma is_blank_iff: "is_blank s \<longleftrightarrow> (\<forall>c \<in> set s. is_space c)"
proof -
  have "rstrip_by is_space t = [] \<longleftrightarrow> (\<forall>c \<in> set t. is_space c)" for t
    by (simp add: rstrip_by_def dropWhile_eq_Nil_conv)
  moreover have "(\<forall>c \<in> set (dropWhile is_space s). is_space c) \<longleftrightarrow> (\<forall>c \<in> set s. is_space c)"
    by (induction s) auto
  ultimately show ?thesis
    by (simp add: is_blank_def py_strip_def lstrip_by_def)
qed

lemma slice_last_length: "n \<noteq> 0 \<Longrightarrow> length (slice_last n xs) = min n (length xs)"
  by (simp add: slice_last_def)

lemma set_slice_last: "set (slice_last n xs) \<subseteq> set xs"
  by (auto simp: slice_last_def dest: in_set_dropD)

lemma digits_rev_nonempty [simp]: "digits_rev n \<noteq> []"
  by (subst digits_rev.simps) simp

lemma str_of_nat_nonempty [simp]: "str_of_nat n \<noteq> []"
  by (simp add: str_of_nat_def)

section \<open>Insertion-ordered dictionaries\<close>

type_synonym ('k, 'v) dict = "('k \<times> 'v) list"

definition dget :: "('k, 'v) dict \<Rightarrow> 'k \<Rightarrow> 'v option" where
  "dget d k = map_of d k"

definition dhas :: "('k, 'v) dict \<Rightarrow> 'k \<Rightarrow> bool" where
  "dhas d k = (k \<in> set (map fst d))"

text \<open>\<open>d[k] = v\<close>: an existing key keeps its position, a new key goes last.\<close>

fun dset :: "('k, 'v) dict \<Rightarrow> 'k \<Rightarrow> 'v \<Rightarrow> ('k, 'v) dict" where
  "dset [] k v = [(k, v)]"
| "dset ((k', v') # d) k v = (if k' = k then (k, v) # d else (k', v') # dset d k v)"

definition dpop :: "('k, 'v) dict \<Rightarrow> 'k \<Rightarrow> ('k, 'v) dict" where
  "dpop d k = filter (\<lambda>(k', _). k' \<noteq> k) d"

definition dupdate :: "('k, 'v) dict \<Rightarrow> ('k, 'v) dict \<Rightarrow> ('k, 'v) dict" where
  "dupdate d e = foldl (\<lambda>acc (k, v). dset acc k v) d e"

definition dwf :: "('k, 'v) dict \<Rightarrow> bool" where
  "dwf d = distinct (map fst d)"

lemma dget_Nil [alist_simps, simp]: "dget [] k = None"
  by (simp add: dget_def)

lemma dget_Cons [alist_simps, simp]: "dget ((k', v) # d) k = (if k' = k then Some v else dget d k)"
  by (simp add: dget_def)

lemma dget_dset [alist_simps, simp]: "dget (dset d k v) j = (if j = k then Some v else dget d j)"
  by (induction d k v rule: dset.induct) auto

lemma keys_dset [alist_simps]:
  "map fst (dset d k v) = (if dhas d k then map fst d else map fst d @ [k])"
  by (induction d k v rule: dset.induct) (auto simp: dhas_def)

lemma dwf_dset [intro]: "dwf d \<Longrightarrow> dwf (dset d k v)"
  by (simp add: dwf_def keys_dset dhas_def)

lemma dget_dpop [alist_simps, simp]: "dget (dpop d k) j = (if j = k then None else dget d j)"
  by (induction d) (auto simp: dpop_def)

lemma dhas_dget [alist_simps]: "dhas d k \<longleftrightarrow> dget d k \<noteq> None"
  by (induction d) (auto simp: dhas_def)

lemma dset_fresh: "\<not> dhas d k \<Longrightarrow> dset d k v = d @ [(k, v)]"
  by (induction d k v rule: dset.induct) (auto simp: dhas_def)

lemma dwf_dpop [intro]: "dwf d \<Longrightarrow> dwf (dpop d k)"
  by (auto simp: dwf_def dpop_def distinct_map inj_on_def)

section \<open>Numeric dictionaries\<close>

text \<open>Adding one to a counter adds one to the sum of all counters.\<close>

lemma sum_list_dset_incr:
  fixes d :: "('k, nat) dict"
  assumes "dwf d"
  shows "sum_list (map snd (dset d k (case dget d k of None \<Rightarrow> 1 | Some n \<Rightarrow> n + 1)))
       = sum_list (map snd d) + 1"
  using assms
proof (induction d)
  case Nil
  then show ?case by simp
next
  case (Cons p d)
  obtain k' n where p: "p = (k', n)" by force
  have "dget d k = None" if "k' = k"
    using Cons.prems p that by (auto simp: dwf_def dget_def map_of_eq_None_iff)
  moreover have "dwf d"
    using Cons.prems by (simp add: dwf_def)
  ultimately show ?case
    using Cons.IH p by (cases "k' = k") auto
qed

lemma map_filter_append: "List.map_filter f (xs @ ys) = List.map_filter f xs @ List.map_filter f ys"
  by (simp add: List.map_filter_def)

end
