(* ===== verification/Json_Value.thy ===== *)
theory Json_Value
  imports Kinetic_Prelude
begin

text \<open>
  The dynamically typed values that flow through the SDK: tool arguments, message contents, event
  payloads, schemas and persisted documents are all JSON-like Python values. A float carries its
  exact value and the text \<open>repr\<close> prints for it, since Python's shortest-representation
  algorithm is not modelled. The theory gives the operations of the language the sources apply to
  such values: truth testing, equality (where \<open>True == 1 == 1.0\<close> and a dict ignores the order of
  its keys), \<open>type(...).__name__\<close>, \<open>repr\<close> and \<open>str\<close>.
\<close>

datatype json =
    JNull
  | JBool bool
  | JInt int
  | JFloat rat string
  | JStr string
  | JArr "json list"
  | JObj "(string \<times> json) list"

type_synonym obj = "(string, json) dict"

definition jget :: "obj \<Rightarrow> string \<Rightarrow> json" where
  "jget d k = (case dget d k of None \<Rightarrow> JNull | Some v \<Rightarrow> v)"

fun truthy :: "json \<Rightarrow> bool" where
  "truthy JNull = False"
| "truthy (JBool b) = b"
| "truthy (JInt i) = (i \<noteq> 0)"
| "truthy (JFloat r _) = (r \<noteq> 0)"
| "truthy (JStr s) = (s \<noteq> [])"
| "truthy (JArr xs) = (xs \<noteq> [])"
| "truthy (JObj d) = (d \<noteq> [])"

fun is_str :: "json \<Rightarrow> bool" where
  "is_str (JStr _) = True"
| "is_str _ = False"

fun is_dict :: "json \<Rightarrow> bool" where
  "is_dict (JObj _) = True"
| "is_dict _ = False"

fun is_list :: "json \<Rightarrow> bool" where
  "is_list (JArr _) = True"
| "is_list _ = False"

text \<open>\<open>isinstance(v, int)\<close> holds of booleans too: \<open>bool\<close> is a subclass of \<open>int\<close>.\<close>

fun as_int :: "json \<Rightarrow> int option" where
  "as_int (JInt i) = Some i"
| "as_int (JBool b) = Some (if b then 1 else 0)"
| "as_int _ = None"

fun num_val :: "json \<Rightarrow> rat option" where
  "num_val (JInt i) = Some (of_int i)"
| "num_val (JBool b) = Some (if b then 1 else 0)"
| "num_val (JFloat r _) = Some r"
| "num_val _ = None"

fun str_opt :: "json \<Rightarrow> string option" where
  "str_opt (JStr s) = Some s"
| "str_opt _ = None"

text \<open>Size facts for recursion into nested values.\<close>

lemma size_arr_elem [termination_simp]: "v \<in> set xs \<Longrightarrow> size v < size (JArr xs)"
  by (induction xs) auto

lemma size_obj_elem [termination_simp]: "(k, v) \<in> set d \<Longrightarrow> size v < size (JObj d)"
  by (induction d) auto

lemma size_arr_zip_elem [termination_simp]: "(i, v) \<in> set (zip ns xs) \<Longrightarrow> size v < size (JArr xs)"
  by (meson set_zip_rightD size_arr_elem)

section \<open>Python equality\<close>

fun py_eq :: "json \<Rightarrow> json \<Rightarrow> bool" where
  "py_eq JNull w = (w = JNull)"
| "py_eq (JStr s) w = (w = JStr s)"
| "py_eq (JArr xs) w = (case w of JArr ys \<Rightarrow> list_all2 py_eq xs ys | _ \<Rightarrow> False)"
| "py_eq (JObj d) w = (case w of
     JObj e \<Rightarrow> length d = length e \<and>
       list_all (\<lambda>(k, v). case dget e k of None \<Rightarrow> False | Some u \<Rightarrow> py_eq v u) d
   | _ \<Rightarrow> False)"
| "py_eq v w = (num_val v = num_val w)"

definition py_in :: "json \<Rightarrow> json list \<Rightarrow> bool" where
  "py_in v xs = list_ex (py_eq v) xs"

section \<open>Printing\<close>

definition hex_digit :: "nat \<Rightarrow> char" where
  "hex_digit n = (if n < 10 then char_of (48 + n) else char_of (87 + n))"

definition hex2 :: "char \<Rightarrow> string" where
  "hex2 c = [hex_digit (code_of c div 16), hex_digit (code_of c mod 16)]"

definition is_printable :: "char \<Rightarrow> bool" where
  "is_printable c = (let n = code_of c in (32 \<le> n \<and> n \<le> 126) \<or> (161 \<le> n \<and> n \<noteq> 173))"

definition repr_char :: "char \<Rightarrow> char \<Rightarrow> string" where
  "repr_char q c =
     (if c = BSL \<or> c = q then [BSL, c]
      else if c = LF then [BSL, CHR ''n''] else if c = CR then [BSL, CHR ''r'']
      else if c = TAB then [BSL, CHR ''t'']
      else if is_printable c then [c] else BSL # CHR ''x'' # hex2 c)"

definition repr_str :: "string \<Rightarrow> string" where
  "repr_str s = (let q = (if SQ \<in> set s \<and> DQ \<notin> set s then DQ else SQ)
     in q # concat (map (repr_char q) s) @ [q])"

fun py_repr :: "json \<Rightarrow> string" where
  "py_repr JNull = ''None''"
| "py_repr (JBool b) = (if b then ''True'' else ''False'')"
| "py_repr (JInt i) = str_of_int i"
| "py_repr (JFloat r s) = s"
| "py_repr (JStr s) = repr_str s"
| "py_repr (JArr xs) = ''['' @ py_join '', '' (map py_repr xs) @ '']''"
| "py_repr (JObj d) = ''{'' @ py_join '', '' (map (\<lambda>(k, v). repr_str k @ '': '' @ py_repr v) d) @ ''}''"

fun py_str :: "json \<Rightarrow> string" where
  "py_str (JStr s) = s"
| "py_str v = py_repr v"

lemma py_eq_refl_atom: "\<not> is_list v \<Longrightarrow> \<not> is_dict v \<Longrightarrow> py_eq v v"
  by (cases v) auto

lemma jget_dset [simp]: "jget (dset d k v) j = (if j = k then v else jget d j)"
  by (simp add: jget_def)

lemma jget_Cons [simp]: "jget ((k', v) # d) k = (if k' = k then v else jget d k)"
  by (simp add: jget_def)

lemma jget_Nil [simp]: "jget [] k = JNull"
  by (simp add: jget_def)

end
