(* ===== verification/Tool_Model.thy ===== *)
theory Tool_Model
  imports Json_Value "HOL-Library.List_Lexorder" "HOL-Library.Char_ord"
begin

text \<open>
  The tool interface (\<open>tool/base.py\<close>) and the JSON-Schema subset that guards tool inputs and
  structured answers (\<open>tool/validation.py\<close>). A validator returns the list of problems it found,
  or the exception Python raises on a schema of the wrong shape.
\<close>

section \<open>Tools and their results (\<open>tool/base.py\<close>)\<close>

datatype failure_category = RECOVERABLE_INPUT | TRANSIENT | PERMANENT

datatype risk_level = READ_ONLY | WRITE | DESTRUCTIVE

record execution_policy =
  ep_timeout_seconds :: "rat option"
  ep_max_transient_retries :: "int option"
  ep_circuit_breaker_threshold :: "int option"
  ep_circuit_breaker_cooldown_seconds :: rat

record tool_result =
  res_output :: json
  res_error :: "string option"
  res_metadata :: obj
  res_failure_category :: "failure_category option"
  res_duration_seconds :: "rat option"
  res_artifacts :: "string list"

definition ok_result :: "json \<Rightarrow> tool_result" where
  "ok_result out = \<lparr>res_output = out, res_error = None, res_metadata = [],
     res_failure_category = None, res_duration_seconds = None, res_artifacts = []\<rparr>"

definition err_result :: "string \<Rightarrow> tool_result" where
  "err_result e = \<lparr>res_output = JNull, res_error = Some e, res_metadata = [],
     res_failure_category = None, res_duration_seconds = None, res_artifacts = []\<rparr>"

definition is_error :: "tool_result \<Rightarrow> bool" where
  "is_error r = (case res_error r of None \<Rightarrow> False | Some e \<Rightarrow> e \<noteq> [])"

record tool =
  tool_name :: string
  tool_description :: string
  tool_parameters :: json
  tool_risk_level :: "risk_level option"
  tool_execution_policy :: "execution_policy option"
  tool_takes_idempotency_key :: bool

definition to_schema :: "tool \<Rightarrow> json" where
  "to_schema t = JObj [(''name'', JStr (tool_name t)), (''description'', JStr (tool_description t)),
     (''input_schema'', tool_parameters t)]"

section \<open>Schema validation (\<open>tool/validation.py\<close>)\<close>

definition type_error :: "string \<Rightarrow> 'a result" where
  "type_error msg = Inl (Exn ''TypeError'' msg)"

fun json_type :: "json \<Rightarrow> string" where
  "json_type JNull = ''null''"
| "json_type (JBool _) = ''boolean''"
| "json_type (JInt _) = ''number''"
| "json_type (JFloat _ _) = ''number''"
| "json_type (JStr _) = ''string''"
| "json_type (JArr _) = ''array''"
| "json_type (JObj _) = ''object''"

fun type_matches :: "json \<Rightarrow> json \<Rightarrow> bool" where
  "type_matches v (JArr es) = list_ex (type_matches v) es"
| "type_matches v (JStr t) =
     (if t = ''string'' then is_str v
      else if t = ''boolean'' then (case v of JBool _ \<Rightarrow> True | _ \<Rightarrow> False)
      else if t = ''integer'' then (case v of JInt _ \<Rightarrow> True | _ \<Rightarrow> False)
      else if t = ''number'' then (case v of JInt _ \<Rightarrow> True | JFloat _ _ \<Rightarrow> True | _ \<Rightarrow> False)
      else if t = ''array'' then is_list v
      else if t = ''object'' then is_dict v
      else if t = ''null'' then v = JNull
      else True)"
| "type_matches v _ = True"

definition describe :: "json \<Rightarrow> string result" where
  "describe expected = (case expected of
     JArr es \<Rightarrow> (if list_all is_str es then Inr (py_join '' | '' (map py_str es))
                else type_error ''sequence item: expected str instance'')
   | e \<Rightarrow> Inr (py_str e))"

text \<open>\<open>for name in schema.get("required") or []\<close>.\<close>

definition iter_or_empty :: "json \<Rightarrow> json list result" where
  "iter_or_empty v = (if \<not> truthy v then Inr [] else case v of
     JArr xs \<Rightarrow> Inr xs
   | JStr s \<Rightarrow> Inr (map (\<lambda>c. JStr [c]) s)
   | JObj d \<Rightarrow> Inr (map (\<lambda>(k, _). JStr k) d)
   | _ \<Rightarrow> type_error ''object is not iterable'')"

text \<open>\<open>name in d\<close> for a dict with string keys; an unhashable name raises.\<close>

definition in_dict :: "json \<Rightarrow> obj \<Rightarrow> bool result" where
  "in_dict name d = (case name of
     JStr s \<Rightarrow> Inr (dhas d s)
   | JArr _ \<Rightarrow> type_error (''unhashable type: '' @ repr_str ''list'')
   | JObj _ \<Rightarrow> type_error (''unhashable type: '' @ repr_str ''dict'')
   | _ \<Rightarrow> Inr False)"

definition in_enum :: "json \<Rightarrow> json \<Rightarrow> bool result" where
  "in_enum v e = (case e of
     JArr xs \<Rightarrow> Inr (py_in v xs)
   | JStr s \<Rightarrow> (case v of JStr t \<Rightarrow> Inr (contains t s) | _ \<Rightarrow> type_error ''requires string as left operand'')
   | JObj d \<Rightarrow> in_dict v d
   | _ \<Rightarrow> type_error ''argument is not iterable'')"

text \<open>\<open>if key in nested: ... nested[key]\<close> where \<open>nested\<close> need not be a dict.\<close>

definition lookup_nested :: "json \<Rightarrow> string \<Rightarrow> json option result" where
  "lookup_nested nested key = (case nested of
     JObj d \<Rightarrow> Inr (dget d key)
   | JArr xs \<Rightarrow> (if py_in (JStr key) xs then type_error ''list indices must be integers'' else Inr None)
   | JStr s \<Rightarrow> (if contains key s then type_error ''string indices must be integers'' else Inr None)
   | _ \<Rightarrow> type_error ''argument is not iterable'')"

fun concat_res :: "string list result list \<Rightarrow> string list result" where
  "concat_res [] = Inr []"
| "concat_res (m # ms) = bind_res m (\<lambda>xs. bind_res (concat_res ms) (\<lambda>ys. Inr (xs @ ys)))"

definition or_empty_dict :: "json \<Rightarrow> json" where
  "or_empty_dict v = (if truthy v then v else JObj [])"

function (sequential) validate_value_at :: "json \<Rightarrow> json \<Rightarrow> string \<Rightarrow> string list result" where
  "validate_value_at v (JObj schema) path =
     (if schema = [] then Inr [] else
      bind_res (case dget schema ''enum'' of None \<Rightarrow> Inr True | Some e \<Rightarrow> in_enum v e) (\<lambda>enum_ok.
      if \<not> enum_ok then Inr [path @ '': '' @ py_repr v @ '' not in enum '' @ py_repr (jget schema ''enum'')]
      else let expected = jget schema ''type'' in
      if expected = JNull then Inr []
      else if \<not> type_matches v expected then
        bind_res (describe expected) (\<lambda>d. Inr [path @ '': expected '' @ d @ '', got '' @ json_type v])
      else if expected = JStr ''object'' then
        (case v of
           JObj items \<Rightarrow>
             bind_res (iter_or_empty (jget schema ''required'')) (\<lambda>reqs.
             bind_res (concat_res (map (\<lambda>req. bind_res (in_dict req items) (\<lambda>present.
               Inr (if present then [] else [path @ ''.'' @ py_str req @ '': missing required property'']))) reqs)) (\<lambda>missing.
             let nested = or_empty_dict (jget schema ''properties'');
                 strict = (dget schema ''additionalProperties'' = Some (JBool False)) in
             bind_res (concat_res (map (\<lambda>(key, item).
               bind_res (lookup_nested nested key) (\<lambda>sub. case sub of
                 Some s \<Rightarrow> validate_value_at item s (path @ ''.'' @ key)
               | None \<Rightarrow> Inr (if strict then [path @ ''.'' @ key @ '': unexpected property''] else []))) items)) (\<lambda>rest.
             Inr (missing @ rest))))
         | _ \<Rightarrow> Inr [])
      else if expected = JStr ''array'' then
        (case v of
           JArr items \<Rightarrow>
             (case jget schema ''items'' of
                JObj s \<Rightarrow> (if s = [] then Inr [] else
                  concat_res (map (\<lambda>(i, item).
                    validate_value_at item (JObj s) (path @ ''['' @ str_of_nat i @ '']''))
                    (zip [0..<length items] items)))
              | _ \<Rightarrow> Inr [])
         | _ \<Rightarrow> Inr [])
      else Inr []))"
| "validate_value_at v schema path = Inr []"
  by pat_completeness auto
termination
proof (relation "measure (\<lambda>(v, s, p). size v)", goal_cases)
  case 2
  then show ?case by (auto dest: size_obj_elem)
next
  case 3
  then show ?case by (auto dest: size_arr_zip_elem simp del: json.size)
qed simp

declare validate_value_at.simps [simp del]

definition validate_value :: "json \<Rightarrow> json \<Rightarrow> string \<Rightarrow> string list result" where
  "validate_value schema v path = validate_value_at v schema (if path = [] then ''$'' else path)"

definition validate_tool_input :: "json \<Rightarrow> json \<Rightarrow> string list result" where
  "validate_tool_input schema params = (case schema of
     JObj s \<Rightarrow>
       if s = [] then Inr []
       else if (case dget s ''type'' of None \<Rightarrow> JStr ''object'' | Some t \<Rightarrow> t) \<noteq> JStr ''object'' then Inr []
       else (case params of
         JObj ps \<Rightarrow>
           let properties = (case jget s ''properties'' of JObj d \<Rightarrow> d | _ \<Rightarrow> []);
               additional = (dget s ''additionalProperties'' = Some (JBool True)) in
           bind_res (iter_or_empty (jget s ''required'')) (\<lambda>reqs.
           bind_res (concat_res (map (\<lambda>name. bind_res (in_dict name ps) (\<lambda>present.
             Inr (if present then [] else [''missing required parameter '' @ py_repr name]))) reqs)) (\<lambda>missing.
           bind_res (concat_res (map (\<lambda>(key, v). case dget properties key of
               None \<Rightarrow> Inr (if properties \<noteq> [] \<and> \<not> additional
                 then [''unexpected parameter '' @ repr_str key @ '' (declared: ''
                       @ py_repr (JArr (map JStr (sort (map fst properties)))) @ '')'']
                 else [])
             | Some sub \<Rightarrow> validate_value_at v sub key) ps)) (\<lambda>rest.
           Inr (missing @ rest))))
       | _ \<Rightarrow> Inr [''expected an object of arguments, got '' @ json_type params])
   | _ \<Rightarrow> Inr [])"

section \<open>What the validator raises\<close>

text \<open>A malformed schema makes the validator raise, and what it raises is always a \<open>TypeError\<close>.\<close>

definition type_errors_only :: "'a result \<Rightarrow> bool" where
  "type_errors_only r = (case r of Inl e \<Rightarrow> exn_class e = ''TypeError'' | Inr _ \<Rightarrow> True)"

lemma type_errors_simps [simp]: "type_errors_only (Inr x)" "type_errors_only (type_error m)"
  by (simp_all add: type_errors_only_def type_error_def)

lemma type_errors_bind [intro]:
  "type_errors_only m \<Longrightarrow> (\<And>x. m = Inr x \<Longrightarrow> type_errors_only (f x)) \<Longrightarrow> type_errors_only (bind_res m f)"
  by (cases m) (simp_all add: type_errors_only_def)

lemma type_errors_concat: "(\<And>m. m \<in> set ms \<Longrightarrow> type_errors_only m) \<Longrightarrow> type_errors_only (concat_res ms)"
  by (induction ms) (auto intro!: type_errors_bind)

lemma type_errors_lookups [simp]:
  "type_errors_only (describe e)" "type_errors_only (iter_or_empty v)" "type_errors_only (in_dict v d)"
  "type_errors_only (in_enum v e)" "type_errors_only (lookup_nested v k)"
  by (auto simp: describe_def iter_or_empty_def in_dict_def in_enum_def lookup_nested_def split: json.split)

lemma type_errors_if [intro]:
  "(b \<Longrightarrow> type_errors_only m) \<Longrightarrow> (\<not> b \<Longrightarrow> type_errors_only n) \<Longrightarrow> type_errors_only (if b then m else n)"
  by simp

lemma type_errors_missing:
  "type_errors_only (concat_res (map (\<lambda>req. bind_res (in_dict req items) (\<lambda>present. Inr (f present req))) reqs))"
  by (rule type_errors_concat) (auto intro!: type_errors_bind)

lemma type_errors_members:
  assumes "\<And>key item s p. (key, item) \<in> set items \<Longrightarrow> type_errors_only (validate_value_at item s p)"
  shows "type_errors_only (concat_res (map (\<lambda>(key, item). bind_res (lookup_nested nested key) (\<lambda>sub. case sub of
           Some s \<Rightarrow> validate_value_at item s (path key) | None \<Rightarrow> Inr (g key))) items))"
  by (rule type_errors_concat) (use assms in \<open>auto intro!: type_errors_bind split: option.split\<close>)

lemma type_errors_elements:
  assumes "\<And>item s p. item \<in> set items \<Longrightarrow> type_errors_only (validate_value_at item s p)"
  shows "type_errors_only (concat_res (map (\<lambda>(i, item). validate_value_at item s (path i)) (zip [0..<length items] items)))"
  by (rule type_errors_concat) (use assms in \<open>auto dest!: set_zip_rightD\<close>)

lemma validate_value_at_errors: "type_errors_only (validate_value_at v s path)"
proof (induction v arbitrary: s path rule: measure_induct_rule [where f = size])
  case (less v)
  have obj: "type_errors_only (validate_value_at item s p)" if "v = JObj items" "(key, item) \<in> set items" for items key item s p
    using less size_obj_elem that by blast
  have arr: "type_errors_only (validate_value_at item s p)" if "v = JArr items" "item \<in> set items" for items item s p
    using less size_arr_elem that by blast
  have enum: "type_errors_only (case dget d ''enum'' of None \<Rightarrow> Inr True | Some e \<Rightarrow> in_enum v e)" for d
    by (simp split: option.split)
  show ?case
  proof (cases s)
    case (JObj d)
    show ?thesis
      unfolding JObj
      apply (subst validate_value_at.simps)
      apply (intro type_errors_if type_errors_bind type_errors_simps enum)
      apply (unfold Let_def)
      apply (intro type_errors_if type_errors_bind type_errors_simps type_errors_lookups)
       apply (cases v; simp; intro type_errors_bind type_errors_simps type_errors_lookups type_errors_missing type_errors_members)
       apply (rule obj; simp)
      apply (cases v; cases "jget d ''items''"; simp; intro type_errors_if impI type_errors_simps type_errors_elements)
      apply (rule arr; simp)
      done
  qed (simp_all add: validate_value_at.simps)
qed

lemma validate_tool_input_errors: "validate_tool_input s ps = Inl e \<Longrightarrow> exn_class e = ''TypeError''"
proof -
  have "type_errors_only (validate_tool_input s ps)"
    unfolding validate_tool_input_def
    by (auto simp: Let_def validate_value_at_errors split: json.split option.split intro!: type_errors_bind type_errors_concat)
  then show "validate_tool_input s ps = Inl e \<Longrightarrow> exn_class e = ''TypeError''" by (simp add: type_errors_only_def)
qed

section \<open>What the schema subset means\<close>

text \<open>
  The shapes tool schemas use, and the values that conform to them, stated without reference to
  the order in which the validator collects its messages.
\<close>

lemma jget_size: "jget d k = v \<Longrightarrow> v \<noteq> JNull \<Longrightarrow> size v < size (JObj d)"
  by (auto simp: jget_def dget_def split: option.splits dest!: map_of_SomeD dest: size_obj_elem)

function (sequential) wf_schema :: "json \<Rightarrow> bool" where
  "wf_schema (JObj s) =
     ((case dget s ''enum'' of None \<Rightarrow> True | Some (JArr _) \<Rightarrow> True | _ \<Rightarrow> False) \<and>
      (case jget s ''type'' of JNull \<Rightarrow> True | JStr _ \<Rightarrow> True | JArr es \<Rightarrow> list_all is_str es | _ \<Rightarrow> False) \<and>
      (case jget s ''required'' of JNull \<Rightarrow> True | JArr rs \<Rightarrow> list_all is_str rs | _ \<Rightarrow> False) \<and>
      (case jget s ''properties'' of JNull \<Rightarrow> True | JObj ps \<Rightarrow> list_all (\<lambda>(k, p). wf_schema p) ps | _ \<Rightarrow> False) \<and>
      (case jget s ''items'' of JObj i \<Rightarrow> wf_schema (JObj i) | _ \<Rightarrow> True))"
| "wf_schema _ = True"
  by pat_completeness auto
termination
proof (relation "measure size", goal_cases)
  case (2 s ps z k p)
  then show ?case using jget_size [of s "''properties''" "JObj ps"] size_obj_elem [of k p ps]
    by (auto simp del: json.size)
next
  case (3 s i)
  then show ?case using jget_size [of s "''items''" "JObj i"] by simp
qed simp

definition required_names :: "obj \<Rightarrow> string list" where
  "required_names s = (case jget s ''required'' of JArr rs \<Rightarrow> map py_str rs | _ \<Rightarrow> [])"

definition declared_properties :: "obj \<Rightarrow> obj" where
  "declared_properties s = (case jget s ''properties'' of JObj ps \<Rightarrow> ps | _ \<Rightarrow> [])"

function (sequential) conforms :: "json \<Rightarrow> json \<Rightarrow> bool" where
  "conforms v (JObj s) =
     (s = [] \<or>
      (case dget s ''enum'' of Some (JArr xs) \<Rightarrow> py_in v xs | _ \<Rightarrow> True) \<and>
      (jget s ''type'' = JNull \<or>
       type_matches v (jget s ''type'') \<and>
       (case v of
          JObj items \<Rightarrow> jget s ''type'' = JStr ''object'' \<longrightarrow>
            list_all (\<lambda>r. dhas items r) (required_names s) \<and>
            list_all (\<lambda>(k, u). case dget (declared_properties s) k of
               Some sub \<Rightarrow> conforms u sub
             | None \<Rightarrow> dget s ''additionalProperties'' \<noteq> Some (JBool False)) items
        | JArr items \<Rightarrow> jget s ''type'' = JStr ''array'' \<longrightarrow> list_all (\<lambda>u. conforms u (jget s ''items'')) items
        | _ \<Rightarrow> True)))"
| "conforms v _ = True"
  by pat_completeness auto
termination
  by (relation "measure (\<lambda>(v, s). size v)")
     (auto dest: size_arr_elem size_obj_elem simp del: json.size)

declare wf_schema.simps(1) [simp del] conforms.simps(1) [simp del]

lemma concat_res_Inr:
  assumes "\<And>m. m \<in> set ms \<Longrightarrow> \<exists>es. m = Inr es"
  shows "\<exists>es. concat_res ms = Inr es \<and> (es = [] \<longleftrightarrow> (\<forall>m \<in> set ms. m = Inr []))"
  using assms
proof (induction ms)
  case Nil
  then show ?case by simp
next
  case (Cons m ms)
  obtain a where "m = Inr a" using Cons.prems by fastforce
  moreover obtain es where "concat_res ms = Inr es" "es = [] \<longleftrightarrow> (\<forall>m \<in> set ms. m = Inr [])"
    using Cons by fastforce
  ultimately show ?case by auto
qed

lemma required_iter:
  assumes "wf_schema (JObj s)"
  shows "iter_or_empty (jget s ''required'') = Inr (map JStr (required_names s))"
proof (cases "jget s ''required''")
  case (JArr rs)
  then have "list_all is_str rs"
    using assms by (simp add: wf_schema.simps)
  then have "map JStr (map py_str rs) = rs"
    by (induction rs) (auto elim!: is_str.elims)
  with JArr show ?thesis
    by (auto simp: iter_or_empty_def required_names_def)
qed (use assms in \<open>simp_all add: wf_schema.simps iter_or_empty_def required_names_def\<close>)

lemma missing_check:
  "\<exists>es. concat_res (map (\<lambda>req. bind_res (in_dict req items) (\<lambda>present. Inr (if present then [] else [msg req])))
      (map JStr names)) = Inr es \<and> (es = [] \<longleftrightarrow> list_all (\<lambda>r. dhas items r) names)"
proof -
  let ?f = "\<lambda>req. bind_res (in_dict req items) (\<lambda>present. Inr (if present then [] else [msg req]))"
  obtain es where "concat_res (map ?f (map JStr names)) = Inr es"
    "es = [] \<longleftrightarrow> (\<forall>m \<in> set (map ?f (map JStr names)). m = Inr [])"
    using concat_res_Inr [of "map ?f (map JStr names)"] by (auto simp: in_dict_def)
  then show ?thesis by (auto simp: in_dict_def list_all_iff)
qed

lemma wf_property:
  assumes "wf_schema (JObj s)" "dget (declared_properties s) k = Some sub"
  shows "wf_schema sub"
proof (cases "jget s ''properties''")
  case (JObj ps)
  then have "list_all (\<lambda>(k, p). wf_schema p) ps"
    using assms(1) by (simp add: wf_schema.simps)
  moreover have "(k, sub) \<in> set ps"
    using assms(2) JObj by (simp add: declared_properties_def dget_def map_of_SomeD)
  ultimately show ?thesis by (auto simp: list_all_iff)
qed (use assms in \<open>simp_all add: declared_properties_def\<close>)

lemma nested_properties:
  assumes "wf_schema (JObj s)"
  shows "lookup_nested (or_empty_dict (jget s ''properties'')) k = Inr (dget (declared_properties s) k)"
  using assms
  by (cases "jget s ''properties''")
     (auto simp: wf_schema.simps lookup_nested_def or_empty_dict_def declared_properties_def)

lemma concat_res_map:
  assumes "\<And>x. x \<in> set xs \<Longrightarrow> \<exists>es. f x = Inr es \<and> (es = [] \<longleftrightarrow> P x)"
  shows "\<exists>es. concat_res (map f xs) = Inr es \<and> (es = [] \<longleftrightarrow> list_all P xs)"
proof -
  obtain es where "concat_res (map f xs) = Inr es" "es = [] \<longleftrightarrow> (\<forall>m \<in> set (map f xs). m = Inr [])"
    using concat_res_Inr [of "map f xs"] assms by fastforce
  moreover have "(\<forall>m \<in> set (map f xs). m = Inr []) \<longleftrightarrow> list_all P xs"
    using assms by (fastforce simp: list_all_iff)
  ultimately show ?thesis by blast
qed

lemma properties_check:
  assumes "wf_schema (JObj s)"
    and IH: "\<And>u sub p. u \<in> snd ` set items \<Longrightarrow> wf_schema sub \<Longrightarrow>
      \<exists>es. validate_value_at u sub p = Inr es \<and> (es = [] \<longleftrightarrow> conforms u sub)"
  shows "\<exists>es. concat_res (map (\<lambda>(key, item).
            bind_res (lookup_nested (or_empty_dict (jget s ''properties'')) key) (\<lambda>sub. case sub of
                 Some s \<Rightarrow> validate_value_at item s (path @ ''.'' @ key)
               | None \<Rightarrow> Inr (if strict then [path @ ''.'' @ key @ '': unexpected property''] else []))) items) = Inr es
       \<and> (es = [] \<longleftrightarrow> list_all (\<lambda>(k, u). case dget (declared_properties s) k of
               Some sub \<Rightarrow> conforms u sub | None \<Rightarrow> \<not> strict) items)"
  by (rule concat_res_map)
     (use IH wf_property [OF assms(1)] in \<open>force simp: nested_properties [OF assms(1)] split: option.split\<close>)

lemma elements_check:
  assumes "\<And>u p. u \<in> set items \<Longrightarrow> \<exists>es. validate_value_at u s p = Inr es \<and> (es = [] \<longleftrightarrow> conforms u s)"
  shows "\<exists>es. concat_res (map (\<lambda>(i, item). validate_value_at item s (path @ ''['' @ str_of_nat i @ '']''))
            (zip [0..<length items] items)) = Inr es
       \<and> (es = [] \<longleftrightarrow> list_all (\<lambda>u. conforms u s) items)"
proof -
  have "\<exists>es. concat_res (map (\<lambda>(i, item). validate_value_at item s (path @ ''['' @ str_of_nat i @ '']''))
            (zip [0..<length items] items)) = Inr es
       \<and> (es = [] \<longleftrightarrow> list_all (\<lambda>(i, u). conforms u s) (zip [0..<length items] items))"
    by (rule concat_res_map) (use assms in \<open>auto dest!: set_zip_rightD\<close>)
  moreover have "list_all (\<lambda>(i, u). conforms u s) (zip [0..<length items] items) \<longleftrightarrow> list_all (\<lambda>u. conforms u s) items"
    by (auto simp: list_all_length)
  ultimately show ?thesis by simp
qed

lemma validate_object_case:
  assumes "wf_schema (JObj s)" "jget s ''type'' = JStr ''object''"
    and enum: "(case dget s ''enum'' of None \<Rightarrow> Inr True | Some e \<Rightarrow> in_enum (JObj items) e) = Inr True"
    and IH: "\<And>u sub p. u \<in> snd ` set items \<Longrightarrow> wf_schema sub \<Longrightarrow>
      \<exists>es. validate_value_at u sub p = Inr es \<and> (es = [] \<longleftrightarrow> conforms u sub)"
  shows "\<exists>es. validate_value_at (JObj items) (JObj s) path = Inr es \<and>
     (es = [] \<longleftrightarrow> list_all (\<lambda>r. dhas items r) (required_names s) \<and>
            list_all (\<lambda>(k, u). case dget (declared_properties s) k of
               Some sub \<Rightarrow> conforms u sub
             | None \<Rightarrow> dget s ''additionalProperties'' \<noteq> Some (JBool False)) items)"
proof -
  have "s \<noteq> []" using assms(2) by auto
  with assms(2) enum
    missing_check [of items "\<lambda>req. path @ ''.'' @ py_str req @ '': missing required property''" "required_names s"]
    properties_check [where items = items and path = path and strict = "dget s ''additionalProperties'' = Some (JBool False)",
      OF assms(1) IH]
  show ?thesis
    by (auto simp: validate_value_at.simps required_iter [OF assms(1)] Let_def)
qed

lemma enum_total:
  assumes "wf_schema (JObj s)"
  shows "(case dget s ''enum'' of None \<Rightarrow> Inr True | Some e \<Rightarrow> in_enum v e)
       = Inr (case dget s ''enum'' of Some (JArr xs) \<Rightarrow> py_in v xs | _ \<Rightarrow> True)"
  using assms by (cases "dget s ''enum''") (auto simp: wf_schema.simps in_enum_def split: json.splits)

lemma describe_total:
  assumes "wf_schema (JObj s)" "jget s ''type'' \<noteq> JNull"
  shows "\<exists>d. describe (jget s ''type'') = Inr d"
  using assms by (cases "jget s ''type''") (auto simp: wf_schema.simps describe_def)

lemma validate_value_at_correct:
  assumes "wf_schema s"
  shows "\<exists>es. validate_value_at v s path = Inr es \<and> (es = [] \<longleftrightarrow> conforms v s)"
  using assms
proof (induction v arbitrary: s path rule: measure_induct_rule [where f = size])
  case (less v)
  show ?case
  proof (cases s)
    case (JObj d)
    note wf = less.prems [unfolded JObj]
    note unfolds = validate_value_at.simps(1) conforms.simps(1) enum_total [OF wf]
    let ?enum = "case dget d ''enum'' of Some (JArr xs) \<Rightarrow> py_in v xs | _ \<Rightarrow> True"
    consider (stop) "d = [] \<or> \<not> ?enum \<or> jget d ''type'' = JNull \<or> \<not> type_matches v (jget d ''type'')"
      | (obj) "?enum" "d \<noteq> []" "jget d ''type'' = JStr ''object''" "type_matches v (JStr ''object'')"
      | (arr) "?enum" "d \<noteq> []" "jget d ''type'' = JStr ''array''" "type_matches v (JStr ''array'')"
      | (atom) "?enum" "d \<noteq> []" "jget d ''type'' \<noteq> JNull" "type_matches v (jget d ''type'')"
          "jget d ''type'' \<noteq> JStr ''object''" "jget d ''type'' \<noteq> JStr ''array''"
      by fastforce
    then show ?thesis
    proof cases
      case stop
      then show ?thesis using JObj describe_total [OF wf] by (auto simp: unfolds Let_def)
    next
      case obj
      then obtain items where v: "v = JObj items" by (auto elim: is_dict.elims)
      have enum: "(case dget d ''enum'' of None \<Rightarrow> Inr True | Some e \<Rightarrow> in_enum (JObj items) e) = Inr True"
        using obj(1) [unfolded v] enum_total [OF wf, of "JObj items"] by simp
      have IH: "\<exists>es. validate_value_at u sub p = Inr es \<and> (es = [] \<longleftrightarrow> conforms u sub)"
        if "u \<in> snd ` set items" "wf_schema sub" for u sub p
        using less.IH [of u sub p] that v by (auto dest: size_obj_elem)
      show ?thesis
        using validate_object_case [where items = items and path = path, OF wf obj(3) enum IH] obj(2-4) obj(1) [unfolded v] v JObj
        by (simp add: conforms.simps)
    next
      case arr
      then obtain items where v: "v = JArr items" by (auto elim: is_list.elims)
      have "wf_schema (jget d ''items'')"
        using wf by (cases "jget d ''items''") (auto simp: wf_schema.simps)
      then have "\<exists>es. validate_value_at u (jget d ''items'') p = Inr es \<and>
          (es = [] \<longleftrightarrow> conforms u (jget d ''items''))" if "u \<in> set items" for u p
        using less.IH [of u "jget d ''items''" p] size_arr_elem [OF that] v by simp
      from elements_check [where items = items and path = path, OF this] show ?thesis
        using arr(2-4) arr(1) [unfolded v] v JObj
        by (cases "jget d ''items''") (auto simp: unfolds list_all_iff conforms.simps(1) [of _ "[]"])
    next
      case atom
      then show ?thesis using JObj by (auto simp: unfolds Let_def split: json.splits)
    qed
  qed (simp_all add: validate_value_at.simps)
qed

section \<open>Tool inputs\<close>

text \<open>
  The arguments a closed object schema admits: every required name is there, every declared
  argument conforms to its schema, and an undeclared one is only let through when the schema
  declares no properties at all or says \<open>additionalProperties: true\<close>.
\<close>

definition admits_arguments :: "obj \<Rightarrow> obj \<Rightarrow> bool" where
  "admits_arguments s ps =
     (list_all (\<lambda>r. dhas ps r) (required_names s) \<and>
      list_all (\<lambda>(k, v). case dget (declared_properties s) k of
         Some sub \<Rightarrow> conforms v sub
       | None \<Rightarrow> declared_properties s = [] \<or> dget s ''additionalProperties'' = Some (JBool True)) ps)"

lemma arguments_check:
  assumes "wf_schema (JObj s)"
  shows "\<exists>es. concat_res (map (\<lambda>(key, v). case dget (declared_properties s) key of
               None \<Rightarrow> Inr (if declared_properties s \<noteq> [] \<and> \<not> open_world then [msg key] else [])
             | Some sub \<Rightarrow> validate_value_at v sub key) ps) = Inr es
       \<and> (es = [] \<longleftrightarrow> list_all (\<lambda>(k, v). case dget (declared_properties s) k of
               Some sub \<Rightarrow> conforms v sub | None \<Rightarrow> declared_properties s = [] \<or> open_world) ps)"
  by (rule concat_res_map)
     (use wf_property [OF assms] validate_value_at_correct in \<open>auto split: option.split\<close>)

lemma validator_correct:
  assumes "wf_schema (JObj s)" "s \<noteq> []" "dget s ''type'' \<in> {None, Some (JStr ''object'')}"
  shows "\<exists>problems. validate_tool_input (JObj s) (JObj ps) = Inr problems
       \<and> (problems = [] \<longleftrightarrow> admits_arguments s ps)"
proof -
  obtain missing where m:
    "concat_res (map (\<lambda>name. bind_res (in_dict name ps) (\<lambda>present.
       Inr (if present then [] else [''missing required parameter '' @ py_repr name]))) (map JStr (required_names s))) = Inr missing"
    "missing = [] \<longleftrightarrow> list_all (\<lambda>r. dhas ps r) (required_names s)"
    using missing_check [where items = ps and names = "required_names s"
        and msg = "\<lambda>name. ''missing required parameter '' @ py_repr name"] by blast
  obtain rest where r:
    "concat_res (map (\<lambda>(key, v). case dget (declared_properties s) key of
         None \<Rightarrow> Inr (if declared_properties s \<noteq> [] \<and> \<not> (dget s ''additionalProperties'' = Some (JBool True))
           then [''unexpected parameter '' @ repr_str key @ '' (declared: ''
                 @ py_repr (JArr (map JStr (sort (map fst (declared_properties s))))) @ '')''] else [])
       | Some sub \<Rightarrow> validate_value_at v sub key) ps) = Inr rest"
    "rest = [] \<longleftrightarrow> list_all (\<lambda>(k, v). case dget (declared_properties s) k of
         Some sub \<Rightarrow> conforms v sub
       | None \<Rightarrow> declared_properties s = [] \<or> dget s ''additionalProperties'' = Some (JBool True)) ps"
    using arguments_check [OF assms(1), where ps = ps and open_world = "dget s ''additionalProperties'' = Some (JBool True)"
        and msg = "\<lambda>key. ''unexpected parameter '' @ repr_str key @ '' (declared: ''
                 @ py_repr (JArr (map JStr (sort (map fst (declared_properties s))))) @ '')''"] by blast
  have "validate_tool_input (JObj s) (JObj ps) = Inr (missing @ rest)"
    using assms m(1) r(1)
    by (auto simp: validate_tool_input_def required_iter Let_def declared_properties_def [symmetric])
  with m(2) r(2) show ?thesis by (auto simp: admits_arguments_def)
qed

section \<open>The schema language\<close>

text \<open>
  What the keywords of JSON Schema mean, independently of the validator: a value satisfies a schema when it
  satisfies each keyword of it, \<open>enum\<close> by Python's equality; the keywords of objects and of arrays say nothing
  of other values. \<open>type_names\<close> are the types of a value: an integer is a number too, a truth value is neither.
\<close>

fun type_names :: "json \<Rightarrow> string list" where
  "type_names JNull = [''null'']"
| "type_names (JBool _) = [''boolean'']"
| "type_names (JInt _) = [''integer'', ''number'']"
| "type_names (JFloat _ _) = [''number'']"
| "type_names (JStr _) = [''string'']"
| "type_names (JArr _) = [''array'']"
| "type_names (JObj _) = [''object'']"

definition json_types :: "string list" where
  "json_types = [''null'', ''boolean'', ''integer'', ''number'', ''string'', ''array'', ''object'']"

function (sequential) satisfies :: "json \<Rightarrow> json \<Rightarrow> bool" where
  "satisfies v (JObj s) =
     ((case dget s ''enum'' of Some (JArr xs) \<Rightarrow> py_in v xs | _ \<Rightarrow> True) \<and>
      (case jget s ''type'' of
         JStr t \<Rightarrow> t \<in> set (type_names v)
       | JArr ts \<Rightarrow> list_ex (\<lambda>t. JStr t \<in> set ts) (type_names v)
       | _ \<Rightarrow> True) \<and>
      (case v of
         JObj items \<Rightarrow>
           list_all (\<lambda>r. dhas items r) (required_names s) \<and>
           list_all (\<lambda>(k, u). case dget (declared_properties s) k of
              Some sub \<Rightarrow> satisfies u sub
            | None \<Rightarrow> dget s ''additionalProperties'' \<noteq> Some (JBool False)) items
       | JArr items \<Rightarrow> list_all (\<lambda>u. satisfies u (jget s ''items'')) items
       | _ \<Rightarrow> True))"
| "satisfies v _ = True"
  by pat_completeness auto
termination
  by (relation "measure (\<lambda>(v, s). size v)")
     (auto dest: size_arr_elem size_obj_elem simp del: json.size)

text \<open>
  The schemas of the documented subset: only the seven type names, and a schema with keywords of objects
  (of arrays) declares \<open>object\<close> (\<open>array\<close>) as its type, as do the schemas nested in it.
\<close>

definition type_declared :: "json \<Rightarrow> bool" where
  "type_declared e = (case e of JNull \<Rightarrow> True | JStr t \<Rightarrow> t \<in> set json_types
     | JArr ts \<Rightarrow> list_all (\<lambda>t. t \<in> JStr ` set json_types) ts | _ \<Rightarrow> False)"

function (sequential) plain_schema :: "json \<Rightarrow> bool" where
  "plain_schema (JObj s) =
     (type_declared (jget s ''type'') \<and>
      (jget s ''type'' \<noteq> JStr ''object'' \<longrightarrow> required_names s = [] \<and> declared_properties s = []
         \<and> dget s ''additionalProperties'' \<noteq> Some (JBool False)) \<and>
      (jget s ''type'' \<noteq> JStr ''array'' \<longrightarrow> \<not> is_dict (jget s ''items'')) \<and>
      (case jget s ''properties'' of JObj ps \<Rightarrow> list_all (\<lambda>(k, p). plain_schema p) ps | _ \<Rightarrow> True) \<and>
      (case jget s ''items'' of JObj i \<Rightarrow> plain_schema (JObj i) | _ \<Rightarrow> True))"
| "plain_schema _ = True"
  by pat_completeness auto
termination
proof (relation "measure size", goal_cases)
  case (2 s ps z k p)
  then show ?case using jget_size [of s "''properties''" "JObj ps"] size_obj_elem [of k p ps]
    by (auto simp del: json.size)
next
  case (3 s i)
  then show ?case using jget_size [of s "''items''" "JObj i"] by simp
qed simp

declare satisfies.simps(1) [simp del] plain_schema.simps(1) [simp del]

lemma type_matches_name: "t \<in> set json_types \<Longrightarrow> type_matches v (JStr t) \<longleftrightarrow> t \<in> set (type_names v)"
  by (cases v) (auto simp: json_types_def)

lemma type_matches_declared:
  "type_declared e \<Longrightarrow> e \<noteq> JNull \<Longrightarrow> type_matches v e \<longleftrightarrow> (case e of JStr t \<Rightarrow> t \<in> set (type_names v)
     | JArr ts \<Rightarrow> list_ex (\<lambda>t. JStr t \<in> set ts) (type_names v) | _ \<Rightarrow> True)"
proof (cases e)
  case (JArr ts)
  assume "type_declared e"
  then have names: "\<And>x. x \<in> set ts \<Longrightarrow> \<exists>t. x = JStr t \<and> (type_matches v (JStr t) \<longleftrightarrow> t \<in> set (type_names v))"
    using JArr type_matches_name [of _ v] by (auto simp: type_declared_def list_all_iff simp del: type_matches.simps)
  have "type_matches v e \<longleftrightarrow> (\<exists>x \<in> set ts. type_matches v x)" using JArr by (simp add: list_ex_iff)
  also have "\<dots> \<longleftrightarrow> (\<exists>t \<in> set (type_names v). JStr t \<in> set ts)" 
  proof (intro iffI; elim bexE)
    fix x
    assume "x \<in> set ts" "type_matches v x"
    then show "\<exists>t \<in> set (type_names v). JStr t \<in> set ts" using names [of x] by auto
  next
    fix t
    assume "t \<in> set (type_names v)" "JStr t \<in> set ts"
    then show "\<exists>x \<in> set ts. type_matches v x" using names [of "JStr t"] by blast
  qed
  finally show ?thesis using JArr by (simp add: list_ex_iff)
qed (auto simp: type_declared_def type_matches_name simp del: type_matches.simps(2))

lemma plain_property:
  assumes "plain_schema (JObj s)" "dget (declared_properties s) k = Some sub"
  shows "plain_schema sub"
  using assms by (cases "jget s ''properties''")
    (auto simp: plain_schema.simps(1) declared_properties_def dget_def list_all_iff dest!: map_of_SomeD)

lemma plain_items: "plain_schema (JObj s) \<Longrightarrow> plain_schema (jget s ''items'')"
  by (cases "jget s ''items''") (simp_all add: plain_schema.simps(1) [of s])

lemma satisfies_untyped: "\<not> is_dict s \<Longrightarrow> satisfies v s"
  by (cases s) simp_all

lemma conforms_satisfies: "plain_schema s \<Longrightarrow> conforms v s \<longleftrightarrow> satisfies v s"
proof (induction v arbitrary: s rule: measure_induct_rule [where f = size])
  case (less v)
  show ?case
  proof (cases s)
    case (JObj d)
    note plain = less.prems [unfolded JObj]
    have typed: "type_declared (jget d ''type'')" using plain by (simp add: plain_schema.simps(1))
    have untyped: "required_names d = []" "declared_properties d = []" "dget d ''additionalProperties'' \<noteq> Some (JBool False)"
      if "jget d ''type'' \<noteq> JStr ''object''" using plain that by (simp_all add: plain_schema.simps(1))
    have items: "satisfies u (jget d ''items'')" if "jget d ''type'' \<noteq> JStr ''array''" for u
      using plain that by (simp add: plain_schema.simps(1) satisfies_untyped)
    have member: "conforms u sub \<longleftrightarrow> satisfies u sub"
      if "v = JObj xs" "(k, u) \<in> set xs" "dget (declared_properties d) k = Some sub" for xs k u sub
      using less.IH [of u sub] plain_property [OF plain that(3)] size_obj_elem [OF that(2)] that(1) by simp
    have element: "conforms u (jget d ''items'') \<longleftrightarrow> satisfies u (jget d ''items'')" if "v = JArr xs" "u \<in> set xs" for xs u
      using less.IH [of u "jget d ''items''"] plain_items [OF plain] size_arr_elem [OF that(2)] that(1) by simp
    show ?thesis
    proof (cases "jget d ''type'' = JNull")
      case True
      then show ?thesis
        using JObj untyped items by (cases v) (auto simp: conforms.simps satisfies.simps list_all_iff)
    next
      case False
      then have "d \<noteq> []" by auto
      note type = type_matches_declared [OF typed False]
      have objs: "(\<forall>(k, u) \<in> set xs. case dget (declared_properties d) k of Some sub \<Rightarrow> conforms u sub | None \<Rightarrow> b)
          = (\<forall>(k, u) \<in> set xs. case dget (declared_properties d) k of Some sub \<Rightarrow> satisfies u sub | None \<Rightarrow> b)" if "v = JObj xs" for xs b
        using member [OF that] by (fastforce split: option.splits)
      show ?thesis
        using JObj False \<open>d \<noteq> []\<close> untyped items element objs
        by (cases v; cases "jget d ''type'' = JStr ''object''"; cases "jget d ''type'' = JStr ''array''")
           (auto simp: conforms.simps satisfies.simps type list_all_iff)
    qed
  qed simp_all
qed

text \<open>
  The arguments an object schema accepts: the meaning of its keywords, except that an undeclared argument is
  refused as soon as the schema declares any, unless it says \<open>additionalProperties: true\<close>.
\<close>

definition accepts_arguments :: "obj \<Rightarrow> obj \<Rightarrow> bool" where
  "accepts_arguments s ps =
     (list_all (\<lambda>r. dhas ps r) (required_names s) \<and>
      list_all (\<lambda>(k, v). case dget (declared_properties s) k of
         Some sub \<Rightarrow> satisfies v sub
       | None \<Rightarrow> declared_properties s = [] \<or> dget s ''additionalProperties'' = Some (JBool True)) ps)"

lemma admits_accepts:
  assumes "\<forall>(k, p) \<in> set (declared_properties s). plain_schema p"
  shows "admits_arguments s ps \<longleftrightarrow> accepts_arguments s ps"
proof -
  have "conforms v sub \<longleftrightarrow> satisfies v sub" if "dget (declared_properties s) k = Some sub" for k v sub
    using that assms conforms_satisfies by (fastforce simp: dget_def dest!: map_of_SomeD)
  then show ?thesis by (fastforce simp: admits_arguments_def accepts_arguments_def list_all_iff split: option.splits)
qed

text \<open>
  C36: take a non-empty schema whose root has the type \<open>object\<close> or none, whose keywords have the shapes the
  documented subset gives them (\<open>wf_schema\<close>: \<open>enum\<close>, \<open>required\<close> and union types are lists, names are strings,
  \<open>properties\<close> is an object), and whose nested schemas use the seven type names and declare the type \<open>object\<close>
  (\<open>array\<close>) where they have keywords of objects (arrays). On such a schema the validator never raises, and it
  reports no problem exactly for the arguments that satisfy the schema by the meaning of its keywords,
  undeclared arguments being refused unless \<open>additionalProperties\<close> is true or nothing is declared. Other root
  types are not checked by the code, nor are the keywords of objects and arrays under a nested schema without
  a type or with a union of types.
\<close>

theorem validate_tool_input_exact:
  assumes "wf_schema (JObj s)" "s \<noteq> []" "dget s ''type'' \<in> {None, Some (JStr ''object'')}"
    "\<forall>(k, p) \<in> set (declared_properties s). plain_schema p"
  shows "\<exists>problems. validate_tool_input (JObj s) (JObj ps) = Inr problems
       \<and> (problems = [] \<longleftrightarrow> accepts_arguments s ps)"
  using validator_correct [OF assms(1-3)] admits_accepts [OF assms(4)] by simp

theorem validate_tool_input_exact_witness:
  "\<exists>problems. validate_tool_input
      (JObj [(''properties'', JObj [(''n'', JObj [(''type'', JStr ''integer'')])]), (''required'', JArr [JStr ''n''])])
      (JObj [(''n'', JBool True)]) = Inr problems \<and> problems \<noteq> []"
proof -
  let ?s = "[(''properties'', JObj [(''n'', JObj [(''type'', JStr ''integer'')])]), (''required'', JArr [JStr ''n''])]"
  have "wf_schema (JObj ?s)"
    by (simp add: wf_schema.simps)
  moreover have "\<forall>(k, p) \<in> set (declared_properties ?s). plain_schema p"
    by (simp add: declared_properties_def required_names_def plain_schema.simps type_declared_def json_types_def)
  moreover have "\<not> accepts_arguments ?s [(''n'', JBool True)]"
    by (simp add: accepts_arguments_def required_names_def declared_properties_def satisfies.simps)
  ultimately show ?thesis
    using validate_tool_input_exact [of ?s "[(''n'', JBool True)]"] by auto
qed

text \<open>The gap the last sentence names: under a union of types the required names are not checked.\<close>

lemma union_type_unchecked:
  "conforms (JObj []) (JObj [(''type'', JArr [JStr ''object'', JStr ''null'']), (''required'', JArr [JStr ''n''])])
   \<and> \<not> satisfies (JObj []) (JObj [(''type'', JArr [JStr ''object'', JStr ''null'']), (''required'', JArr [JStr ''n''])])"
  by (simp add: conforms.simps satisfies.simps required_names_def dhas_def)

end
