(* ===== verification/Json_Text.thy ===== *)
theory Json_Text
  imports Json_Value "HOL-Library.List_Lexorder" "HOL-Library.Char_ord"
begin

text \<open>
  The text form of JSON values, as \<open>json.dumps\<close> prints them and \<open>json.loads\<close> reads them back.
  The printer takes the options the sources use (\<open>separators\<close>, \<open>sort_keys\<close>, \<open>ensure_ascii\<close>).
  The reader is a recursive descent with a bound on the number of nested calls; the bound is the
  length of the text plus one, and the round trip shows that it is never reached on printed
  text. \<open>float_lit\<close> stands for the conversion \<open>float(text)\<close>: it gives the value and its \<open>repr\<close>.
\<close>

section \<open>Printing\<close>

record dump_opts =
  item_sep :: string
  key_sep :: string
  ensure_ascii :: bool

definition escape_char :: "bool \<Rightarrow> char \<Rightarrow> string" where
  "escape_char asc c =
     (if c = DQ \<or> c = BSL then [BSL, c]
      else if c = LF then [BSL, CHR ''n''] else if c = CR then [BSL, CHR ''r''] else if c = TAB then [BSL, CHR ''t'']
      else if c = CHR 0x08 then [BSL, CHR ''b''] else if c = CHR 0x0C then [BSL, CHR ''f'']
      else if code_of c < 32 \<or> (asc \<and> 127 \<le> code_of c) then BSL # CHR ''u'' # CHR ''0'' # CHR ''0'' # hex2 c
      else [c])"

definition json_string :: "bool \<Rightarrow> string \<Rightarrow> string" where
  "json_string asc s = DQ # concat (map (escape_char asc) s) @ [DQ]"

fun print_json :: "dump_opts \<Rightarrow> json \<Rightarrow> string" where
  "print_json opts JNull = ''null''"
| "print_json opts (JBool b) = (if b then ''true'' else ''false'')"
| "print_json opts (JInt i) = str_of_int i"
| "print_json opts (JFloat r s) = s"
| "print_json opts (JStr s) = json_string (ensure_ascii opts) s"
| "print_json opts (JArr xs) = ''['' @ py_join (item_sep opts) (map (print_json opts) xs) @ '']''"
| "print_json opts (JObj d) = ''{'' @ py_join (item_sep opts)
     (map (\<lambda>(k, v). json_string (ensure_ascii opts) k @ key_sep opts @ print_json opts v) d) @ ''}''"

fun sort_json :: "json \<Rightarrow> json" where
  "sort_json (JArr xs) = JArr (map sort_json xs)"
| "sort_json (JObj d) = JObj (sort_key fst (map (\<lambda>(k, v). (k, sort_json v)) d))"
| "sort_json v = v"

definition spaced :: "bool \<Rightarrow> dump_opts" where
  "spaced asc = \<lparr>item_sep = '', '', key_sep = '': '', ensure_ascii = asc\<rparr>"

definition compact :: dump_opts where
  "compact = \<lparr>item_sep = '','', key_sep = '':'', ensure_ascii = True\<rparr>"

text \<open>The calls of the sources: plain, with \<open>ensure_ascii=False\<close>, and with sorted keys.\<close>

definition json_dumps :: "json \<Rightarrow> string" where
  "json_dumps v = print_json (spaced True) v"

definition json_dumps_utf8 :: "json \<Rightarrow> string" where
  "json_dumps_utf8 v = print_json (spaced False) v"

definition json_dumps_sorted :: "json \<Rightarrow> string" where
  "json_dumps_sorted v = print_json (spaced True) (sort_json v)"

definition json_dumps_key :: "json \<Rightarrow> string" where
  "json_dumps_key v = print_json compact (sort_json v)"

section \<open>Reading\<close>

definition is_digit :: "char \<Rightarrow> bool" where
  "is_digit c = (48 \<le> code_of c \<and> code_of c \<le> 57)"

definition digit_val :: "char \<Rightarrow> nat" where
  "digit_val c = code_of c - 48"

definition hex_val :: "char \<Rightarrow> nat option" where
  "hex_val c = (let n = code_of c in
     if 48 \<le> n \<and> n \<le> 57 then Some (n - 48)
     else if 97 \<le> n \<and> n \<le> 102 then Some (n - 87)
     else if 65 \<le> n \<and> n \<le> 70 then Some (n - 55) else None)"

definition hex4 :: "char \<Rightarrow> char \<Rightarrow> char \<Rightarrow> char \<Rightarrow> char option" where
  "hex4 a b c d = (case (hex_val a, hex_val b, hex_val c, hex_val d) of
     (Some w, Some x, Some y, Some z) \<Rightarrow>
        Some (if w = 0 \<and> x = 0 then char_of (16 * y + z) else CHR 0x1A)
   | _ \<Rightarrow> None)"

definition unescape :: "char \<Rightarrow> char option" where
  "unescape e = map_of [(DQ, DQ), (BSL, BSL), (CHR ''/'', CHR ''/''), (CHR ''b'', CHR 0x08), (CHR ''f'', CHR 0x0C),
     (CHR ''n'', LF), (CHR ''r'', CR), (CHR ''t'', TAB)] e"

definition push_char :: "char \<Rightarrow> (string \<times> string) option \<Rightarrow> (string \<times> string) option" where
  "push_char c r = map_option (\<lambda>(s, rest). (c # s, rest)) r"

fun parse_str :: "string \<Rightarrow> (string \<times> string) option" where
  "parse_str [] = None"
| "parse_str (c # cs) =
     (if c = DQ then Some ([], cs)
      else if c = BSL then
        (case cs of
           [] \<Rightarrow> None
         | e # r \<Rightarrow>
             if e = CHR ''u'' then
               (case r of
                  h1 # h2 # h3 # h4 # r' \<Rightarrow> (case hex4 h1 h2 h3 h4 of None \<Rightarrow> None | Some x \<Rightarrow> push_char x (parse_str r'))
                | _ \<Rightarrow> None)
             else (case unescape e of None \<Rightarrow> None | Some x \<Rightarrow> push_char x (parse_str r)))
      else if code_of c < 32 then None else push_char c (parse_str cs))"

definition scan_nat :: "string \<Rightarrow> (string \<times> string) option" where
  "scan_nat s = (case s of
     [] \<Rightarrow> None
   | c # cs \<Rightarrow> if c = CHR ''0'' then Some (''0'', cs)
             else if is_digit c then Some (takeWhile is_digit s, dropWhile is_digit s) else None)"

definition scan_int :: "string \<Rightarrow> (string \<times> string) option" where
  "scan_int s = (case s of
     c # cs \<Rightarrow> if c = CHR ''-'' then map_option (\<lambda>(d, r). (c # d, r)) (scan_nat cs) else scan_nat s
   | [] \<Rightarrow> None)"

definition scan_frac :: "string \<Rightarrow> string \<times> string" where
  "scan_frac s = (case s of
     p # c # cs \<Rightarrow> if p = CHR ''.'' \<and> is_digit c then (p # takeWhile is_digit (c # cs), dropWhile is_digit (c # cs)) else ([], s)
   | _ \<Rightarrow> ([], s))"

definition scan_exp :: "string \<Rightarrow> string \<times> string" where
  "scan_exp s = (case s of
     [] \<Rightarrow> ([], s)
   | e # r \<Rightarrow>
       if e \<notin> set ''eE'' then ([], s)
       else let sg = (if r \<noteq> [] \<and> hd r \<in> set ''+-'' then [hd r] else []); ds = drop (length sg) r
            in if ds \<noteq> [] \<and> is_digit (hd ds) then (e # sg @ takeWhile is_digit ds, dropWhile is_digit ds) else ([], s))"

definition nat_of_digits :: "string \<Rightarrow> nat" where
  "nat_of_digits s = foldl (\<lambda>n c. 10 * n + digit_val c) 0 s"

definition int_of_text :: "string \<Rightarrow> int" where
  "int_of_text s = (case s of
     c # cs \<Rightarrow> if c = CHR ''-'' then - int (nat_of_digits cs) else int (nat_of_digits s)
   | [] \<Rightarrow> 0)"

type_synonym float_conv = "string \<Rightarrow> rat \<times> string"

definition scan_number :: "float_conv \<Rightarrow> string \<Rightarrow> (json \<times> string) option" where
  "scan_number float_lit s = (case scan_int s of
     None \<Rightarrow> None
   | Some (ip, r) \<Rightarrow>
       (let (fp, r') = scan_frac r; (ep, r'') = scan_exp r' in
        if fp = [] \<and> ep = [] then Some (JInt (int_of_text ip), r'')
        else (let (x, t) = float_lit (ip @ fp @ ep) in Some (JFloat x t, r''))))"

definition skip_ws :: "string \<Rightarrow> string" where
  "skip_ws s = dropWhile (\<lambda>c. c \<in> {CHR '' '', TAB, LF, CR}) s"

definition expect :: "char \<Rightarrow> string \<Rightarrow> string option" where
  "expect c s = (case s of [] \<Rightarrow> None | d # r \<Rightarrow> if c = d then Some r else None)"

definition parse_atom :: "float_conv \<Rightarrow> string \<Rightarrow> (json \<times> string) option" where
  "parse_atom float_lit s =
     (if startswith ''null'' s then Some (JNull, drop 4 s)
      else if startswith ''true'' s then Some (JBool True, drop 4 s)
      else if startswith ''false'' s then Some (JBool False, drop 5 s)
      else scan_number float_lit s)"

fun parse_val :: "float_conv \<Rightarrow> nat \<Rightarrow> string \<Rightarrow> (json \<times> string) option"
and parse_items :: "float_conv \<Rightarrow> nat \<Rightarrow> string \<Rightarrow> (json list \<times> string) option"
and parse_pairs :: "float_conv \<Rightarrow> nat \<Rightarrow> string \<Rightarrow> (obj \<times> string) option" where
  "parse_val fl 0 s = None"
| "parse_val fl (Suc n) s =
     (case s of
        [] \<Rightarrow> None
      | c # cs \<Rightarrow>
          if c = DQ then map_option (\<lambda>(t, r). (JStr t, r)) (parse_str cs)
          else if c = CHR ''['' then
            (case expect (CHR '']'') (skip_ws cs) of
               Some r \<Rightarrow> Some (JArr [], r)
             | None \<Rightarrow> map_option (\<lambda>(xs, r). (JArr xs, r)) (parse_items fl n (skip_ws cs)))
          else if c = CHR ''{'' then
            (case expect (CHR ''}'') (skip_ws cs) of
               Some r \<Rightarrow> Some (JObj [], r)
             | None \<Rightarrow> map_option (\<lambda>(ps, r). (JObj (dupdate [] ps), r)) (parse_pairs fl n (skip_ws cs)))
          else parse_atom fl s)"
| "parse_items fl 0 s = None"
| "parse_items fl (Suc n) s =
     (case parse_val fl n s of
        None \<Rightarrow> None
      | Some (v, r) \<Rightarrow>
          (case expect (CHR '','') (skip_ws r) of
             Some r' \<Rightarrow> map_option (\<lambda>(vs, t). (v # vs, t)) (parse_items fl n (skip_ws r'))
           | None \<Rightarrow> map_option (\<lambda>t. ([v], t)) (expect (CHR '']'') (skip_ws r))))"
| "parse_pairs fl 0 s = None"
| "parse_pairs fl (Suc n) s =
     (case Option.bind (expect DQ s) parse_str of
        None \<Rightarrow> None
      | Some (k, r) \<Rightarrow>
          (case expect (CHR '':'') (skip_ws r) of
             None \<Rightarrow> None
           | Some r1 \<Rightarrow>
               (case parse_val fl n (skip_ws r1) of
                  None \<Rightarrow> None
                | Some (v, r2) \<Rightarrow>
                    (case expect (CHR '','') (skip_ws r2) of
                       Some r3 \<Rightarrow> map_option (\<lambda>(ps, t). ((k, v) # ps, t)) (parse_pairs fl n (skip_ws r3))
                     | None \<Rightarrow> map_option (\<lambda>t. ([(k, v)], t)) (expect (CHR ''}'') (skip_ws r2))))))"

definition json_loads :: "float_conv \<Rightarrow> string \<Rightarrow> json option" where
  "json_loads fl s = (case parse_val fl (length s + 1) (skip_ws s) of
     Some (v, r) \<Rightarrow> if skip_ws r = [] then Some v else None
   | None \<Rightarrow> None)"

section \<open>Strings survive the round trip\<close>

lemma code_of_char_of [simp]: "code_of (char_of n) = n mod 256"
  by (simp add: code_of_def)

lemma code_of_less: "code_of c < 256"
  by (cases c) (simp add: code_of_def of_char_def horner_sum_simps)

lemma char_of_code_of [simp]: "char_of (code_of c) = c"
  by (simp add: code_of_def)

lemma code_of_inj: "code_of c = code_of d \<longleftrightarrow> c = d"
  by (metis char_of_code_of)

lemma hex_val_digit: "m < 16 \<Longrightarrow> hex_val (hex_digit m) = Some m"
  by (auto simp: hex_val_def hex_digit_def Let_def)

lemma hex4_hex2: "hex4 (CHR ''0'') (CHR ''0'') (hex_digit (code_of c div 16)) (hex_digit (code_of c mod 16)) = Some c"
proof -
  have "hex_val (CHR ''0'') = Some 0" by (simp add: hex_val_def code_of_def)
  moreover have "code_of c div 16 < 16" using code_of_less [of c] by simp
  ultimately show ?thesis by (simp add: hex4_def hex_val_digit)
qed

lemma parse_str_escape:
  "parse_str (escape_char asc c @ s) = push_char c (parse_str s)"
proof -
  consider "c = DQ" | "c = BSL" | "c = LF" | "c = CR" | "c = TAB" | "c = CHR 0x08" | "c = CHR 0x0C"
    | (u) "c \<notin> {DQ, BSL, LF, CR, TAB, CHR 0x08, CHR 0x0C}" "code_of c < 32 \<or> (asc \<and> 127 \<le> code_of c)"
    | (p) "c \<notin> {DQ, BSL, LF, CR, TAB, CHR 0x08, CHR 0x0C}" "\<not> (code_of c < 32 \<or> (asc \<and> 127 \<le> code_of c))"
    by blast
  then show ?thesis
  proof cases
    case u
    then have "escape_char asc c = BSL # CHR ''u'' # CHR ''0'' # CHR ''0'' # hex2 c"
      by (auto simp: escape_char_def)
    then show ?thesis by (simp add: hex2_def hex4_hex2)
  next
    case p
    then have "escape_char asc c = [c]" by (auto simp: escape_char_def)
    then show ?thesis using p by simp
  qed (simp_all add: escape_char_def unescape_def)
qed

lemma parse_str_printed:
  "parse_str (concat (map (escape_char asc) s) @ DQ # rest) = Some (s, rest)"
  by (induction s) (simp_all add: parse_str_escape push_char_def)

section \<open>Numbers survive the round trip\<close>

lemma is_digit_char_of: "(k::nat) < 10 \<Longrightarrow> is_digit (char_of (48 + k))"
  by (simp add: is_digit_def)

lemma digit_val_char_of: "(k::nat) < 10 \<Longrightarrow> digit_val (char_of (48 + k)) = k"
  by (simp add: digit_val_def)

lemma digits_rev_digits: "list_all is_digit (digits_rev n)"
proof (induction n rule: digits_rev.induct)
  case (1 n)
  then show ?case by (subst digits_rev.simps) (simp add: is_digit_char_of)
qed

lemma str_of_nat_digits: "list_all is_digit (str_of_nat n)"
  using digits_rev_digits [of n] by (simp add: str_of_nat_def list_all_rev)

lemma nat_of_digits_str: "nat_of_digits (str_of_nat n) = n"
proof (induction n rule: digits_rev.induct)
  case (1 n)
  show ?case
  proof (cases "n < 10")
    case True
    then show ?thesis
      by (subst (1) str_of_nat_def, subst digits_rev.simps) (simp add: nat_of_digits_def digit_val_char_of)
  next
    case False
    then have "str_of_nat n = str_of_nat (n div 10) @ [char_of (48 + n mod 10)]"
      unfolding str_of_nat_def by (subst digits_rev.simps) simp
    then show ?thesis using 1 [OF False]
      by (simp add: nat_of_digits_def digit_val_char_of)
  qed
qed

lemma str_of_nat_leading_zero: "hd (str_of_nat n) = CHR ''0'' \<Longrightarrow> str_of_nat n = ''0''"
proof (induction n rule: digits_rev.induct)
  case (1 n)
  show ?case
  proof (cases "n < 10")
    case True
    then have s: "str_of_nat n = [char_of (48 + n)]"
      unfolding str_of_nat_def by (subst digits_rev.simps) simp
    then show ?thesis using "1.prems" by simp
  next
    case False
    then have s: "str_of_nat n = str_of_nat (n div 10) @ [char_of (48 + n mod 10)]"
      unfolding str_of_nat_def by (subst digits_rev.simps) simp
    then have "hd (str_of_nat (n div 10)) = CHR ''0''" using "1.prems" by simp
    then have "str_of_nat (n div 10) = ''0''" using "1.IH" [OF False] by simp
    then have "n div 10 = 0"
      using nat_of_digits_str [of "n div 10"] by (simp add: nat_of_digits_def digit_val_def code_of_def)
    then show ?thesis using False by simp
  qed
qed

definition number_end :: "string \<Rightarrow> bool" where
  "number_end rest \<longleftrightarrow> rest = [] \<or> (\<not> is_digit (hd rest) \<and> hd rest \<notin> set ''.eE'')"

lemma takeWhile_stop:
  "list_all p xs \<Longrightarrow> rest = [] \<or> \<not> p (hd rest) \<Longrightarrow> takeWhile p (xs @ rest) = xs \<and> dropWhile p (xs @ rest) = rest"
  by (induction xs) (cases rest; auto)+

lemma scan_nat_printed:
  assumes "number_end rest"
  shows "scan_nat (str_of_nat n @ rest) = Some (str_of_nat n, rest)"
proof -
  obtain c cs where s: "str_of_nat n = c # cs" by (meson str_of_nat_nonempty neq_Nil_conv)
  have d: "is_digit c" using str_of_nat_digits [of n] s by simp
  then have "takeWhile is_digit (c # cs @ rest) = c # cs \<and> dropWhile is_digit (c # cs @ rest) = rest"
    using takeWhile_stop [OF str_of_nat_digits, of rest n] assms s by (auto simp: number_end_def)
  moreover note d
  moreover have "cs = []" if "c = CHR ''0''" using str_of_nat_leading_zero [of n] s that by simp
  ultimately show ?thesis using s by (auto simp: scan_nat_def)
qed

lemma digit_not_minus: "is_digit c \<Longrightarrow> c \<noteq> CHR ''-''"
  by (auto simp: is_digit_def code_of_def)

lemma scan_int_printed:
  assumes "number_end rest"
  shows "scan_int (str_of_int i @ rest) = Some (str_of_int i, rest)"
proof -
  obtain c cs where s: "str_of_nat (nat i) = c # cs" by (meson str_of_nat_nonempty neq_Nil_conv)
  have "c \<noteq> CHR ''-''" using str_of_nat_digits [of "nat i"] s by (auto dest: digit_not_minus)
  then show ?thesis
    using scan_nat_printed [OF assms, of "nat (- i)"] scan_nat_printed [OF assms, of "nat i"] s
    by (auto simp: scan_int_def str_of_int_def)
qed

lemma int_of_text_printed: "int_of_text (str_of_int i) = i"
proof -
  obtain c cs where s: "str_of_nat (nat i) = c # cs" by (meson str_of_nat_nonempty neq_Nil_conv)
  have "c \<noteq> CHR ''-''" using str_of_nat_digits [of "nat i"] s by (auto dest: digit_not_minus)
  then show ?thesis
    using nat_of_digits_str [of "nat i"] nat_of_digits_str [of "nat (- i)"] s
    by (auto simp: int_of_text_def str_of_int_def)
qed

lemma scan_frac_end: "number_end rest \<Longrightarrow> scan_frac rest = ([], rest)"
  by (auto simp: scan_frac_def number_end_def split: list.split)

lemma scan_exp_end: "number_end rest \<Longrightarrow> scan_exp rest = ([], rest)"
  by (auto simp: scan_exp_def number_end_def split: list.split)

lemma scan_number_int: "number_end rest \<Longrightarrow> scan_number fl (str_of_int i @ rest) = Some (JInt i, rest)"
  by (simp add: scan_number_def scan_int_printed scan_frac_end scan_exp_end int_of_text_printed)

text \<open>A float prints as a literal with a fraction or an exponent that reads back as itself.\<close>

definition float_text :: "float_conv \<Rightarrow> rat \<Rightarrow> string \<Rightarrow> bool" where
  "float_text fl x s \<longleftrightarrow> (case scan_int s of
     None \<Rightarrow> False
   | Some (ip, r) \<Rightarrow>
       (let (fp, r') = scan_frac r; (ep, r'') = scan_exp r' in
        (fp \<noteq> [] \<or> ep \<noteq> []) \<and> r'' = [] \<and> ip @ fp @ ep = s \<and> fl s = (x, s)))"

lemma while_append:
  "dropWhile p s \<noteq> [] \<or> rest = [] \<or> \<not> p (hd rest) \<Longrightarrow>
     takeWhile p (s @ rest) = takeWhile p s \<and> dropWhile p (s @ rest) = dropWhile p s @ rest"
  by (induction s) (cases rest; auto)+

lemma scan_nat_append:
  assumes "number_end rest" "scan_nat s = Some (d, r)"
  shows "scan_nat (s @ rest) = Some (d, r @ rest)"
proof -
  have "takeWhile is_digit (s @ rest) = takeWhile is_digit s \<and> dropWhile is_digit (s @ rest) = dropWhile is_digit s @ rest"
    using assms(1) by (intro while_append) (auto simp: number_end_def)
  then show ?thesis using assms(2) by (cases s) (auto simp: scan_nat_def simp del: takeWhile.simps dropWhile.simps split: if_splits)
qed

lemma scan_int_append:
  "number_end rest \<Longrightarrow> scan_int s = Some (d, r) \<Longrightarrow> scan_int (s @ rest) = Some (d, r @ rest)"
  using scan_nat_append [of rest] by (cases s) (fastforce simp: scan_int_def split: if_splits)+

lemma scan_frac_append:
  assumes "number_end rest" "scan_frac s = (d, r)"
  shows "scan_frac (s @ rest) = (d, r @ rest)"
proof (cases s)
  case Nil
  then show ?thesis using assms scan_frac_end by (simp add: scan_frac_def)
next
  case s: (Cons p s')
  show ?thesis
  proof (cases s')
    case Nil
    then show ?thesis using s assms by (cases rest) (auto simp: scan_frac_def number_end_def)
  next
    case (Cons c cs)
    have "takeWhile is_digit (s' @ rest) = takeWhile is_digit s' \<and> dropWhile is_digit (s' @ rest) = dropWhile is_digit s' @ rest"
      using assms(1) by (intro while_append) (auto simp: number_end_def)
    then show ?thesis using s Cons assms(2)
      by (auto simp: scan_frac_def simp del: takeWhile.simps dropWhile.simps split: if_splits)
  qed
qed

lemma scan_exp_append:
  assumes "number_end rest" "scan_exp s = (d, [])"
  shows "scan_exp (s @ rest) = (d, rest)"
proof (cases s)
  case Nil
  then show ?thesis using assms scan_exp_end by (auto simp: scan_exp_def)
next
  case (Cons e r)
  define sg where "sg = (if r \<noteq> [] \<and> hd r \<in> set ''+-'' then [hd r] else [])"
  define ds where "ds = drop (length sg) r"
  have ds: "e \<in> set ''eE''" "ds \<noteq> []" "is_digit (hd ds)" "d = e # sg @ takeWhile is_digit ds" "dropWhile is_digit ds = []"
    using assms(2) unfolding Cons scan_exp_def by (auto simp: sg_def ds_def Let_def hd_drop_conv_nth split: if_splits)
  have "r \<noteq> []" using ds(2) ds_def by auto
  then have sg': "(if r @ rest \<noteq> [] \<and> hd (r @ rest) \<in> set ''+-'' then [hd (r @ rest)] else []) = sg"
    unfolding sg_def by simp
  have ds': "drop (length sg) (r @ rest) = ds @ rest" using ds(2) ds_def by auto
  have "takeWhile is_digit (ds @ rest) = takeWhile is_digit ds \<and> dropWhile is_digit (ds @ rest) = rest"
    using while_append [of is_digit ds rest] assms(1) ds(5) by (auto simp: number_end_def)
  then show ?thesis
    unfolding Cons append_Cons scan_exp_def list.case Let_def sg' ds' using ds by simp
qed

lemma scan_number_float:
  "number_end rest \<Longrightarrow> float_text fl x s \<Longrightarrow> scan_number fl (s @ rest) = Some (JFloat x s, rest)"
  by (auto simp: float_text_def scan_number_def scan_int_append scan_frac_append scan_exp_append
      split: option.splits prod.splits)

section \<open>Values survive the round trip\<close>

fun json_wf :: "float_conv \<Rightarrow> json \<Rightarrow> bool" where
  "json_wf fl JNull = True"
| "json_wf fl (JBool b) = True"
| "json_wf fl (JInt i) = True"
| "json_wf fl (JFloat x s) = float_text fl x s"
| "json_wf fl (JStr s) = True"
| "json_wf fl (JArr xs) = list_all (json_wf fl) xs"
| "json_wf fl (JObj d) = (dwf d \<and> list_all (\<lambda>(k, v). json_wf fl v) d)"

definition std_opts :: "dump_opts \<Rightarrow> bool" where
  "std_opts opts \<longleftrightarrow> item_sep opts \<in> {'', '', '',''} \<and> key_sep opts \<in> {'': '', '':''}"

definition value_end :: "string \<Rightarrow> bool" where
  "value_end rest \<longleftrightarrow> rest = [] \<or> hd rest \<in> set '',]}''"

lemma std_sep: "std_opts opts \<Longrightarrow> length (item_sep opts) = 1 \<or> length (item_sep opts) = 2"
  by (auto simp: std_opts_def)

lemma value_end_number: "value_end rest \<Longrightarrow> number_end rest"
  by (auto simp: value_end_def number_end_def is_digit_def code_of_def)

definition val_start :: "string \<Rightarrow> bool" where
  "val_start s \<longleftrightarrow> s \<noteq> [] \<and> hd s \<notin> set '' ]},'' \<union> {TAB, LF, CR}"

lemma digit_start: "is_digit c \<Longrightarrow> c \<notin> set '' ]},ntf{['' \<union> {TAB, LF, CR, DQ}"
  by (auto simp: is_digit_def code_of_def)

definition num_start :: "string \<Rightarrow> bool" where
  "num_start s \<longleftrightarrow> s \<noteq> [] \<and> (hd s = CHR ''-'' \<or> is_digit (hd s))"

lemma num_start_int: "num_start (str_of_int i)"
  using str_of_nat_digits [of "nat i"] by (cases "str_of_nat (nat i)") (auto simp: num_start_def str_of_int_def)

lemma num_start_float: "float_text fl x s \<Longrightarrow> num_start s"
  by (cases s) (auto simp: float_text_def scan_int_def scan_nat_def num_start_def is_digit_def code_of_def
      split: if_splits option.splits prod.splits)

lemma num_start_val: "num_start s \<Longrightarrow> val_start s"
  using digit_start by (fastforce simp: num_start_def val_start_def)

lemma val_start_print: "json_wf fl v \<Longrightarrow> val_start (print_json opts v)"
  using num_start_val [OF num_start_int] num_start_val [OF num_start_float]
  by (cases v) (auto simp: val_start_def json_string_def)

lemma skip_ws_start [simp]: "val_start s \<Longrightarrow> skip_ws (s @ r) = s @ r"
  by (cases s) (auto simp: val_start_def skip_ws_def)

lemma skip_ws_stop [simp]: "c \<notin> {CHR '' '', TAB, LF, CR} \<Longrightarrow> skip_ws (c # r) = c # r"
  by (simp add: skip_ws_def)

lemma skip_ws_space [simp]: "skip_ws (CHR '' '' # r) = skip_ws r"
  by (simp add: skip_ws_def)

lemma expect_start: "val_start s \<Longrightarrow> c \<in> set '']},'' \<Longrightarrow> expect c (s @ r) = None"
  by (cases s) (auto simp: val_start_def expect_def)

lemma expect_Cons [simp]: "expect c (d # r) = (if c = d then Some r else None)"
  by (simp add: expect_def)

lemma parse_val_num:
  assumes "num_start s"
  shows "parse_val fl (Suc n) (s @ r) = scan_number fl (s @ r)"
proof -
  obtain c cs where s: "s = c # cs" "c = CHR ''-'' \<or> is_digit c" using assms by (cases s) (auto simp: num_start_def)
  then have "c \<notin> set ''ntf{['' \<union> {DQ}" using digit_start [of c] by (cases "is_digit c") simp_all
  then show ?thesis using s by (auto simp: parse_atom_def startswith_def)
qed

text \<open>Lists of items and of members, given the round trip of each element.\<close>

lemma parse_items_printed:
  assumes opts: "std_opts opts"
    and elem: "\<And>x n rest. x \<in> set xs \<Longrightarrow> value_end rest \<Longrightarrow> length (print_json opts x) < n \<Longrightarrow>
      parse_val fl n (print_json opts x @ rest) = Some (x, rest)"
    and wf: "list_all (json_wf fl) xs" and "xs \<noteq> []"
    and len: "length (py_join (item_sep opts) (map (print_json opts) xs)) + 1 < n"
  shows "parse_items fl n (py_join (item_sep opts) (map (print_json opts) xs) @ CHR '']'' # rest) = Some (xs, rest)"
  using elem wf \<open>xs \<noteq> []\<close> len
proof (induction xs arbitrary: n)
  case (Cons x xs)
  obtain m where n: "n = Suc m" using Cons.prems(4) by (cases n) auto
  show ?case
  proof (cases xs)
    case Nil
    then show ?thesis using Cons.prems n by (simp add: value_end_def)
  next
    case (Cons y ys)
    let ?J = "py_join (item_sep opts) (map (print_json opts) xs)"
    have J: "val_start (?J @ CHR '']'' # rest)"
      using Cons Cons.prems(2) val_start_print [of fl y opts] by (cases ys) (auto simp: val_start_def)
    have "parse_items fl m (?J @ CHR '']'' # rest) = Some (xs, rest)"
      using Cons Cons.prems n std_sep [OF opts] by (intro Cons.IH) auto
    moreover have "parse_val fl m (print_json opts x @ item_sep opts @ ?J @ CHR '']'' # rest)
        = Some (x, item_sep opts @ ?J @ CHR '']'' # rest)"
      using opts Cons Cons.prems n by (intro Cons.prems(1)) (auto simp: std_opts_def value_end_def)
    moreover have "\<exists>r. expect (CHR '','') (skip_ws (item_sep opts @ ?J @ CHR '']'' # rest)) = Some r
        \<and> skip_ws r = ?J @ CHR '']'' # rest"
      using opts skip_ws_start [OF J, of "[]"] by (auto simp: std_opts_def)
    ultimately show ?thesis using Cons n by auto
  qed
qed simp

definition print_member :: "dump_opts \<Rightarrow> string \<times> json \<Rightarrow> string" where
  "print_member opts kv = json_string (ensure_ascii opts) (fst kv) @ key_sep opts @ print_json opts (snd kv)"

lemma val_start_member: "val_start (print_member opts kv @ r)"
  by (simp add: val_start_def print_member_def json_string_def)

lemma print_json_obj:
  "print_json opts (JObj d) = ''{'' @ py_join (item_sep opts) (map (print_member opts) d) @ ''}''"
proof -
  have "print_member opts = (\<lambda>(k, v). json_string (ensure_ascii opts) k @ key_sep opts @ print_json opts v)"
    by (auto simp: print_member_def)
  then show ?thesis by simp
qed

lemma parse_member_head:
  assumes "std_opts opts" "json_wf fl (snd kv)"
    and "parse_val fl n (print_json opts (snd kv) @ r) = Some (snd kv, r)"
  shows "\<exists>r1. Option.bind (expect DQ (print_member opts kv @ r)) parse_str = Some (fst kv, key_sep opts @ print_json opts (snd kv) @ r)
     \<and> expect (CHR '':'') (skip_ws (key_sep opts @ print_json opts (snd kv) @ r)) = Some r1
     \<and> parse_val fl n (skip_ws r1) = Some (snd kv, r)"
  using assms skip_ws_start [OF val_start_print [OF assms(2), of opts], of r]
  by (auto simp: print_member_def json_string_def parse_str_printed std_opts_def)

lemma parse_pairs_printed:
  assumes opts: "std_opts opts"
    and elem: "\<And>v n rest. v \<in> snd ` set d \<Longrightarrow> value_end rest \<Longrightarrow> length (print_json opts v) < n \<Longrightarrow>
      parse_val fl n (print_json opts v @ rest) = Some (v, rest)"
    and wf: "list_all (\<lambda>(k, v). json_wf fl v) d" and "d \<noteq> []"
    and len: "length (py_join (item_sep opts) (map (print_member opts) d)) + 1 < n"
  shows "parse_pairs fl n (py_join (item_sep opts) (map (print_member opts) d) @ CHR ''}'' # rest) = Some (d, rest)"
  using elem wf \<open>d \<noteq> []\<close> len
proof (induction d arbitrary: n)
  case (Cons kv d)
  obtain m where n: "n = Suc m" using Cons.prems(4) by (cases n) auto
  have wf: "json_wf fl (snd kv)" using Cons.prems(2) by (simp add: case_prod_unfold)
  show ?case
  proof (cases d)
    case Nil
    have "parse_val fl m (print_json opts (snd kv) @ CHR ''}'' # rest) = Some (snd kv, CHR ''}'' # rest)"
      using Cons.prems(4) n Nil by (intro Cons.prems(1)) (auto simp: value_end_def print_member_def json_string_def)
    from parse_member_head [OF opts wf this] show ?thesis using Nil n by auto
  next
    case (Cons y ys)
    let ?J = "py_join (item_sep opts) (map (print_member opts) d)"
    let ?R = "item_sep opts @ ?J @ CHR ''}'' # rest"
    have J: "val_start (?J @ CHR ''}'' # rest)"
      using Cons val_start_member [of opts y] by (cases ys) auto
    have "parse_pairs fl m (?J @ CHR ''}'' # rest) = Some (d, rest)"
      using Cons Cons.prems n std_sep [OF opts] by (intro Cons.IH) auto
    moreover have "parse_val fl m (print_json opts (snd kv) @ ?R) = Some (snd kv, ?R)"
      using opts Cons Cons.prems n
      by (intro Cons.prems(1)) (auto simp: std_opts_def value_end_def print_member_def json_string_def)
    note parse_member_head [OF opts wf this]
    moreover have "\<exists>r. expect (CHR '','') (skip_ws ?R) = Some r \<and> skip_ws r = ?J @ CHR ''}'' # rest"
      using opts skip_ws_start [OF J, of "[]"] by (auto simp: std_opts_def)
    ultimately show ?thesis using Cons n by auto
  qed
qed simp

lemma dupdate_fresh: "dwf (d @ e) \<Longrightarrow> dupdate d e = d @ e"
proof (induction e arbitrary: d)
  case (Cons kv e)
  obtain k v where kv: "kv = (k, v)" by force
  have "\<not> dhas d k" using Cons.prems kv by (auto simp: dwf_def dhas_def)
  then show ?case using Cons.IH [of "d @ [kv]"] Cons.prems kv by (simp add: dupdate_def dset_fresh)
qed (simp add: dupdate_def)

theorem parse_val_printed:
  "json_wf fl v \<Longrightarrow> std_opts opts \<Longrightarrow> value_end rest \<Longrightarrow> length (print_json opts v) < n \<Longrightarrow>
    parse_val fl n (print_json opts v @ rest) = Some (v, rest)"
proof (induction v arbitrary: n rest rule: json_wf.induct [of _ fl])
  case (6 fl xs)
  obtain m where n: "n = Suc m" using "6.prems"(4) by (cases n) auto
  let ?J = "py_join (item_sep opts) (map (print_json opts) xs)"
  show ?case
  proof (cases xs)
    case (Cons y ys)
    have J: "val_start (?J @ CHR '']'' # rest)"
      using Cons "6.prems"(1) val_start_print [of fl y opts] by (cases ys) (auto simp: val_start_def)
    have "parse_items fl m (?J @ CHR '']'' # rest) = Some (xs, rest)"
      using "6.prems" n Cons by (intro parse_items_printed "6.IH") (auto simp: list_all_iff)
    then show ?thesis
      using n skip_ws_start [OF J, of "[]"] expect_start [OF J, of "CHR '']''" "[]"] by simp
  qed (simp add: n)
next
  case (7 fl d)
  obtain m where n: "n = Suc m" using "7.prems"(4) by (cases n) auto
  let ?J = "py_join (item_sep opts) (map (print_member opts) d)"
  have elem: "parse_val fl n (print_json opts v @ rest) = Some (v, rest)"
    if "v \<in> snd ` set d" "value_end rest" "length (print_json opts v) < n" for v n rest
    using "7.IH" that "7.prems"(1,2) by (fastforce simp: list_all_iff)
  show ?case
  proof (cases d)
    case (Cons y ys)
    have J: "val_start (?J @ CHR ''}'' # rest)"
      using Cons val_start_member [of opts y] by (cases ys) auto
    have "parse_pairs fl m (?J @ CHR ''}'' # rest) = Some (d, rest)"
      using "7.prems" n Cons elem by (intro parse_pairs_printed) (auto simp: print_json_obj simp del: print_json.simps)
    moreover have "dupdate [] d = d" using dupdate_fresh [of "[]" d] "7.prems"(1) by simp
    ultimately show ?thesis
      using n skip_ws_start [OF J, of "[]"] expect_start [OF J, of "CHR ''}''" "[]"]
      by (simp add: print_json_obj del: print_json.simps)
  qed (simp add: n)
next
  case (4 fl x s)
  then show ?case
    by (cases n) (simp_all add: parse_val_num num_start_float scan_number_float value_end_number del: parse_val.simps)
next
  case (3 fl i)
  then show ?case
    by (cases n) (simp_all add: parse_val_num num_start_int scan_number_int value_end_number del: parse_val.simps)
next
  case (5 fl s)
  then show ?case by (cases n) (simp_all add: json_string_def parse_str_printed)
next
  case (1 fl)
  then show ?case by (cases n) (auto simp: parse_atom_def startswith_def)
next
  case (2 fl b)
  then show ?case by (cases n) (auto simp: parse_atom_def startswith_def)
qed

theorem json_loads_dumps:
  assumes "json_wf fl v" "std_opts opts"
  shows "json_loads fl (print_json opts v) = Some v"
proof -
  have "skip_ws (print_json opts v) = print_json opts v"
    using skip_ws_start [OF val_start_print [OF assms(1), of opts], of "[]"] by simp
  moreover have "parse_val fl (length (print_json opts v) + 1) (print_json opts v @ []) = Some (v, [])"
    using assms by (intro parse_val_printed) (auto simp: value_end_def)
  ultimately show ?thesis by (simp add: json_loads_def skip_ws_def)
qed

lemma std_opts_spaced: "std_opts (spaced b)"
  by (simp add: std_opts_def spaced_def)

lemma std_opts_compact: "std_opts compact"
  by (simp add: std_opts_def compact_def)

section \<open>Printed values are single lines\<close>

lemma escape_no_newline: "LF \<notin> set (escape_char asc c)"
proof -
  have hex: "hex_digit k \<noteq> LF" if "k < 16" for k
  proof
    assume "hex_digit k = LF"
    then have "code_of (hex_digit k) = 10" by (simp add: code_of_def)
    then show False using that by (auto simp: hex_digit_def split: if_splits)
  qed
  have "hex_digit (code_of c div 16) \<noteq> LF" "hex_digit (code_of c mod 16) \<noteq> LF"
    using code_of_less [of c] by (auto intro!: hex)
  then show ?thesis by (auto simp: escape_char_def hex2_def)
qed

lemma json_string_no_newline: "LF \<notin> set (json_string asc s)"
  using escape_no_newline by (auto simp: json_string_def)

definition num_chars :: "char set" where
  "num_chars = {c. is_digit c} \<union> set ''-+.eE''"

lemma digits_num_chars: "set (takeWhile is_digit s) \<subseteq> num_chars"
  by (auto simp: num_chars_def dest: set_takeWhileD)

lemma scan_nat_chars: "scan_nat s = Some (d, r) \<Longrightarrow> set d \<subseteq> num_chars"
proof -
  have zero: "CHR ''0'' \<in> num_chars" by (simp add: num_chars_def is_digit_def code_of_def)
  assume "scan_nat s = Some (d, r)"
  then have "d = ''0'' \<or> d = takeWhile is_digit s"
    by (cases s) (auto simp: scan_nat_def simp del: takeWhile.simps split: if_splits)
  then show "set d \<subseteq> num_chars" using zero digits_num_chars [of s] by (elim disjE) simp_all
qed

lemma scan_int_chars: "scan_int s = Some (d, r) \<Longrightarrow> set d \<subseteq> num_chars"
proof -
  have "CHR ''-'' \<in> num_chars" by (simp add: num_chars_def)
  moreover assume "scan_int s = Some (d, r)"
  then obtain c cs where s: "s = c # cs" and d: "scan_nat s = Some (d, r) \<or> (\<exists>d'. scan_nat cs = Some (d', r) \<and> d = CHR ''-'' # d')"
    by (auto simp: scan_int_def split: list.splits if_splits)
  from d have "set d \<subseteq> insert (CHR ''-'') num_chars"
    using scan_nat_chars [of s d r] scan_nat_chars [of cs _ r] by (elim disjE exE conjE) auto
  ultimately show "set d \<subseteq> num_chars" by blast
qed

lemma scan_frac_chars: "scan_frac s = (d, r) \<Longrightarrow> set d \<subseteq> num_chars"
proof (induction s)
  case (Cons p s')
  have "CHR ''.'' \<in> num_chars" by (simp add: num_chars_def)
  then show ?case using Cons.prems digits_num_chars [of s']
    by (cases s') (auto simp: scan_frac_def simp del: takeWhile.simps split: if_splits)
qed (simp add: scan_frac_def)

lemma scan_exp_chars: "scan_exp s = (d, r) \<Longrightarrow> set d \<subseteq> num_chars"
proof (induction s)
  case (Cons e r')
  have "set ''eE+-'' \<subseteq> num_chars" by (simp add: num_chars_def)
  then show ?case using Cons.prems digits_num_chars [of r'] digits_num_chars [of "drop (Suc 0) r'"]
    by (auto simp: scan_exp_def Let_def split: if_splits)
qed (simp add: scan_exp_def)

lemma float_text_chars: "float_text fl x s \<Longrightarrow> set s \<subseteq> num_chars"
  by (auto simp: float_text_def split: option.splits prod.splits
      dest: scan_int_chars [THEN subsetD] scan_frac_chars [THEN subsetD] scan_exp_chars [THEN subsetD])

lemma newline_not_num: "LF \<notin> num_chars"
  by (simp add: num_chars_def is_digit_def code_of_def)

lemma str_of_int_chars: "set (str_of_int i) \<subseteq> num_chars"
  using str_of_nat_digits by (auto simp: str_of_int_def num_chars_def list_all_iff)

lemma set_py_join: "set (py_join sep xs) \<subseteq> set sep \<union> \<Union> (set ` set xs)"
  by (induction sep xs rule: py_join.induct) auto

lemma print_json_one_line: "json_wf fl v \<Longrightarrow> std_opts opts \<Longrightarrow> LF \<notin> set (print_json opts v)"
proof (induction fl v rule: json_wf.induct)
  case (6 fl xs)
  then have "LF \<notin> \<Union> (set ` set (map (print_json opts) xs))" by (auto simp: list_all_iff)
  then show ?case using 6 set_py_join [of "item_sep opts" "map (print_json opts) xs"] by (auto simp: std_opts_def)
next
  case (7 fl d)
  then have "LF \<notin> \<Union> (set ` set (map (print_member opts) d))"
    using json_string_no_newline by (fastforce simp: list_all_iff print_member_def std_opts_def)
  then show ?case using 7 set_py_join [of "item_sep opts" "map (print_member opts) d"]
    by (auto simp: std_opts_def print_json_obj simp del: print_json.simps)
next
  case (3 fl i)
  then show ?case using newline_not_num str_of_int_chars [of i] by auto
next
  case (4 fl x s)
  then show ?case using newline_not_num float_text_chars [of fl x s] by auto
qed (use json_string_no_newline in auto)

lemma dumps_utf8_line: "json_wf fl v \<Longrightarrow> LF \<notin> set (json_dumps_utf8 v)"
  unfolding json_dumps_utf8_def by (rule print_json_one_line [OF _ std_opts_spaced])

lemma dumps_utf8_loads: "json_wf fl v \<Longrightarrow> json_loads fl (json_dumps_utf8 v) = Some v"
  unfolding json_dumps_utf8_def by (rule json_loads_dumps [OF _ std_opts_spaced])

text \<open>\<open>JSONDecoder().raw_decode\<close> on a text that starts with a bracket.\<close>

definition raw_decode :: "float_conv \<Rightarrow> string \<Rightarrow> json option" where
  "raw_decode fl s = map_option fst (parse_val fl (length s + 1) s)"

end
