(* ===== verification/Security_Policy.thy ===== *)
theory Security_Policy
  imports Json_Text
begin

text \<open>
  Permission policies (\<open>security/policy.py\<close>): the allow-list policy, the ordered content-aware
  rules and the permissive policy. The regular-expression engine is an argument
  \<open>re :: pattern \<Rightarrow> text \<Rightarrow> bool option\<close> (\<open>None\<close> for \<open>re.error\<close>) and the validity test \<open>ipaddress\<close>
  applies to a bracketed host is an argument \<open>ip_ok\<close>: every result below holds for all of them.
  \<open>posixpath.normpath\<close> and the host part of \<open>urllib.parse.urlparse\<close> are modelled.
\<close>

section \<open>Decisions and rules\<close>

record permission_decision =
  allowed :: bool
  reason :: string
  requires_confirmation :: bool

record policy_rule =
  rule_tool_name :: "string option"
  rule_path_prefix :: "string option"
  rule_domain_pattern :: "string option"
  rule_command_pattern :: "string option"
  rule_decision :: permission_decision

type_synonym regex_engine = "string \<Rightarrow> string \<Rightarrow> bool option"

fun first_match :: "regex_engine \<Rightarrow> string list \<Rightarrow> string \<Rightarrow> string option" where
  "first_match re [] txt = None"
| "first_match re (p # ps) txt =
     (case re p txt of
        Some True \<Rightarrow> Some p
      | Some False \<Rightarrow> first_match re ps txt
      | None \<Rightarrow> if contains p txt then Some p else first_match re ps txt)"

definition matches_pattern :: "regex_engine \<Rightarrow> string \<Rightarrow> string \<Rightarrow> bool" where
  "matches_pattern re p txt = (case re p txt of Some b \<Rightarrow> b | None \<Rightarrow> contains p txt)"

section \<open>Path prefixes\<close>

fun split_on :: "char \<Rightarrow> string \<Rightarrow> string list" where
  "split_on d [] = [[]]"
| "split_on d (c # cs) = (if c = d then [] # split_on d cs
     else (case split_on d cs of [] \<Rightarrow> [[c]] | w # ws \<Rightarrow> (c # w) # ws))"

text \<open>
  The component loop of \<open>posixpath.normpath\<close>; \<open>rooted\<close> is \<open>bool(initial_slashes)\<close> and the
  accumulator is \<open>new_comps\<close> reversed.
\<close>

fun norm_comps :: "bool \<Rightarrow> string list \<Rightarrow> string list \<Rightarrow> string list" where
  "norm_comps rooted acc [] = rev acc"
| "norm_comps rooted acc (c # cs) =
     (if c = [] \<or> c = ''.'' then norm_comps rooted acc cs
      else if c \<noteq> ''..'' \<or> (\<not> rooted \<and> acc = []) \<or> (acc \<noteq> [] \<and> hd acc = ''..'')
      then norm_comps rooted (c # acc) cs
      else norm_comps rooted (tl acc) cs)"

definition initial_slashes :: "string \<Rightarrow> nat" where
  "initial_slashes p = (if \<not> startswith ''/'' p then 0
     else if startswith ''//'' p \<and> \<not> startswith ''///'' p then 2 else 1)"

definition normpath :: "string \<Rightarrow> string" where
  "normpath p = (if p = [] then ''.'' else
     let n = initial_slashes p;
         q = replicate n (CHR ''/'') @ py_join ''/'' (norm_comps (n \<noteq> 0) [] (split_on (CHR ''/'') p))
     in if q = [] then ''.'' else q)"

definition collapse_root :: "string \<Rightarrow> string" where
  "collapse_root p = (if startswith ''//'' p then CHR ''/'' # dropWhile (\<lambda>c. c = CHR ''/'') p else p)"

definition path_matches_prefix :: "string \<Rightarrow> string \<Rightarrow> bool" where
  "path_matches_prefix path pre =
     (let norm_path = collapse_root (normpath path); norm_prefix = collapse_root (normpath pre) in
      if startswith ''/'' norm_path \<noteq> startswith ''/'' norm_prefix then False
      else if norm_prefix = ''/'' then startswith ''/'' norm_path
      else if norm_prefix = ''.'' then \<not> startswith ''..'' norm_path
      else norm_path = norm_prefix \<or> startswith (norm_prefix @ ''/'') norm_path)"

section \<open>Domains\<close>

definition upto_any :: "string \<Rightarrow> string \<Rightarrow> string" where
  "upto_any stops s = takeWhile (\<lambda>c. c \<notin> set stops) s"

definition after_last :: "char \<Rightarrow> string \<Rightarrow> string" where
  "after_last d s = rev (takeWhile (\<lambda>c. c \<noteq> d) (rev s))"

definition after_first :: "char \<Rightarrow> string \<Rightarrow> string" where
  "after_first d s = drop 1 (dropWhile (\<lambda>c. c \<noteq> d) s)"

definition is_scheme_char :: "char \<Rightarrow> bool" where
  "is_scheme_char c = (let n = code_of c in (48 \<le> n \<and> n \<le> 57) \<or> (65 \<le> n \<and> n \<le> 90) \<or> (97 \<le> n \<and> n \<le> 122)
     \<or> c \<in> set ''+-.'')"

definition is_ascii_alpha :: "char \<Rightarrow> bool" where
  "is_ascii_alpha c = (let n = code_of c in (65 \<le> n \<and> n \<le> 90) \<or> (97 \<le> n \<and> n \<le> 122))"

text \<open>The network location \<open>urlsplit\<close> extracts, after stripping and scheme removal.\<close>

definition url_netloc :: "string \<Rightarrow> string" where
  "url_netloc url =
     (let u = filter (\<lambda>c. c \<notin> {TAB, LF, CR}) (dropWhile (\<lambda>c. code_of c \<le> 32) url);
          before = takeWhile (\<lambda>c. c \<noteq> CHR '':'') u;
          rest = (if CHR '':'' \<in> set u \<and> before \<noteq> [] \<and> is_ascii_alpha (hd before) \<and> list_all is_scheme_char before
                  then drop (length before + 1) u else u)
      in if startswith ''//'' rest then upto_any ''/?#'' (drop 2 rest) else [])"

text \<open>\<open>urlparse(url).hostname\<close>: unbalanced brackets raise \<open>ValueError\<close> while splitting.\<close>

definition url_hostname :: "(string \<Rightarrow> bool) \<Rightarrow> string \<Rightarrow> string option result" where
  "url_hostname ip_ok url =
     (let netloc = url_netloc url; opened = (CHR ''['' \<in> set netloc); shut = (CHR '']'' \<in> set netloc);
          hostinfo = after_last (CHR ''@'') netloc in
      if opened \<noteq> shut then Inl (Exn ''ValueError'' ''Invalid IPv6 URL'')
      else if opened \<and> \<not> ip_ok netloc then Inl (Exn ''ValueError'' ''invalid bracketed host'')
      else let host = (if CHR ''['' \<in> set hostinfo then upto_any '']'' (after_first (CHR ''['') hostinfo)
                       else upto_any '':'' hostinfo)
           in Inr (if host = [] then None
                   else Some (py_lower (upto_any ''%'' host) @ dropWhile (\<lambda>c. c \<noteq> CHR ''%'') host)))"

definition input_domain :: "(string \<Rightarrow> bool) \<Rightarrow> obj \<Rightarrow> string option result" where
  "input_domain ip_ok inp = (case jget inp ''domain'' of
     JStr (c # cs) \<Rightarrow> Inr (Some (c # cs))
   | _ \<Rightarrow> (case jget inp ''url'' of
       JStr (c # cs) \<Rightarrow> url_hostname ip_ok (if contains ''://'' (c # cs) then c # cs else ''//'' @ c # cs)
     | _ \<Rightarrow> Inr None))"

section \<open>The policies\<close>

definition str_selector :: "(string \<Rightarrow> bool) \<Rightarrow> json \<Rightarrow> bool" where
  "str_selector p v = (case v of JStr s \<Rightarrow> p s | _ \<Rightarrow> False)"

definition rule_applies :: "regex_engine \<Rightarrow> (string \<Rightarrow> bool) \<Rightarrow> policy_rule \<Rightarrow> string \<Rightarrow> obj \<Rightarrow> bool result" where
  "rule_applies re ip_ok r name inp =
     (if (case rule_tool_name r of None \<Rightarrow> False | Some t \<Rightarrow> t \<noteq> name) then Inr False
      else if (case rule_path_prefix r of None \<Rightarrow> False
               | Some p \<Rightarrow> \<not> str_selector (\<lambda>path. path_matches_prefix path p) (jget inp ''path'')) then Inr False
      else bind_res (case rule_domain_pattern r of None \<Rightarrow> Inr True
               | Some p \<Rightarrow> bind_res (input_domain ip_ok inp) (\<lambda>d. Inr (case d of None \<Rightarrow> False | Some h \<Rightarrow> matches_pattern re p h)))
        (\<lambda>domain_ok. Inr (domain_ok \<and> (case rule_command_pattern r of None \<Rightarrow> True
               | Some p \<Rightarrow> str_selector (matches_pattern re p) (jget inp ''command'')))))"

fun rule_based_check :: "regex_engine \<Rightarrow> (string \<Rightarrow> bool) \<Rightarrow> policy_rule list \<Rightarrow> permission_decision
    \<Rightarrow> string \<Rightarrow> obj \<Rightarrow> permission_decision result" where
  "rule_based_check re ip_ok [] dflt name inp = Inr dflt"
| "rule_based_check re ip_ok (r # rs) dflt name inp =
     bind_res (rule_applies re ip_ok r name inp) (\<lambda>hit.
       if hit then Inr (rule_decision r) else rule_based_check re ip_ok rs dflt name inp)"

definition default_rule_decision :: permission_decision where
  "default_rule_decision = \<lparr>allowed = False, reason = ''no policy rule matched'', requires_confirmation = False\<rparr>"

record allow_list_policy =
  always_allow :: "string list"
  require_confirmation_patterns :: "(string, string list) dict"

definition confirmation_patterns :: "allow_list_policy \<Rightarrow> string \<Rightarrow> string list" where
  "confirmation_patterns pol name =
     (case dget (require_confirmation_patterns pol) name of None \<Rightarrow> [] | Some ps \<Rightarrow> ps)"

definition serialise_input :: "obj \<Rightarrow> string" where
  "serialise_input inp = json_dumps_utf8 (JObj inp)"

definition allow_list_check :: "regex_engine \<Rightarrow> allow_list_policy \<Rightarrow> string \<Rightarrow> obj \<Rightarrow> permission_decision" where
  "allow_list_check re pol name inp =
     (if name \<notin> set (always_allow pol)
      then \<lparr>allowed = False, reason = ''tool not in allow-list'', requires_confirmation = False\<rparr>
      else case first_match re (confirmation_patterns pol name) (serialise_input inp) of
        Some m \<Rightarrow> \<lparr>allowed = True, reason = ''input matched dangerous pattern '' @ repr_str m, requires_confirmation = True\<rparr>
      | None \<Rightarrow> \<lparr>allowed = True, reason = ''tool in allow-list'', requires_confirmation = False\<rparr>)"

definition permissive_check :: "string \<Rightarrow> obj \<Rightarrow> permission_decision" where
  "permissive_check name inp = \<lparr>allowed = True, reason = ''permissive policy (dev/test only)'', requires_confirmation = False\<rparr>"

section \<open>Pattern matching\<close>

lemma first_match_iff:
  "first_match re ps txt = find (\<lambda>p. matches_pattern re p txt) ps"
  by (induction ps) (auto simp: matches_pattern_def split: option.split bool.split)

text \<open>
  the allow-list policy denies every tool outside the list, allows the others, and asks for
  confirmation exactly when one of the tool's patterns matches the serialised input.
\<close>

theorem allow_list_decision:
  "allowed (allow_list_check re pol name inp) = (name \<in> set (always_allow pol))
   \<and> requires_confirmation (allow_list_check re pol name inp)
     = (name \<in> set (always_allow pol) \<and>
        (\<exists>p \<in> set (confirmation_patterns pol name). matches_pattern re p (serialise_input inp)))"
  by (auto simp: allow_list_check_def first_match_iff find_None_iff find_Some_iff split: option.split)

section \<open>Path containment by segments\<close>

text \<open>
  The reference: the segments of an absolute path after dropping empty and \<open>.\<close> components and
  letting each \<open>..\<close> pop the segment before it. Containment is the prefix order on segments.
\<close>

fun resolve_segments :: "string list \<Rightarrow> string list \<Rightarrow> string list" where
  "resolve_segments stack [] = rev stack"
| "resolve_segments stack (c # cs) =
     (if c = [] \<or> c = ''.'' then resolve_segments stack cs
      else if c = ''..'' then resolve_segments (tl stack) cs
      else resolve_segments (c # stack) cs)"

definition segments :: "string \<Rightarrow> string list" where
  "segments p = resolve_segments [] (split_on (CHR ''/'') p)"

definition plain_segment :: "string \<Rightarrow> bool" where
  "plain_segment s \<longleftrightarrow> s \<noteq> [] \<and> CHR ''/'' \<notin> set s"

definition slash_join :: "string list \<Rightarrow> string" where
  "slash_join ss = concat (map (\<lambda>s. CHR ''/'' # s) ss)"

lemma norm_comps_rooted:
  "''..'' \<notin> set acc \<Longrightarrow> norm_comps True acc cs = resolve_segments acc cs"
proof (induction cs arbitrary: acc)
  case (Cons c cs)
  have "hd acc \<noteq> ''..''" if "acc \<noteq> []" using Cons.prems that by (metis hd_in_set)
  moreover have "''..'' \<notin> set (tl acc)" using Cons.prems by (metis list.set_sel(2) tl_Nil)
  ultimately show ?case using Cons by auto
qed simp

lemma split_on_no_sep: "w \<in> set (split_on d s) \<Longrightarrow> d \<notin> set w"
  by (induction s arbitrary: w) (auto split: if_splits list.splits)

lemma resolve_segments_plain:
  "list_all plain_segment stack \<Longrightarrow> \<forall>w \<in> set cs. CHR ''/'' \<notin> set w \<Longrightarrow>
    list_all plain_segment (resolve_segments stack cs)"
proof (induction cs arbitrary: stack)
  case (Cons c cs)
  have tl: "list_all plain_segment (tl stack)" using Cons.prems by (cases stack) auto
  have plain: "plain_segment c" if "c \<noteq> []" using Cons.prems that by (simp add: plain_segment_def)
  have rest: "\<forall>w \<in> set cs. CHR ''/'' \<notin> set w" using Cons.prems by simp
  show ?case
    using Cons.IH [OF tl rest] Cons.IH [OF Cons.prems(1) rest] Cons.IH [OF _ rest, of "c # stack"] plain Cons.prems(1)
    by simp
qed (simp add: list_all_iff)

lemma segments_plain: "list_all plain_segment (segments p)"
  unfolding segments_def by (rule resolve_segments_plain) (auto dest: split_on_no_sep)

lemma join_slash: "ss \<noteq> [] \<Longrightarrow> CHR ''/'' # py_join ''/'' ss = slash_join ss"
  by (induction "''/''" ss rule: py_join.induct) (auto simp: slash_join_def)

lemma join_no_leading_slash:
  "list_all plain_segment ss \<Longrightarrow> dropWhile (\<lambda>c. c = CHR ''/'') (py_join ''/'' ss) = py_join ''/'' ss
    \<and> \<not> startswith ''/'' (py_join ''/'' ss)"
proof (induction "''/''" ss rule: py_join.induct)
  case (2 x)
  then show ?case by (cases x) (auto simp: plain_segment_def startswith_def)
next
  case (3 x y ys)
  then show ?case by (cases x) (auto simp: plain_segment_def startswith_def)
qed (simp add: startswith_def)

lemma join_nonempty:
  "list_all plain_segment ss \<Longrightarrow> ss \<noteq> [] \<Longrightarrow> py_join ''/'' ss \<noteq> []"
  by (induction "''/''" ss rule: py_join.induct) (auto simp: plain_segment_def)

lemma normpath_absolute:
  assumes "startswith ''/'' p"
  shows "collapse_root (normpath p) = CHR ''/'' # py_join ''/'' (segments p)"
proof -
  have "initial_slashes p = 1 \<or> initial_slashes p = 2"
    using assms by (simp add: initial_slashes_def)
  moreover have "p \<noteq> []"
    using assms by (auto simp: startswith_def)
  moreover have "norm_comps True [] (split_on (CHR ''/'') p) = segments p"
    by (simp add: norm_comps_rooted segments_def)
  ultimately have "normpath p = CHR ''/'' # py_join ''/'' (segments p)
      \<or> normpath p = CHR ''/'' # CHR ''/'' # py_join ''/'' (segments p)"
    by (auto simp: normpath_def Let_def numeral_2_eq_2)
  then show ?thesis
    using join_no_leading_slash [OF segments_plain, of p]
    by (auto simp: collapse_root_def startswith_def)
qed

lemma append_at_slash:
  assumes "CHR ''/'' \<notin> set a" "CHR ''/'' \<notin> set b"
    and "x = [] \<or> hd x = CHR ''/''" "y = [] \<or> hd y = CHR ''/''"
  shows "a @ x = b @ y \<longleftrightarrow> a = b \<and> x = y"
  using assms
proof (induction a arbitrary: b)
  case Nil
  then show ?case by (cases b) auto
next
  case (Cons c a)
  then show ?case by (cases b) auto
qed

lemma hd_slash_join: "slash_join ss = [] \<or> hd (slash_join ss) = CHR ''/''"
  by (cases ss) (auto simp: slash_join_def)

lemma slash_join_prefix:
  assumes "list_all plain_segment as" "list_all plain_segment bs"
  shows "slash_join as = slash_join bs \<or> prefix (slash_join bs @ ''/'') (slash_join as) \<longleftrightarrow> prefix bs as"
  using assms
proof (induction bs arbitrary: as)
  case Nil
  then show ?case using hd_slash_join [of as] by (cases "slash_join as") (auto simp: slash_join_def)
next
  case (Cons b bs)
  show ?case
  proof (cases as)
    case Nil
    then show ?thesis by (simp add: slash_join_def)
  next
    case (Cons a as')
    note plain = Cons.prems [unfolded Cons]
    have sep: "a @ slash_join as' = b @ y \<longleftrightarrow> a = b \<and> slash_join as' = y" if "y = [] \<or> hd y = CHR ''/''" for y
      using plain that hd_slash_join by (intro append_at_slash) (auto simp: plain_segment_def)
    have "hd (slash_join bs @ CHR ''/'' # zs) = CHR ''/''" for zs
      using hd_slash_join [of bs] by (cases "slash_join bs") auto
    then have "prefix (b @ slash_join bs @ ''/'') (a @ slash_join as') \<longleftrightarrow>
        a = b \<and> prefix (slash_join bs @ ''/'') (slash_join as')"
      unfolding prefix_def using sep by auto
    moreover have "a @ slash_join as' = b @ slash_join bs \<longleftrightarrow> a = b \<and> slash_join as' = slash_join bs"
      using sep hd_slash_join by blast
    moreover have "slash_join (c # cs) = CHR ''/'' # c @ slash_join cs" for c cs
      by (simp add: slash_join_def)
    ultimately show ?thesis
      using Cons.IH [of as'] plain Cons by auto
  qed
qed

text \<open>
  on absolute paths the rule's prefix test is containment by resolved path segments, so
  neither \<open>..\<close> components nor a shared name prefix (\<open>/etc\<close> against \<open>/etcetera\<close>) slip through.
\<close>

theorem path_prefix_by_segments:
  assumes "startswith ''/'' path" "startswith ''/'' pre"
  shows "path_matches_prefix path pre \<longleftrightarrow> prefix (segments pre) (segments path)"
proof (cases "segments pre = []")
  case True
  then show ?thesis
    by (simp add: path_matches_prefix_def normpath_absolute [OF assms(1)] normpath_absolute [OF assms(2)] startswith_def)
next
  case False
  then obtain c cs where pre: "py_join ''/'' (segments pre) = c # cs"
    using join_nonempty [OF segments_plain] by (meson neq_Nil_conv)
  show ?thesis
  proof (cases "segments path = []")
    case True
    then show ?thesis using False pre
      by (auto simp: path_matches_prefix_def normpath_absolute [OF assms(1)] normpath_absolute [OF assms(2)] startswith_def)
  next
    case nonempty: False
    have n: "collapse_root (normpath path) = slash_join (segments path)"
      "collapse_root (normpath pre) = slash_join (segments pre)"
      using normpath_absolute assms join_slash False nonempty by simp_all
    have s: "slash_join (segments path) \<noteq> ''.''" "prefix ''/'' (slash_join (segments path))"
      "slash_join (segments pre) \<noteq> ''.''" "slash_join (segments pre) \<noteq> ''/''" "prefix ''/'' (slash_join (segments pre))"
      by (simp_all add: join_slash [OF False, symmetric] join_slash [OF nonempty, symmetric] pre)
    show ?thesis
      using slash_join_prefix [OF segments_plain segments_plain, of path pre] s
      by (simp add: path_matches_prefix_def n Let_def startswith_prefix)
  qed
qed

theorem path_prefix_by_segments_witness:
  "path_matches_prefix ''/srv/app/../data/./x'' ''/srv/data'' \<longleftrightarrow>
     prefix (segments ''/srv/data'') (segments ''/srv/app/../data/./x'')"
  by (rule path_prefix_by_segments) (simp_all add: startswith_def)

section \<open>First matching rule wins\<close>

lemma rule_based_check_skip:
  "\<forall>r \<in> set rs. rule_applies re ip_ok r name inp = Inr False \<Longrightarrow>
    rule_based_check re ip_ok (rs @ rs') dflt name inp = rule_based_check re ip_ok rs' dflt name inp"
  by (induction rs) auto

lemma rule_based_check_cases:
  "rule_based_check re ip_ok rules dflt name inp = Inr d \<Longrightarrow>
    (d = dflt \<and> (\<forall>r \<in> set rules. rule_applies re ip_ok r name inp = Inr False))
    \<or> (\<exists>before r after. rules = before @ r # after \<and> d = rule_decision r
        \<and> rule_applies re ip_ok r name inp = Inr True
        \<and> (\<forall>q \<in> set before. rule_applies re ip_ok q name inp = Inr False))"
proof (induction rules)
  case (Cons r rs)
  then obtain b where b: "rule_applies re ip_ok r name inp = Inr b" by (auto simp: bind_res_Inr_iff)
  show ?case
  proof (cases b)
    case True
    then show ?thesis using Cons.prems b by (metis append_Nil bind_res.simps(2) empty_iff empty_set
      old.sum.inject(2) rule_based_check.simps(2))
  next
    case False
    then have "rule_based_check re ip_ok rs dflt name inp = Inr d" using Cons.prems b by simp
    from Cons.IH [OF this] show ?thesis
    proof (elim disjE exE conjE)
      fix before q after
      assume "rs = before @ q # after" "d = rule_decision q" "rule_applies re ip_ok q name inp = Inr True"
        "\<forall>q \<in> set before. rule_applies re ip_ok q name inp = Inr False"
      then show ?thesis using b False
        by (intro disjI2 exI [of _ "r # before"] exI [of _ q] exI [of _ after]) auto
    qed (use b False in auto)
  qed
qed simp

text \<open>
  a rule-based policy returns the decision of the first rule that applies and of no other, and
  the default decision exactly when no rule applies; without a configured default that is a denial.
\<close>

theorem rule_based_first_match:
  "rule_based_check re ip_ok rules dflt name inp = Inr d \<longleftrightarrow>
    (d = dflt \<and> (\<forall>r. r \<in> set rules \<longrightarrow> rule_applies re ip_ok r name inp = Inr False))
    \<or> (\<exists>before r after. rules = before @ r # after \<and> d = rule_decision r
        \<and> rule_applies re ip_ok r name inp = Inr True
        \<and> (\<forall>q. q \<in> set before \<longrightarrow> rule_applies re ip_ok q name inp = Inr False))"
  (is "?L \<longleftrightarrow> ?N \<or> ?M")
proof
  assume ?L
  then show "?N \<or> ?M" using rule_based_check_cases by metis
next
  assume "?N \<or> ?M"
  then show ?L
  proof
    assume ?N
    then show ?L using rule_based_check_skip [of rules re ip_ok name inp "[]" dflt] by simp
  next
    assume ?M
    then show ?L using rule_based_check_skip by fastforce
  qed
qed

definition sample_rules :: "policy_rule list" where
  "sample_rules =
    [\<lparr>rule_tool_name = Some ''shell'', rule_path_prefix = None, rule_domain_pattern = None, rule_command_pattern = None,
      rule_decision = \<lparr>allowed = True, reason = ''shell'', requires_confirmation = True\<rparr>\<rparr>,
     \<lparr>rule_tool_name = None, rule_path_prefix = Some ''/srv'', rule_domain_pattern = None, rule_command_pattern = None,
      rule_decision = \<lparr>allowed = True, reason = ''srv'', requires_confirmation = False\<rparr>\<rparr>]"

theorem rule_based_first_match_witness:
  "rule_based_check (\<lambda>p t. None) (\<lambda>_. True) sample_rules default_rule_decision ''file'' [(''path'', JStr ''/srv/x'')]
     = Inr \<lparr>allowed = True, reason = ''srv'', requires_confirmation = False\<rparr>"
proof -
  let ?rs = "sample_rules" and ?inp = "[(''path'', JStr ''/srv/x'')]"
  have "rule_applies (\<lambda>p t. None) (\<lambda>_. True) (?rs ! 0) ''file'' ?inp = Inr False"
    "rule_applies (\<lambda>p t. None) (\<lambda>_. True) (?rs ! 1) ''file'' ?inp = Inr True" by code_simp+
  then have "\<exists>before r after. ?rs = before @ r # after \<and> rule_decision (?rs ! 1) = rule_decision r
        \<and> rule_applies (\<lambda>p t. None) (\<lambda>_. True) r ''file'' ?inp = Inr True
        \<and> (\<forall>q. q \<in> set before \<longrightarrow> rule_applies (\<lambda>p t. None) (\<lambda>_. True) q ''file'' ?inp = Inr False)"
    by (intro exI [of _ "[?rs ! 0]"] exI [of _ "?rs ! 1"] exI [of _ "[]"]) (simp add: sample_rules_def)
  then show ?thesis
    using rule_based_first_match [of "\<lambda>p t. None" "\<lambda>_. True" ?rs default_rule_decision "''file''" ?inp "rule_decision (?rs ! 1)"]
    by (simp add: sample_rules_def)
qed

section \<open>Corner cases\<close>

text \<open>A relative prefix \<open>..\<close> also covers its own parent, and \<open>.\<close> rejects a name that begins with two dots.\<close>

lemma relative_prefix_dotdot: "path_matches_prefix ''../../x'' ''..''" "\<not> path_matches_prefix ''..foo'' ''.''"
  by code_simp+

text \<open>A bracket left open in a URL makes the domain selector raise.\<close>

lemma unbalanced_bracket_raises:
  "input_domain ip_ok [(''url'', JStr ''http://[::1/x'')] = Inl (Exn ''ValueError'' ''Invalid IPv6 URL'')"
proof -
  have "url_netloc ''http://[::1/x'' = ''[::1''" "contains ''://'' ''http://[::1/x''" by code_simp+
  then show ?thesis by (simp add: input_domain_def url_hostname_def Let_def)
qed

end
