(* ===== verification/Budgets.thy ===== *)
theory Budgets
  imports Json_Text Tool_Model "HOL-Library.Multiset"
begin

text \<open>
  The guard rails that bound a run: the call budget shared by a tree of sub-agents and the
  per-agent repetition breaker (\<open>subagent/budget.py\<close>), the run budget (\<open>agent/budget.py\<close>) and
  the sliding-window detector (\<open>agent/stuck_detector.py\<close>). Each lock-protected method is one
  atomic operation on the record of the object's attributes. Counters that start at zero and are
  only incremented are \<^typ>\<open>nat\<close>; the token counter adds whatever integer a provider reports and
  is an \<^typ>\<open>int\<close>. The digest \<open>sha256(text).hexdigest()\<close> is an argument \<open>sha\<close>.
\<close>

section \<open>The budget of a sub-agent tree\<close>

record spawn_budget =
  sb_max :: nat
  sb_used :: nat
  sb_per_agent :: "(string, nat) dict"

definition positive_int :: "json \<Rightarrow> nat option" where
  "positive_int v = (case as_int v of Some i \<Rightarrow> if i < 1 then None else Some (nat i) | None \<Rightarrow> None)"

definition spawn_budget_init :: "json \<Rightarrow> spawn_budget result" where
  "spawn_budget_init m = (case positive_int m of
     None \<Rightarrow> Inl (Exn ''ValueError'' (''max_total_tool_calls must be a positive int, got '' @ py_repr m))
   | Some n \<Rightarrow> Inr \<lparr>sb_max = n, sb_used = 0, sb_per_agent = []\<rparr>)"

definition record_tool_call :: "string \<Rightarrow> string \<Rightarrow> spawn_budget \<Rightarrow> spawn_budget result" where
  "record_tool_call agent_id name b =
     (if sb_used b \<ge> sb_max b
      then Inl (Exn ''BudgetExceededError''
        (''Spawn budget exhausted: '' @ str_of_nat (sb_used b) @ ''/'' @ str_of_nat (sb_max b)
         @ '' tool calls used across the sub-agent tree when agent '' @ repr_str agent_id
         @ '' requested '' @ repr_str name))
      else Inr (b\<lparr>sb_used := sb_used b + 1,
        sb_per_agent := dset (sb_per_agent b) agent_id
          (case dget (sb_per_agent b) agent_id of None \<Rightarrow> 1 | Some n \<Rightarrow> n + 1)\<rparr>))"

definition sb_remaining :: "spawn_budget \<Rightarrow> int" where
  "sb_remaining b = int (sb_max b) - int (sb_used b)"

definition sb_exhausted :: "spawn_budget \<Rightarrow> bool" where
  "sb_exhausted b = (sb_used b \<ge> sb_max b)"

section \<open>The repetition breaker\<close>

record breaker =
  br_max :: nat
  br_last_key :: "(string \<times> string) option"
  br_count :: nat

definition breaker_init :: "json \<Rightarrow> breaker result" where
  "breaker_init m = (case positive_int m of
     None \<Rightarrow> Inl (Exn ''ValueError'' (''max_consecutive_repeats must be a positive int, got '' @ py_repr m))
   | Some n \<Rightarrow> Inr \<lparr>br_max = n, br_last_key = None, br_count = 0\<rparr>)"

definition stable_serialise :: "json \<Rightarrow> string" where
  "stable_serialise arguments = json_dumps_sorted arguments"

text \<open>The counter is updated before the limit is tested, so the state changes on the raising path too.\<close>

definition breaker_record :: "string \<Rightarrow> json \<Rightarrow> breaker \<Rightarrow> breaker \<times> exn option" where
  "breaker_record name arguments br =
     (let key = (name, stable_serialise arguments);
          br' = (if br_last_key br = Some key then br\<lparr>br_count := br_count br + 1\<rparr>
                 else br\<lparr>br_last_key := Some key, br_count := 1\<rparr>)
      in (br', if br_count br' > br_max br'
               then Some (Exn ''RepetitionLimitError''
                 (''Repetition limit exceeded: tool '' @ repr_str name @ '' called with identical arguments ''
                  @ str_of_nat (br_count br') @ '' times in a row (limit '' @ str_of_nat (br_max br') @ '')''))
               else None))"

definition breaker_reset :: "breaker \<Rightarrow> breaker" where
  "breaker_reset br = br\<lparr>br_last_key := None, br_count := 0\<rparr>"

section \<open>The run budget\<close>

record run_budget =
  rb_max_calls :: "nat option"
  rb_max_tokens :: "int option"
  rb_used_calls :: nat
  rb_used_tokens :: int

definition run_budget_init :: "json \<Rightarrow> json \<Rightarrow> run_budget result" where
  "run_budget_init max_llm_calls max_total_tokens =
     (if max_llm_calls \<noteq> JNull \<and> positive_int max_llm_calls = None
      then Inl (Exn ''ValueError'' (''max_llm_calls must be a positive int or None, got '' @ py_repr max_llm_calls))
      else if max_total_tokens \<noteq> JNull \<and> positive_int max_total_tokens = None
      then Inl (Exn ''ValueError'' (''max_total_tokens must be a positive int or None, got '' @ py_repr max_total_tokens))
      else Inr \<lparr>rb_max_calls = positive_int max_llm_calls,
                rb_max_tokens = map_option int (positive_int max_total_tokens),
                rb_used_calls = 0, rb_used_tokens = 0\<rparr>)"

definition calls_spent :: "run_budget \<Rightarrow> bool" where
  "calls_spent b = (case rb_max_calls b of None \<Rightarrow> False | Some m \<Rightarrow> rb_used_calls b \<ge> m)"

definition tokens_spent :: "run_budget \<Rightarrow> bool" where
  "tokens_spent b = (case rb_max_tokens b of None \<Rightarrow> False | Some m \<Rightarrow> rb_used_tokens b \<ge> m)"

definition run_budget_check :: "run_budget \<Rightarrow> unit result" where
  "run_budget_check b =
     (if calls_spent b then Inl (Exn ''RunBudgetExceeded''
        (''LLM call budget exhausted: '' @ str_of_nat (rb_used_calls b) @ ''/''
         @ str_of_nat (the (rb_max_calls b)) @ '' calls used''))
      else if tokens_spent b then Inl (Exn ''RunBudgetExceeded''
        (''token budget exhausted: '' @ str_of_int (rb_used_tokens b) @ ''/''
         @ str_of_int (the (rb_max_tokens b)) @ '' tokens used (input + output)''))
      else Inr ())"

definition usage_field :: "json \<Rightarrow> string \<Rightarrow> int" where
  "usage_field usage key = (case usage of
     JObj d \<Rightarrow> (case as_int (jget d key) of Some i \<Rightarrow> i | None \<Rightarrow> 0)
   | _ \<Rightarrow> 0)"

definition run_budget_record :: "json \<Rightarrow> run_budget \<Rightarrow> run_budget" where
  "run_budget_record usage b = b\<lparr>rb_used_calls := rb_used_calls b + 1,
     rb_used_tokens := rb_used_tokens b + usage_field usage ''input_tokens'' + usage_field usage ''output_tokens''\<rparr>"

definition run_budget_exhausted :: "run_budget \<Rightarrow> bool" where
  "run_budget_exhausted b = (calls_spent b \<or> tokens_spent b)"

definition opt_int :: "int option \<Rightarrow> json" where
  "opt_int m = (case m of None \<Rightarrow> JNull | Some i \<Rightarrow> JInt i)"

definition run_budget_details :: "run_budget \<Rightarrow> obj" where
  "run_budget_details b =
     [(''max_llm_calls'', opt_int (map_option int (rb_max_calls b))), (''max_total_tokens'', opt_int (rb_max_tokens b)),
      (''used_calls'', JInt (int (rb_used_calls b))), (''used_tokens'', JInt (rb_used_tokens b))]"

section \<open>The stuck detector\<close>

type_synonym observed_call = "string \<times> string \<times> string"

record stuck_detector =
  window_size :: nat
  repeat_threshold :: nat
  sd_calls :: "observed_call list"

definition stuck_init :: "int \<Rightarrow> int \<Rightarrow> stuck_detector result" where
  "stuck_init window threshold =
     (if window < 1 then Inl (Exn ''ValueError'' ''window_size must be positive'')
      else if threshold < 1 then Inl (Exn ''ValueError'' ''repeat_threshold must be positive'')
      else Inr \<lparr>window_size = nat window, repeat_threshold = nat threshold, sd_calls = []\<rparr>)"

definition observed :: "(string \<Rightarrow> string) \<Rightarrow> string \<Rightarrow> json \<Rightarrow> json \<Rightarrow> observed_call" where
  "observed sha name tool_args outcome =
     (name, sha (json_dumps_key tool_args), sha (json_dumps_key outcome))"

text \<open>\<open>deque(maxlen=window_size)\<close>: an append drops the oldest entries beyond the window.\<close>

definition stuck_observe :: "observed_call \<Rightarrow> stuck_detector \<Rightarrow> stuck_detector \<times> bool" where
  "stuck_observe call sd =
     (let calls = slice_last (window_size sd) (sd_calls sd @ [call])
      in (sd\<lparr>sd_calls := calls\<rparr>, length (filter (\<lambda>c. c = call) calls) \<ge> repeat_threshold sd))"

fun category_value :: "failure_category \<Rightarrow> string" where
  "category_value RECOVERABLE_INPUT = ''recoverable_input''"
| "category_value TRANSIENT = ''transient''"
| "category_value PERMANENT = ''permanent''"

definition outcome_of :: "tool_result \<Rightarrow> json" where
  "outcome_of r = JObj
     [(''output'', res_output r), (''error'', case res_error r of None \<Rightarrow> JNull | Some e \<Rightarrow> JStr e),
      (''failure_category'', case res_failure_category r of None \<Rightarrow> JNull | Some c \<Rightarrow> JStr (category_value c))]"

definition stuck_check :: "(string \<Rightarrow> string) \<Rightarrow> string \<Rightarrow> obj \<Rightarrow> tool_result \<Rightarrow> stuck_detector \<Rightarrow> stuck_detector \<times> bool" where
  "stuck_check sha name arguments r sd = stuck_observe (observed sha name (JObj arguments) (outcome_of r)) sd"

definition stuck_window :: "stuck_detector \<Rightarrow> json list" where
  "stuck_window sd = map (\<lambda>(n, a, r). JObj [(''tool_name'', JStr n), (''args_hash'', JStr a), (''result_hash'', JStr r)]) (sd_calls sd)"

section \<open>Bounded counters\<close>

text \<open>
  A client charges calls one after another and goes on after a refusal. \<open>run_charges\<close> gives the
  number of accepted charges and the final state.
\<close>

fun run_charges :: "('a \<Rightarrow> 's \<Rightarrow> 's result) \<Rightarrow> 'a list \<Rightarrow> 's \<Rightarrow> nat \<times> 's" where
  "run_charges charge [] s = (0, s)"
| "run_charges charge (x # xs) s = (case charge x s of
     Inl _ \<Rightarrow> run_charges charge xs s
   | Inr s' \<Rightarrow> (case run_charges charge xs s' of (n, t) \<Rightarrow> (n + 1, t)))"

locale bounded_counter =
  fixes charge :: "'a \<Rightarrow> 's \<Rightarrow> 's result"
    and used :: "'s \<Rightarrow> nat"
    and cap :: "'s \<Rightarrow> nat option"
  assumes charge_counts: "charge x s = Inr s' \<Longrightarrow> used s' = used s + 1"
    and charge_keeps_cap: "charge x s = Inr s' \<Longrightarrow> cap s' = cap s"
    and charge_guarded: "charge x s = Inr s' \<Longrightarrow> cap s = Some m \<Longrightarrow> used s < m"
begin

lemma run_counts: "run_charges charge xs s = (n, t) \<Longrightarrow> used t = used s + n \<and> cap t = cap s"
  by (induction xs arbitrary: s n t)
    (auto split: sum.splits prod.splits dest: charge_counts charge_keeps_cap)

lemma within_cap:
  "run_charges charge xs s = (n, t) \<Longrightarrow> cap s = Some m \<Longrightarrow> used s \<le> m \<Longrightarrow> used t \<le> m"
proof (induction xs arbitrary: s n t)
  case (Cons x xs)
  show ?case
  proof (cases "charge x s")
    case (Inr s')
    obtain k where k: "run_charges charge xs s' = (k, t)"
      using Cons.prems(1) Inr by (auto split: prod.splits)
    have "used s' \<le> m"
      using charge_counts [OF Inr] charge_guarded [OF Inr Cons.prems(2)] by simp
    then show ?thesis using Cons.IH [OF k] charge_keeps_cap [OF Inr] Cons.prems(2) by simp
  qed (use Cons in auto)
qed simp

lemma accepted_bounded:
  "run_charges charge xs s = (n, t) \<Longrightarrow> cap s = Some m \<Longrightarrow> used s \<le> m \<Longrightarrow> n \<le> m - used s"
  using run_counts within_cap by fastforce

end

locale exact_counter = bounded_counter +
  assumes charge_total: "cap s = Some m \<Longrightarrow> used s < m \<Longrightarrow> \<exists>s'. charge x s = Inr s'"
begin

lemma accepted_exactly:
  "run_charges charge xs s = (n, t) \<Longrightarrow> cap s = Some m \<Longrightarrow> used s \<le> m \<Longrightarrow> n = min (length xs) (m - used s)"
proof (induction xs arbitrary: s n t)
  case (Cons x xs)
  show ?case
  proof (cases "charge x s")
    case (Inl e)
    then have "used s = m" using charge_total [OF Cons.prems(2)] Cons.prems(3) by (metis Inl_Inr_False le_neq_implies_less)
    then show ?thesis using Cons.IH [of s n t] Cons.prems Inl by simp
  next
    case (Inr s')
    obtain k where k: "run_charges charge xs s' = (k, t)" "n = k + 1"
      using Cons.prems(1) Inr by (auto split: prod.splits)
    have "used s' = used s + 1" "used s < m" "cap s' = Some m"
      using charge_counts [OF Inr] charge_guarded [OF Inr Cons.prems(2)] charge_keeps_cap [OF Inr] Cons.prems(2) by simp_all
    then show ?thesis using Cons.IH [OF k(1)] k(2) by simp
  qed
qed simp

end

definition charge_spawn :: "string \<times> string \<Rightarrow> spawn_budget \<Rightarrow> spawn_budget result" where
  "charge_spawn call b = record_tool_call (fst call) (snd call) b"

text \<open>The agent tests the run budget before each model call and records the call afterwards.\<close>

definition charge_run :: "json \<Rightarrow> run_budget \<Rightarrow> run_budget result" where
  "charge_run usage b = bind_res (run_budget_check b) (\<lambda>_. Inr (run_budget_record usage b))"

interpretation spawn: exact_counter charge_spawn sb_used "\<lambda>b. Some (sb_max b)"
  by unfold_locales (auto simp: charge_spawn_def record_tool_call_def split: if_splits)

interpretation run: bounded_counter charge_run rb_used_calls rb_max_calls
  by unfold_locales
    (auto simp: charge_run_def run_budget_check_def run_budget_record_def calls_spent_def bind_res_Inr_iff split: if_splits)

definition spawn_budget_inv :: "spawn_budget \<Rightarrow> bool" where
  "spawn_budget_inv b \<longleftrightarrow> sb_used b \<le> sb_max b \<and> dwf (sb_per_agent b) \<and> sum_list (map snd (sb_per_agent b)) = sb_used b"

lemma spawn_inv_init: "spawn_budget_init m = Inr b \<Longrightarrow> spawn_budget_inv b \<and> sb_used b = 0 \<and> 0 < sb_max b"
  by (auto simp: spawn_budget_init_def spawn_budget_inv_def dwf_def positive_int_def split: option.splits if_splits)

lemma spawn_inv_charge: "spawn_budget_inv b \<Longrightarrow> charge_spawn c b = Inr b' \<Longrightarrow> spawn_budget_inv b'"
  using sum_list_dset_incr [of "sb_per_agent b" "fst c"]
  by (auto simp: charge_spawn_def record_tool_call_def spawn_budget_inv_def dwf_dset split: if_splits)

lemma spawn_inv_run: "run_charges charge_spawn xs b = (n, b') \<Longrightarrow> spawn_budget_inv b \<Longrightarrow> spawn_budget_inv b'"
  by (induction xs arbitrary: b n) (auto split: sum.splits prod.splits dest: spawn_inv_charge)

text \<open>
  from a fresh budget, any sequence of charges, by any agents of the tree, succeeds exactly
  until the cap is reached: the accepted charges are the minimum of the requests and the cap, the
  counter never exceeds the cap, and the per-agent breakdown always sums to the counter.
\<close>

theorem spawn_budget_exact:
  assumes "spawn_budget_init m = Inr b" "run_charges charge_spawn calls b = (n, b')"
  shows "n = min (length calls) (sb_max b) \<and> sb_used b' = n \<and> sb_used b' \<le> sb_max b' \<and> sb_max b' = sb_max b
    \<and> sum_list (map snd (sb_per_agent b')) = n \<and> sb_exhausted b' = (sb_max b \<le> length calls)"
  using spawn.accepted_exactly [OF assms(2)] spawn.run_counts [OF assms(2)] spawn_inv_init [OF assms(1)]
    spawn_inv_run [OF assms(2)]
  by (auto simp: spawn_budget_inv_def sb_exhausted_def)

theorem spawn_budget_exact_witness:
  "\<exists>n b'. run_charges charge_spawn [(''a'', ''t''), (''b'', ''t''), (''a'', ''u'')] \<lparr>sb_max = 2, sb_used = 0, sb_per_agent = []\<rparr> = (n, b')
    \<and> n = min 3 2 \<and> sb_exhausted b'"
proof -
  let ?b = "\<lparr>sb_max = 2, sb_used = 0, sb_per_agent = []\<rparr>" and ?c = "[(''a'', ''t''), (''b'', ''t''), (''a'', ''u'')]"
  obtain n b' where r: "run_charges charge_spawn ?c ?b = (n, b')" by force
  have "spawn_budget_init (JInt 2) = Inr ?b" by (simp add: spawn_budget_init_def positive_int_def)
  from spawn_budget_exact [OF this r] r show ?thesis by auto
qed

text \<open>
  under the agent's protocol (test before each model call, record after it) a run makes at most
  \<open>max_llm_calls\<close> model calls, whatever usage the provider reports.
\<close>

theorem run_budget_bounds_calls:
  assumes "run_budget_init (JInt (int m)) tokens = Inr b" "run_charges charge_run usages b = (n, b')"
  shows "n \<le> m \<and> rb_used_calls b' = n"
proof -
  have "rb_used_calls b = 0" "rb_max_calls b = Some m"
    using assms(1) by (auto simp: run_budget_init_def positive_int_def split: if_splits)
  then show ?thesis using run.accepted_bounded [OF assms(2)] run.run_counts [OF assms(2)] by auto
qed

theorem run_budget_bounds_calls_witness:
  "\<exists>n b'. run_charges charge_run [JNull, JNull, JNull] \<lparr>rb_max_calls = Some 2, rb_max_tokens = None, rb_used_calls = 0, rb_used_tokens = 0\<rparr> = (n, b')
     \<and> n \<le> 2 \<and> rb_used_calls b' = n"
proof -
  let ?b = "\<lparr>rb_max_calls = Some 2, rb_max_tokens = None, rb_used_calls = 0, rb_used_tokens = 0\<rparr>"
  obtain n b' where r: "run_charges charge_run [JNull, JNull, JNull] ?b = (n, b')" by force
  have "run_budget_init (JInt (int 2)) JNull = Inr ?b" by (simp add: run_budget_init_def positive_int_def)
  from run_budget_bounds_calls [OF this r] r show ?thesis by auto
qed

section \<open>The breaker trips on long runs of identical calls only\<close>

fun breaker_run :: "(string \<times> json) list \<Rightarrow> breaker \<Rightarrow> breaker" where
  "breaker_run [] br = br"
| "breaker_run (c # cs) br = breaker_run cs (fst (breaker_record (fst c) (snd c) br))"

definition call_key :: "string \<times> json \<Rightarrow> string \<times> string" where
  "call_key c = (fst c, stable_serialise (snd c))"

text \<open>The reference: how many of the most recent keys equal \<open>k\<close>, without interruption.\<close>

definition recent_run :: "'k \<Rightarrow> 'k list \<Rightarrow> nat" where
  "recent_run k ks = length (takeWhile (\<lambda>j. j = k) (rev ks))"

definition tracks :: "(string \<times> string) list \<Rightarrow> breaker \<Rightarrow> bool" where
  "tracks ks br \<longleftrightarrow> (if ks = [] then br_last_key br = None else br_last_key br = Some (last ks) \<and> br_count br = recent_run (last ks) ks)"

lemma recent_run_snoc: "recent_run k (ks @ [j]) = (if j = k then recent_run k ks + 1 else 0)"
  by (simp add: recent_run_def)

lemma recent_run_other: "ks \<noteq> [] \<Longrightarrow> last ks \<noteq> k \<Longrightarrow> recent_run k ks = 0"
  by (cases ks rule: rev_cases) (auto simp: recent_run_def)

lemma breaker_record_tracks:
  assumes "tracks ks br" "breaker_record name arguments br = (br', r)"
  defines "k \<equiv> call_key (name, arguments)"
  shows "tracks (ks @ [k]) br' \<and> br_max br' = br_max br \<and> (r \<noteq> None \<longleftrightarrow> recent_run k ks \<ge> br_max br)"
proof (cases "ks = []")
  case True
  then show ?thesis using assms
    by (auto simp: tracks_def breaker_record_def call_key_def recent_run_def Let_def split: if_splits)
next
  case False
  then show ?thesis using assms recent_run_other [OF False, of k]
    by (auto simp: tracks_def breaker_record_def call_key_def recent_run_snoc Let_def split: if_splits)
qed

lemma breaker_run_tracks:
  "tracks ks br \<Longrightarrow> tracks (ks @ map call_key cs) (breaker_run cs br) \<and> br_max (breaker_run cs br) = br_max br"
proof (induction cs arbitrary: ks br)
  case (Cons c cs)
  obtain br' r where r: "breaker_record (fst c) (snd c) br = (br', r)" by force
  from breaker_record_tracks [OF Cons.prems r] Cons.IH [of "ks @ [call_key c]" br'] r
  show ?case by (simp add: call_key_def)
qed simp

text \<open>
  after any history of calls (including ones it refused), the breaker refuses a call exactly when
  the calls just before it already form an uninterrupted run of \<open>max_consecutive_repeats\<close> calls with
  the same tool name and the same serialised arguments.
\<close>

theorem breaker_trips_exactly:
  assumes "breaker_init m = Inr br"
  shows "snd (breaker_record name arguments (breaker_run history br)) \<noteq> None \<longleftrightarrow>
    br_max br \<le> recent_run (call_key (name, arguments)) (map call_key history)"
proof -
  have "tracks [] br" using assms by (auto simp: breaker_init_def tracks_def split: option.splits)
  then have h: "tracks (map call_key history) (breaker_run history br)" "br_max (breaker_run history br) = br_max br"
    using breaker_run_tracks [of "[]" br history] by simp_all
  obtain br' r where "breaker_record name arguments (breaker_run history br) = (br', r)" by force
  with breaker_record_tracks [OF h(1) this] h(2) show ?thesis by simp
qed

theorem breaker_trips_exactly_witness:
  "snd (breaker_record ''ls'' (JObj []) (breaker_run [(''cat'', JNull), (''ls'', JObj []), (''ls'', JObj [])]
     \<lparr>br_max = 2, br_last_key = None, br_count = 0\<rparr>)) \<noteq> None"
proof -
  have "breaker_init (JInt 2) = Inr \<lparr>br_max = 2, br_last_key = None, br_count = 0\<rparr>"
    by (simp add: breaker_init_def positive_int_def)
  from breaker_trips_exactly [OF this, of "''ls''" "JObj []" "[(''cat'', JNull), (''ls'', JObj []), (''ls'', JObj [])]"]
  show ?thesis by (simp add: recent_run_def call_key_def del: breaker_run.simps)
qed

text \<open>Argument order is irrelevant: sorting makes the serialisation of permuted objects equal.\<close>

lemma sort_key_perm:
  assumes "mset xs = mset ys" "distinct (map f xs)"
  shows "sort_key f xs = sort_key f ys"
proof (rule map_sorted_distinct_set_unique [of f])
  have "distinct (map f ys)" using assms by (metis mset_eq_imp_distinct_iff mset_map)
  then show "distinct (map f (sort_key f ys))" by (simp add: distinct_map)
  show "distinct (map f (sort_key f xs))" using assms(2) by (simp add: distinct_map)
  show "inj_on f (set (sort_key f xs) \<union> set (sort_key f ys))"
    using assms(2) mset_eq_setD [OF assms(1)] by (simp add: distinct_map)
  show "set (sort_key f xs) = set (sort_key f ys)" unfolding set_sort by (rule mset_eq_setD [OF assms(1)])
qed simp_all

lemma serialise_ignores_order:
  assumes "mset d = mset e" "dwf d"
  shows "stable_serialise (JObj d) = stable_serialise (JObj e)"
proof -
  have "mset (map (\<lambda>(k, v). (k, sort_json v)) d) = mset (map (\<lambda>(k, v). (k, sort_json v)) e)"
    using assms(1) by simp
  moreover have "map fst (map (\<lambda>(k, v). (k, sort_json v)) d) = map fst d" by (simp add: case_prod_unfold)
  ultimately have "sort_json (JObj d) = sort_json (JObj e)"
    using sort_key_perm [of _ _ fst] assms(2) unfolding dwf_def sort_json.simps by metis
  then show ?thesis by (simp add: stable_serialise_def json_dumps_sorted_def)
qed

section \<open>The stuck detector counts within its window\<close>

fun stuck_run :: "observed_call list \<Rightarrow> stuck_detector \<Rightarrow> stuck_detector" where
  "stuck_run [] sd = sd"
| "stuck_run (c # cs) sd = stuck_run cs (fst (stuck_observe c sd))"

lemma slice_last_slice: "0 < n \<Longrightarrow> slice_last n (slice_last n xs @ [x]) = slice_last n (xs @ [x])"
  by (cases "length xs \<le> n") (simp_all add: slice_last_def drop_Cons' Suc_diff_le)

lemma stuck_run_window:
  assumes "0 < window_size sd" "sd_calls sd = slice_last (window_size sd) past"
  shows "sd_calls (stuck_run cs sd) = slice_last (window_size sd) (past @ cs)
    \<and> window_size (stuck_run cs sd) = window_size sd \<and> repeat_threshold (stuck_run cs sd) = repeat_threshold sd"
  using assms
proof (induction cs arbitrary: sd past)
  case (Cons c cs)
  have "sd_calls (fst (stuck_observe c sd)) = slice_last (window_size sd) (past @ [c])"
    using Cons.prems by (simp add: stuck_observe_def Let_def slice_last_slice)
  then show ?case
    using Cons.IH [of "fst (stuck_observe c sd)" "past @ [c]"] Cons.prems by (simp add: stuck_observe_def Let_def)
qed simp

text \<open>
  the detector reports a call exactly when, counting itself, the same call with the same outcome
  occurs at least \<open>repeat_threshold\<close> times among the last \<open>window_size\<close> observations.
\<close>

theorem stuck_detector_exact:
  assumes "stuck_init window threshold = Inr sd"
  shows "snd (stuck_observe call (stuck_run history sd)) \<longleftrightarrow>
    nat threshold \<le> count_list (slice_last (nat window) (history @ [call])) call"
proof -
  have sd: "0 < window_size sd" "window_size sd = nat window" "repeat_threshold sd = nat threshold" "sd_calls sd = []"
    using assms by (auto simp: stuck_init_def split: if_splits)
  then have "sd_calls sd = slice_last (window_size sd) []" by (simp add: slice_last_def)
  note run = stuck_run_window [OF sd(1) this, of history]
  have "length (filter (\<lambda>c. c = call) xs) = count_list xs call" for xs
    by (induction xs) auto
  then show ?thesis using run sd by (simp add: stuck_observe_def Let_def slice_last_slice)
qed

theorem stuck_detector_exact_witness:
  "snd (stuck_observe (''ls'', ''a'', ''r'') (stuck_run [(''ls'', ''a'', ''r''), (''cat'', ''b'', ''r'')]
     \<lparr>window_size = 3, repeat_threshold = 2, sd_calls = []\<rparr>))"
proof -
  have "stuck_init 3 2 = Inr \<lparr>window_size = 3, repeat_threshold = 2, sd_calls = []\<rparr>" by (simp add: stuck_init_def)
  from stuck_detector_exact [OF this, of "(''ls'', ''a'', ''r'')" "[(''ls'', ''a'', ''r''), (''cat'', ''b'', ''r'')]"]
  show ?thesis by (simp add: slice_last_def del: stuck_run.simps)
qed

text \<open>A threshold above the window size is accepted and makes the detector silent.\<close>

lemma stuck_never_fires:
  assumes "stuck_init window threshold = Inr sd" "threshold > window"
  shows "\<not> snd (stuck_observe call (stuck_run history sd))"
proof -
  have sd: "0 < window_size sd" "window_size sd = nat window" "repeat_threshold sd = nat threshold" "sd_calls sd = []" "0 < window"
    using assms by (auto simp: stuck_init_def split: if_splits)
  then have "sd_calls sd = slice_last (window_size sd) []" by (simp add: slice_last_def)
  note run = stuck_run_window [OF sd(1) this, of history]
  have "length (filter (\<lambda>c. c = call) (slice_last (nat window) xs)) \<le> nat window" for xs
    using slice_last_length [of "nat window" xs] sd(5) length_filter_le [of "\<lambda>c. c = call" "slice_last (nat window) xs"] by simp
  then have "length (filter (\<lambda>c. c = call) (slice_last (nat window) xs)) < nat threshold" for xs
    by (meson assms(2) le_less_trans nat_mono_iff sd(5) less_trans)
  then show ?thesis using run sd by (simp add: stuck_observe_def Let_def not_le)
qed

end
