(* ===== verification/Conversation.thy ===== *)
theory Conversation
  imports Json_Text
begin

text \<open>
  Conversation history and its persistence: \<open>conversation/state.py\<close>, \<open>conversation/store.py\<close> and
  \<open>conversation/checkpoint.py\<close>. A message is the raw dictionary the provider exchanges. The file
  system is a map from paths to texts; a save writes a temporary file and renames it over the
  target. The loader does not test the types of \<open>system_prompt\<close> and \<open>max_messages\<close>; the model
  covers the values of the annotated types and marks the others with the class \<open>Unmodelled\<close>. The
  wording of decoder errors is not modelled.
\<close>

section \<open>State (\<open>conversation/state.py\<close>)\<close>

type_synonym message = obj

record conversation_state =
  system_prompt :: "string option"
  messages :: "message list"
  max_messages :: "int option"
  metadata :: obj

definition empty_state :: conversation_state where
  "empty_state = \<lparr>system_prompt = None, messages = [], max_messages = None, metadata = []\<rparr>"

text \<open>The loop \<open>while len > max and len > 1: pop(0)\<close>.\<close>

fun pop_oldest :: "int \<Rightarrow> 'm list \<Rightarrow> 'm list" where
  "pop_oldest cap [] = []"
| "pop_oldest cap (m # ms) = (if int (length (m # ms)) > cap \<and> length (m # ms) > 1 then pop_oldest cap ms else m # ms)"

definition enforce_cap :: "conversation_state \<Rightarrow> conversation_state" where
  "enforce_cap st = (case max_messages st of None \<Rightarrow> st | Some cap \<Rightarrow> st\<lparr>messages := pop_oldest cap (messages st)\<rparr>)"

definition append_message :: "message \<Rightarrow> conversation_state \<Rightarrow> conversation_state" where
  "append_message m st = enforce_cap (st\<lparr>messages := messages st @ [m]\<rparr>)"

definition user_message :: "string \<Rightarrow> message" where
  "user_message content = [(''role'', JStr ''user''), (''content'', JStr content)]"

definition add_user_message :: "string \<Rightarrow> conversation_state \<Rightarrow> conversation_state" where
  "add_user_message content st = append_message (user_message content) st"

definition add_user_message_with_image :: "string \<Rightarrow> string \<Rightarrow> string \<Rightarrow> conversation_state \<Rightarrow> conversation_state" where
  "add_user_message_with_image txt image_base64 media_type st = append_message
     [(''role'', JStr ''user''),
      (''content'', JArr
        [JObj [(''type'', JStr ''text''), (''text'', JStr txt)],
         JObj [(''type'', JStr ''image''),
               (''source'', JObj [(''type'', JStr ''base64''), (''media_type'', JStr media_type), (''data'', JStr image_base64)])]])] st"

definition assistant_message :: "json \<Rightarrow> message" where
  "assistant_message content = [(''role'', JStr ''assistant''), (''content'', content)]"

definition add_assistant :: "json \<Rightarrow> conversation_state \<Rightarrow> conversation_state" where
  "add_assistant content st = append_message (assistant_message content) st"

definition tool_result_message :: "string \<Rightarrow> json \<Rightarrow> bool \<Rightarrow> message" where
  "tool_result_message tool_call_id out err =
     [(''role'', JStr ''user''),
      (''content'', JArr [JObj ([(''type'', JStr ''tool_result''), (''tool_use_id'', JStr tool_call_id),
         (''content'', JStr (py_str out))] @ (if err then [(''is_error'', JBool True)] else []))])]"

definition add_tool_result :: "string \<Rightarrow> json \<Rightarrow> bool \<Rightarrow> conversation_state \<Rightarrow> conversation_state" where
  "add_tool_result tool_call_id out err st = append_message (tool_result_message tool_call_id out err) st"

definition for_llm :: "conversation_state \<Rightarrow> string option \<times> message list" where
  "for_llm st = (system_prompt st, messages st)"

definition reset_state :: "conversation_state \<Rightarrow> conversation_state" where
  "reset_state st = st\<lparr>messages := []\<rparr>"

section \<open>Persistence (\<open>conversation/store.py\<close>)\<close>

definition opt_json :: "('a \<Rightarrow> json) \<Rightarrow> 'a option \<Rightarrow> json" where
  "opt_json f x = (case x of None \<Rightarrow> JNull | Some v \<Rightarrow> f v)"

definition state_to_dict :: "conversation_state \<Rightarrow> json" where
  "state_to_dict st = JObj
     [(''system_prompt'', opt_json JStr (system_prompt st)), (''messages'', JArr (map JObj (messages st))),
      (''max_messages'', opt_json JInt (max_messages st)), (''metadata'', JObj (metadata st))]"

text \<open>\<open>dict(v)\<close> of a value that is not a dict: pairs are taken from the elements of a list.\<close>

fun pair_of :: "json \<Rightarrow> (string \<times> json) result" where
  "pair_of (JArr [JStr k, v]) = Inr (k, v)"
| "pair_of (JArr [k, v]) = Inl (Exn ''Unmodelled'' ''non-string key'')"
| "pair_of (JStr [a, b]) = Inr ([a], JStr [b])"
| "pair_of (JObj [(a, u), (b, w)]) = Inr (a, JStr b)"
| "pair_of (JArr _) = Inl (Exn ''ValueError'' ''dictionary update sequence element has wrong length'')"
| "pair_of (JStr _) = Inl (Exn ''ValueError'' ''dictionary update sequence element has wrong length'')"
| "pair_of (JObj _) = Inl (Exn ''ValueError'' ''dictionary update sequence element has wrong length'')"
| "pair_of _ = Inl (Exn ''TypeError'' ''cannot convert dictionary update sequence element to a sequence'')"

fun dict_of_list :: "json list \<Rightarrow> obj \<Rightarrow> obj result" where
  "dict_of_list [] acc = Inr acc"
| "dict_of_list (x # xs) acc = bind_res (pair_of x) (\<lambda>(k, v). dict_of_list xs (dset acc k v))"

definition py_dict :: "json \<Rightarrow> obj result" where
  "py_dict v = (case v of
     JObj d \<Rightarrow> Inr d
   | JArr xs \<Rightarrow> dict_of_list xs []
   | JStr _ \<Rightarrow> Inl (Exn ''ValueError'' ''dictionary update sequence element #0 has length 1; 2 is required'')
   | _ \<Rightarrow> Inl (Exn ''TypeError'' ''object is not iterable''))"

fun as_dicts :: "json list \<Rightarrow> obj list option" where
  "as_dicts [] = Some []"
| "as_dicts (JObj d # xs) = map_option (\<lambda>ds. d # ds) (as_dicts xs)"
| "as_dicts (_ # xs) = None"

definition annotated_str :: "json \<Rightarrow> string option result" where
  "annotated_str v = (case v of JNull \<Rightarrow> Inr None | JStr s \<Rightarrow> Inr (Some s) | _ \<Rightarrow> Inl (Exn ''Unmodelled'' ''system_prompt''))"

definition annotated_int :: "json \<Rightarrow> int option result" where
  "annotated_int v = (case v of JNull \<Rightarrow> Inr None | JInt i \<Rightarrow> Inr (Some i) | _ \<Rightarrow> Inl (Exn ''Unmodelled'' ''max_messages''))"

definition state_from_dict :: "json \<Rightarrow> conversation_state result" where
  "state_from_dict data = (case data of
     JObj d \<Rightarrow>
       (case (case jget d ''messages'' of JArr ms \<Rightarrow> as_dicts ms | _ \<Rightarrow> None) of
          None \<Rightarrow> Inl (Exn ''ValueError'' ''state.messages must be a list of dicts'')
        | Some ms \<Rightarrow>
            bind_res (if truthy (jget d ''metadata'') then py_dict (jget d ''metadata'') else Inr []) (\<lambda>meta.
            bind_res (annotated_str (jget d ''system_prompt'')) (\<lambda>sys.
            bind_res (annotated_int (jget d ''max_messages'')) (\<lambda>cap.
              Inr \<lparr>system_prompt = sys, messages = ms, max_messages = cap, metadata = meta\<rparr>))))
   | _ \<Rightarrow> Inl (Exn ''TypeError'' ''state payload must be a dict''))"

type_synonym files = "string \<Rightarrow> string option"

definition save_payload :: "conversation_state \<Rightarrow> json" where
  "save_payload st = JObj [(''schema_version'', JInt 1), (''state'', state_to_dict st)]"

definition store_save :: "string \<Rightarrow> conversation_state \<Rightarrow> files \<Rightarrow> files" where
  "store_save path st fs = fs(path \<mapsto> json_dumps_utf8 (save_payload st))"

definition store_error :: "string \<Rightarrow> string \<Rightarrow> exn" where
  "store_error path why = Exn ''ConversationStoreError'' (''Cannot load conversation from '' @ path @ '': '' @ why)"

definition store_load :: "float_conv \<Rightarrow> string \<Rightarrow> files \<Rightarrow> conversation_state option result" where
  "store_load fl path fs = (case fs path of
     None \<Rightarrow> Inr None
   | Some content \<Rightarrow>
       (case json_loads fl content of
          None \<Rightarrow> Inl (store_error path ''invalid JSON'')
        | Some (JObj payload) \<Rightarrow>
            if \<not> dhas payload ''state'' then Inl (store_error path ''not a conversation file'')
            else if \<not> py_eq (jget payload ''schema_version'') (JInt 1)
            then Inl (store_error path (''schema version '' @ py_repr (jget payload ''schema_version'')
                   @ '' is not supported (expected 1)''))
            else (case state_from_dict (jget payload ''state'') of
                Inl e \<Rightarrow> Inl (store_error path (exn_msg e))
              | Inr st \<Rightarrow> Inr (Some st))
        | Some _ \<Rightarrow> Inl (store_error path ''not a conversation file'')))"

definition store_delete :: "string \<Rightarrow> files \<Rightarrow> files" where
  "store_delete path fs = fs(path := None)"

section \<open>Checkpoints (\<open>conversation/checkpoint.py\<close>)\<close>

definition fork_store :: "(files \<Rightarrow> conversation_state option result) \<Rightarrow> string \<Rightarrow> files \<Rightarrow> files result" where
  "fork_store source_load destination fs =
     (if fs destination \<noteq> None
      then Inl (Exn ''CheckpointError'' (''fork destination '' @ destination @ '' already exists (refusing to overwrite)''))
      else bind_res (source_load fs) (\<lambda>st. Inr (case st of None \<Rightarrow> fs | Some s \<Rightarrow> store_save destination s fs)))"

definition is_block :: "string \<Rightarrow> json \<Rightarrow> bool" where
  "is_block ty b = (case b of JObj d \<Rightarrow> jget d ''type'' = JStr ty | _ \<Rightarrow> False)"

definition content_blocks :: "message \<Rightarrow> json list" where
  "content_blocks m = (case jget m ''content'' of JArr bs \<Rightarrow> bs | _ \<Rightarrow> [])"

definition dangling_tail :: "message list \<Rightarrow> bool" where
  "dangling_tail ms = (ms \<noteq> [] \<and> jget (last ms) ''role'' = JStr ''assistant''
     \<and> list_ex (is_block ''tool_use'') (content_blocks (last ms)))"

definition rewind_state :: "conversation_state \<Rightarrow> json \<Rightarrow> conversation_state result" where
  "rewind_state st keep_messages = (case as_int keep_messages of
     None \<Rightarrow> Inl (Exn ''CheckpointError'' (''keep_messages must be a non-negative int, got '' @ py_repr keep_messages))
   | Some k \<Rightarrow>
       if k < 0 then Inl (Exn ''CheckpointError'' (''keep_messages must be a non-negative int, got '' @ py_repr keep_messages))
       else let ms = take (nat k) (messages st) in
         if dangling_tail ms
         then Inl (Exn ''CheckpointError'' ''rewind cut lands on a dangling tool_use (history would not replay); cut one message earlier/later'')
         else Inr \<lparr>system_prompt = system_prompt st, messages = ms, max_messages = max_messages st, metadata = metadata st\<rparr>)"

section \<open>The cap on the history\<close>

lemma pop_oldest_drop: "pop_oldest cap ms = drop (length ms - nat (max 1 cap)) ms"
proof (induction cap ms rule: pop_oldest.induct)
  case (2 cap m ms)
  show ?case
  proof (cases "int (length (m # ms)) > cap \<and> length (m # ms) > 1")
    case True
    then have "length (m # ms) - nat (max 1 cap) = Suc (length ms - nat (max 1 cap))" by (auto simp: max_def)
    then show ?thesis using 2 True by simp
  next
    case False
    then have "length (m # ms) - nat (max 1 cap) = 0" by (auto simp: max_def)
    then show ?thesis using False by auto
  qed
qed simp

text \<open>
  appending a message keeps exactly the newest messages of the history, at most
  \<open>max(1, max_messages)\<close> of them, in order, and always the appended one; nothing else of the state changes.
\<close>

theorem append_message_keeps_newest:
  "messages (append_message m st) = (case max_messages st of
      None \<Rightarrow> messages st @ [m]
    | Some cap \<Rightarrow> drop (length (messages st) + 1 - nat (max 1 cap)) (messages st @ [m]))
   \<and> last (messages (append_message m st)) = m
   \<and> append_message m st = st\<lparr>messages := messages (append_message m st)\<rparr>"
proof (cases "max_messages st")
  case None
  then show ?thesis by (simp add: append_message_def enforce_cap_def)
next
  case (Some cap)
  have "last (drop (length (messages st) + 1 - nat (max 1 cap)) (messages st @ [m])) = m"
    by (subst last_drop) auto
  then show ?thesis using Some by (simp add: append_message_def enforce_cap_def pop_oldest_drop)
qed

text \<open>The original task is not protected: at the cap the first user turn is what goes.\<close>

lemma cap_drops_first_user_turn:
  "messages (add_user_message ''next'' (empty_state\<lparr>max_messages := Some 1, messages := [user_message ''task'']\<rparr>))
     = [user_message ''next'']"
  by (simp add: add_user_message_def append_message_def enforce_cap_def empty_state_def)

section \<open>Save, load, delete\<close>

definition storable :: "float_conv \<Rightarrow> conversation_state \<Rightarrow> bool" where
  "storable fl st = json_wf fl (save_payload st)"

text \<open>The contract of a document store (\<open>ConversationStore\<close>, \<open>TodoStore\<close>, \<open>ReplayStore\<close>), over any backend state.\<close>

locale document_store =
  fixes save :: "'d \<Rightarrow> 's \<Rightarrow> 's"
    and load :: "'s \<Rightarrow> 'd option result"
    and delete :: "'s \<Rightarrow> 's"
    and ok :: "'d \<Rightarrow> bool"
  assumes load_save: "ok st \<Longrightarrow> load (save st s) = Inr (Some st)"
    and load_delete: "load (delete s) = Inr None"
begin

lemma last_save_wins: "sts \<noteq> [] \<Longrightarrow> ok (last sts) \<Longrightarrow> load (fold save sts s) = Inr (Some (last sts))"
  by (cases sts rule: rev_cases) (simp_all add: load_save)

lemma delete_forgets: "load (delete (fold save sts s)) = Inr None"
  by (rule load_delete)

end

lemma as_dicts_map [simp]: "as_dicts (map JObj ms) = Some ms"
  by (induction ms) auto

lemma state_dict_roundtrip: "state_from_dict (state_to_dict st) = Inr st"
  by (cases "system_prompt st"; cases "max_messages st")
    (auto simp: state_from_dict_def state_to_dict_def opt_json_def annotated_str_def annotated_int_def py_dict_def)

lemma store_load_save: "storable fl st \<Longrightarrow> store_load fl path (store_save path st fs) = Inr (Some st)"
proof -
  assume "storable fl st"
  then have "json_loads fl (json_dumps_utf8 (save_payload st)) = Some (save_payload st)"
    by (simp add: storable_def json_dumps_utf8_def json_loads_dumps std_opts_spaced)
  then show ?thesis
    by (simp add: store_load_def store_save_def)
      (simp add: save_payload_def dhas_def state_dict_roundtrip)
qed

interpretation file_store: document_store "store_save path" "store_load fl path" "store_delete path" "storable fl"
  for fl path
  by unfold_locales (simp_all add: store_load_save, simp add: store_load_def store_delete_def)

text \<open>
  C37: a conversation written to its file is read back unchanged, through the actual JSON text, and
  after any sequence of saves the last one is what a resumed agent sees; a deleted file reads as no
  conversation.
\<close>

theorem store_roundtrip:
  assumes "storable fl st"
  shows "store_load fl path (fold (store_save path) (earlier @ [st]) fs) = Inr (Some st)
    \<and> store_load fl path (store_delete path fs) = Inr None"
  using file_store.last_save_wins [of "earlier @ [st]" fl path fs] file_store.load_delete assms by simp

theorem store_roundtrip_witness:
  "store_load (\<lambda>s. (0, s)) ''c.json'' (fold (store_save ''c.json'')
     ([empty_state] @ [empty_state\<lparr>messages := [user_message ''hi''], max_messages := Some 7\<rparr>]) Map.empty)
   = Inr (Some (empty_state\<lparr>messages := [user_message ''hi''], max_messages := Some 7\<rparr>))"
proof -
  have "storable (\<lambda>s. (0, s)) (empty_state\<lparr>messages := [user_message ''hi''], max_messages := Some 7\<rparr>)" by code_simp
  from store_roundtrip [OF this] show ?thesis by blast
qed

text \<open>
  The steps of one save, any of which may be the last one before a crash: create the temporary file,
  write it piece by piece, rename it over the target; an exception removes the temporary file.
\<close>

datatype save_phase = Idle | Writing nat | Renamed | Aborted

inductive save_step :: "string \<Rightarrow> string \<Rightarrow> string \<Rightarrow> save_phase \<times> files \<Rightarrow> save_phase \<times> files \<Rightarrow> bool"
  for path :: string and tmp :: string and doc :: string where
  create_temp: "fs tmp = None \<Longrightarrow> save_step path tmp doc (Idle, fs) (Writing 0, fs(tmp \<mapsto> []))"
| write_piece: "n < length doc \<Longrightarrow> save_step path tmp doc (Writing n, fs) (Writing (Suc n), fs(tmp \<mapsto> take (Suc n) doc))"
| rename_over: "save_step path tmp doc (Writing (length doc), fs) (Renamed, fs(path := fs tmp, tmp := None))"
| give_up: "save_step path tmp doc (Writing n, fs) (Aborted, fs(tmp := None))"

inductive_cases save_stepE: "save_step path tmp doc (ph, fs) (ph', fs')"

definition save_inv :: "string \<Rightarrow> string \<Rightarrow> string \<Rightarrow> files \<Rightarrow> save_phase \<times> files \<Rightarrow> bool" where
  "save_inv path tmp doc fs0 c = (case c of
     (Idle, fs) \<Rightarrow> fs = fs0
   | (Writing n, fs) \<Rightarrow> fs0 tmp = None \<and> fs = fs0(tmp \<mapsto> take n doc)
   | (Renamed, fs) \<Rightarrow> fs0 tmp = None \<and> fs = fs0(path \<mapsto> doc)
   | (Aborted, fs) \<Rightarrow> fs = fs0)"

lemma save_inv_step:
  "save_step path tmp doc c c' \<Longrightarrow> tmp \<noteq> path \<Longrightarrow> save_inv path tmp doc fs0 c \<Longrightarrow> save_inv path tmp doc fs0 c'"
  by (induction rule: save_step.induct) (auto simp: save_inv_def fun_upd_twist)

lemma save_inv_reachable:
  "(save_step path tmp doc)\<^sup>*\<^sup>* c c' \<Longrightarrow> tmp \<noteq> path \<Longrightarrow> save_inv path tmp doc fs0 c \<Longrightarrow> save_inv path tmp doc fs0 c'"
  by (induction rule: rtranclp_induct) (auto dest: save_inv_step)

text \<open>
  C38: wherever a save is interrupted, the target file holds either what it held before or the whole
  new document; a completed save is the atomic update, and a failed one leaves no trace.
\<close>

theorem save_crash_safe:
  assumes "(save_step path tmp (json_dumps_utf8 (save_payload st)))\<^sup>*\<^sup>* (Idle, fs0) (ph, fs)" "tmp \<noteq> path"
  shows "(fs path = fs0 path \<or> fs path = Some (json_dumps_utf8 (save_payload st)))
    \<and> (ph = Renamed \<longrightarrow> fs = store_save path st fs0) \<and> (ph = Aborted \<longrightarrow> fs = fs0)"
proof -
  have "save_inv path tmp (json_dumps_utf8 (save_payload st)) fs0 (ph, fs)"
    using save_inv_reachable [OF assms] by (simp add: save_inv_def)
  then show ?thesis
    using assms(2) by (cases ph) (auto simp: save_inv_def store_save_def)
qed

theorem save_crash_safe_witness:
  "\<exists>fs. (save_step ''c'' ''t'' (json_dumps_utf8 (save_payload empty_state)))\<^sup>*\<^sup>* (Idle, [''c'' \<mapsto> ''old'']) (Writing 1, fs)
     \<and> (fs ''c'' = Some ''old'' \<or> fs ''c'' = Some (json_dumps_utf8 (save_payload empty_state)))"
proof -
  let ?doc = "json_dumps_utf8 (save_payload empty_state)" and ?fs = "[''c'' \<mapsto> ''old'']"
  have "0 < length ?doc" by (simp add: json_dumps_utf8_def save_payload_def)
  then have "(save_step ''c'' ''t'' ?doc)\<^sup>*\<^sup>* (Idle, ?fs) (Writing 1, (?fs(''t'' \<mapsto> []))(''t'' \<mapsto> take (Suc 0) ?doc))"
    using save_step.create_temp [of ?fs "''t''" "''c''" ?doc] save_step.write_piece [of 0 ?doc "''c''" "''t''" "?fs(''t'' \<mapsto> [])"]
    by (simp add: rtranclp.rtrancl_into_rtrancl)
  from save_crash_safe [OF this] this show ?thesis by (intro exI conjI) (assumption, simp)
qed

text \<open>A branch starts with the saved conversation and never overwrites or disturbs its source.\<close>

lemma fork_store_independent:
  assumes "store_load fl src fs = Inr (Some st)" "storable fl st" "src \<noteq> dst" "fs dst = None"
  shows "\<exists>fs'. fork_store (store_load fl src) dst fs = Inr fs' \<and> store_load fl dst fs' = Inr (Some st) \<and> fs' src = fs src"
  using assms by (simp add: fork_store_def store_load_save) (simp add: store_save_def)

text \<open>
  a rewind succeeds exactly for a non-negative cut that does not end on an assistant message
  requesting tools; it keeps that prefix of the history and every other field.
\<close>

theorem rewind_state_exact:
  "rewind_state st keep = Inr st' \<longleftrightarrow>
    (\<exists>k. as_int keep = Some k \<and> 0 \<le> k \<and> \<not> dangling_tail (take (nat k) (messages st))
      \<and> st' = st\<lparr>messages := take (nat k) (messages st)\<rparr>)"
  by (cases "as_int keep") (auto simp: rewind_state_def Let_def)

text \<open>Within a group of parallel calls the cut is accepted although a request stays unanswered.\<close>

definition parallel_group :: conversation_state where
  "parallel_group = empty_state\<lparr>messages :=
     [user_message ''go'',
      assistant_message (JArr [JObj [(''type'', JStr ''tool_use''), (''id'', JStr ''a'')],
                               JObj [(''type'', JStr ''tool_use''), (''id'', JStr ''b'')]]),
      tool_result_message ''a'' (JStr ''1'') False, tool_result_message ''b'' (JStr ''2'') False]\<rparr>"

lemma rewind_splits_parallel_group:
  "rewind_state parallel_group (JInt 3) = Inr (parallel_group\<lparr>messages := take 3 (messages parallel_group)\<rparr>)"
  by code_simp

end
