(* ===== verification/Events_Hooks.thy ===== *)
theory Events_Hooks
  imports Json_Text Tool_Model Security_Policy
begin

text \<open>
  The event bus (\<open>event/bus.py\<close>) and the hook registry (\<open>hooks/base.py\<close>, \<open>hooks/registry.py\<close>).
  A callable is its identity, which is what \<open>==\<close> compares, and its effect on the outside world
  \<open>'w\<close>; a coroutine function only yields an awaitable when called. Registration lists are kept
  per key in insertion order. The two registries share one contract, the locale \<open>listing\<close>.

  The hooks of a point are those registered when it is triggered: hooks are taken not to register or
  unregister hooks of that point meanwhile (the code iterates over the live list, so a hook that
  unregisters itself makes the next one be skipped), to raise only \<open>Exception\<close>s, and to return awaitables
  that can be closed. The registry reports a failing hook on the bus it is given.
\<close>

section \<open>Events\<close>

record event =
  event_type :: string
  event_payload :: obj
  event_source :: "string option"

record 'w subscriber =
  sub_id :: nat
  sub_async :: bool
  sub_call :: "event \<Rightarrow> 'w \<Rightarrow> unit result \<times> 'w"

type_synonym 'w event_bus = "(string, 'w subscriber list) dict"

definition same_subscriber :: "'w subscriber \<Rightarrow> 'w subscriber \<Rightarrow> bool" where
  "same_subscriber s t = (sub_id s = sub_id t)"

text \<open>\<open>x in xs\<close>, \<open>xs.append(x)\<close> unless present, and \<open>xs.remove(x)\<close>, for an equality test.\<close>

definition mem_by :: "('a \<Rightarrow> 'a \<Rightarrow> bool) \<Rightarrow> 'a \<Rightarrow> 'a list \<Rightarrow> bool" where
  "mem_by eq x xs = list_ex (eq x) xs"

definition add_by :: "('a \<Rightarrow> 'a \<Rightarrow> bool) \<Rightarrow> 'a \<Rightarrow> 'a list \<Rightarrow> 'a list" where
  "add_by eq x xs = (if mem_by eq x xs then xs else xs @ [x])"

fun remove_by :: "('a \<Rightarrow> 'a \<Rightarrow> bool) \<Rightarrow> 'a \<Rightarrow> 'a list \<Rightarrow> 'a list" where
  "remove_by eq x [] = []"
| "remove_by eq x (y # ys) = (if eq x y then ys else y # remove_by eq x ys)"

definition listed :: "('k, 'a list) dict \<Rightarrow> 'k \<Rightarrow> 'a list" where
  "listed d k = (case dget d k of None \<Rightarrow> [] | Some xs \<Rightarrow> xs)"

definition subscribe :: "string \<Rightarrow> 'w subscriber \<Rightarrow> 'w event_bus \<Rightarrow> 'w event_bus" where
  "subscribe ty s bus = dset bus ty (add_by same_subscriber s (listed bus ty))"

definition unsubscribe :: "string \<Rightarrow> 'w subscriber \<Rightarrow> 'w event_bus \<Rightarrow> 'w event_bus" where
  "unsubscribe ty s bus = (case dget bus ty of
     None \<Rightarrow> bus
   | Some subs \<Rightarrow> if subs \<noteq> [] \<and> mem_by same_subscriber s subs then dset bus ty (remove_by same_subscriber s subs) else bus)"

definition gather :: "'w event_bus \<Rightarrow> string \<Rightarrow> 'w subscriber list" where
  "gather bus ty = listed bus ''*'' @ listed bus ty"

text \<open>An exception of a subscriber is logged and swallowed.\<close>

fun deliver :: "'w subscriber list \<Rightarrow> event \<Rightarrow> 'w \<Rightarrow> 'w" where
  "deliver [] e w = w"
| "deliver (s # ss) e w = (if sub_async s then deliver ss e w else deliver ss e (snd (sub_call s e w)))"

definition publish :: "'w event_bus \<Rightarrow> event \<Rightarrow> 'w \<Rightarrow> 'w" where
  "publish bus e w = deliver (gather bus (event_type e)) e w"

fun deliver_async :: "'w subscriber list \<Rightarrow> event \<Rightarrow> 'w \<Rightarrow> 'w" where
  "deliver_async [] e w = w"
| "deliver_async (s # ss) e w = deliver_async ss e (snd (sub_call s e w))"

definition publish_async :: "'w event_bus \<Rightarrow> event \<Rightarrow> 'w \<Rightarrow> 'w" where
  "publish_async bus e w = deliver_async (gather bus (event_type e)) e w"

definition bus_clear :: "'w event_bus \<Rightarrow> 'w event_bus" where
  "bus_clear bus = []"

section \<open>Hooks\<close>

datatype hook_point = BEFORE_RUN | AFTER_RUN | BEFORE_LLM_CALL | AFTER_LLM_CALL
  | BEFORE_TOOL_CALL | AFTER_TOOL_CALL | ON_PERMISSION_CHECK | ON_ERROR

fun point_value :: "hook_point \<Rightarrow> string" where
  "point_value BEFORE_RUN = ''before_run''"
| "point_value AFTER_RUN = ''after_run''"
| "point_value BEFORE_LLM_CALL = ''before_llm_call''"
| "point_value AFTER_LLM_CALL = ''after_llm_call''"
| "point_value BEFORE_TOOL_CALL = ''before_tool_call''"
| "point_value AFTER_TOOL_CALL = ''after_tool_call''"
| "point_value ON_PERMISSION_CHECK = ''on_permission_check''"
| "point_value ON_ERROR = ''on_error''"

record tool_call =
  call_id :: string
  call_name :: string
  call_arguments :: obj

record llm_response =
  resp_content :: string
  resp_tool_calls :: "tool_call list"
  resp_stop_reason :: "string option"
  resp_usage :: obj
  resp_reasoning :: "string option"

record hook_context =
  ctx_point :: hook_point
  ctx_run_id :: "string option"
  ctx_user_message :: "string option"
  ctx_final_text :: "string option"
  ctx_iteration :: "nat option"
  ctx_tool_name :: "string option"
  ctx_tool_input :: "obj option"
  ctx_tool_result :: "tool_result option"
  ctx_permission_decision :: "permission_decision option"
  ctx_llm_response :: "llm_response option"
  ctx_error :: "string option"

definition blank_context :: "hook_point \<Rightarrow> string option \<Rightarrow> hook_context" where
  "blank_context p rid = \<lparr>ctx_point = p, ctx_run_id = rid, ctx_user_message = None, ctx_final_text = None,
     ctx_iteration = None, ctx_tool_name = None, ctx_tool_input = None, ctx_tool_result = None,
     ctx_permission_decision = None, ctx_llm_response = None, ctx_error = None\<rparr>"

record hook_result =
  should_continue :: bool
  modified_context :: "obj option"

datatype hook_outcome = HReturned "hook_result option" | HAwaitable "hook_result option" | HRaised exn

record 'w hook =
  hook_id :: nat
  hook_name :: string
  hook_call :: "hook_context \<Rightarrow> 'w \<Rightarrow> hook_outcome \<times> 'w"

type_synonym 'w hook_registry = "(hook_point, 'w hook list) dict"

definition same_hook :: "'w hook \<Rightarrow> 'w hook \<Rightarrow> bool" where
  "same_hook h g = (hook_id h = hook_id g)"

definition register_hook :: "hook_point \<Rightarrow> 'w hook \<Rightarrow> 'w hook_registry \<Rightarrow> 'w hook_registry" where
  "register_hook p h reg = dset reg p (add_by same_hook h (listed reg p))"

definition unregister_hook :: "hook_point \<Rightarrow> 'w hook \<Rightarrow> 'w hook_registry \<Rightarrow> 'w hook_registry" where
  "unregister_hook p h reg = (case dget reg p of
     None \<Rightarrow> reg
   | Some hs \<Rightarrow> if hs \<noteq> [] \<and> mem_by same_hook h hs then dset reg p (remove_by same_hook h hs) else reg)"

definition hooks_for :: "'w hook_registry \<Rightarrow> hook_point \<Rightarrow> 'w hook list" where
  "hooks_for reg p = listed reg p"

text \<open>\<open>redact\<close> stands for \<open>redact_secrets\<close>; \<open>emit\<close> publishes on the attached bus, if any.\<close>

definition hook_error_event :: "(string \<Rightarrow> string) \<Rightarrow> hook_point \<Rightarrow> 'w hook \<Rightarrow> exn \<Rightarrow> event" where
  "hook_error_event redact p h e = \<lparr>event_type = ''hooks.error'',
     event_payload = [(''hook'', JStr (hook_name h)), (''point'', JStr (point_value p)), (''error'', JStr (redact (exn_text e)))],
     event_source = Some ''hooks''\<rparr>"

fun trigger_all :: "(event \<Rightarrow> 'w \<Rightarrow> 'w) \<Rightarrow> (string \<Rightarrow> string) \<Rightarrow> hook_point \<Rightarrow> 'w hook list \<Rightarrow> hook_context \<Rightarrow> 'w
    \<Rightarrow> hook_result list \<times> 'w" where
  "trigger_all emit redact p [] ctx w = ([], w)"
| "trigger_all emit redact p (h # hs) ctx w =
     (case hook_call h ctx w of
        (HReturned r, w') \<Rightarrow> (case trigger_all emit redact p hs ctx w' of
           (rs, w'') \<Rightarrow> (case r of None \<Rightarrow> rs | Some x \<Rightarrow> x # rs, w''))
      | (HAwaitable _, w') \<Rightarrow> trigger_all emit redact p hs ctx w'
      | (HRaised e, w') \<Rightarrow> trigger_all emit redact p hs ctx (emit (hook_error_event redact p h e) w'))"

definition trigger :: "(event \<Rightarrow> 'w \<Rightarrow> 'w) \<Rightarrow> (string \<Rightarrow> string) \<Rightarrow> 'w hook_registry \<Rightarrow> hook_point \<Rightarrow> hook_context \<Rightarrow> 'w
    \<Rightarrow> hook_result list \<times> 'w" where
  "trigger emit redact reg p ctx w = trigger_all emit redact p (listed reg p) ctx w"

fun trigger_all_async :: "(event \<Rightarrow> 'w \<Rightarrow> 'w) \<Rightarrow> (string \<Rightarrow> string) \<Rightarrow> hook_point \<Rightarrow> 'w hook list \<Rightarrow> hook_context \<Rightarrow> 'w
    \<Rightarrow> hook_result list \<times> 'w" where
  "trigger_all_async emit redact p [] ctx w = ([], w)"
| "trigger_all_async emit redact p (h # hs) ctx w =
     (case hook_call h ctx w of
        (HReturned r, w') \<Rightarrow> (case trigger_all_async emit redact p hs ctx w' of
           (rs, w'') \<Rightarrow> (case r of None \<Rightarrow> rs | Some x \<Rightarrow> x # rs, w''))
      | (HAwaitable r, w') \<Rightarrow> (case trigger_all_async emit redact p hs ctx w' of
           (rs, w'') \<Rightarrow> (case r of None \<Rightarrow> rs | Some x \<Rightarrow> x # rs, w''))
      | (HRaised e, w') \<Rightarrow> trigger_all_async emit redact p hs ctx (emit (hook_error_event redact p h e) w'))"

section \<open>The contract of a registry\<close>

datatype ('k, 'a) registration = Reg 'k 'a | Unreg 'k 'a

fun apply_registration :: "('k \<Rightarrow> 'a \<Rightarrow> 'r \<Rightarrow> 'r) \<Rightarrow> ('k \<Rightarrow> 'a \<Rightarrow> 'r \<Rightarrow> 'r) \<Rightarrow> ('k, 'a) registration \<Rightarrow> 'r \<Rightarrow> 'r" where
  "apply_registration reg unreg (Reg k x) r = reg k x r"
| "apply_registration reg unreg (Unreg k x) r = unreg k x r"

text \<open>Whether the last operation on \<open>(k, x)\<close>, by identity \<open>ident\<close>, registered it.\<close>

fun live :: "('a \<Rightarrow> nat) \<Rightarrow> ('k, 'a) registration list \<Rightarrow> 'k \<Rightarrow> nat \<Rightarrow> bool" where
  "live ident [] k i = False"
| "live ident (Reg k' x # ops) k i = (if k' = k \<and> ident x = i then True else live ident ops k i)"
| "live ident (Unreg k' x # ops) k i = (if k' = k \<and> ident x = i then False else live ident ops k i)"

locale listing =
  fixes reg unreg :: "'k \<Rightarrow> 'a \<Rightarrow> 'r \<Rightarrow> 'r"
    and members :: "'r \<Rightarrow> 'k \<Rightarrow> 'a list"
    and fresh :: 'r
    and ident :: "'a \<Rightarrow> nat"
  assumes members_fresh: "members fresh k = []"
    and members_reg: "members (reg k x r) j = (if j = k then add_by (\<lambda>a b. ident a = ident b) x (members r k) else members r j)"
    and members_unreg: "members (unreg k x r) j = (if j = k then remove_by (\<lambda>a b. ident a = ident b) x (members r k) else members r j)"
begin

lemma ids_add: "ident ` set (add_by (\<lambda>a b. ident a = ident b) x xs) = insert (ident x) (ident ` set xs)"
  by (auto simp: add_by_def mem_by_def list_ex_iff)

lemma distinct_add: "distinct (map ident xs) \<Longrightarrow> distinct (map ident (add_by (\<lambda>a b. ident a = ident b) x xs))"
  by (auto simp: add_by_def mem_by_def list_ex_iff)

lemma ids_remove:
  "distinct (map ident xs) \<Longrightarrow> ident ` set (remove_by (\<lambda>a b. ident a = ident b) x xs) = ident ` set xs - {ident x}
    \<and> distinct (map ident (remove_by (\<lambda>a b. ident a = ident b) x xs))"
  by (induction xs) auto

lemma registered_exactly:
  "distinct (map ident (members (foldr (apply_registration reg unreg) ops fresh) k))
   \<and> ident ` set (members (foldr (apply_registration reg unreg) ops fresh) k) = {i. live ident ops k i}"
proof (induction ops)
  case Nil
  then show ?case by (simp add: members_fresh)
next
  case (Cons op ops)
  show ?case
  proof (cases op)
    case (Reg j x)
    then show ?thesis using Cons by (auto simp: members_reg ids_add distinct_add)
  next
    case (Unreg j x)
    note rem = ids_remove [OF conjunct1 [OF Cons], of x]
    have "{i. live ident (op # ops) k i} = (if j = k then {i. live ident ops k i} - {ident x} else {i. live ident ops k i})"
      using Unreg by auto
    then show ?thesis using Cons Unreg rem by (simp add: members_unreg)
  qed
qed

end

lemma listed_dset [simp]: "listed (dset d k xs) j = (if j = k then xs else listed d j)"
  by (simp add: listed_def)

lemma remove_by_absent: "\<not> mem_by eq x xs \<Longrightarrow> remove_by eq x xs = xs"
  by (induction xs) (auto simp: mem_by_def)

interpretation bus: listing subscribe unsubscribe listed "[]" sub_id
  by unfold_locales
    (auto simp: subscribe_def unsubscribe_def same_subscriber_def [abs_def] listed_def remove_by_absent mem_by_def
      split: option.splits)

interpretation registry: listing register_hook unregister_hook hooks_for "[]" hook_id
  by unfold_locales
    (auto simp: register_hook_def unregister_hook_def hooks_for_def same_hook_def [abs_def] listed_def remove_by_absent mem_by_def
      split: option.splits)

text \<open>
  after any sequence of \<open>subscribe\<close> and \<open>unsubscribe\<close> operations (the latest first in the
  list), the subscribers of a type are, without duplicates, exactly those whose last operation on that
  type was a subscription.
\<close>

theorem bus_subscribers_exact:
  "distinct (map sub_id (listed (foldr (apply_registration subscribe unsubscribe) ops []) ty))
   \<and> sub_id ` set (listed (foldr (apply_registration subscribe unsubscribe) ops []) ty) = {i. live sub_id ops ty i}"
  by (rule bus.registered_exactly)

text \<open>
  the same holds of hooks, for every hook point.
\<close>

theorem hook_registrations_exact:
  "distinct (map hook_id (hooks_for (foldr (apply_registration register_hook unregister_hook) ops []) p))
   \<and> hook_id ` set (hooks_for (foldr (apply_registration register_hook unregister_hook) ops []) p) = {i. live hook_id ops p i}"
  by (rule registry.registered_exactly)

section \<open>Isolation of failures\<close>

text \<open>The results a hook list yields when each hook runs in turn in the world its predecessors left.\<close>

lemma deliver_append: "deliver (xs @ ys) e w = deliver ys e (deliver xs e w)"
  by (induction xs arbitrary: w) auto

lemma trigger_append:
  "trigger_all emit redact p (hs @ gs) ctx w =
     (case trigger_all emit redact p hs ctx w of (rs, w') \<Rightarrow>
        (case trigger_all emit redact p gs ctx w' of (ss, w'') \<Rightarrow> (rs @ ss, w'')))"
  by (induction hs arbitrary: w) (auto split: hook_outcome.splits prod.splits option.splits)

text \<open>
  A hook that raises is skipped: the hooks before and after it contribute the same results as if
  it had only changed the world and reported \<open>hooks.error\<close>.
\<close>

lemma hook_failure_isolated:
  assumes "trigger_all emit redact p before ctx w = (rs, w1)" "hook_call h ctx w1 = (HRaised e, w2)"
  shows "trigger_all emit redact p (before @ h # after) ctx w =
    (case trigger_all emit redact p after ctx (emit (hook_error_event redact p h e) w2) of (ss, w3) \<Rightarrow> (rs @ ss, w3))"
  using assms by (simp add: trigger_append)

definition sample_hook :: "nat \<Rightarrow> hook_outcome \<Rightarrow> unit hook" where
  "sample_hook i out = \<lparr>hook_id = i, hook_name = ''h'', hook_call = (\<lambda>ctx w. (out, w))\<rparr>"

lemma hook_failure_isolated_sample:
  "fst (trigger_all (\<lambda>_ w. w) id BEFORE_RUN
     [sample_hook 0 (HReturned (Some \<lparr>should_continue = True, modified_context = None\<rparr>)),
      sample_hook 1 (HRaised (Exn ''ValueError'' ''x'')),
      sample_hook 2 (HReturned (Some \<lparr>should_continue = False, modified_context = None\<rparr>))] (blank_context BEFORE_RUN None) ())
   = [\<lparr>should_continue = True, modified_context = None\<rparr>, \<lparr>should_continue = False, modified_context = None\<rparr>]"
proof -
  let ?ok = "\<lparr>should_continue = True, modified_context = None\<rparr>"
  have "trigger_all (\<lambda>_ w. w) id BEFORE_RUN [sample_hook 0 (HReturned (Some ?ok))] (blank_context BEFORE_RUN None) () = ([?ok], ())"
    "hook_call (sample_hook 1 (HRaised (Exn ''ValueError'' ''x''))) (blank_context BEFORE_RUN None) ()
      = (HRaised (Exn ''ValueError'' ''x''), ())"
    by (simp_all add: sample_hook_def)
  from hook_failure_isolated [OF this, of "[sample_hook 2 (HReturned (Some \<lparr>should_continue = False, modified_context = None\<rparr>))]"]
  show ?thesis by (simp add: sample_hook_def)
qed

text \<open>Publishing an event whose type is the wildcard itself reaches every wildcard subscriber twice.\<close>

lemma wildcard_published_twice:
  "event_type e = ''*'' \<Longrightarrow> publish bus e w = deliver (listed bus ''*'') e (deliver (listed bus ''*'') e w)"
  by (simp add: publish_def gather_def deliver_append)

end
