(* ===== verification/Audit_Log.thy ===== *)
theory Audit_Log
  imports Security_Policy Tool_Model
begin

text \<open>
  Redaction (\<open>security/redact.py\<close>) and the audit log (\<open>security/audit.py\<close>). The chain of
  regular-expression substitutions \<open>redact_secrets\<close> is an argument \<open>scrub\<close>; the recursive walk
  over values and the treatment of sensitive keys are modelled. Entry identifiers and timestamps are
  arguments.
\<close>

section \<open>Redaction\<close>

definition REDACTED :: string where
  "REDACTED = ''[REDACTED]''"

definition sensitive_key_parts :: "string list" where
  "sensitive_key_parts = [''password'', ''passwd'', ''secret'', ''token'', ''api_key'', ''apikey'', ''authorization'', ''private_key'']"

definition sensitive_key :: "string \<Rightarrow> bool" where
  "sensitive_key k = list_ex (\<lambda>part. contains part (py_lower k)) sensitive_key_parts"

fun redact_value :: "(string \<Rightarrow> string) \<Rightarrow> json \<Rightarrow> json" where
  "redact_value scrub (JStr s) = JStr (scrub s)"
| "redact_value scrub (JObj d) = JObj (map (\<lambda>(k, v). (k, if is_str v \<and> sensitive_key k then JStr REDACTED else redact_value scrub v)) d)"
| "redact_value scrub (JArr xs) = JArr (map (redact_value scrub) xs)"
| "redact_value scrub v = v"

section \<open>Audit entries\<close>

type_synonym audit_entry = obj

definition audit_entry_of :: "string \<Rightarrow> string \<Rightarrow> string \<Rightarrow> string \<Rightarrow> obj \<Rightarrow> audit_entry" where
  "audit_entry_of uid timestamp ev name extra = dupdate
     [(''id'', JStr uid), (''timestamp'', JStr timestamp), (''event'', JStr ev), (''tool_name'', JStr name)] extra"

definition decision_dict :: "permission_decision \<Rightarrow> json" where
  "decision_dict d = JObj [(''allowed'', JBool (allowed d)), (''reason'', JStr (reason d)),
     (''requires_confirmation'', JBool (requires_confirmation d))]"

definition log_tool_call :: "(string \<Rightarrow> string) \<Rightarrow> string \<Rightarrow> string \<Rightarrow> string \<Rightarrow> obj \<Rightarrow> permission_decision \<Rightarrow> audit_entry" where
  "log_tool_call scrub uid timestamp name inp d = audit_entry_of uid timestamp ''tool_call'' name
     [(''input'', redact_value scrub (JObj inp)), (''decision'', decision_dict d)]"

definition log_tool_result :: "(string \<Rightarrow> string) \<Rightarrow> string \<Rightarrow> string \<Rightarrow> string \<Rightarrow> tool_result \<Rightarrow> audit_entry" where
  "log_tool_result scrub uid timestamp name r = audit_entry_of uid timestamp ''tool_result'' name
     [(''result'', JObj [(''is_error'', JBool (is_error r)), (''output'', redact_value scrub (res_output r)),
       (''error'', redact_value scrub (case res_error r of None \<Rightarrow> JNull | Some e \<Rightarrow> JStr e))])]"

definition log_permission_denied :: "(string \<Rightarrow> string) \<Rightarrow> string \<Rightarrow> string \<Rightarrow> string \<Rightarrow> obj \<Rightarrow> string \<Rightarrow> audit_entry" where
  "log_permission_denied scrub uid timestamp name inp why = audit_entry_of uid timestamp ''permission_denied'' name
     [(''input'', redact_value scrub (JObj inp)), (''reason'', JStr why)]"

definition log_event :: "(string \<Rightarrow> string) \<Rightarrow> string \<Rightarrow> string \<Rightarrow> string \<Rightarrow> string \<Rightarrow> obj \<Rightarrow> audit_entry" where
  "log_event scrub uid timestamp ev subject extra =
     audit_entry_of uid timestamp ev subject (map (\<lambda>(k, v). (k, redact_value scrub v)) extra)"

text \<open>The two sinks: a list of entries, and one JSON line per entry.\<close>

definition record_in_memory :: "audit_entry \<Rightarrow> audit_entry list \<Rightarrow> audit_entry list" where
  "record_in_memory e entries = entries @ [e]"

definition record_jsonl :: "audit_entry \<Rightarrow> string \<Rightarrow> string" where
  "record_jsonl e file = file @ json_dumps_utf8 (JObj e) @ [LF]"

section \<open>What redaction guarantees\<close>

text \<open>All strings that occur in a value, with the key they stand under, if any.\<close>

fun strings_of :: "json \<Rightarrow> string list" where
  "strings_of (JStr s) = [s]"
| "strings_of (JObj d) = concat (map (\<lambda>(k, v). strings_of v) d)"
| "strings_of (JArr xs) = concat (map strings_of xs)"
| "strings_of v = []"

text \<open>The same shape: constructors, keys, lengths and every value that is not a string.\<close>

fun same_shape :: "json \<Rightarrow> json \<Rightarrow> bool" where
  "same_shape (JStr s) w = is_str w"
| "same_shape (JObj d) w = (case w of
     JObj e \<Rightarrow> map fst d = map fst e \<and> list_all2 (\<lambda>(k, v) u. same_shape v u) d (map snd e) | _ \<Rightarrow> False)"
| "same_shape (JArr xs) w = (case w of JArr ys \<Rightarrow> list_all2 same_shape xs ys | _ \<Rightarrow> False)"
| "same_shape v w = (v = w)"

text \<open>Every string directly under a sensitive key, at any depth.\<close>

fun secrets_masked :: "json \<Rightarrow> bool" where
  "secrets_masked (JObj d) = list_all (\<lambda>(k, v). (is_str v \<and> sensitive_key k \<longrightarrow> v = JStr REDACTED) \<and> secrets_masked v) d"
| "secrets_masked (JArr xs) = list_all secrets_masked xs"
| "secrets_masked v = True"

lemma is_str_redact [simp]: "is_str (redact_value scrub v) = is_str v"
  by (cases v) auto

lemma redact_masks: "secrets_masked (redact_value scrub v)"
  by (induction scrub v rule: redact_value.induct) (auto simp: list_all_iff split: if_splits)

lemma redact_wf: "json_wf fl v \<Longrightarrow> json_wf fl (redact_value scrub v)"
proof (induction scrub v rule: redact_value.induct)
  case (2 scrub d)
  let ?f = "\<lambda>(k, v). (k, if is_str v \<and> sensitive_key k then JStr REDACTED else redact_value scrub v)"
  have keys: "map fst (map ?f d) = map fst d" by (simp add: case_prod_unfold)
  have "dwf (map ?f d)" unfolding dwf_def keys using 2(2) by (simp add: dwf_def)
  then show ?case using 2 by (auto simp: list_all_iff)
qed (auto simp: list_all_iff)

lemma redact_shape: "same_shape v (redact_value scrub v)"
proof (induction scrub v rule: redact_value.induct)
  case (2 scrub d)
  have "same_shape v (if is_str v \<and> sensitive_key k then JStr REDACTED else redact_value scrub v)"
    if "(k, v) \<in> set d" for k v
  proof (cases "is_str v \<and> sensitive_key k")
    case True
    then show ?thesis by (cases v) auto
  next
    case False
    then show ?thesis using "2.IH" [OF that refl] by auto
  qed
  then show ?case by (auto simp: list_all2_conv_all_nth case_prod_unfold)
next
  case (3 scrub xs)
  then show ?case by (auto simp: list_all2_conv_all_nth)
qed auto

lemma redact_strings: "s \<in> set (strings_of (redact_value scrub v)) \<Longrightarrow> s = REDACTED \<or> s \<in> range scrub"
  by (induction scrub v rule: redact_value.induct) (auto split: if_splits)

text \<open>
  redaction keeps the shape of a value (its keys, lengths and every non-string leaf), replaces
  every string under a sensitive key entirely, and lets no string through that has not gone through
  the scrubber.
\<close>

theorem redact_value_sound:
  "same_shape v (redact_value scrub v) \<and> secrets_masked (redact_value scrub v)
   \<and> set (strings_of (redact_value scrub v)) \<subseteq> insert REDACTED (range scrub)"
  using redact_shape redact_masks redact_strings by blast

lemma split_on_line: "d \<notin> set a \<Longrightarrow> split_on d (a @ d # s) = a # split_on d s"
  by (induction a) auto

lemma jsonl_file:
  "fold record_jsonl es acc = acc @ concat (map (\<lambda>e. json_dumps_utf8 (JObj e) @ [LF]) es)"
  by (induction es arbitrary: acc) (simp_all add: record_jsonl_def)

lemma split_on_nonempty: "split_on d s \<noteq> []"
  by (induction s) (auto split: list.split)

lemma jsonl_split:
  "\<forall>e \<in> set es. json_wf fl (JObj e) \<Longrightarrow>
    split_on LF (concat (map (\<lambda>e. json_dumps_utf8 (JObj e) @ [LF]) es)) = map (\<lambda>e. json_dumps_utf8 (JObj e)) es @ [[]]"
proof (induction es)
  case (Cons e es)
  then have "LF \<notin> set (json_dumps_utf8 (JObj e))"
    by (intro dumps_utf8_line [of fl]) (simp del: json_wf.simps)
  then show ?case using Cons by (simp add: split_on_line del: json_wf.simps)
qed simp

text \<open>
  the JSON-lines log is one line per entry: splitting the file that any sequence of entries
  produced at its line feeds and reading every complete line gives back exactly those entries, in order.
\<close>

theorem audit_log_roundtrip:
  assumes "\<forall>e \<in> set es. json_wf fl (JObj e)"
  shows "map (json_loads fl) (butlast (split_on LF (fold record_jsonl es []))) = map (\<lambda>e. Some (JObj e)) es"
  using assms by (simp add: jsonl_file jsonl_split dumps_utf8_loads del: json_wf.simps)

theorem audit_log_roundtrip_witness:
  "map (json_loads (\<lambda>s. (0, s))) (butlast (split_on LF (fold record_jsonl
      [log_permission_denied id ''1'' ''t'' ''shell'' [(''cmd'', JStr [LF])] ''no'', log_tool_result id ''2'' ''t'' ''ls'' (ok_result (JInt 3))] [])))
   = map (\<lambda>e. Some (JObj e)) [log_permission_denied id ''1'' ''t'' ''shell'' [(''cmd'', JStr [LF])] ''no'',
       log_tool_result id ''2'' ''t'' ''ls'' (ok_result (JInt 3))]"
proof (rule audit_log_roundtrip)
  have "json_wf (\<lambda>s. (0, s)) (JObj (log_permission_denied id ''1'' ''t'' ''shell'' [(''cmd'', JStr [LF])] ''no''))"
    "json_wf (\<lambda>s. (0, s)) (JObj (log_tool_result id ''2'' ''t'' ''ls'' (ok_result (JInt 3))))" by code_simp+
  then show "\<forall>e \<in> set [log_permission_denied id ''1'' ''t'' ''shell'' [(''cmd'', JStr [LF])] ''no'',
      log_tool_result id ''2'' ''t'' ''ls'' (ok_result (JInt 3))]. json_wf (\<lambda>s. (0, s)) (JObj e)"
    by (simp del: json_wf.simps)
qed

end
