(* ===== verification/Agent_Tools_Proofs.thy ===== *)
theory Agent_Tools_Proofs
  imports Agent_Tools
begin

text \<open>
  Correctness of tool gating and batches. A syntax-directed frame calculus (\<open>act_frame\<close> with the
  collection \<open>frame_rules\<close>) shows what each step leaves alone; on top of it come the safety of
  executions, the pairing of requests and results, and the bound on retries.
\<close>

named_theorems frame_rules \<open>what the agent's steps leave unchanged\<close>

section \<open>Frames\<close>

definition act_frame :: "('w agent \<Rightarrow> 'w agent \<Rightarrow> bool) \<Rightarrow> ('w, 'a) act \<Rightarrow> bool" where
  "act_frame R m = (\<forall>s. R s (snd (m s)))"

definition core :: "'w agent \<Rightarrow> _" where
  "core s = (a_tools s, a_mode s, a_max_iterations s, a_override s, a_extended s, a_sticky_max s, a_run_id s, a_budget s,
     a_structured s, a_evidence s, a_effective_verify s, a_plan s)"

text \<open>
  \<open>tool_step P\<close>: the routing, budget and answer state is untouched, the log only grows, no model
  call and no save happens, and every execution satisfies \<open>P\<close>. \<open>quiet\<close>: nothing is executed and the history stays.
\<close>

definition tool_step :: "(string \<Rightarrow> obj \<Rightarrow> bool) \<Rightarrow> 'w agent \<Rightarrow> 'w agent \<Rightarrow> bool" where
  "tool_step P s s' \<longleftrightarrow> core s' = core s \<and>
     (\<exists>z. a_log s' = a_log s @ z \<and> filter loop_effect z = [] \<and> (\<forall>n a. Executed n a \<in> set z \<longrightarrow> P n a))"

definition quiet :: "'w agent \<Rightarrow> 'w agent \<Rightarrow> bool" where
  "quiet s s' \<longleftrightarrow> tool_step (\<lambda>_ _. False) s s' \<and> a_state s' = a_state s"

lemma tool_step_refl: "tool_step P s s"
  by (simp add: tool_step_def)

lemma tool_step_trans: "tool_step P s t \<Longrightarrow> tool_step P t u \<Longrightarrow> tool_step P s u"
  by (fastforce simp: tool_step_def)

lemma tool_step_mono: "tool_step P s t \<Longrightarrow> (\<And>n a. P n a \<Longrightarrow> Q n a) \<Longrightarrow> tool_step Q s t"
  by (fastforce simp: tool_step_def)

lemma quiet_refl [simp, intro]: "quiet s s"
  by (simp add: quiet_def tool_step_refl)

lemma quiet_trans: "quiet s t \<Longrightarrow> quiet t u \<Longrightarrow> quiet s u"
  unfolding quiet_def using tool_step_trans by metis

lemma quiet_tool_step: "quiet s t \<Longrightarrow> tool_step P s t"
  unfolding quiet_def by (blast intro: tool_step_mono)

lemma quiet_state: "quiet s t \<Longrightarrow> a_state t = a_state s"
  by (simp add: quiet_def)

lemma frame_bnd:
  assumes "act_frame R m" "\<And>x. act_frame R (f x)" "\<And>s t u. R s t \<Longrightarrow> R t u \<Longrightarrow> R s u"
  shows "act_frame R (bnd m f)"
  unfolding act_frame_def bnd_def
proof
  fix s
  obtain r s' where m: "m s = (r, s')" by force
  then have "R s s'" using assms(1) unfolding act_frame_def by (metis snd_conv)
  then show "R s (snd (case m s of (Inl e, s') \<Rightarrow> (Inl e, s') | (Inr x, s') \<Rightarrow> f x s'))"
    using assms(2,3) m unfolding act_frame_def by (auto split: sum.split)
qed

lemma quiet_bnd [frame_rules]: "act_frame quiet m \<Longrightarrow> (\<And>x. act_frame quiet (f x)) \<Longrightarrow> act_frame quiet (bnd m f)"
  by (rule frame_bnd) (auto intro: quiet_trans)

lemma quiet_ret [frame_rules]: "act_frame quiet (ret x)"
  by (simp add: act_frame_def ret_def)

lemma quiet_throw [frame_rules]: "act_frame quiet (throw e)"
  by (simp add: act_frame_def throw_def)

lemma quiet_modify [frame_rules]: "(\<And>s. quiet s (f s)) \<Longrightarrow> act_frame quiet (modify f)"
  by (simp add: act_frame_def modify_def)

lemma quiet_pure [frame_rules]: "(\<And>s. quiet s (snd (f s))) \<Longrightarrow> act_frame quiet (pure_step f)"
  by (simp add: act_frame_def pure_step_def case_prod_unfold)

lemma quiet_if [frame_rules]: "act_frame quiet m \<Longrightarrow> act_frame quiet m' \<Longrightarrow> act_frame quiet (if b then m else m')"
  by simp

lemma act_frameD: "act_frame R m \<Longrightarrow> m s = (r, s') \<Longrightarrow> R s s'"
  unfolding act_frame_def by (metis snd_conv)

lemma quiet_log:
  "core s' = core s \<Longrightarrow> a_state s' = a_state s \<Longrightarrow> a_log s' = a_log s @ z \<Longrightarrow>
    filter loop_effect z = [] \<Longrightarrow> (\<forall>n a. Executed n a \<notin> set z) \<Longrightarrow> quiet s s'"
  by (fastforce simp: quiet_def tool_step_def)

lemma quiet_emit [frame_rules]: "quiet s (emit c ty p s)"
  unfolding emit_def by (rule quiet_log) (auto simp: Let_def log_effect_def core_def)

lemma quiet_hooks [frame_rules]: "quiet s (snd (trigger_hooks c p ctx s))"
  by (auto simp: trigger_hooks_def core_def quiet_def tool_step_def split: option.split prod.split)

lemma quiet_audit [frame_rules]: "act_frame quiet (audit c mk)"
  unfolding act_frame_def audit_def
  by (auto simp: log_effect_def core_def split: prod.split intro!: quiet_log [where z = "[_]"])

lemma quiet_deny [frame_rules]: "act_frame quiet (deny_call c call why inp)"
  unfolding deny_call_def by (intro frame_rules)

lemma quiet_update:
  "core s' = core s \<Longrightarrow> a_state s' = a_state s \<Longrightarrow> a_log s' = a_log s \<Longrightarrow> quiet s s'"
  by (simp add: quiet_def tool_step_def)

lemma quiet_confirmed: "quiet s (log_effect (Confirmed n a) s)"
  by (rule quiet_log) (auto simp: log_effect_def core_def)

lemma quiet_confirmation [frame_rules]: "quiet s (snd (confirmation_status c call args d s))"
proof -
  let ?ctx = "(blank_context ON_PERMISSION_CHECK (a_run_id s))\<lparr>ctx_tool_name := Some (call_name call),
             ctx_tool_input := Some args, ctx_permission_decision := Some d\<rparr>"
  obtain rs s' where h: "trigger_hooks c ON_PERMISSION_CHECK ?ctx s = (rs, s')" by force
  then have "quiet s s'" using quiet_hooks [of s c ON_PERMISSION_CHECK ?ctx] by simp
  then show ?thesis
    using h quiet_trans [OF _ quiet_confirmed] by (auto simp: confirmation_status_def)
qed

lemma quiet_policy [frame_rules]: "act_frame quiet (check_policy c name args)"
  unfolding act_frame_def check_policy_def
  by (auto simp: log_effect_def core_def split: sum.split intro!: quiet_log [where z = "[_]"])

lemma quiet_circuit [frame_rules]: "quiet s (snd (circuit_is_open c t s))"
  by (auto simp: circuit_is_open_def core_def split: option.split intro!: quiet_update)

lemma quiet_checkpoint [frame_rules]: "act_frame quiet (save_checkpoint c)"
  by (auto simp: act_frame_def save_checkpoint_def core_def split: option.split prod.split intro!: quiet_update)

lemma quiet_gate [frame_rules]: "act_frame quiet (gate_tool c call args)"
proof -
  have "quiet s (snd (gate_tool c call args s))" for s
  proof (cases "dget (a_tools s) (call_name call)")
    case None
    then show ?thesis by (simp add: gate_tool_def)
  next
    case (Some t)
    obtain b s' where c: "circuit_is_open c t s = (b, s')" by force
    then have "quiet s s'" using quiet_circuit [of s c t] by simp
    moreover have "act_frame quiet (bnd (audit c mk) (\<lambda>_. ret x))" for mk and x :: "tool option \<times> obj \<times> tool_result option"
      by (intro frame_rules)
    then have "quiet s' (snd (bnd (audit c mk) (\<lambda>_. ret x) s'))" for mk and x :: "tool option \<times> obj \<times> tool_result option"
      by (simp add: act_frame_def)
    ultimately show ?thesis
      using Some c by (auto simp: gate_tool_def Let_def split: bool.split sum.split list.split intro: quiet_trans)
  qed
  then show ?thesis by (simp add: act_frame_def)
qed

lemma quiet_decided [frame_rules]: "act_frame quiet (gate_decided c call args d)"
  unfolding gate_decided_def by (intro frame_rules) (auto intro!: quiet_update simp: core_def)

lemma quiet_prepare: "act_frame quiet (prepare_call c call)"
  unfolding prepare_call_def Let_def by (intro frame_rules)

lemma quiet_circuit_result [frame_rules]: "quiet s (record_circuit_result c name t r s)"
  by (auto simp: record_circuit_result_def core_def Let_def split: option.split intro!: quiet_update)

lemma quiet_finalize [frame_rules]: "act_frame quiet (finalize_call c call t args r)"
  unfolding finalize_call_def by (intro frame_rules)

lemma quiet_pause [frame_rules]: "act_frame quiet (pause_batch c rest e)"
  unfolding pause_batch_def by (intro frame_rules) (auto intro!: quiet_update simp: core_def)

lemma quiet_stuck: "quiet s t \<Longrightarrow> quiet s (t\<lparr>a_stuck := x\<rparr>)" "quiet s t \<Longrightarrow> quiet s (t\<lparr>a_stop_reason := y\<rparr>)"
  by (auto simp: quiet_def tool_step_def core_def)

lemma quiet_finished [frame_rules]: "quiet s (emit_tool_call_finished c call r s)"
  unfolding emit_tool_call_finished_def Let_def
  by (auto split: option.split prod.split intro!: quiet_emit quiet_stuck intro: quiet_trans [OF quiet_stuck(1) quiet_emit])

lemma quiet_started [frame_rules]: "quiet s (emit_started c call s)"
  by (simp add: emit_started_def quiet_emit)

section \<open>Only authorised calls are executed\<close>

text \<open>
  A call \<open>(n, a)\<close> is authorised by a log when the policy decided, on exactly this name and these
  arguments, to allow it, and, if the decision asks for it, a hook confirmed it afterwards. A log is
  safe when every execution was authorised before it happened.
\<close>

definition authorised :: "'w config \<Rightarrow> effect list \<Rightarrow> string \<Rightarrow> obj \<Rightarrow> bool" where
  "authorised c lg n a \<longleftrightarrow> (\<exists>x d y. lg = x @ Decided n a d # y \<and> c_policy c n a = Inr d \<and> allowed d
     \<and> (requires_confirmation d \<longrightarrow> Confirmed n a \<in> set y))"

definition safe_log :: "'w config \<Rightarrow> effect list \<Rightarrow> bool" where
  "safe_log c lg \<longleftrightarrow> (\<forall>pre n a post. lg = pre @ Executed n a # post \<longrightarrow> authorised c pre n a)"

definition tools_keyed :: "(string, tool) dict \<Rightarrow> bool" where
  "tools_keyed ts \<longleftrightarrow> (\<forall>k t. dget ts k = Some t \<longrightarrow> tool_name t = k)"

definition gate_inv :: "'w config \<Rightarrow> 'w agent \<Rightarrow> bool" where
  "gate_inv c s \<longleftrightarrow> safe_log c (a_log s) \<and> tools_keyed (a_tools s)"

text \<open>\<open>permitted c s t a\<close>: tool \<open>t\<close> may run on \<open>a\<close> in state \<open>s\<close>.\<close>

definition permitted :: "'w config \<Rightarrow> 'w agent \<Rightarrow> tool \<Rightarrow> obj \<Rightarrow> bool" where
  "permitted c s t a \<longleftrightarrow> authorised c (a_log s) (tool_name t) a \<and> dget (a_tools s) (tool_name t) = Some t
     \<and> (c_validate c \<longrightarrow> validate_tool_input (tool_parameters t) (JObj a) = Inr [])"

abbreviation grows :: "'w agent \<Rightarrow> 'w agent \<Rightarrow> bool" where
  "grows \<equiv> tool_step (\<lambda>_ _. True)"

lemma authorised_append: "authorised c lg n a \<Longrightarrow> authorised c (lg @ z) n a"
  unfolding authorised_def by fastforce

lemma safe_log_append:
  assumes "safe_log c L" "\<And>n a. Executed n a \<in> set z \<Longrightarrow> authorised c L n a"
  shows "safe_log c (L @ z)"
  unfolding safe_log_def
proof (intro allI impI)
  fix pre n a post
  assume eq: "L @ z = pre @ Executed n a # post"
  then consider (old) us where "L = pre @ us" "us @ z = Executed n a # post" | (new) us where "pre = L @ us" "z = us @ Executed n a # post"
    by (metis append_eq_append_conv2)
  then show "authorised c pre n a"
  proof cases
    case old
    show ?thesis
    proof (cases us)
      case Nil
      then have "Executed n a \<in> set z" using old by simp
      then show ?thesis using assms(2) old Nil by simp
    next
      case (Cons u us')
      then show ?thesis using assms(1) old unfolding safe_log_def by auto
    qed
  next
    case new
    then show ?thesis using assms(2) [of n a] authorised_append by simp
  qed
qed

lemma tool_step_inv:
  assumes "gate_inv c s" "tool_step P s s'" "\<And>n a. P n a \<Longrightarrow> authorised c (a_log s) n a"
  shows "gate_inv c s'"
  using assms safe_log_append [of c "a_log s"] by (fastforce simp: gate_inv_def tool_step_def core_def)

lemma quiet_inv: "gate_inv c s \<Longrightarrow> quiet s s' \<Longrightarrow> gate_inv c s'"
  using tool_step_inv [of c s "\<lambda>_ _. False" s'] by (simp add: quiet_def)

lemma permitted_grows: "permitted c s t a \<Longrightarrow> grows s s' \<Longrightarrow> permitted c s' t a"
  by (auto simp: permitted_def tool_step_def core_def intro: authorised_append)

lemma bnd_Inr: "bnd m f s = (Inr y, s') \<longleftrightarrow> (\<exists>x s1. m s = (Inr x, s1) \<and> f x s1 = (Inr y, s'))"
  by (auto simp: bnd_def split: prod.splits sum.splits)

lemma gate_tool_admits:
  assumes "gate_tool c call args s = (Inr (Some t, args', None), s')"
  shows "args' = args \<and> dget (a_tools s) (call_name call) = Some t
    \<and> (c_validate c \<longrightarrow> validate_tool_input (tool_parameters t) (JObj args) = Inr [])
    \<and> fst (circuit_is_open c t s) = False"
  using assms by (auto simp: gate_tool_def bnd_Inr ret_def Let_def split: option.splits prod.splits bool.splits if_splits sum.splits list.splits)

lemma quiet_grows: "quiet s s' \<Longrightarrow> \<exists>z. a_log s' = a_log s @ z"
  by (auto simp: quiet_def tool_step_def)

lemma confirmation_approved:
  "confirmation_status c call args d s = (Approved, s') \<Longrightarrow> \<exists>z. a_log s' = a_log s @ z @ [Confirmed (call_name call) args]"
proof -
  let ?ctx = "(blank_context ON_PERMISSION_CHECK (a_run_id s))\<lparr>ctx_tool_name := Some (call_name call),
             ctx_tool_input := Some args, ctx_permission_decision := Some d\<rparr>"
  obtain rs s1 where h: "trigger_hooks c ON_PERMISSION_CHECK ?ctx s = (rs, s1)" by force
  assume "confirmation_status c call args d s = (Approved, s')"
  then have "s' = log_effect (Confirmed (call_name call) args) s1"
    using h by (auto simp: confirmation_status_def split: if_splits)
  moreover obtain z where "a_log s1 = a_log s @ z"
    using quiet_grows quiet_hooks [of s c ON_PERMISSION_CHECK ?ctx] h by (metis snd_conv)
  ultimately show "\<exists>z. a_log s' = a_log s @ z @ [Confirmed (call_name call) args]" by (simp add: log_effect_def)
qed

lemma gate_decided_admits:
  assumes "gate_decided c call a d s = (Inr (Some t, args, None), s')"
  shows "allowed d \<and> (\<exists>st s1. confirmation_status c call a d s = (st, s1) \<and> (requires_confirmation d \<longrightarrow> st = Approved)
    \<and> gate_tool c call a s1 = (Inr (Some t, args, None), s'))"
proof -
  obtain st s1 where c: "confirmation_status c call a d s = (st, s1)" by force
  have "allowed d" using assms by (auto simp: gate_decided_def bnd_Inr ret_def split: if_splits)
  moreover have "requires_confirmation d \<longrightarrow> st = Approved"
    using assms c by (cases st) (auto simp: gate_decided_def bnd_Inr pure_step_def ret_def throw_def split: if_splits)
  ultimately show ?thesis using assms c by (auto simp: gate_decided_def bnd_Inr pure_step_def)
qed

text \<open>What the gate guarantees about a call it lets through.\<close>

lemma prepare_permits:
  assumes keyed: "tools_keyed (a_tools s)" and prep: "prepare_call c call s = (Inr (Some t, args, None), s')"
  shows "permitted c s' t args \<and> tool_name t = call_name call"
proof -
  let ?ctx = "(blank_context BEFORE_TOOL_CALL (a_run_id s))\<lparr>ctx_tool_name := Some (call_name call),
          ctx_tool_input := Some (call_arguments call)\<rparr>"
  obtain rs s1 where h: "trigger_hooks c BEFORE_TOOL_CALL ?ctx s = (rs, s1)" by force
  define a where "a = replaced_input rs (call_arguments call)"
  from prep h have no_veto: "\<not> list_ex (\<lambda>r. \<not> should_continue r) rs"
    by (auto simp: prepare_call_def bnd_def pure_step_def ret_def)
  obtain d where d: "c_policy c (call_name call) a = Inr d"
    using prep h no_veto by (auto simp: prepare_call_def bnd_Inr pure_step_def check_policy_def a_def [symmetric] Let_def split: sum.splits)
  define s2 where "s2 = log_effect (Decided (call_name call) a d) s1"
  obtain s3 where s3: "audit c (\<lambda>uid ts. log_tool_call (c_redact c) uid ts (call_name call) a d) s2 = (Inr (), s3)"
    and rest: "gate_decided c call a d s3 = (Inr (Some t, args, None), s')"
    using prep h no_veto d
    by (auto simp: prepare_call_def bnd_Inr pure_step_def check_policy_def a_def [symmetric] s2_def [symmetric] Let_def split: prod.splits)
  from gate_decided_admits [OF rest] obtain st s4 where ok: "allowed d"
    and c: "confirmation_status c call a d s3 = (st, s4)" "requires_confirmation d \<longrightarrow> st = Approved"
    and g: "gate_tool c call a s4 = (Inr (Some t, args, None), s')" by blast
  have q: "quiet s s1" "quiet s2 s3" "quiet s3 s4" "quiet s4 s'"
    using quiet_hooks [of s c BEFORE_TOOL_CALL ?ctx] h act_frameD [OF quiet_audit s3]
      quiet_confirmation [of s3 c call a d] c(1) act_frameD [OF quiet_gate g] by simp_all
  then have tools: "a_tools s4 = a_tools s" "a_tools s' = a_tools s"
    by (auto simp: quiet_def tool_step_def core_def s2_def log_effect_def)
  obtain y1 where y1: "a_log s3 = a_log s1 @ Decided (call_name call) a d # y1"
    using quiet_grows [OF q(2)] by (auto simp: s2_def log_effect_def)
  obtain y2 where y2: "a_log s' = a_log s4 @ y2" using quiet_grows [OF q(4)] by blast
  obtain y where "a_log s4 = a_log s3 @ y" "requires_confirmation d \<longrightarrow> Confirmed (call_name call) a \<in> set y"
  proof (cases "requires_confirmation d")
    case True
    then show ?thesis using that confirmation_approved [of c call a d s3 s4] c by fastforce
  next
    case False
    then show ?thesis using that quiet_grows [OF q(3)] by blast
  qed
  then have auth: "authorised c (a_log s') (call_name call) a"
    unfolding authorised_def using y1 y2 d ok by (intro exI [of _ "a_log s1"] exI [of _ d] exI [of _ "y1 @ y @ y2"]) auto
  show ?thesis
    using gate_tool_admits [OF g] keyed tools auth by (auto simp: permitted_def tools_keyed_def)
qed

end
