(* ===== verification/Agent_Batches.thy ===== *)
theory Agent_Batches
  imports Agent_Tools_Proofs
begin

text \<open>
  Executions, retries and batches: only permitted calls run, in the sequential and in the parallel
  mode, and every requested call gets exactly one result, in the order of the requests.
\<close>

section \<open>Execution steps\<close>

definition runs :: "tool \<Rightarrow> obj \<Rightarrow> string \<Rightarrow> obj \<Rightarrow> bool" where
  "runs t a = (\<lambda>n b. n = tool_name t \<and> b = a)"

definition exec_frame :: "(string \<Rightarrow> obj \<Rightarrow> bool) \<Rightarrow> 'w agent \<Rightarrow> 'w agent \<Rightarrow> bool" where
  "exec_frame P s s' \<longleftrightarrow> tool_step P s s' \<and> a_state s' = a_state s"

lemma exec_frame_refl [simp]: "exec_frame P s s"
  by (simp add: exec_frame_def tool_step_refl)

lemma exec_frame_trans: "exec_frame P s t \<Longrightarrow> exec_frame P t u \<Longrightarrow> exec_frame P s u"
  unfolding exec_frame_def using tool_step_trans by metis

lemma quiet_exec_frame: "quiet s t \<Longrightarrow> exec_frame P s t"
  by (simp add: exec_frame_def quiet_tool_step quiet_state)

lemma exec_frame_mono: "exec_frame P s t \<Longrightarrow> (\<And>n a. P n a \<Longrightarrow> Q n a) \<Longrightarrow> exec_frame Q s t"
  unfolding exec_frame_def using tool_step_mono by metis

lemma invoke_frame: "exec_frame (runs t a) s (snd (invoke_tool c t a s))"
  by (auto simp: invoke_tool_def Let_def exec_frame_def tool_step_def core_def log_effect_def runs_def split: prod.split)

lemma run_tool_frame: "exec_frame (runs t a) s (snd (run_tool c t a s))"
  using invoke_frame [of t a s c] by (auto simp: run_tool_def split: option.split prod.split)

lemma world_frame: "exec_frame P s t \<Longrightarrow> exec_frame P s (t\<lparr>a_world := w\<rparr>)"
  by (simp add: exec_frame_def tool_step_def core_def)

lemma retry_wait_frame: "exec_frame P s (retry_wait c call n s)"
  by (simp add: retry_wait_def Let_def quiet_exec_frame quiet_emit world_frame)

lemma retry_frame: "exec_frame (runs t a) s (snd (retry_from c call t a n r s))"
proof (induction c call t a n r s rule: retry_from.induct)
  case (1 c call t a n r s)
  show ?case
  proof (cases "is_transient r \<and> int n < max_transient_retries c t \<and> \<not> cancelled c s")
    case True
    obtain r' s3 where r: "run_tool c t a (retry_wait c call (n + 1) s) = (r', s3)" by force
    have "exec_frame (runs t a) s s3"
      using exec_frame_trans [OF retry_wait_frame run_tool_frame [of t a _ c]] r by (metis snd_conv)
    moreover have "exec_frame (runs t a) s3 (snd (retry_from c call t a (n + 1) r' s3))"
      using "1.IH" [OF True r [symmetric]] .
    moreover have "retry_from c call t a n r s = retry_from c call t a (n + 1) r' s3"
      using True r by (subst retry_from.simps) simp
    ultimately show ?thesis by (auto intro: exec_frame_trans)
  next
    case False
    then show ?thesis by (subst retry_from.simps) auto
  qed
qed

lemma permitted_runs: "permitted c s t a \<Longrightarrow> runs t a n b \<Longrightarrow> authorised c (a_log s) n b"
  by (simp add: permitted_def runs_def)

lemma exec_frame_inv:
  "gate_inv c s \<Longrightarrow> permitted c s t a \<Longrightarrow> exec_frame (runs t a) s s' \<Longrightarrow> gate_inv c s'"
  unfolding exec_frame_def using tool_step_inv permitted_runs by metis

text \<open>A gate-preserving step that keeps the history.\<close>

definition gated_step :: "'w config \<Rightarrow> 'w agent \<Rightarrow> 'w agent \<Rightarrow> bool" where
  "gated_step c s s' \<longleftrightarrow> grows s s' \<and> (gate_inv c s \<longrightarrow> gate_inv c s')"

lemma gated_step_refl [simp]: "gated_step c s s"
  by (simp add: gated_step_def tool_step_refl)

lemma gated_step_trans: "gated_step c s t \<Longrightarrow> gated_step c t u \<Longrightarrow> gated_step c s u"
  unfolding gated_step_def using tool_step_trans by metis

lemma quiet_gated: "quiet s t \<Longrightarrow> gated_step c s t"
  by (simp add: gated_step_def quiet_tool_step quiet_inv)

lemma exec_gated: "permitted c s t a \<Longrightarrow> exec_frame (runs t a) s s' \<Longrightarrow> gated_step c s s'"
  using exec_frame_inv [of c s t a s'] by (auto simp: gated_step_def exec_frame_def intro: tool_step_mono)

lemma answer_gated: "gated_step c s (answer_call c call r e s)"
  by (simp add: gated_step_def answer_call_def tool_step_def core_def gate_inv_def)

lemma execute_one_gated:
  assumes "tools_keyed (a_tools s)" "execute_one c call s = (out, s')"
  shows "gated_step c s s' \<and> a_state s' = a_state s"
proof -
  obtain p s1 where p: "prepare_call c call s = (p, s1)" by force
  have q: "quiet s s1" using act_frameD [OF quiet_prepare p] .
  show ?thesis
  proof (cases p)
    case (Inl e)
    then show ?thesis using assms(2) p q by (simp add: execute_one_def bnd_def quiet_gated quiet_state)
  next
    case (Inr x)
    obtain t args early where x: "x = (t, args, early)" by (cases x) auto
    show ?thesis
    proof (cases "early = None \<and> t \<noteq> None")
      case False
      then have "s' = s1" using assms(2) p Inr x
        by (auto simp: execute_one_def bnd_def ret_def throw_def split: option.splits)
      then show ?thesis using q by (simp add: quiet_gated quiet_state)
    next
      case True
      then obtain tl where t: "t = Some tl" "early = None" by blast
      obtain r s2 where r: "run_tool c tl args s1 = (r, s2)" by force
      obtain r' s3 where r': "retry_transient_tool c call tl args r s2 = (r', s3)" by force
      obtain f s4 where f: "finalize_call c call tl args r' s3 = (f, s4)" by force
      have "s' = s4" using assms(2) p Inr x t r r' f
        by (auto simp: execute_one_def bnd_def pure_step_def ret_def split: sum.splits)
      moreover have "permitted c s1 tl args" using prepare_permits [OF assms(1)] p Inr x t by blast
      moreover have "exec_frame (runs tl args) s1 s3"
        using exec_frame_trans run_tool_frame [of tl args s1 c] retry_frame [of tl args s2 c call 0 r] r r'
        by (metis retry_transient_tool_def snd_conv)
      moreover have "quiet s3 s4" using act_frameD [OF quiet_finalize f] .
      ultimately show ?thesis
        using gated_step_trans [OF gated_step_trans [OF quiet_gated [OF q] exec_gated [of c s1 tl args s3]] quiet_gated [of s3 s4]] q
        by (auto simp: exec_frame_def quiet_state)
    qed
  qed
qed

section \<open>Answers\<close>

definition answers :: "'w config \<Rightarrow> (tool_call \<times> tool_result) list \<Rightarrow> conversation_state \<Rightarrow> conversation_state" where
  "answers c crs st = foldl (\<lambda>st (call, r).
     add_tool_result (call_id call) (JStr (tool_output_for_state c call r)) (is_error r) st) st crs"

lemma answers_Nil [simp]: "answers c [] st = st"
  by (simp add: answers_def)

lemma answers_Cons: "answers c ((call, r) # crs) (a_state s) = answers c crs (a_state (answer_call c call r (is_error r) s))"
  by (simp add: answers_def answer_call_def)

lemma skipped_error [simp]: "is_error skipped_result"
  by (simp add: skipped_result_def err_result_def is_error_def)

lemma gated_tools: "gated_step c s s' \<Longrightarrow> a_tools s' = a_tools s"
  by (simp add: gated_step_def tool_step_def core_def)

lemma pause_remaining: "pause_batch c rest e s = (out, s') \<Longrightarrow> a_remaining s' = rest \<and> (\<exists>e'. out = Inl e')"
  by (auto simp: pause_batch_def bnd_def modify_def save_checkpoint_def throw_def split: option.splits prod.splits sum.splits)

lemma sequential_correct:
  assumes "tools_keyed (a_tools s)" "execute_sequential c calls e s = (out, s')"
  shows "gated_step c s s' \<and> (\<exists>rs. length rs \<le> length calls \<and> a_state s' = answers c (zip calls rs) (a_state s)
    \<and> (\<forall>b. out = Inr b \<longrightarrow> length rs = length calls \<and> b = (e \<or> list_ex is_error rs))
    \<and> (\<forall>x. out = Inl x \<and> is_pending x \<longrightarrow> length rs < length calls \<and> a_remaining s' = drop (length rs) calls))"
  using assms
proof (induction calls arbitrary: e s)
  case (Cons call calls)
  show ?case
  proof (cases "cancelled c s")
    case True
    let ?t = "answer_call c call skipped_result True s"
    have g: "gated_step c s ?t" by (rule answer_gated)
    have "tools_keyed (a_tools ?t)" "execute_sequential c calls True ?t = (out, s')"
      using Cons.prems True gated_tools [OF g] by simp_all
    from Cons.IH [OF this] obtain rs where rs: "gated_step c ?t s'" "length rs \<le> length calls" "a_state s' = answers c (zip calls rs) (a_state ?t)"
      "\<forall>b. out = Inr b \<longrightarrow> length rs = length calls \<and> b"
      "\<forall>x. out = Inl x \<and> is_pending x \<longrightarrow> length rs < length calls \<and> a_remaining s' = drop (length rs) calls" by auto
    have "a_state s' = answers c (zip (call # calls) (skipped_result # rs)) (a_state s)"
      using rs(3) by (simp add: answers_Cons)
    then show ?thesis using rs g
      by (intro conjI exI [of _ "skipped_result # rs"]) (auto intro: gated_step_trans)
  next
    case False
    obtain o1 s1 where x: "execute_one c call (emit_started c call s) = (o1, s1)" by force
    have st: "gated_step c s (emit_started c call s)" "a_state (emit_started c call s) = a_state s"
      using quiet_started [of s c call] by (simp_all add: quiet_gated quiet_state)
    then have "gated_step c (emit_started c call s) s1 \<and> a_state s1 = a_state (emit_started c call s)"
      using execute_one_gated [OF _ x] Cons.prems(1) gated_tools [OF st(1)] by simp
    then have one: "gated_step c s s1" "a_state s1 = a_state s"
      using st gated_step_trans by metis+
    show ?thesis
    proof (cases o1)
      case (Inl ex)
      show ?thesis
      proof (cases "is_pending ex")
        case True
        then have p: "pause_batch c (call # calls) ex s1 = (out, s')" using Cons.prems(2) x Inl False by simp
        have "quiet s1 s'" using act_frameD [OF quiet_pause p] .
        then have "gated_step c s s'" "a_state s' = a_state s"
          using one by (auto intro: gated_step_trans quiet_gated simp: quiet_state)
        then show ?thesis using pause_remaining [OF p]
          by (intro conjI exI [of _ "[]"]) auto
      next
        case np: False
        then have "out = Inl ex" "s' = s1" using Cons.prems(2) x Inl False by auto
        then show ?thesis using one np by (intro conjI exI [of _ "[]"]) auto
      qed
    next
      case (Inr r)
      let ?u = "emit_tool_call_finished c call r s1"
      let ?t = "answer_call c call r (is_error r) ?u"
      have "gated_step c s1 ?u" "a_state ?u = a_state s1"
        using quiet_finished [of s1 c call r] by (simp_all add: quiet_gated quiet_state)
      then have g: "gated_step c s ?t" "a_state ?u = a_state s"
        using one gated_step_trans [OF gated_step_trans answer_gated] by auto
      have "tools_keyed (a_tools ?t)" "execute_sequential c calls (e \<or> is_error r) ?t = (out, s')"
        using Cons.prems False x Inr gated_tools [OF g(1)] by simp_all
      from Cons.IH [OF this] obtain rs where rs: "gated_step c ?t s'" "length rs \<le> length calls" "a_state s' = answers c (zip calls rs) (a_state ?t)"
        "\<forall>b. out = Inr b \<longrightarrow> length rs = length calls \<and> b = ((e \<or> is_error r) \<or> list_ex is_error rs)"
        "\<forall>x. out = Inl x \<and> is_pending x \<longrightarrow> length rs < length calls \<and> a_remaining s' = drop (length rs) calls" by auto
      have "a_state s' = answers c (zip (call # calls) (r # rs)) (a_state s)"
        using rs(3) g(2) answers_Cons [of c call r "zip calls rs" ?u] by simp
      then show ?thesis using rs g(1)
        by (intro conjI exI [of _ "r # rs"]) (auto intro: gated_step_trans)
    qed
  qed
qed (auto intro!: exI [of _ "[]"])

section \<open>Parallel batches\<close>

definition job_runs :: "(nat \<times> tool_call \<times> tool \<times> obj) set \<Rightarrow> string \<Rightarrow> obj \<Rightarrow> bool" where
  "job_runs J = (\<lambda>n a. \<exists>(i, call, t, b) \<in> J. runs t b n a)"

lemma run_batch_frame:
  assumes "run_batch c jobs dn s = (dn', s')"
  shows "exec_frame (job_runs (set jobs)) s s' \<and> (\<forall>i. i \<in> fst ` set jobs \<or> dget dn i \<noteq> None \<longrightarrow> dget dn' i \<noteq> None)"
  using assms
proof (induction jobs arbitrary: dn s)
  case (Cons job jobs)
  obtain i call t a where job: "job = (i, call, t, a)" by (cases job) auto
  let ?R = "job_runs (set (job # jobs))"
  have sub: "job_runs (set jobs) n b \<Longrightarrow> ?R n b" "runs t a n b \<Longrightarrow> ?R n b" for n b
    using job by (auto simp: job_runs_def)
  show ?case
  proof (cases "c_slot_free c i (a_world s)")
    case False
    then have "run_batch c jobs (dset dn i capacity_result) s = (dn', s')" using Cons.prems job by simp
    from Cons.IH [OF this] show ?thesis using job sub(1)
      by (auto intro: exec_frame_mono split: if_splits)
  next
    case True
    obtain r rep s1 where v: "invoke_tool c t a s = ((r, rep), s1)" by (metis prod.exhaust)
    define x where "x = (case tool_timeout c t of
            Some limit \<Rightarrow> if rep_late rep then timeout_result c (call_name call) limit [] (rep_duration rep) else r
          | None \<Rightarrow> r)"
    have rest: "run_batch c jobs (dset dn i x) s1 = (dn', s')" using Cons.prems job True v by (simp add: x_def)
    have "exec_frame ?R s s1" using invoke_frame [of t a s c] v sub(2) by (auto intro: exec_frame_mono)
    moreover have "exec_frame ?R s1 s'" using Cons.IH [OF rest] sub(1) by (auto intro: exec_frame_mono)
    ultimately show ?thesis using Cons.IH [OF rest] job
      by (auto intro: exec_frame_trans split: if_splits)
  qed
qed simp

lemma record_batch_correct:
  assumes "record_batch c gs i dn e s = (out, s')"
    and "\<And>call t a. (call, Admitted t a) \<in> set gs \<Longrightarrow> permitted c s t a"
    and "\<And>k call t a. k < length gs \<Longrightarrow> gs ! k = (call, Admitted t a) \<Longrightarrow> dget dn (i + k) \<noteq> None"
  shows "gated_step c s s' \<and> (\<exists>rs. length rs \<le> length gs \<and> a_state s' = answers c (zip (map fst gs) rs) (a_state s)
    \<and> (\<forall>b. out = Inr b \<longrightarrow> length rs = length gs \<and> b = (e \<or> list_ex is_error rs)))"
  using assms
proof (induction gs arbitrary: i e s)
  case (Cons g gs)
  obtain call x where g: "g = (call, x)" by force
  have later: "gated_step c s s' \<and> (\<exists>rs. length rs \<le> length (g # gs) \<and> a_state s' = answers c (zip (map fst (g # gs)) rs) (a_state s)
      \<and> (\<forall>b. out = Inr b \<longrightarrow> length rs = length (g # gs) \<and> b = (e \<or> list_ex is_error rs)))"
    if u: "gated_step c s u" "a_state u = a_state s"
      and rest: "record_batch c gs (i + 1) dn (e \<or> is_error r) (answer_call c call r (is_error r) u) = (out, s')" for u r
  proof -
    let ?t = "answer_call c call r (is_error r) u"
    have gt: "gated_step c s ?t" using gated_step_trans [OF u(1) answer_gated] .
    have "permitted c ?t t a" if "(call', Admitted t a) \<in> set gs" for call' t a
      using Cons.prems(2) [of call' t a] that gt permitted_grows by (auto simp: gated_step_def)
    moreover have "dget dn (i + 1 + k) \<noteq> None" if "k < length gs" "gs ! k = (call', Admitted t a)" for k call' t a
      using Cons.prems(3) [of "Suc k" call' t a] that by simp
    ultimately obtain rs where rs: "gated_step c ?t s'" "length rs \<le> length gs" "a_state s' = answers c (zip (map fst gs) rs) (a_state ?t)"
      "\<forall>b. out = Inr b \<longrightarrow> length rs = length gs \<and> b = ((e \<or> is_error r) \<or> list_ex is_error rs)"
      using Cons.IH [OF rest] by blast
    have "a_state s' = answers c (zip (map fst (g # gs)) (r # rs)) (a_state s)"
      using rs(3) u(2) g answers_Cons [of c call r "zip (map fst gs) rs" u] by simp
    then show ?thesis using rs gt
      by (intro conjI exI [of _ "r # rs"]) (auto intro: gated_step_trans)
  qed
  show ?case
  proof (cases x)
    case (Skipped r)
    then show ?thesis using later [of s r] Cons.prems(1) g by simp
  next
    case (Early r)
    then show ?thesis using later [of "emit_tool_call_finished c call r s" r] Cons.prems(1) g quiet_finished [of s c call r]
      by (simp add: quiet_gated quiet_state)
  next
    case (Admitted t a)
    obtain r0 where r0: "dget dn i = Some r0" using Cons.prems(3) [of 0 call t a] g Admitted by auto
    obtain r s1 where r: "retry_transient_tool c call t a r0 s = (r, s1)" by force
    obtain f s2 where f: "finalize_call c call t a r s1 = (f, s2)" by force
    have "exec_frame (runs t a) s s1" using retry_frame [of t a s c call 0 r0] r by (simp add: retry_transient_tool_def)
    then have s1: "gated_step c s s1" "a_state s1 = a_state s"
      using exec_gated [of c s t a s1] Cons.prems(2) [of call t a] g Admitted by (auto simp: exec_frame_def)
    have q: "quiet s1 s2" using act_frameD [OF quiet_finalize f] .
    then have s2: "gated_step c s s2" "a_state s2 = a_state s"
      using s1 gated_step_trans [OF s1(1) quiet_gated] by (simp_all add: quiet_state)
    show ?thesis
    proof (cases f)
      case (Inl e')
      then have "out = Inl e'" "s' = s2" using Cons.prems(1) g Admitted r0 r f by simp_all
      then show ?thesis using s2 by (intro conjI exI [of _ "[]"]) auto
    next
      case (Inr y)
      let ?u = "emit_tool_call_finished c call r s2"
      have "gated_step c s ?u" "a_state ?u = a_state s"
        using s2 gated_step_trans [OF s2(1) quiet_gated [OF quiet_finished]] quiet_state [OF quiet_finished [of s2 c call r]] by simp_all
      then show ?thesis using later [of ?u r] Cons.prems(1) g Admitted r0 r f Inr by simp
    qed
  qed
qed (auto intro!: exI [of _ "[]"])

lemma admitted_jobs_index:
  "k < length gs \<Longrightarrow> gs ! k = (call, Admitted t a) \<Longrightarrow> (k, call, t, a) \<in> set (admitted_jobs gs)"
  by (force simp: admitted_jobs_def in_set_enumerate_eq)

lemma admitted_jobs_source: "(k, call, t, a) \<in> set (admitted_jobs gs) \<Longrightarrow> (call, Admitted t a) \<in> set gs"
  by (auto simp: admitted_jobs_def in_set_enumerate_eq split: gated.splits) (metis nth_mem)

lemma dispatch_correct:
  assumes "dispatch_and_record c gs s = (out, s')" "\<And>call t a. (call, Admitted t a) \<in> set gs \<Longrightarrow> permitted c s t a"
  shows "gated_step c s s' \<and> (\<exists>rs. length rs \<le> length gs \<and> a_state s' = answers c (zip (map fst gs) rs) (a_state s)
    \<and> (\<forall>b. out = Inr b \<longrightarrow> length rs = length gs \<and> b = list_ex is_error rs))"
proof -
  obtain dn s1 where b: "run_batch c (sort_key (\<lambda>j. c_schedule c (fst j)) (admitted_jobs gs)) [] s = (dn, s1)" by force
  note frame = run_batch_frame [OF b]
  have "authorised c (a_log s) n a" if "job_runs (set (sort_key (\<lambda>j. c_schedule c (fst j)) (admitted_jobs gs))) n a" for n a
    using that assms(2) admitted_jobs_source permitted_runs by (fastforce simp: job_runs_def)
  then have g1: "gated_step c s s1" "a_state s1 = a_state s"
    using frame tool_step_inv [of c s _ s1] by (auto simp: gated_step_def exec_frame_def intro: tool_step_mono)
  have "record_batch c gs 0 dn False s1 = (out, s')" using assms(1) b by (simp add: dispatch_and_record_def)
  moreover have "permitted c s1 t a" if "(call, Admitted t a) \<in> set gs" for call t a
    using assms(2) [OF that] g1(1) permitted_grows by (auto simp: gated_step_def)
  moreover have "dget dn (0 + k) \<noteq> None" if "k < length gs" "gs ! k = (call, Admitted t a)" for k call t a
    using frame admitted_jobs_index [OF that] by force
  ultimately have "gated_step c s1 s' \<and> (\<exists>rs. length rs \<le> length gs \<and> a_state s' = answers c (zip (map fst gs) rs) (a_state s1)
    \<and> (\<forall>b. out = Inr b \<longrightarrow> length rs = length gs \<and> b = (False \<or> list_ex is_error rs)))"
    by (rule record_batch_correct)
  then show ?thesis using g1 by (auto intro: gated_step_trans)
qed

lemma gate_batch_correct:
  assumes "tools_keyed (a_tools s)" "gate_batch c gs calls s = (out, s')"
    and "\<And>call t a. (call, Admitted t a) \<in> set gs \<Longrightarrow> permitted c s t a"
  shows "gated_step c s s' \<and> (\<exists>rs. length rs \<le> length gs + length calls
    \<and> a_state s' = answers c (zip (map fst gs @ calls) rs) (a_state s)
    \<and> (\<forall>b. out = Inr b \<longrightarrow> length rs = length gs + length calls \<and> b = list_ex is_error rs))"
  using assms
proof (induction calls arbitrary: gs s)
  case Nil
  then show ?case using dispatch_correct [of c gs s out s'] by simp
next
  case (Cons call calls)
  have step: "gated_step c s s' \<and> (\<exists>rs. length rs \<le> length gs + length (call # calls)
      \<and> a_state s' = answers c (zip (map fst gs @ call # calls) rs) (a_state s)
      \<and> (\<forall>b. out = Inr b \<longrightarrow> length rs = length gs + length (call # calls) \<and> b = list_ex is_error rs))"
    if q: "quiet s u" and rest: "gate_batch c (gs @ [(call, x)]) calls u = (out, s')"
      and new: "\<And>t a. x = Admitted t a \<Longrightarrow> permitted c u t a" for u x
  proof -
    have gu: "gated_step c s u" "a_state u = a_state s" using q by (simp_all add: quiet_gated quiet_state)
    have "permitted c u t a" if "(call', Admitted t a) \<in> set (gs @ [(call, x)])" for call' t a
      using that new Cons.prems(3) [of call' t a] gu(1) permitted_grows by (auto simp: gated_step_def)
    then have "gated_step c u s' \<and> (\<exists>rs. length rs \<le> length (gs @ [(call, x)]) + length calls
        \<and> a_state s' = answers c (zip (map fst (gs @ [(call, x)]) @ calls) rs) (a_state u)
        \<and> (\<forall>b. out = Inr b \<longrightarrow> length rs = length (gs @ [(call, x)]) + length calls \<and> b = list_ex is_error rs))"
      using Cons.IH [OF _ rest] Cons.prems(1) gated_tools [OF gu(1)] by simp
    then show ?thesis using gu by (auto intro: gated_step_trans)
  qed
  show ?case
  proof (cases "cancelled c s")
    case True
    then show ?thesis using step [OF quiet_refl, of "Skipped skipped_result"] Cons.prems(2) by simp
  next
    case False
    obtain p s1 where p: "prepare_call c call (emit_started c call s) = (p, s1)" by force
    have q: "quiet s s1" using quiet_trans [OF quiet_started act_frameD [OF quiet_prepare p]] .
    show ?thesis
    proof (cases p)
      case (Inl e)
      show ?thesis
      proof (cases "is_pending e")
        case True
        obtain o2 s2 where d: "dispatch_and_record c gs s1 = (o2, s2)" by force
        have "permitted c s1 t a" if "(call', Admitted t a) \<in> set gs" for call' t a
          using Cons.prems(3) [OF that] quiet_gated [OF q, of c] permitted_grows [of c s t a s1] by (auto simp: gated_step_def)
        then have "gated_step c s1 s2 \<and> (\<exists>rs. length rs \<le> length gs \<and> a_state s2 = answers c (zip (map fst gs) rs) (a_state s1))"
          using dispatch_correct [OF d] by blast
        then obtain rs where rs: "gated_step c s1 s2" "length rs \<le> length gs"
          "a_state s2 = answers c (zip (map fst gs) rs) (a_state s1)" by blast
        have fin: "quiet s2 s' \<and> (\<exists>e'. out = Inl e')"
        proof (cases o2)
          case (Inl e')
          then show ?thesis using Cons.prems(2) False p \<open>p = Inl e\<close> True d by auto
        next
          case (Inr y)
          then have b: "pause_batch c (call # calls) e s2 = (out, s')" using Cons.prems(2) False p \<open>p = Inl e\<close> True d by simp
          then show ?thesis using act_frameD [OF quiet_pause b] pause_remaining [OF b] by simp
        qed
        have "gated_step c s s'"
          using gated_step_trans [OF gated_step_trans [OF quiet_gated [OF q] rs(1)] quiet_gated] fin by blast
        moreover have "a_state s' = answers c (zip (map fst gs @ call # calls) rs) (a_state s)"
          using fin rs(2,3) quiet_state [OF q] by (auto simp: quiet_state zip_append1)
        ultimately show ?thesis using fin rs(2) by (intro conjI exI [of _ rs]) auto
      next
        case np: False
        then have "out = Inl e" "s' = s1" using Cons.prems(2) False p Inl by auto
        then show ?thesis using q by (intro conjI exI [of _ "[]"]) (auto simp: quiet_gated quiet_state)
      qed
    next
      case (Inr x)
      obtain t a early where x: "x = (t, a, early)" by (cases x) auto
      show ?thesis
      proof (cases early)
        case (Some r)
        then show ?thesis using step [OF q, of "Early r"] Cons.prems(2) False p Inr x by (cases t) simp_all
      next
        case None
        show ?thesis
        proof (cases t)
          case tn: None
          then have "out = Inl (Exn ''AssertionError'' [])" "s' = s1" using Cons.prems(2) False p Inr x None by simp_all
          then show ?thesis using q by (intro conjI exI [of _ "[]"]) (auto simp: quiet_gated quiet_state)
        next
          case (Some t')
          have "tools_keyed (a_tools (emit_started c call s))"
            using Cons.prems(1) gated_tools [OF quiet_gated [OF quiet_started [of s c call], of c]] by simp
          then have "permitted c s1 t' a" using prepare_permits p Inr x None Some by blast
          then show ?thesis using step [OF q, of "Admitted t' a"] Cons.prems(2) False p Inr x None Some by simp
        qed
      qed
    qed
  qed
qed

section \<open>The guarantees of a batch\<close>

lemma batch_correct:
  assumes "tools_keyed (a_tools s)" "execute_tool_calls c calls s = (out, s')"
  shows "gated_step c s s' \<and> (\<exists>rs. length rs \<le> length calls \<and> a_state s' = answers c (zip calls rs) (a_state s)
    \<and> (\<forall>b. out = Inr b \<longrightarrow> length rs = length calls \<and> b = list_ex is_error rs))"
proof (cases "c_parallel c \<and> length calls > 1")
  case True
  then show ?thesis using gate_batch_correct [OF assms(1), of c "[]" calls out s'] assms(2) by (simp add: execute_tool_calls_def)
next
  case False
  then have "execute_sequential c calls False s = (out, s')" using assms(2) by (auto simp: execute_tool_calls_def split: if_splits)
  from sequential_correct [OF assms(1) this] show ?thesis by auto
qed

text \<open>
  whatever the hooks, tools and other threads do, in sequential and in parallel mode, a batch
  executes a tool only on a name and arguments the permission policy has allowed before, and, where the
  decision asked for it, a hook has confirmed. This holds at every point of the log, for retries too.
\<close>

theorem batch_executes_only_authorised:
  assumes "tools_keyed (a_tools s)" "safe_log c (a_log s)"
  shows "safe_log c (a_log (snd (execute_tool_calls c calls s)))"
  using batch_correct [OF assms(1), of c calls] assms
  by (cases "execute_tool_calls c calls s") (auto simp: gated_step_def gate_inv_def)

text \<open>
  C18: a batch that completes appends exactly one \<open>tool_result\<close> per requested call, in the order of
  the requests, under the id of the request, whichever calls were denied, skipped, timed out or run in
  parallel; it reports an error exactly when one of the results is an error. A batch cut short by an
  exception has answered a prefix.
\<close>

theorem batch_answers_every_call:
  assumes "tools_keyed (a_tools s)" "execute_tool_calls c calls s = (out, s')"
  shows "\<exists>rs. length rs \<le> length calls \<and> a_state s' = answers c (zip calls rs) (a_state s)
    \<and> (\<forall>b. out = Inr b \<longrightarrow> length rs = length calls \<and> b = list_ex is_error rs)"
  using batch_correct [OF assms] by blast

section \<open>Pauses\<close>

text \<open>
  A \<open>PendingConfirmationError\<close> is the agent's own exception: the policy, the audit log and the checkpoint store
  raise other ones.
\<close>

definition own_pauses :: "'w config \<Rightarrow> bool" where
  "own_pauses c \<longleftrightarrow> (\<forall>n a e. c_policy c n a = Inl e \<longrightarrow> \<not> is_pending e)
     \<and> (\<forall>entry w e. fst (c_audit c entry w) = Inl e \<longrightarrow> \<not> is_pending e)
     \<and> (\<forall>save st rid rt w e. c_checkpoint c = Some save \<longrightarrow> fst (save st rid rt w) = Inl e \<longrightarrow> \<not> is_pending e)"

lemma pending_error_pending [simp]: "is_pending (pending_error call)"
  by (simp add: is_pending_def pending_error_def)

lemma own_pausesD:
  assumes "own_pauses c"
  shows "c_policy c n a = Inl e \<Longrightarrow> \<not> is_pending e" "c_audit c entry w = (Inl e, w') \<Longrightarrow> \<not> is_pending e"
    "c_checkpoint c = Some save \<Longrightarrow> save st rid rt w = (Inl e, w') \<Longrightarrow> \<not> is_pending e"
  using assms unfolding own_pauses_def by (metis fst_conv)+

lemma audit_not_pending: "own_pauses c \<Longrightarrow> audit c mk s = (Inl x, s') \<Longrightarrow> \<not> is_pending x"
  by (auto simp: audit_def split: prod.splits dest: own_pausesD(2))

lemma checkpoint_not_pending: "own_pauses c \<Longrightarrow> save_checkpoint c s = (Inl x, s') \<Longrightarrow> \<not> is_pending x"
  by (auto simp: save_checkpoint_def split: prod.splits option.splits dest: own_pausesD(3))

lemma checkpoint_keeps_pending: "save_checkpoint c s = (r, s') \<Longrightarrow> a_pending s' = a_pending s"
  by (auto simp: save_checkpoint_def split: prod.splits option.splits)

lemma deny_not_pending: "own_pauses c \<Longrightarrow> deny_call c call why inp s = (Inl x, s') \<Longrightarrow> \<not> is_pending x"
  by (auto simp: deny_call_def bnd_def modify_def ret_def split: prod.splits sum.splits dest: audit_not_pending)

lemma gate_tool_not_pending:
  assumes "own_pauses c" "gate_tool c call args s = (Inl x, s')"
  shows "\<not> is_pending x"
  using assms(2)
  by (auto simp: gate_tool_def bnd_def ret_def Let_def is_pending_def dest: validate_tool_input_errors audit_not_pending [OF assms(1), unfolded is_pending_def]
      split: option.splits prod.splits bool.splits if_splits sum.splits list.splits)

text \<open>\<open>waits_for call c s\<close>: the agent waits for the confirmation of a call its policy lets through only if confirmed.\<close>

definition waits_for :: "tool_call \<Rightarrow> 'w config \<Rightarrow> 'w agent \<Rightarrow> bool" where
  "waits_for call c s \<longleftrightarrow> (\<exists>args d. a_pending s = Some (call, args, d) \<and> c_policy c (call_name call) args = Inr d
     \<and> allowed d \<and> requires_confirmation d)"

lemma gate_decided_pending:
  assumes "own_pauses c" "c_policy c (call_name call) args = Inr d" "gate_decided c call args d s = (Inl x, s')" "is_pending x"
  shows "x = pending_error call \<and> waits_for call c s'"
proof -
  obtain status s1 where st: "confirmation_status c call args d s = (status, s1)" by force
  show ?thesis
  proof (cases "allowed d \<and> requires_confirmation d \<and> status = No_hook \<and> c_checkpoint c \<noteq> None")
    case True
    obtain r s2 where save: "save_checkpoint c (s1\<lparr>a_pending := Some (call, args, d)\<rparr>) = (r, s2)" by force
    have "(Inl x, s') = (case r of Inl e \<Rightarrow> (Inl e, s2) | Inr _ \<Rightarrow> (Inl (pending_error call), s2))"
      using assms(3) True st save
      by (simp add: gate_decided_def bnd_def pure_step_def modify_def throw_def split: sum.splits)
    moreover have "r \<noteq> Inl e" if "is_pending e" for e using checkpoint_not_pending [OF assms(1)] save that by blast
    ultimately have "x = pending_error call" "s' = s2" using assms(4) by (auto split: sum.splits)
    then show ?thesis using True assms(2) checkpoint_keeps_pending [OF save] by (simp add: waits_for_def)
  next
    case False
    then have "\<not> is_pending x"
      using assms(3) st deny_not_pending [OF assms(1)] gate_tool_not_pending [OF assms(1)]
      by (auto simp: gate_decided_def bnd_def pure_step_def ret_def split: if_splits prod.splits sum.splits)
    then show ?thesis using assms(4) by simp
  qed
qed

lemma prepare_pending:
  assumes "own_pauses c" "prepare_call c call s = (Inl x, s')" "is_pending x"
  shows "x = pending_error call \<and> waits_for call c s'"
proof -
  have policy: "\<not> is_pending e" if "c_policy c n a = Inl e" for n a e using assms(1) that by (simp add: own_pauses_def)
  show ?thesis
    using assms(2,3) policy audit_not_pending [OF assms(1)] gate_decided_pending [OF assms(1)]
    by (auto simp: prepare_call_def bnd_def pure_step_def ret_def Let_def check_policy_def split: if_splits prod.splits sum.splits)
qed

lemma execute_one_pending:
  assumes "own_pauses c" "execute_one c call s = (Inl x, s')" "is_pending x"
  shows "x = pending_error call \<and> waits_for call c s'"
proof -
  have final: "\<not> is_pending e" if "finalize_call c call t args r u = (Inl e, u')" for t args r u u' e
    using that audit_not_pending [OF assms(1)]
    by (auto simp: finalize_call_def bnd_def modify_def pure_step_def ret_def split: prod.splits sum.splits)
  show ?thesis
    using assms(2,3) prepare_pending [OF assms(1)] final
    by (auto simp: execute_one_def bnd_def pure_step_def ret_def throw_def is_pending_def split: prod.splits sum.splits option.splits)
qed

lemma pause_batch_pending:
  assumes "own_pauses c" "pause_batch c rest e s = (Inl x, s')" "is_pending x"
  shows "x = e \<and> a_pending s' = a_pending s \<and> a_remaining s' = rest"
  using assms(2,3) checkpoint_not_pending [OF assms(1)] checkpoint_keeps_pending [of c "s\<lparr>a_remaining := rest\<rparr>"] pause_remaining [OF assms(2)]
  by (auto simp: pause_batch_def bnd_def modify_def throw_def split: prod.splits sum.splits)

lemma sequential_pending:
  assumes "own_pauses c" "execute_sequential c calls e s = (Inl x, s')" "is_pending x"
  shows "a_remaining s' \<noteq> [] \<and> x = pending_error (hd (a_remaining s')) \<and> waits_for (hd (a_remaining s')) c s'"
  using assms(2)
proof (induction calls arbitrary: e s)
  case (Cons call calls)
  show ?case
  proof (cases "cancelled c s")
    case True
    then show ?thesis using Cons by simp
  next
    case False
    obtain out s1 where one: "execute_one c call (emit_started c call s) = (out, s1)" by force
    show ?thesis
    proof (cases out)
      case (Inr r)
      then show ?thesis using Cons False one by simp
    next
      case (Inl ex)
      then have "is_pending ex \<and> (pause_batch c (call # calls) ex :: ('a, bool) act) s1 = (Inl x, s')"
        using Cons.prems False one assms(3) by (auto split: if_splits)
      then show ?thesis
        using execute_one_pending [OF assms(1) one [unfolded Inl]] pause_batch_pending [OF assms(1) _ assms(3)]
        by (fastforce simp: waits_for_def)
    qed
  qed
qed simp

text \<open>
  C19: suppose the policy, the audit log and the checkpoint store raise no \<open>PendingConfirmationError\<close> of their
  own. When a sequential batch pauses for a human confirmation, the calls left for the resumed run are exactly
  those that have no result yet, and the first of them is the one that waits: the exception names it, and it
  is the pending call, with arguments for which the policy asks for a confirmation.
\<close>

theorem pause_keeps_unanswered:
  assumes "tools_keyed (a_tools s)" "execute_sequential c calls e s = (Inl x, s')" "is_pending x" "own_pauses c"
  shows "\<exists>k < length calls. a_remaining s' = drop k calls \<and> x = pending_error (calls ! k)
    \<and> (\<exists>args d. a_pending s' = Some (calls ! k, args, d) \<and> c_policy c (call_name (calls ! k)) args = Inr d
         \<and> allowed d \<and> requires_confirmation d)
    \<and> (\<exists>rs. length rs = k \<and> a_state s' = answers c (zip (take k calls) rs) (a_state s))"
proof -
  obtain rs where rs: "length rs \<le> length calls" "a_state s' = answers c (zip calls rs) (a_state s)"
    "length rs < length calls" "a_remaining s' = drop (length rs) calls"
    using sequential_correct [OF assms(1,2)] assms(3) by blast
  moreover have "hd (a_remaining s') = calls ! length rs" using rs(3,4) by (simp add: hd_drop_conv_nth)
  moreover have "zip calls rs = zip (take (length rs) calls) rs"
    using take_zip [of "length rs" calls rs] by simp
  ultimately show ?thesis
    using sequential_pending [OF assms(4,2,3)] by (intro exI [of _ "length rs"]) (auto simp: waits_for_def intro!: exI [of _ rs])
qed

section \<open>A sample agent\<close>

text \<open>A deterministic instance without outside world, used to exercise the theorems on concrete batches.\<close>

definition sample_tool :: tool where
  "sample_tool = \<lparr>tool_name = ''echo'', tool_description = [], tool_parameters = JObj [], tool_risk_level = None,
     tool_execution_policy = None, tool_takes_idempotency_key = False\<rparr>"

definition sample_decision :: "string \<Rightarrow> permission_decision" where
  "sample_decision n = \<lparr>allowed = (n \<in> {''echo'', ''rm''}), reason = [], requires_confirmation = (n = ''rm'')\<rparr>"

definition sample_config :: "unit config" where
  "sample_config = \<lparr>c_bus = [], c_hooks = None,
     c_policy = (\<lambda>n a. Inr (sample_decision n)),
     c_execute = (\<lambda>t a w. (\<lparr>rep_outcome = ExecValue (JStr ''ok''), rep_duration = 0, rep_late = False\<rparr>, w)),
     c_slot_free = (\<lambda>i w. True), c_schedule = (\<lambda>i. i), c_clock = (\<lambda>w. 0), c_sleep = (\<lambda>r w. w),
     c_stamp = (\<lambda>w. ((''id'', ''now''), w)), c_audit = (\<lambda>e w. (Inr (), w)), c_cancelled = (\<lambda>w. False),
     c_checkpoint = Some (\<lambda>st rid rt w. (Inr (), w)), c_redact = (\<lambda>s. []), c_sha = (\<lambda>s. s), c_float_repr = (\<lambda>r. ''0.0''),
     c_tool_timeout = None, c_validate = True, c_parallel = True, c_max_transient_retries = 2, c_backoff = 0, c_guard = False\<rparr>"

definition sample_agent :: "unit agent" where
  "sample_agent = \<lparr>a_world = (), a_state = empty_state, a_tools = [(''echo'', sample_tool)], a_mode = Mode_MAX, a_max_iterations = 50,
     a_override = None, a_extended = True, a_sticky_max = False, a_run_id = Some ''r'', a_resuming = False, a_pending = None,
     a_remaining = [], a_usage = [], a_structured = None, a_evidence = None, a_effective_verify = False, a_budget = None,
     a_stuck = None, a_circuits = [], a_stop_reason = None, a_plan = None, a_log = []\<rparr>"

definition sample_call :: "string \<Rightarrow> string \<Rightarrow> obj \<Rightarrow> tool_call" where
  "sample_call i n a = \<lparr>call_id = i, call_name = n, call_arguments = a\<rparr>"

definition sample_batch :: "tool_call list" where
  "sample_batch = [sample_call ''1'' ''echo'' [], sample_call ''2'' ''ls'' [], sample_call ''3'' ''echo'' [(''x'', JInt 1)]]"

lemma sample_keyed: "tools_keyed (a_tools sample_agent)"
  by (simp add: sample_agent_def tools_keyed_def sample_tool_def)

lemma sample_safe: "safe_log sample_config (a_log sample_agent)"
  by (simp add: sample_agent_def safe_log_def)

theorem batch_executes_only_authorised_witness:
  "safe_log sample_config (a_log (snd (execute_tool_calls sample_config sample_batch sample_agent)))"
  by (rule batch_executes_only_authorised [OF sample_keyed sample_safe])

theorem batch_answers_every_call_witness:
  "\<exists>out s' rs. execute_tool_calls sample_config sample_batch sample_agent = (out, s') \<and> length rs \<le> 3
     \<and> a_state s' = answers sample_config (zip sample_batch rs) empty_state
     \<and> (\<forall>b. out = Inr b \<longrightarrow> length rs = 3 \<and> b = list_ex is_error rs)"
proof -
  obtain out s' where x: "execute_tool_calls sample_config sample_batch sample_agent = (out, s')" by force
  have "length sample_batch = 3" "a_state sample_agent = empty_state" by (simp_all add: sample_batch_def sample_agent_def)
  with batch_answers_every_call [OF sample_keyed x] x show ?thesis by metis
qed

definition sample_confirm :: "tool_call list" where
  "sample_confirm = [sample_call ''1'' ''rm'' [], sample_call ''2'' ''echo'' []]"

lemma sample_pauses: "own_pauses sample_config"
  by (simp add: own_pauses_def sample_config_def)

theorem pause_keeps_unanswered_witness:
  "\<exists>k < 2. a_remaining (snd (execute_sequential sample_config sample_confirm False sample_agent)) = drop k sample_confirm
     \<and> (\<exists>args d. a_pending (snd (execute_sequential sample_config sample_confirm False sample_agent)) = Some (sample_confirm ! k, args, d))"
proof -
  have "case fst (execute_sequential sample_config sample_confirm False sample_agent) of Inl x \<Rightarrow> is_pending x | Inr _ \<Rightarrow> False"
    by code_simp
  then obtain x s' where x: "execute_sequential sample_config sample_confirm False sample_agent = (Inl x, s')" "is_pending x"
    by (cases "execute_sequential sample_config sample_confirm False sample_agent") (auto split: sum.splits)
  have "length sample_confirm = 2" by (simp add: sample_confirm_def)
  with pause_keeps_unanswered [OF sample_keyed x sample_pauses] x show ?thesis by auto
qed

end
