(* ===== verification/Structured_Output.thy ===== *)
theory Structured_Output
  imports Json_Text Tool_Model Agent_Tools
begin

text \<open>
  What the loop uses besides tools: structured answers (\<open>agent/structured.py\<close>), plans
  (\<open>agent/planning.py\<close>), verification evidence (\<open>verify/models.py\<close>) and usage totals
  (\<open>llm/usage.py\<close>).
\<close>

section \<open>Structured answers\<close>

definition schema_instruction :: "json \<Rightarrow> string" where
  "schema_instruction schema = ''Your final answer MUST be a single JSON value matching this JSON Schema:'' @ [LF]
     @ json_dumps_utf8 schema @ [LF] @ ''Reply with ONLY the JSON '' @ [CHR 0x1A] @ '' no prose, no markdown fences.''"

definition correction_message :: "string list \<Rightarrow> string" where
  "correction_message problems = ''Your previous reply did not satisfy the required JSON schema. Problems: ''
     @ py_join ''; '' problems @ ''. Reply with ONLY the corrected JSON value.''"

fun scan_embedded :: "float_conv \<Rightarrow> string \<Rightarrow> json option" where
  "scan_embedded fl [] = None"
| "scan_embedded fl (ch # rest) =
     (if ch \<in> set ''{['' then (case raw_decode fl (ch # rest) of Some v \<Rightarrow> Some v | None \<Rightarrow> scan_embedded fl rest)
      else scan_embedded fl rest)"

definition parse_structured :: "float_conv \<Rightarrow> string \<Rightarrow> json option" where
  "parse_structured fl txt = (let stripped = py_strip txt in
     if stripped = [] then None
     else case json_loads fl stripped of Some v \<Rightarrow> Some v | None \<Rightarrow> scan_embedded fl stripped)"

definition validate_structured :: "json \<Rightarrow> json \<Rightarrow> string list result" where
  "validate_structured schema v = validate_value schema v ''$''"

text \<open>\<open>Inr (Inr v)\<close> for an accepted value, \<open>Inr (Inl problems)\<close> for a rejected answer.\<close>

definition check_final_answer :: "float_conv \<Rightarrow> json \<Rightarrow> string \<Rightarrow> (string list + json) result" where
  "check_final_answer fl schema txt = (case parse_structured fl txt of
     None \<Rightarrow> Inr (Inl [''final answer is not valid JSON''])
   | Some v \<Rightarrow> bind_res (validate_structured schema v) (\<lambda>problems.
       Inr (if problems \<noteq> [] then Inl problems else Inr v)))"

section \<open>Plans\<close>

definition make_plan :: "string \<Rightarrow> string list \<Rightarrow> plan result" where
  "make_plan goal steps =
     (if is_blank goal then Inl (Exn ''ValueError'' ''plan goal must be a non-empty string'')
      else if steps = [] \<or> list_ex is_blank steps
      then Inl (Exn ''ValueError'' ''plan steps must contain at least one non-empty string'')
      else Inr \<lparr>plan_goal = goal, plan_steps = steps\<rparr>)"

definition plan_to_prompt :: "plan \<Rightarrow> string" where
  "plan_to_prompt p =
     ''Execution plan (follow it when evidence supports it; update your approach if tool results contradict it):'' @ [LF]
     @ ''Goal: '' @ plan_goal p @ [LF]
     @ py_join [LF] (map (\<lambda>(i, step). str_of_nat i @ ''. '' @ step) (enumerate 1 (plan_steps p)))"

definition static_plan :: "string list \<Rightarrow> string option \<Rightarrow> string \<Rightarrow> plan result" where
  "static_plan steps goal task = make_plan (case goal of Some (g # gs) \<Rightarrow> g # gs | _ \<Rightarrow> task) steps"

section \<open>Verification evidence\<close>

definition or_default :: "json \<Rightarrow> json \<Rightarrow> json" where
  "or_default v d = (if truthy v then v else d)"

definition str_list :: "json \<Rightarrow> string list" where
  "str_list v = (case or_default v (JArr []) of JArr xs \<Rightarrow> map py_str xs | w \<Rightarrow> [py_str w])"

definition evidence_from_dict :: "obj \<Rightarrow> verification_evidence" where
  "evidence_from_dict data = \<lparr>changed_files = str_list (jget data ''changed_files''),
     commands_run = str_list (jget data ''commands_run''),
     test_results = (case or_default (jget data ''test_results'') (JObj []) of JObj d \<Rightarrow> map (\<lambda>(k, v). (k, py_str v)) d | _ \<Rightarrow> []),
     remaining_risks = str_list (jget data ''remaining_risks'')\<rparr>"

definition passing_words :: "string list" where
  "passing_words = [''passed'', ''pass'', ''ok'', ''success'', ''green'']"

definition has_passing_test :: "verification_evidence \<Rightarrow> bool" where
  "has_passing_test e = list_ex (\<lambda>(k, v). py_lower v \<in> set passing_words) (test_results e)"

definition is_verified :: "verification_evidence \<Rightarrow> bool" where
  "is_verified e = (changed_files e \<noteq> [] \<and> commands_run e \<noteq> [] \<and> has_passing_test e)"

definition verification_problems :: "verification_evidence option \<Rightarrow> string list" where
  "verification_problems ev = (case ev of
     None \<Rightarrow> [''missing verification evidence'']
   | Some e \<Rightarrow> (if changed_files e = [] then [''changed_files is empty''] else [])
       @ (if commands_run e = [] then [''commands_run is empty''] else [])
       @ (if has_passing_test e then [] else [''no successful test result'']))"

definition string_array :: json where
  "string_array = JObj [(''type'', JStr ''array''), (''items'', JObj [(''type'', JStr ''string'')])]"

definition verification_schema :: json where
  "verification_schema = JObj
     [(''type'', JStr ''object''),
      (''properties'', JObj
        [(''changed_files'', string_array), (''commands_run'', string_array),
         (''test_results'', JObj [(''type'', JStr ''object''), (''additionalProperties'', JObj [(''type'', JStr ''string'')])]),
         (''remaining_risks'', string_array)]),
      (''required'', JArr [JStr ''changed_files'', JStr ''commands_run'', JStr ''test_results'']),
      (''additionalProperties'', JBool False)]"

section \<open>Usage totals\<close>

record usage_snapshot =
  us_input_tokens :: int
  us_output_tokens :: int
  us_cost_usd :: rat
  us_calls :: nat

definition usage_record :: "obj \<Rightarrow> usage_snapshot \<Rightarrow> usage_snapshot" where
  "usage_record usage u = (if usage = [] then u else
     u\<lparr>us_calls := us_calls u + 1,
       us_input_tokens := us_input_tokens u + usage_field (JObj usage) ''input_tokens'',
       us_output_tokens := us_output_tokens u + usage_field (JObj usage) ''output_tokens'',
       us_cost_usd := us_cost_usd u + (case num_val (jget usage ''cost_usd'') of Some r \<Rightarrow> r | None \<Rightarrow> 0)\<rparr>)"

section \<open>Properties\<close>

text \<open>The two statements of the verification contract agree.\<close>

lemma verification_agrees: "verification_problems (Some e) = [] \<longleftrightarrow> is_verified e"
  by (simp add: verification_problems_def is_verified_def)

text \<open>A printed value begins and ends with a visible character, so stripping it changes nothing.\<close>

definition visible :: "char \<Rightarrow> bool" where
  "visible ch = (33 \<le> code_of ch \<and> code_of ch \<le> 126)"

lemma visible_not_space: "visible ch \<Longrightarrow> \<not> is_space ch"
  by (auto simp: visible_def is_space_def Let_def)

lemma num_chars_visible: "ch \<in> num_chars \<Longrightarrow> visible ch"
  by (auto simp: num_chars_def visible_def is_digit_def) (simp_all add: code_of_def)

lemma strip_visible:
  assumes "s \<noteq> []" "visible (hd s)" "visible (last s)"
  shows "py_strip s = s"
proof -
  have "dropWhile is_space s = s" using assms visible_not_space by (cases s) auto
  moreover have "dropWhile is_space (rev s) = rev s"
    using assms visible_not_space by (cases s rule: rev_cases) auto
  ultimately show ?thesis by (simp add: py_strip_def lstrip_by_def rstrip_by_def)
qed

lemma num_text_visible: "set s \<subseteq> num_chars \<Longrightarrow> s \<noteq> [] \<Longrightarrow> visible (hd s) \<and> visible (last s)"
  using num_chars_visible by (meson hd_in_set last_in_set subsetD)

lemma print_visible:
  assumes "json_wf fl v"
  shows "print_json opts v \<noteq> [] \<and> visible (hd (print_json opts v)) \<and> visible (last (print_json opts v))"
proof (cases v)
  case (JInt i)
  have "str_of_int i \<noteq> []" using num_start_int [of i] by (simp add: num_start_def)
  then show ?thesis using JInt num_text_visible [OF str_of_int_chars] by simp
next
  case (JFloat r s)
  then have "s \<noteq> []" "set s \<subseteq> num_chars"
    using assms num_start_float float_text_chars by (auto simp: num_start_def)
  then show ?thesis using JFloat num_text_visible by simp
qed (auto simp: visible_def code_of_def json_string_def)

lemma accepted_conforms:
  assumes "wf_schema schema" "check_final_answer fl schema txt = Inr (Inr v)"
  shows "conforms v schema"
proof -
  have "\<exists>es. validate_value schema v ''$'' = Inr es \<and> (es = [] \<longleftrightarrow> conforms v schema)"
    unfolding validate_value_def by (rule validate_value_at_correct [OF assms(1)])
  then show ?thesis
    using assms(2) by (auto simp: check_final_answer_def validate_structured_def bind_res_Inr_iff split: option.splits if_splits)
qed

text \<open>
  with a well-shaped schema a final answer is accepted only with a value that conforms to it, and the
  JSON text of any conforming value is accepted as exactly that value.
\<close>

theorem structured_answer_exact:
  assumes "wf_schema schema"
  shows "(check_final_answer fl schema txt = Inr (Inr v) \<longrightarrow> conforms v schema)
    \<and> (json_wf fl w \<and> conforms w schema \<longrightarrow> check_final_answer fl schema (json_dumps_utf8 w) = Inr (Inr w))"
proof
  have val: "\<exists>es. validate_value schema u path = Inr es \<and> (es = [] \<longleftrightarrow> conforms u schema)" for u path
    unfolding validate_value_def by (rule validate_value_at_correct [OF assms])
  show "check_final_answer fl schema txt = Inr (Inr v) \<longrightarrow> conforms v schema"
    using accepted_conforms [OF assms] by blast
  show "json_wf fl w \<and> conforms w schema \<longrightarrow> check_final_answer fl schema (json_dumps_utf8 w) = Inr (Inr w)"
  proof (intro impI, elim conjE)
    assume w: "json_wf fl w" "conforms w schema"
    have "py_strip (json_dumps_utf8 w) = json_dumps_utf8 w" "json_dumps_utf8 w \<noteq> []"
      using print_visible [OF w(1), of "spaced False"] strip_visible by (auto simp: json_dumps_utf8_def)
    then have "parse_structured fl (json_dumps_utf8 w) = Some w"
      by (simp add: parse_structured_def dumps_utf8_loads [OF w(1)])
    then show "check_final_answer fl schema (json_dumps_utf8 w) = Inr (Inr w)"
      using val [of w "''$''"] w(2) by (auto simp: check_final_answer_def validate_structured_def)
  qed
qed

theorem structured_answer_exact_witness:
  "check_final_answer (\<lambda>s. (0, s)) (JObj [(''type'', JStr ''string'')]) (json_dumps_utf8 (JStr ''done'')) = Inr (Inr (JStr ''done''))"
proof -
  have "wf_schema (JObj [(''type'', JStr ''string'')])" "conforms (JStr ''done'') (JObj [(''type'', JStr ''string'')])"
    by (simp_all add: wf_schema.simps conforms.simps)
  then show ?thesis
    using structured_answer_exact [of "JObj [(''type'', JStr ''string'')]" "\<lambda>s. (0, s)"] by simp
qed

end
