(* ===== verification/Agent_Loop.thy ===== *)
theory Agent_Loop
  imports Agent_Tools Structured_Output
begin

text \<open>
  The run of an agent (\<open>agent/agent.py\<close>): routing by the classifier (\<open>agent/classifier.py\<close>,
  \<open>agent/modes.py\<close>), the model call, structured and verified answers, escalation, persistence and
  the loop itself. The collaborators that only the loop uses are the record \<open>services\<close>. The pause
  gate \<open>_pause_event.wait()\<close> is one of them: \<open>v_await\<close> gives the world in which the wait returns, after what
  other threads did meanwhile, so the runs of the model are those in which every pause is resumed (by
  \<open>resume\<close> or \<open>cancel\<close>) and every collaborator returns. One iteration of the loop is \<open>loop_turn\<close>; the loop takes a bound on its iterations, which \<open>run\<close> sets to the largest
  iteration cap the run can reach, plus one.
\<close>

section \<open>Collaborators of the loop\<close>

datatype task_complexity = SIMPLE | COMPLEX

fun to_mode :: "task_complexity \<Rightarrow> agent_mode" where
  "to_mode SIMPLE = Mode_FLASH"
| "to_mode COMPLEX = Mode_MAX"

fun complexity_value :: "task_complexity \<Rightarrow> string" where
  "complexity_value SIMPLE = ''simple''"
| "complexity_value COMPLEX = ''complex''"

record classification =
  cl_complexity :: task_complexity
  cl_mode :: agent_mode
  cl_confidence :: rat
  cl_rationale :: string

datatype stream_item = TextDelta string | StreamDone llm_response | OtherItem

datatype verdict = BadVerdict | Verdict bool "string option"

record 'w memory_ops =
  mem_search :: "string \<Rightarrow> 'w \<Rightarrow> string list result \<times> 'w"
  mem_add :: "string \<Rightarrow> string option \<Rightarrow> 'w \<Rightarrow> string result \<times> 'w"
  mem_clear :: "string \<Rightarrow> 'w \<Rightarrow> unit result \<times> 'w"

record 'w services =
  v_chat :: "message list \<Rightarrow> json list option \<Rightarrow> string option \<Rightarrow> 'w \<Rightarrow> llm_response result \<times> 'w"
  v_chat_stream :: "message list \<Rightarrow> json list option \<Rightarrow> string option \<Rightarrow> 'w \<Rightarrow> (stream_item list \<times> exn option) \<times> 'w"
  v_classify :: "string \<Rightarrow> 'w \<Rightarrow> classification result \<times> 'w"
  v_planner :: "(string \<Rightarrow> json list \<Rightarrow> 'w \<Rightarrow> plan option result \<times> 'w) option"
  v_verifier :: "(string \<Rightarrow> string \<Rightarrow> plan option \<Rightarrow> 'w \<Rightarrow> verdict result \<times> 'w) option"
  v_memory :: "'w memory_ops option"
  v_should_compact :: "conversation_state \<Rightarrow> bool"
  v_compact :: "conversation_state \<Rightarrow> 'w \<Rightarrow> conversation_state result \<times> 'w"
  v_estimate :: "conversation_state \<Rightarrow> int"
  v_manager_name :: string
  v_save :: "(conversation_state \<Rightarrow> 'w \<Rightarrow> unit result \<times> 'w) option"
  v_snapshot :: "(conversation_state \<Rightarrow> string option \<Rightarrow> 'w \<Rightarrow> unit result \<times> 'w) option"
  v_uuid :: "'w \<Rightarrow> string \<times> 'w"
  v_clear_cancel :: "'w \<Rightarrow> 'w"
  v_inbox :: "'w \<Rightarrow> string list \<times> 'w"
  v_await :: "'w \<Rightarrow> 'w"
  v_max_verification_retries :: nat
  v_verification_required :: bool
  v_float_lit :: float_conv

section \<open>Routing\<close>

definition py_upper_ascii :: "string \<Rightarrow> string" where
  "py_upper_ascii s = map (\<lambda>x. let n = code_of x in if 97 \<le> n \<and> n \<le> 122 then char_of (n - 32) else x) s"

definition parse_complexity :: "string \<Rightarrow> task_complexity" where
  "parse_complexity answer = (if contains ''COMPLEX'' answer then COMPLEX
     else if contains ''SIMPLE'' answer then SIMPLE else COMPLEX)"

definition default_classify :: "string \<Rightarrow> classification" where
  "default_classify task = \<lparr>cl_complexity = COMPLEX, cl_mode = Mode_MAX, cl_confidence = 1, cl_rationale = ''default''\<rparr>"

text \<open>The model-backed classifier, given the outcome of its model call; every failure means \<open>COMPLEX\<close>.\<close>

definition model_classify :: "string result \<Rightarrow> classification" where
  "model_classify reply = (case reply of
     Inl e \<Rightarrow> \<lparr>cl_complexity = COMPLEX, cl_mode = Mode_MAX, cl_confidence = 0, cl_rationale = ''classifier_error''\<rparr>
   | Inr content \<Rightarrow> (case parse_complexity (py_upper_ascii (py_strip content)) of
        SIMPLE \<Rightarrow> \<lparr>cl_complexity = SIMPLE, cl_mode = to_mode SIMPLE, cl_confidence = 8 / 10, cl_rationale = ''model:SIMPLE''\<rparr>
      | COMPLEX \<Rightarrow> \<lparr>cl_complexity = COMPLEX, cl_mode = to_mode COMPLEX, cl_confidence = 9 / 10, cl_rationale = ''model:COMPLEX''\<rparr>))"

fun escalates_to :: "agent_mode \<Rightarrow> agent_mode option" where
  "escalates_to Mode_FLASH = Some Mode_MAX"
| "escalates_to Mode_MAX = None"

fun mode_cap :: "agent_mode \<Rightarrow> int" where
  "mode_cap Mode_FLASH = 5"
| "mode_cap Mode_MAX = 50"

definition escalate :: "'w config \<Rightarrow> 'w agent \<Rightarrow> bool \<times> 'w agent" where
  "escalate c s = (case escalates_to (a_mode s) of
     None \<Rightarrow> (False, s)
   | Some target \<Rightarrow>
       (let s1 = s\<lparr>a_mode := target, a_extended := (target = Mode_MAX)\<rparr>;
            s2 = (if target = Mode_MAX then s1\<lparr>a_sticky_max := True\<rparr> else s1);
            s3 = (if a_override s2 = None then s2\<lparr>a_max_iterations := mode_cap target\<rparr> else s2)
        in (True, emit c ''agent.escalated''
              [(''from'', JStr (mode_value (a_mode s))), (''to'', JStr (mode_value target))] s3)))"

definition maybe_escalate :: "'w config \<Rightarrow> nat \<Rightarrow> bool \<Rightarrow> bool \<Rightarrow> 'w agent \<Rightarrow> bool \<times> 'w agent" where
  "maybe_escalate c iteration triggered_by_error already_escalated s =
     (if already_escalated \<or> a_mode s \<noteq> Mode_FLASH then (already_escalated, s)
      else if (iteration = 0 \<and> triggered_by_error) \<or> iteration + 1 \<ge> 3 then escalate c s
      else (False, s))"

definition apply_mode :: "agent_mode \<Rightarrow> 'w agent \<Rightarrow> 'w agent" where
  "apply_mode m s = s\<lparr>a_mode := m, a_extended := (m = Mode_MAX),
     a_max_iterations := (case a_override s of Some n \<Rightarrow> n | None \<Rightarrow> mode_cap m)\<rparr>"

definition user_text :: "message \<Rightarrow> string option" where
  "user_text m = (if jget m ''role'' = JStr ''user'' then str_opt (jget m ''content'') else None)"

definition first_user_message :: "conversation_state \<Rightarrow> string option" where
  "first_user_message st = (case List.map_filter user_text (rev (messages st)) of [] \<Rightarrow> None | t # ts \<Rightarrow> Some t)"

definition nonempty_or :: "string option \<Rightarrow> string option \<Rightarrow> string option" where
  "nonempty_or a b = (case a of Some (x # xs) \<Rightarrow> a | _ \<Rightarrow> b)"

definition classify_and_route :: "'w config \<Rightarrow> 'w services \<Rightarrow> string option \<Rightarrow> 'w agent \<Rightarrow> 'w agent" where
  "classify_and_route c v msg s =
     (let task = (case msg of Some m \<Rightarrow> m | None \<Rightarrow> (case first_user_message (a_state s) of Some m \<Rightarrow> m | None \<Rightarrow> []))
      in case v_classify v task (a_world s) of (r, w) \<Rightarrow>
        let s1 = s\<lparr>a_world := w\<rparr> in
        (case r of
           Inl e \<Rightarrow> apply_mode Mode_MAX s1
         | Inr cl \<Rightarrow>
             let downgrade = (cl_mode cl = Mode_FLASH \<and> a_sticky_max s1);
                 mode = (if downgrade then Mode_MAX else cl_mode cl);
                 rationale = (if downgrade then (if cl_rationale cl \<noteq> [] then cl_rationale cl @ '' '' else [])
                    @ ''[max sticky: downgrade prevented]'' else cl_rationale cl);
                 s2 = (if \<not> downgrade \<and> mode = Mode_MAX then s1\<lparr>a_sticky_max := True\<rparr> else s1)
             in emit c ''agent.classified''
                  [(''complexity'', JStr (complexity_value (cl_complexity cl))), (''mode'', JStr (mode_value (cl_mode cl))),
                   (''applied_mode'', JStr (mode_value mode)), (''confidence'', json_float c (cl_confidence cl)),
                   (''rationale'', JStr rationale)] (apply_mode mode s2)))"

section \<open>Context, budget and the model call\<close>

definition add_user :: "string \<Rightarrow> 'w agent \<Rightarrow> 'w agent" where
  "add_user msg s = s\<lparr>a_state := add_user_message msg (a_state s)\<rparr>"

definition maybe_compact_context :: "'w config \<Rightarrow> 'w services \<Rightarrow> ('w, unit) act" where
  "maybe_compact_context c v s =
     (if \<not> v_should_compact v (a_state s) then (Inr (), s)
      else case v_compact v (a_state s) (a_world s) of
        (Inl e, w) \<Rightarrow> (Inl e, s\<lparr>a_world := w\<rparr>)
      | (Inr st, w) \<Rightarrow>
          (let before = int (length (messages (a_state s))); after = int (length (messages st)) in
           (Inr (), emit c ''context.compacted''
             [(''manager'', JStr (v_manager_name v)), (''messages_before'', JInt before), (''messages_after'', JInt after),
              (''messages_removed'', JInt (before - after)), (''estimated_tokens_after'', JInt (v_estimate v st))]
             (s\<lparr>a_world := w, a_state := st\<rparr>))))"

definition budget_stop_message :: "'w config \<Rightarrow> 'w agent \<Rightarrow> string option \<times> 'w agent" where
  "budget_stop_message c s = (case a_budget s of
     None \<Rightarrow> (None, s)
   | Some b \<Rightarrow> (case run_budget_check b of
        Inr _ \<Rightarrow> (None, s)
      | Inl e \<Rightarrow> (Some (''Run stopped: budget exceeded ('' @ exn_msg e @ '').''),
          emit c ''agent.budget_exceeded'' (run_budget_details b) s)))"

definition record_usage :: "'w config \<Rightarrow> llm_response \<Rightarrow> 'w agent \<Rightarrow> 'w agent" where
  "record_usage c r s =
     (let s1 = s\<lparr>a_budget := map_option (run_budget_record (JObj (resp_usage r))) (a_budget s)\<rparr>
      in if resp_usage r = [] then s1
         else emit c ''llm.usage'' [(''usage'', JObj (resp_usage r))] (s1\<lparr>a_usage := a_usage s1 @ [JObj (resp_usage r)]\<rparr>))"

definition system_prompt_append :: "'w agent \<Rightarrow> hook_result list \<Rightarrow> string option" where
  "system_prompt_append s rs =
     (let additions = List.map_filter (\<lambda>r. case modified_context r of
            None \<Rightarrow> None
          | Some m \<Rightarrow> (case jget m ''system_prompt'' of JStr p \<Rightarrow> if is_blank p then None else Some p | _ \<Rightarrow> None)) rs;
          all = (case a_plan s of None \<Rightarrow> additions | Some p \<Rightarrow> plan_to_prompt p # additions);
          joined = py_join [LF, LF] all
      in if joined = [] then None else Some joined)"

definition effective_system :: "string option \<Rightarrow> string option \<Rightarrow> string option" where
  "effective_system sys app = (case app of
     None \<Rightarrow> sys
   | Some [] \<Rightarrow> sys
   | Some a \<Rightarrow> (case sys of Some (x # xs) \<Rightarrow> Some ((x # xs) @ [LF, LF] @ a) | _ \<Rightarrow> Some a))"

definition tool_schemas :: "'w agent \<Rightarrow> json list" where
  "tool_schemas s = map (\<lambda>(k, t). to_schema t) (a_tools s)"

definition chat_once :: "'w config \<Rightarrow> 'w services \<Rightarrow> string option \<Rightarrow> ('w, llm_response) act" where
  "chat_once c v sys s =
     (case v_chat v (messages (a_state s)) (if tool_schemas s = [] then None else Some (tool_schemas s)) sys (a_world s) of
        (Inl e, w) \<Rightarrow> (Inl e, log_effect ModelCalled (s\<lparr>a_world := w\<rparr>))
      | (Inr r, w) \<Rightarrow> (Inr r, record_usage c r (log_effect ModelCalled (s\<lparr>a_world := w\<rparr>))))"

fun replay_stream :: "'w config \<Rightarrow> stream_item list \<Rightarrow> llm_response option \<Rightarrow> 'w agent \<Rightarrow> llm_response option \<times> 'w agent" where
  "replay_stream c [] final s = (final, s)"
| "replay_stream c (TextDelta d # items) final s = replay_stream c items final (emit c ''agent.text_delta'' [(''delta'', JStr d)] s)"
| "replay_stream c (StreamDone r # items) final s = replay_stream c items (Some r) s"
| "replay_stream c (OtherItem # items) final s = replay_stream c items final s"

definition empty_response :: llm_response where
  "empty_response = \<lparr>resp_content = [], resp_tool_calls = [], resp_stop_reason = Some ''end_turn'', resp_usage = [], resp_reasoning = None\<rparr>"

definition call_llm :: "'w config \<Rightarrow> 'w services \<Rightarrow> bool \<Rightarrow> string option \<Rightarrow> ('w, llm_response) act" where
  "call_llm c v stream app s =
     (let sys = effective_system (system_prompt (a_state s)) app in
      if \<not> stream then chat_once c v sys s
      else case v_chat_stream v (messages (a_state s)) (if tool_schemas s = [] then None else Some (tool_schemas s)) sys (a_world s) of
        ((items, ending), w) \<Rightarrow>
          (case replay_stream c items None (s\<lparr>a_world := w\<rparr>) of (final, s1) \<Rightarrow>
             (case ending of
                Some e \<Rightarrow> if exn_class e = ''NotImplementedError'' then chat_once c v sys s1 else (Inl e, log_effect ModelCalled s1)
              | None \<Rightarrow> (let r = (case final of None \<Rightarrow> empty_response | Some r \<Rightarrow> r)
                        in (Inr r, record_usage c r (log_effect ModelCalled s1))))))"

definition assistant_content :: "llm_response \<Rightarrow> json" where
  "assistant_content r =
     (let blocks = (if resp_content r \<noteq> [] then [JObj [(''type'', JStr ''text''), (''text'', JStr (resp_content r))]] else [])
        @ map (\<lambda>call. JObj [(''type'', JStr ''tool_use''), (''id'', JStr (call_id call)), (''name'', JStr (call_name call)),
            (''input'', JObj (call_arguments call))]) (resp_tool_calls r)
      in if blocks \<noteq> [] then JArr blocks else JStr (resp_content r))"

section \<open>Judging a final answer\<close>

text \<open>\<open>True\<close> stands for the answer \<open>retry\<close>.\<close>

definition check_structured :: "'w config \<Rightarrow> 'w services \<Rightarrow> json \<Rightarrow> string \<Rightarrow> int \<Rightarrow> ('w, bool) act" where
  "check_structured c v schema answer retries_left s =
     (case check_final_answer (v_float_lit v) schema answer of
        Inl e \<Rightarrow> (Inl e, s)
      | Inr (Inr x) \<Rightarrow>
          (let s1 = s\<lparr>a_structured := Some x,
                 a_evidence := (case x of JObj d \<Rightarrow> if a_effective_verify s then Some (evidence_from_dict d) else a_evidence s
                                | _ \<Rightarrow> a_evidence s)\<rparr>;
               s2 = emit c ''agent.structured_output_parsed'' [(''schema'', schema)] s1;
               problems = verification_problems (a_evidence s2)
           in if \<not> a_effective_verify s2 \<or> problems = [] then (Inr False, s2)
              else let s3 = emit c ''agent.verification_unverified'' [(''problems'', JArr (map JStr problems))] s2 in
                if retries_left > 0
                then (Inr True, emit c ''agent.verification_retry'' [(''problems'', JArr (map JStr problems))]
                   (add_user (''Your final answer does not prove the task is complete. Problems: '' @ py_join ''; '' problems
                      @ ''. Reply with ONLY a corrected JSON object.'') s3))
                else (Inr False, s3))
      | Inr (Inl problems) \<Rightarrow>
          if retries_left > 0
          then (Inr True, emit c ''agent.structured_output_retry'' [(''problems'', JArr (map JStr problems))]
             (add_user (correction_message problems) s))
          else (Inr False, emit c ''agent.structured_output_invalid'' [(''problems'', JArr (map JStr problems))] s))"

definition create_plan :: "'w config \<Rightarrow> 'w services \<Rightarrow> string option \<Rightarrow> 'w agent \<Rightarrow> plan option \<times> 'w agent" where
  "create_plan c v msg s = (case v_planner v of
     None \<Rightarrow> (None, s)
   | Some planner \<Rightarrow>
       (let task = the (nonempty_or msg (nonempty_or (first_user_message (a_state s)) (Some ''Continue the current task''))) in
        case planner task (tool_schemas s) (a_world s) of
          (Inl e, w) \<Rightarrow> (None, emit c ''agent.plan_failed'' [(''error'', JStr (c_redact c (exn_text e)))] (s\<lparr>a_world := w\<rparr>))
        | (Inr None, w) \<Rightarrow> (None, emit c ''agent.plan_failed'' [(''error'', JStr ''planner returned a non-Plan value'')] (s\<lparr>a_world := w\<rparr>))
        | (Inr (Some p), w) \<Rightarrow> (Some p, emit c ''agent.plan_created''
             [(''goal'', JStr (plan_goal p)), (''steps'', JArr (map JStr (plan_steps p)))] (s\<lparr>a_world := w\<rparr>))))"

definition verify_final_answer :: "'w config \<Rightarrow> (string \<Rightarrow> string \<Rightarrow> plan option \<Rightarrow> 'w \<Rightarrow> verdict result \<times> 'w) \<Rightarrow> string
    \<Rightarrow> 'w agent \<Rightarrow> (bool \<times> string) \<times> 'w agent" where
  "verify_final_answer c verifier answer s =
     (let task = the (nonempty_or (first_user_message (a_state s)) (Some ''Continue the current task'')) in
      case verifier task answer (a_plan s) (a_world s) of
        (Inl e, w) \<Rightarrow> ((True, []), emit c ''agent.verification_failed''
           [(''reason'', JStr ''exception''), (''error'', JStr (c_redact c (exn_text e)))] (s\<lparr>a_world := w\<rparr>))
      | (Inr BadVerdict, w) \<Rightarrow> ((False, ''Verifier returned an invalid verdict.''),
           emit c ''agent.verification_failed'' [(''reason'', JStr ''invalid_verdict'')] (s\<lparr>a_world := w\<rparr>))
      | (Inr (Verdict ok fb), w) \<Rightarrow>
          (let feedback = (case fb of Some f \<Rightarrow> f | None \<Rightarrow> []) in
           ((ok, feedback), emit c (if ok then ''agent.verification_passed'' else ''agent.verification_failed'')
              [(''feedback'', JStr (c_redact c feedback))] (s\<lparr>a_world := w\<rparr>))))"

definition not_verified_error :: exn where
  "not_verified_error = Exn ''AnswerNotVerifiedError'' ''The final answer was rejected by the answer verifier.''"

definition raise_answer_not_verified :: "'w config \<Rightarrow> string \<Rightarrow> ('w, 'a) act" where
  "raise_answer_not_verified c feedback s =
     (Inl not_verified_error, emit c ''agent.verification_exhausted'' [(''feedback'', JStr (c_redact c feedback))] s)"

section \<open>Persistence, memory and the inbox\<close>

definition best_effort :: "'w config \<Rightarrow> string \<Rightarrow> ('w \<Rightarrow> unit result \<times> 'w) \<Rightarrow> 'w agent \<Rightarrow> 'w agent" where
  "best_effort c ty f s = (case f (a_world s) of
     (Inr _, w) \<Rightarrow> s\<lparr>a_world := w\<rparr>
   | (Inl e, w) \<Rightarrow> emit c ty [(''error'', JStr (c_redact c (exn_text e)))] (s\<lparr>a_world := w\<rparr>))"

definition persist_state :: "'w config \<Rightarrow> 'w services \<Rightarrow> 'w agent \<Rightarrow> 'w agent" where
  "persist_state c v s =
     (let s0 = log_effect (Persisted (a_state s)) s;
          s1 = (case v_save v of None \<Rightarrow> s0 | Some save \<Rightarrow> best_effort c ''agent.state_persist_failed'' (save (a_state s)) s0)
      in case v_snapshot v of None \<Rightarrow> s1
         | Some snap \<Rightarrow> best_effort c ''agent.replay_persist_failed'' (snap (a_state s) (a_run_id s)) s1)"

fun inject_messages :: "'w config \<Rightarrow> string list \<Rightarrow> 'w agent \<Rightarrow> 'w agent" where
  "inject_messages c [] s = s"
| "inject_messages c (m # ms) s = inject_messages c ms (emit c ''agent.message_injected'' [(''message'', JStr m)] (add_user m s))"

definition drain_inbox :: "'w config \<Rightarrow> 'w services \<Rightarrow> 'w agent \<Rightarrow> 'w agent" where
  "drain_inbox c v s = (case v_inbox v (a_world s) of (ms, w) \<Rightarrow> inject_messages c ms (s\<lparr>a_world := w\<rparr>))"

definition recall_memory :: "'w config \<Rightarrow> 'w memory_ops \<Rightarrow> string \<Rightarrow> 'w agent \<Rightarrow> 'w agent" where
  "recall_memory c mem query s = (case mem_search mem query (a_world s) of
     (Inl e, w) \<Rightarrow> emit c ''agent.memory_recall_failed'' [(''error'', JStr (c_redact c (exn_text e)))] (s\<lparr>a_world := w\<rparr>)
   | (Inr [], w) \<Rightarrow> s\<lparr>a_world := w\<rparr>
   | (Inr texts, w) \<Rightarrow> emit c ''agent.memory_recalled'' [(''query'', JStr query), (''count'', JInt (int (length texts)))]
        (add_user (''[Recalled memories]'' @ [LF] @ py_join [LF] (map (\<lambda>t. ''- '' @ t) texts)) (s\<lparr>a_world := w\<rparr>)))"

definition store_memory :: "'w config \<Rightarrow> 'w memory_ops \<Rightarrow> string \<Rightarrow> string \<Rightarrow> 'w agent \<Rightarrow> 'w agent" where
  "store_memory c mem msg final s =
     (case mem_add mem (''User: '' @ msg @ [LF] @ ''Assistant: '' @ final) (a_run_id s) (a_world s) of
        (Inr eid, w) \<Rightarrow> emit c ''agent.memory_stored'' [(''id'', JStr eid)] (s\<lparr>a_world := w\<rparr>)
      | (Inl e, w) \<Rightarrow> emit c ''agent.memory_store_failed'' [(''error'', JStr (c_redact c (exn_text e)))] (s\<lparr>a_world := w\<rparr>))"

definition clear_working_memory :: "'w config \<Rightarrow> 'w memory_ops \<Rightarrow> 'w agent \<Rightarrow> 'w agent" where
  "clear_working_memory c mem s = (case a_run_id s of
     None \<Rightarrow> s
   | Some rid \<Rightarrow> best_effort c ''agent.memory_cleanup_failed'' (mem_clear mem rid) s)"

section \<open>The loop\<close>

record loop_vars =
  lv_final :: string
  lv_iteration :: nat
  lv_escalated :: bool
  lv_retries :: int
  lv_verification_retries :: nat
  lv_rejected :: "(string \<times> string) option"

datatype turn = Stop string | Next loop_vars

definition cancel_turn :: "'w config \<Rightarrow> loop_vars \<Rightarrow> ('w, turn) act" where
  "cancel_turn c lv s = (Inr (Stop (lv_final lv)), emit c ''agent.cancelled'' [(''iteration'', JInt (int (lv_iteration lv)))] s)"

definition reject_answer :: "'w config \<Rightarrow> loop_vars \<Rightarrow> string \<Rightarrow> string \<Rightarrow> ('w, turn) act" where
  "reject_answer c lv answer feedback s =
     (case lv_verification_retries lv of
        0 \<Rightarrow> raise_answer_not_verified c feedback s
      | Suc left \<Rightarrow>
          (let s1 = add_user (''The proposed final answer was not verified. Correct it using the available evidence. Verifier feedback: ''
                 @ (if feedback \<noteq> [] then feedback else ''No details provided.'')) s;
               s2 = emit c ''agent.verification_retry'' [(''feedback'', JStr feedback), (''retries_left'', JInt (int left))] s1
           in case maybe_escalate c (lv_iteration lv) True (lv_escalated lv) s2 of
             (esc, s3) \<Rightarrow> (Inr (Next (lv\<lparr>lv_final := answer, lv_iteration := lv_iteration lv + 1, lv_escalated := esc,
                 lv_verification_retries := left, lv_rejected := Some (answer, feedback)\<rparr>)), s3)))"

definition accept_answer :: "'w config \<Rightarrow> 'w services \<Rightarrow> string \<Rightarrow> ('w, turn) act" where
  "accept_answer c v answer s = (Inr (Stop answer), persist_state c v s)"

definition judge_answer :: "'w config \<Rightarrow> 'w services \<Rightarrow> loop_vars \<Rightarrow> string \<Rightarrow> ('w, turn) act" where
  "judge_answer c v lv answer s = (case v_verifier v of
     None \<Rightarrow> accept_answer c v answer s
   | Some verifier \<Rightarrow> (case verify_final_answer c verifier answer s of
        ((True, _), s1) \<Rightarrow> accept_answer c v answer s1
      | ((False, feedback), s1) \<Rightarrow> reject_answer c lv answer feedback s1))"

definition answer_turn :: "'w config \<Rightarrow> 'w services \<Rightarrow> json option \<Rightarrow> loop_vars \<Rightarrow> string \<Rightarrow> ('w, turn) act" where
  "answer_turn c v schema lv answer = (case schema of
     None \<Rightarrow> judge_answer c v lv answer
   | Some sch \<Rightarrow> bnd (check_structured c v sch answer (lv_retries lv)) (\<lambda>retry.
       if retry then ret (Next (lv\<lparr>lv_final := answer, lv_retries := lv_retries lv - 1, lv_iteration := lv_iteration lv + 1\<rparr>))
       else judge_answer c v lv answer))"

text \<open>\<open>self._pause_event.wait()\<close>: what the run sees once the gate is open.\<close>

definition pause_gate :: "'w services \<Rightarrow> 'w agent \<Rightarrow> 'w agent" where
  "pause_gate v s = s\<lparr>a_world := v_await v (a_world s)\<rparr>"

definition tools_turn :: "'w config \<Rightarrow> 'w services \<Rightarrow> loop_vars \<Rightarrow> tool_call list \<Rightarrow> ('w, turn) act" where
  "tools_turn c v lv calls =
     bnd (execute_tool_calls c calls) (\<lambda>any_error.
     bnd (modify (persist_state c v)) (\<lambda>_ s.
       case a_stop_reason s of
         Some why \<Rightarrow> (Inr (Stop (lv_final lv)), emit c ''agent.error''
            [(''reason'', JStr why), (''iteration'', JInt (int (lv_iteration lv)))] s)
       | None \<Rightarrow>
           (let s1 = pause_gate v (drain_inbox c v s) in
            if cancelled c s1 then cancel_turn c lv s1
            else case maybe_escalate c (lv_iteration lv) any_error (lv_escalated lv) s1 of
              (esc, s2) \<Rightarrow> (Inr (Next (lv\<lparr>lv_iteration := lv_iteration lv + 1, lv_escalated := esc\<rparr>)), s2))))"

definition after_response :: "'w config \<Rightarrow> nat \<Rightarrow> llm_response \<Rightarrow> 'w agent \<Rightarrow> 'w agent" where
  "after_response c i r s =
     (let s1 = snd (trigger_hooks c AFTER_LLM_CALL
            ((blank_context AFTER_LLM_CALL (a_run_id s))\<lparr>ctx_iteration := Some i, ctx_llm_response := Some r\<rparr>) s);
          s2 = s1\<lparr>a_state := add_assistant (assistant_content r) (a_state s1)\<rparr>;
          s3 = (case resp_reasoning r of
                  Some (x # xs) \<Rightarrow> emit c ''agent.reasoning_trace'' [(''text'', JStr (x # xs)), (''iteration'', JInt (int i))] s2
                | _ \<Rightarrow> s2)
      in emit c ''agent.llm_response'' [(''tool_calls'', JInt (int (length (resp_tool_calls r)))),
           (''stop_reason'', opt_json JStr (resp_stop_reason r))] s3)"

definition model_turn :: "'w config \<Rightarrow> 'w services \<Rightarrow> bool \<Rightarrow> json option \<Rightarrow> loop_vars \<Rightarrow> hook_result list \<Rightarrow> ('w, turn) act" where
  "model_turn c v stream schema lv hook_results s =
     bnd (call_llm c v stream (system_prompt_append s hook_results)) (\<lambda>r.
     bnd (modify (after_response c (lv_iteration lv) r)) (\<lambda>_.
       if resp_tool_calls r = [] then answer_turn c v schema lv (resp_content r)
       else tools_turn c v lv (resp_tool_calls r))) s"

definition budgeted_turn :: "'w config \<Rightarrow> 'w services \<Rightarrow> bool \<Rightarrow> json option \<Rightarrow> loop_vars \<Rightarrow> hook_result list \<Rightarrow> ('w, turn) act" where
  "budgeted_turn c v stream schema lv hook_results s =
     (if cancelled c s then cancel_turn c lv s
      else case budget_stop_message c s of
        (Some msg, s1) \<Rightarrow> (Inr (Stop msg), s1)
      | (None, s1) \<Rightarrow> model_turn c v stream schema lv hook_results s1)"

definition begun_turn :: "'w config \<Rightarrow> 'w services \<Rightarrow> bool \<Rightarrow> json option \<Rightarrow> loop_vars \<Rightarrow> ('w, turn) act" where
  "begun_turn c v stream schema lv s =
     (if cancelled c s then cancel_turn c lv s
      else bnd (modify (emit c ''agent.turn_started''
             [(''iteration'', JInt (int (lv_iteration lv))), (''mode'', JStr (mode_value (a_mode s)))])) (\<lambda>_.
           bnd (maybe_compact_context c v) (\<lambda>_.
           bnd (pure_step (\<lambda>s. trigger_hooks c BEFORE_LLM_CALL
              ((blank_context BEFORE_LLM_CALL (a_run_id s))\<lparr>ctx_iteration := Some (lv_iteration lv),
                  ctx_user_message := first_user_message (a_state s)\<rparr>) s))
             (budgeted_turn c v stream schema lv))) s)"

definition loop_turn :: "'w config \<Rightarrow> 'w services \<Rightarrow> bool \<Rightarrow> json option \<Rightarrow> loop_vars \<Rightarrow> ('w, turn) act" where
  "loop_turn c v stream schema lv s = begun_turn c v stream schema lv (pause_gate v s)"

definition loop_exhausted :: "'w config \<Rightarrow> loop_vars \<Rightarrow> ('w, string) act" where
  "loop_exhausted c lv s = (case lv_rejected lv of
     Some (answer, feedback) \<Rightarrow> raise_answer_not_verified c feedback s
   | None \<Rightarrow> (Inr (lv_final lv), emit c ''agent.error''
       [(''reason'', JStr ''max_iterations''), (''iterations'', JInt (a_max_iterations s))] s))"

fun run_loop :: "nat \<Rightarrow> 'w config \<Rightarrow> 'w services \<Rightarrow> bool \<Rightarrow> json option \<Rightarrow> loop_vars \<Rightarrow> ('w, string) act" where
  "run_loop 0 c v stream schema lv s = (Inl (Exn ''OutOfFuel'' []), s)"
| "run_loop (Suc n) c v stream schema lv s =
     (if int (lv_iteration lv) \<ge> a_max_iterations s then loop_exhausted c lv s
      else case loop_turn c v stream schema lv s of
        (Inl e, s') \<Rightarrow> (Inl e, s')
      | (Inr (Stop final), s') \<Rightarrow> (Inr final, s')
      | (Inr (Next lv'), s') \<Rightarrow> run_loop n c v stream schema lv' s')"

definition loop_fuel :: "'w agent \<Rightarrow> nat" where
  "loop_fuel s = Suc (nat (max (a_max_iterations s) 50))"

definition loop_start :: "'w services \<Rightarrow> int option \<Rightarrow> loop_vars" where
  "loop_start v structured_retries = \<lparr>lv_final = [], lv_iteration = 0, lv_escalated = False,
     lv_retries = (case structured_retries of None \<Rightarrow> 2 | Some n \<Rightarrow> n),
     lv_verification_retries = v_max_verification_retries v, lv_rejected = None\<rparr>"

section \<open>The run\<close>

definition start_run :: "'w config \<Rightarrow> 'w services \<Rightarrow> string option \<Rightarrow> 'w agent \<Rightarrow> 'w agent" where
  "start_run c v msg s =
     (let s1 = s\<lparr>a_world := v_clear_cancel v (a_world s), a_stop_reason := None\<rparr> in
      case v_uuid v (a_world s1) of (rid, w) \<Rightarrow>
        let s2 = s1\<lparr>a_world := w, a_run_id := Some rid\<rparr>;
            s3 = snd (trigger_hooks c BEFORE_RUN ((blank_context BEFORE_RUN (a_run_id s2))\<lparr>ctx_user_message := msg\<rparr>) s2);
            s4 = classify_and_route c v msg s3
        in case create_plan c v msg s4 of (p, s5) \<Rightarrow>
          let meta = (case p of Some q \<Rightarrow> dset (metadata (a_state s5)) ''plan'' (JStr (plan_to_prompt q))
                      | None \<Rightarrow> dpop (metadata (a_state s5)) ''plan'');
              s6 = s5\<lparr>a_plan := p, a_state := (a_state s5)\<lparr>metadata := meta\<rparr>\<rparr>
          in emit c ''agent.run_started'' [(''mode'', JStr (mode_value (a_mode s6))),
               (''tools'', JArr (map (\<lambda>(k, t). JStr k) (a_tools s6))), (''max_iterations'', JInt (a_max_iterations s6))] s6)"

definition fail_run :: "'w config \<Rightarrow> 'w services \<Rightarrow> exn \<Rightarrow> 'w agent \<Rightarrow> 'w agent" where
  "fail_run c v e s =
     (let s1 = snd (trigger_hooks c ON_ERROR ((blank_context ON_ERROR (a_run_id s))\<lparr>ctx_error := Some (exn_text e)\<rparr>) s);
          s2 = emit c ''agent.error'' [(''reason'', JStr ''exception''), (''error'', JStr (exn_msg e))] s1
      in case v_memory v of None \<Rightarrow> s2 | Some mem \<Rightarrow> clear_working_memory c mem s2)"

definition finish_run :: "'w config \<Rightarrow> 'w services \<Rightarrow> string option \<Rightarrow> string \<Rightarrow> 'w agent \<Rightarrow> 'w agent" where
  "finish_run c v msg final s =
     (let s1 = s\<lparr>a_resuming := False\<rparr>;
          s2 = snd (trigger_hooks c AFTER_RUN ((blank_context AFTER_RUN (a_run_id s1))\<lparr>ctx_final_text := Some final\<rparr>) s1);
          s3 = emit c ''agent.run_finished'' [(''final_text'', JStr final), (''mode'', JStr (mode_value (a_mode s2)))] s2;
          s4 = (case (msg, v_memory v) of (Some m, Some mem) \<Rightarrow> store_memory c mem m final s3 | _ \<Rightarrow> s3)
      in case v_memory v of None \<Rightarrow> s4 | Some mem \<Rightarrow> clear_working_memory c mem s4)"

definition run :: "'w config \<Rightarrow> 'w services \<Rightarrow> string option \<Rightarrow> bool \<Rightarrow> json option \<Rightarrow> int option \<Rightarrow> bool option \<Rightarrow> ('w, string) act" where
  "run c v msg stream output_schema structured_retries verify s =
     (let resuming = (a_resuming s \<and> msg = None);
          eff = (case verify of None \<Rightarrow> v_verification_required v | Some b \<Rightarrow> b);
          s0 = s\<lparr>a_structured := None, a_evidence := None, a_effective_verify := eff\<rparr>;
          schema = (if eff \<and> output_schema = None then Some verification_schema else output_schema)
      in if resuming \<and> a_pending s0 \<noteq> None
         then (Inl (Exn ''RuntimeError'' ''Resolve the pending confirmation before continuing this checkpoint''), s0)
         else
           let s1 = (case (msg, v_memory v) of (Some m, Some mem) \<Rightarrow> recall_memory c mem m s0 | _ \<Rightarrow> s0);
               composed = (case schema of
                   Some sch \<Rightarrow> Some ((case msg of Some m \<Rightarrow> m | None \<Rightarrow> []) @ [LF, LF] @ schema_instruction sch)
                 | None \<Rightarrow> msg);
               s2 = (case composed of Some m \<Rightarrow> add_user m s1 | None \<Rightarrow> s1);
               s3 = (if resuming then s2 else start_run c v msg s2)
           in case run_loop (loop_fuel s3) c v stream schema (loop_start v structured_retries) s3 of
                (Inl e, s4) \<Rightarrow> (Inl e, if is_pending e then s4 else fail_run c v e s4)
              | (Inr final, s4) \<Rightarrow> (Inr final, finish_run c v msg final s4))"

section \<open>Resuming after a confirmation\<close>

definition confirmed_call :: "'w config \<Rightarrow> bool \<Rightarrow> tool_call \<Rightarrow> obj \<Rightarrow> ('w, tool_result) act" where
  "confirmed_call c approved call arguments s =
     (if \<not> approved then deny_call c call ''confirmation declined by user'' arguments s
      else case dget (a_tools s) (call_name call) of
        None \<Rightarrow> ret (err_result (''Unknown tool: '' @ call_name call)) s
      | Some t \<Rightarrow>
          bnd (pure_step (run_tool c t arguments)) (\<lambda>r0.
          bnd (pure_step (retry_transient_tool c call t arguments r0)) (\<lambda>r.
          bnd (finalize_call c call t arguments r) (\<lambda>_. ret r))) s)"

definition resolve_pending_confirmation :: "'w config \<Rightarrow> 'w services \<Rightarrow> bool \<Rightarrow> ('w, unit) act" where
  "resolve_pending_confirmation c v approved s = (case a_pending s of
     None \<Rightarrow> (Inl (Exn ''ValueError'' ''Checkpoint has no pending confirmation''), s)
   | Some (call, arguments, d) \<Rightarrow>
       bnd (confirmed_call c approved call arguments) (\<lambda>r.
       bnd (modify (\<lambda>s. answer_call c call r (is_error r) (emit_tool_call_finished c call r s))) (\<lambda>_ s.
         let rest = (case a_remaining s of [] \<Rightarrow> []
               | x # xs \<Rightarrow> if call_id x = call_id call then xs else x # xs)
         in bnd (if rest = [] then ret False else execute_tool_calls c rest)
              (\<lambda>_. modify (persist_state c v)) (s\<lparr>a_remaining := []\<rparr>)))
       (s\<lparr>a_pending := None\<rparr>))"

section \<open>Construction\<close>

text \<open>
  The constructor's checks, in order, and the initial state; the optional arguments that stand for
  collaborators are in the configuration already, and \<open>resumed\<close> is what a conversation store holds.
\<close>

definition add_tool :: "tool \<Rightarrow> ('w, unit) act" where
  "add_tool t s = (if dhas (a_tools s) (tool_name t)
     then (Inl (Exn ''ValueError'' (''Duplicate tool name: '' @ repr_str (tool_name t))), s)
     else (Inr (), s\<lparr>a_tools := dset (a_tools s) (tool_name t) t\<rparr>))"

fun add_tools :: "tool list \<Rightarrow> ('w, unit) act" where
  "add_tools [] = ret ()"
| "add_tools (t # ts) = bnd (add_tool t) (\<lambda>_. add_tools ts)"

definition initial_agent :: "'w \<Rightarrow> conversation_state option \<Rightarrow> conversation_state option \<Rightarrow> int option
    \<Rightarrow> run_budget option \<Rightarrow> stuck_detector option \<Rightarrow> 'w agent" where
  "initial_agent w st resumed cap b sd =
     \<lparr>a_world = w, a_state = (case st of Some x \<Rightarrow> x | None \<Rightarrow> (case resumed of Some x \<Rightarrow> x | None \<Rightarrow> empty_state)),
      a_tools = [], a_mode = Mode_MAX, a_max_iterations = (case cap of Some n \<Rightarrow> n | None \<Rightarrow> mode_cap Mode_MAX), a_override = cap,
      a_extended = True, a_sticky_max = False, a_run_id = None, a_resuming = False, a_pending = None, a_remaining = [],
      a_usage = [], a_structured = None, a_evidence = None, a_effective_verify = False, a_budget = b, a_stuck = sd,
      a_circuits = [], a_stop_reason = None, a_plan = None, a_log = []\<rparr>"

definition init_agent :: "'w config \<Rightarrow> int \<Rightarrow> tool list \<Rightarrow> 'w \<Rightarrow> conversation_state option \<Rightarrow> conversation_state option
    \<Rightarrow> int option \<Rightarrow> run_budget option \<Rightarrow> stuck_detector option \<Rightarrow> 'w agent result" where
  "init_agent c max_verification_retries tools w st resumed cap b sd =
     (if (case c_tool_timeout c of Some x \<Rightarrow> x \<le> 0 | None \<Rightarrow> False) then Inl (Exn ''ValueError'' ''tool_timeout must be positive'')
      else if c_max_transient_retries c < 0 then Inl (Exn ''ValueError'' ''max_transient_retries must be non-negative'')
      else if c_backoff c < 0 then Inl (Exn ''ValueError'' ''transient_retry_backoff_seconds must be non-negative'')
      else if max_verification_retries < 0 then Inl (Exn ''ValueError'' ''max_verification_retries must be non-negative'')
      else case add_tools tools (initial_agent w st resumed cap b sd) of
        (Inl e, s) \<Rightarrow> Inl e
      | (Inr _, s) \<Rightarrow> Inr s)"

section \<open>Checkpoints of the runtime state\<close>

text \<open>
  \<open>_restore_checkpoint_runtime_state\<close>: \<open>bool\<close>, \<open>int\<close> and \<open>str\<close> of a JSON value, the mode by its value,
  the pending call, its decision and the remaining calls. \<open>int\<close> of a text or of a float, and a decision with
  missing or ill-typed fields, do not occur in what \<open>checkpoint_runtime_state\<close> writes and are marked \<open>Unmodelled\<close>.
  An exception leaves an agent that the caller discards, so the result carries no state then.
\<close>

definition key_error :: "string \<Rightarrow> exn" where
  "key_error k = Exn ''KeyError'' (repr_str k)"

definition require :: "obj \<Rightarrow> string \<Rightarrow> json result" where
  "require d k = (case dget d k of Some x \<Rightarrow> Inr x | None \<Rightarrow> Inl (key_error k))"

definition mode_of_value :: "json \<Rightarrow> agent_mode result" where
  "mode_of_value x = (if x = JStr ''flash'' then Inr Mode_FLASH else if x = JStr ''max'' then Inr Mode_MAX
     else Inl (Exn ''ValueError'' (py_repr x @ '' is not a valid AgentMode'')))"

definition int_of_value :: "json \<Rightarrow> int result" where
  "int_of_value x = (case x of JInt i \<Rightarrow> Inr i | JBool b \<Rightarrow> Inr (if b then 1 else 0)
     | JStr _ \<Rightarrow> Inl (Exn ''Unmodelled'' ''int of text'') | JFloat _ _ \<Rightarrow> Inl (Exn ''Unmodelled'' ''int of float'')
     | _ \<Rightarrow> Inl (Exn ''TypeError'' ''int() argument must be a string or a number''))"

definition call_of_dict :: "json \<Rightarrow> tool_call result" where
  "call_of_dict x = (case x of
     JObj d \<Rightarrow> bind_res (require d ''id'') (\<lambda>i. bind_res (require d ''name'') (\<lambda>nm. bind_res (require d ''arguments'') (\<lambda>ar.
       bind_res (py_dict ar) (\<lambda>args. Inr \<lparr>call_id = py_str i, call_name = py_str nm, call_arguments = args\<rparr>))))
   | _ \<Rightarrow> Inl (Exn ''TypeError'' ''indices must be integers or strings''))"

definition decision_of_dict :: "obj \<Rightarrow> permission_decision result" where
  "decision_of_dict d = (case (dget d ''allowed'', dget d ''reason'', dget d ''requires_confirmation'') of
     (Some (JBool al), Some (JStr why), Some (JBool rc)) \<Rightarrow>
       if length d = 3 then Inr \<lparr>allowed = al, reason = why, requires_confirmation = rc\<rparr>
       else Inl (Exn ''TypeError'' ''unexpected keyword argument'')
   | _ \<Rightarrow> Inl (Exn ''Unmodelled'' ''decision fields''))"

fun map_res :: "('a \<Rightarrow> 'b result) \<Rightarrow> 'a list \<Rightarrow> 'b list result" where
  "map_res f [] = Inr []"
| "map_res f (x # xs) = bind_res (f x) (\<lambda>y. bind_res (map_res f xs) (\<lambda>ys. Inr (y # ys)))"

definition restore_pending :: "json \<Rightarrow> (tool_call \<times> obj \<times> permission_decision) option result" where
  "restore_pending p = (case p of
     JObj d \<Rightarrow> (case (jget d ''call'', jget d ''arguments'', jget d ''decision'') of
        (JObj cd, JObj ad, JObj dd) \<Rightarrow>
          bind_res (call_of_dict (JObj cd)) (\<lambda>call. bind_res (decision_of_dict dd) (\<lambda>dec. Inr (Some (call, ad, dec))))
      | _ \<Rightarrow> Inl (Exn ''ValueError'' ''Invalid pending confirmation checkpoint data''))
   | _ \<Rightarrow> Inr None)"

definition as_runtime_error :: "exn \<Rightarrow> exn" where
  "as_runtime_error e = (if exn_class e \<in> {''KeyError'', ''TypeError'', ''ValueError''}
     then Exn ''ValueError'' (''Invalid checkpoint runtime state: '' @ exn_msg e) else e)"

definition restore_routing :: "obj \<Rightarrow> 'w agent \<Rightarrow> 'w agent result" where
  "restore_routing rt s =
     bind_res (bind_res (require rt ''mode'') mode_of_value) (\<lambda>m.
     bind_res (require rt ''sticky_max'') (\<lambda>sticky.
     bind_res (bind_res (require rt ''max_iterations'') int_of_value) (\<lambda>cap.
     bind_res (require rt ''enable_extended_reasoning'') (\<lambda>ext.
       Inr (s\<lparr>a_mode := m, a_sticky_max := truthy sticky, a_max_iterations := cap,
         a_override := as_int (jget rt ''max_iterations_override''), a_extended := truthy ext\<rparr>)))))"

definition restore_checkpoint_runtime_state :: "string \<Rightarrow> obj \<Rightarrow> 'w agent \<Rightarrow> 'w agent result" where
  "restore_checkpoint_runtime_state rid rt s =
     bind_res (case restore_routing rt s of Inl e \<Rightarrow> Inl (as_runtime_error e) | Inr s1 \<Rightarrow> Inr s1) (\<lambda>s1.
     bind_res (restore_pending (jget rt ''pending_confirmation'')) (\<lambda>p.
     bind_res (case dget rt ''pending_remaining_calls'' of None \<Rightarrow> Inr [] | Some (JArr xs) \<Rightarrow> map_res call_of_dict (filter is_dict xs)
        | Some _ \<Rightarrow> Inl (Exn ''ValueError'' ''Invalid pending remaining calls checkpoint data'')) (\<lambda>rest.
       Inr ((case p of None \<Rightarrow> s1 | Some q \<Rightarrow> s1\<lparr>a_pending := Some q\<rparr>)\<lparr>a_remaining := rest, a_run_id := Some rid, a_resuming := True\<rparr>))))"

end
