(* ===== verification/Agent_Loop_Proofs.thy ===== *)
theory Agent_Loop_Proofs
  imports Agent_Batches Agent_Loop
begin

text \<open>
  Correctness of the agent's run: it ends within the iteration cap, keeps within the run budget,
  never executes an unauthorised call, never lowers its mode, and only returns structured or verified
  answers that passed their checks.
\<close>

section \<open>The frame of a run\<close>

definition calls_cap :: "'w agent \<Rightarrow> nat option" where
  "calls_cap s = Option.bind (a_budget s) rb_max_calls"

definition calls_used :: "'w agent \<Rightarrow> nat" where
  "calls_used s = (case a_budget s of None \<Rightarrow> 0 | Some b \<Rightarrow> rb_used_calls b)"

text \<open>
  \<open>loop_step k c s s'\<close>: from \<open>s\<close> to \<open>s'\<close> at most \<open>k\<close> model calls are made and charged, executions
  stay authorised, the mode only moves up, and so does the iteration cap: never past \<open>cap_of\<close>, the cap
  of the full mode, or the configured one where there is one.
\<close>

definition cap_of :: "'w agent \<Rightarrow> int" where
  "cap_of s = (if a_override s = None then max (a_max_iterations s) 50 else a_max_iterations s)"

text \<open>
  The routing invariant: the iteration cap is the configured one or that of the mode, the reasoning
  flag follows the mode, and a conversation pinned to the full mode is in it.
\<close>

definition iteration_cap :: "int option \<Rightarrow> agent_mode \<Rightarrow> int" where
  "iteration_cap pinned m = (case pinned of Some n \<Rightarrow> n | None \<Rightarrow> mode_cap m)"

definition route_inv :: "'w agent \<Rightarrow> bool" where
  "route_inv s \<longleftrightarrow> a_max_iterations s = iteration_cap (a_override s) (a_mode s) \<and> a_extended s = (a_mode s = Mode_MAX)
     \<and> (a_sticky_max s \<longrightarrow> a_mode s = Mode_MAX)"

definition loop_step :: "nat \<Rightarrow> 'w config \<Rightarrow> 'w agent \<Rightarrow> 'w agent \<Rightarrow> bool" where
  "loop_step k c s s' \<longleftrightarrow> a_tools s' = a_tools s \<and> a_override s' = a_override s \<and> (gate_inv c s \<longrightarrow> gate_inv c s')
     \<and> (route_inv s \<longrightarrow> route_inv s') \<and> cap_of s' \<le> cap_of s \<and> a_mode s \<le> a_mode s' \<and> (a_sticky_max s \<longrightarrow> a_sticky_max s')
     \<and> (\<exists>z. a_log s' = a_log s @ z \<and> length (filter (\<lambda>x. x = ModelCalled) z) \<le> k)
     \<and> calls_cap s' = calls_cap s \<and> calls_used s' \<le> calls_used s + k"

lemma loop_step_refl [simp, intro]: "loop_step k c s s"
  by (simp add: loop_step_def)

lemma loop_step_trans:
  assumes "loop_step k c s t" "loop_step l c t u"
  shows "loop_step (k + l) c s u"
proof -
  obtain z y where "a_log t = a_log s @ z" "length (filter (\<lambda>x. x = ModelCalled) z) \<le> k"
    "a_log u = a_log t @ y" "length (filter (\<lambda>x. x = ModelCalled) y) \<le> l"
    using assms unfolding loop_step_def by blast
  then have "\<exists>z. a_log u = a_log s @ z \<and> length (filter (\<lambda>x. x = ModelCalled) z) \<le> k + l"
    by (intro exI [of _ "z @ y"]) auto
  then show ?thesis using assms unfolding loop_step_def by auto
qed

lemma loop_step_trans0: "loop_step 0 c s t \<Longrightarrow> loop_step k c t u \<Longrightarrow> loop_step k c s u"
  using loop_step_trans [of 0] by simp

lemma loop_step_mono: "loop_step k c s t \<Longrightarrow> k \<le> l \<Longrightarrow> loop_step l c s t"
  unfolding loop_step_def by (meson add_left_mono le_trans)

lemma no_model_call: "filter loop_effect z = [] \<Longrightarrow> filter (\<lambda>x. x = ModelCalled) z = []"
  by (induction z) (auto split: if_splits)

lemma gated_loop_step: "gated_step c s s' \<Longrightarrow> loop_step 0 c s s'"
  by (auto simp: gated_step_def tool_step_def core_def loop_step_def calls_cap_def calls_used_def cap_of_def route_inv_def no_model_call)

lemma max_le_cap: "a_max_iterations s \<le> cap_of s"
  by (simp add: cap_of_def)

lemma next_iteration:
  assumes "loop_turn c v stream schema lv s = (Inr (Next lv'), s')"
  shows "lv_iteration lv' = lv_iteration lv + 1"
proof -
  have reject: "reject_answer c lv a f t = (Inr (Next lv'), s') \<Longrightarrow> lv_iteration lv' = lv_iteration lv + 1" for a f t
    by (auto simp: reject_answer_def raise_answer_not_verified_def Let_def split: nat.splits prod.splits)
  have judge: "judge_answer c v lv a t = (Inr (Next lv'), s') \<Longrightarrow> lv_iteration lv' = lv_iteration lv + 1" for a t
    using reject by (auto simp: judge_answer_def accept_answer_def split: option.splits prod.splits bool.splits)
  have answer: "answer_turn c v schema lv a t = (Inr (Next lv'), s') \<Longrightarrow> lv_iteration lv' = lv_iteration lv + 1" for a t
    using judge by (auto simp: answer_turn_def bnd_Inr ret_def split: option.splits if_splits)
  have tools: "tools_turn c v lv calls t = (Inr (Next lv'), s') \<Longrightarrow> lv_iteration lv' = lv_iteration lv + 1" for calls t
    by (auto simp: tools_turn_def bnd_Inr modify_def cancel_turn_def Let_def split: option.splits if_splits prod.splits)
  have model: "model_turn c v stream schema lv h t = (Inr (Next lv'), s') \<Longrightarrow> lv_iteration lv' = lv_iteration lv + 1" for h t
    using answer tools by (auto simp: model_turn_def bnd_Inr modify_def split: if_splits)
  have "budgeted_turn c v stream schema lv h t = (Inr (Next lv'), s') \<Longrightarrow> lv_iteration lv' = lv_iteration lv + 1" for h t
    using model by (auto simp: budgeted_turn_def cancel_turn_def split: if_splits prod.splits option.splits)
  then show ?thesis
    using assms by (auto simp: loop_turn_def begun_turn_def bnd_Inr cancel_turn_def split: if_splits)
qed

text \<open>
  The interface of a frame: what a relation between agent states, graded by the number of model calls,
  has to satisfy to hold along every run. The loop's correctness proofs are done once against it.
\<close>

definition may_call :: "'w agent \<Rightarrow> bool" where
  "may_call s \<longleftrightarrow> (\<forall>b. a_budget s = Some b \<longrightarrow> run_budget_check b = Inr ())"

locale turn_frame =
  fixes c :: "'w config" and v :: "'w services" and schema :: "json option" and R :: "nat \<Rightarrow> 'w agent \<Rightarrow> 'w agent \<Rightarrow> bool"
  assumes R_trans: "R k s t \<Longrightarrow> R l t u \<Longrightarrow> R (k + l) s u"
    and R_mono: "R k s t \<Longrightarrow> k \<le> l \<Longrightarrow> R l s t"
    and R_gated: "gated_step c s t \<Longrightarrow> R 0 s t"
    and R_state: "R 0 s (s\<lparr>a_state := st\<rparr>)"
    and R_persisted: "R 0 s (log_effect (Persisted (a_state s)) s)"
    and R_escalated: "a_mode s = Mode_FLASH \<Longrightarrow> R 0 s (s\<lparr>a_mode := Mode_MAX, a_extended := True, a_sticky_max := True,
        a_max_iterations := (if a_override s = None then mode_cap Mode_MAX else a_max_iterations s)\<rparr>)"
    and R_called: "may_call s \<Longrightarrow> R (Suc 0) s (log_effect ModelCalled s)"
    and R_charged: "may_call s \<Longrightarrow>
        R (Suc 0) s ((log_effect ModelCalled s)\<lparr>a_budget := map_option (run_budget_record spent) (a_budget s), a_usage := usage\<rparr>)"
    and R_answered: "schema = Some sch \<Longrightarrow> check_final_answer (v_float_lit v) sch a = Inr (Inr x) \<Longrightarrow>
        R 0 s (s\<lparr>a_structured := Some x, a_evidence := y\<rparr>)"
    and R_run: "R 0 s (s\<lparr>a_run_id := rid, a_plan := p\<rparr>)"
    and R_tools: "R k s t \<Longrightarrow> a_tools t = a_tools s"
    and R_cap: "R k s t \<Longrightarrow> cap_of t \<le> cap_of s"
begin

lemma R_refl: "R k s s"
  using R_mono [OF R_gated [OF gated_step_refl]] by simp

lemma R_trans0: "R 0 s t \<Longrightarrow> R k t u \<Longrightarrow> R k s u"
  using R_trans [of 0] by simp

lemma quiet_R: "quiet s t \<Longrightarrow> R 0 s t"
  by (simp add: R_gated quiet_gated)

lemma emit_R: "R k s t \<Longrightarrow> R k s (emit d ty p t)"
  using R_trans [of k s t 0] quiet_R [OF quiet_emit] by fastforce

lemma emit_step: "R 0 s (emit d ty p s)"
  by (rule quiet_R [OF quiet_emit])

lemma hooks_step: "R 0 s (snd (trigger_hooks d p ctx s))"
  by (rule quiet_R [OF quiet_hooks])

lemma world_step: "R 0 s (s\<lparr>a_world := w\<rparr>)"
  by (rule quiet_R [OF quiet_update]) (simp_all add: core_def)

lemma add_user_step: "R 0 s (add_user m s)"
  by (simp add: add_user_def R_state)

lemma compact_step: "R 0 s (snd (maybe_compact_context d v s))"
proof -
  have "R 0 s (s\<lparr>a_world := w, a_state := st\<rparr>)" for w st
    using R_trans0 [OF world_step R_state] by simp
  then show ?thesis
    by (auto simp: maybe_compact_context_def Let_def R_refl split: prod.split sum.split intro!: emit_R world_step)
qed

lemma escalate_step: "R 0 s (snd (escalate d s))"
proof (cases "a_mode s")
  case Mode_FLASH
  then show ?thesis
    using R_escalated [OF Mode_FLASH] by (cases "a_override s") (simp_all add: escalate_def Let_def emit_R)
qed (simp add: escalate_def R_refl)

lemma maybe_escalate_step: "R 0 s (snd (maybe_escalate d i e a s))"
  by (simp add: maybe_escalate_def escalate_step R_refl)

lemma budget_stop_step: "R 0 s (snd (budget_stop_message d s))"
  by (auto simp: budget_stop_message_def R_refl split: option.split sum.split intro!: emit_R)

lemma best_effort_step: "R 0 s (best_effort d ty f s)"
  by (auto simp: best_effort_def split: prod.split sum.split intro!: emit_R world_step)

lemma persist_step: "R 0 s (persist_state d u s)"
  unfolding persist_state_def Let_def
  by (auto split: option.split intro: R_persisted R_trans0 [OF _ best_effort_step] R_trans0 [OF R_trans0 [OF _ best_effort_step] best_effort_step])

lemma inject_step: "R 0 s (inject_messages d ms s)"
proof (induction ms arbitrary: s)
  case (Cons m ms)
  show ?case using R_trans0 [OF emit_R [OF add_user_step] Cons.IH] by simp
qed (simp add: R_refl)

lemma drain_step: "R 0 s (drain_inbox d u s)"
  by (auto simp: drain_inbox_def split: prod.split intro: R_trans0 [OF world_step inject_step])

text \<open>The call itself is logged as one model call and charged at most once.\<close>

lemma charge_step:
  assumes "may_call s"
  shows "R (Suc 0) s (record_usage d r (log_effect ModelCalled s))"
proof (cases "resp_usage r")
  case Nil
  let ?t = "(log_effect ModelCalled s)\<lparr>a_budget := map_option (run_budget_record (JObj [])) (a_budget s)\<rparr>"
  have "?t\<lparr>a_usage := a_usage s\<rparr> = ?t" by (simp add: log_effect_def)
  then show ?thesis
    using Nil R_charged [OF assms, where spent = "JObj []" and usage = "a_usage s"] by (simp add: record_usage_def log_effect_def)
next
  case (Cons x xs)
  then show ?thesis using emit_R [OF R_charged [OF assms]] by (simp add: record_usage_def log_effect_def)
qed

lemma may_call_world [simp]: "may_call (s\<lparr>a_world := w\<rparr>) = may_call s"
  by (simp add: may_call_def)

lemma chat_step: "may_call s \<Longrightarrow> R (Suc 0) s (snd (chat_once d u sys s))"
  using R_trans0 [OF world_step R_called] R_trans0 [OF world_step charge_step]
  by (auto simp: chat_once_def split: prod.split sum.split)

lemma replay_stream_step: "R 0 s (snd (replay_stream d items final s)) \<and> a_budget (snd (replay_stream d items final s)) = a_budget s"
proof (induction d items final s rule: replay_stream.induct)
  case (2 d x items final s)
  then show ?case
    using R_trans0 [OF emit_step, where ?d1 = d] by (auto simp: emit_def Let_def log_effect_def)
qed (auto simp: R_refl)

lemma call_llm_step:
  assumes "may_call s"
  shows "R (Suc 0) s (snd (call_llm d u stream app s))"
proof (cases stream)
  case True
  obtain items ending w where st: "v_chat_stream u (messages (a_state s)) (if tool_schemas s = [] then None else Some (tool_schemas s))
      (effective_system (system_prompt (a_state s)) app) (a_world s) = ((items, ending), w)" by (metis prod.exhaust)
  obtain final s1 where r: "replay_stream d items None (s\<lparr>a_world := w\<rparr>) = (final, s1)" by force
  have s1: "R 0 s s1" "may_call s1"
    using R_trans0 [OF world_step] replay_stream_step [of "s\<lparr>a_world := w\<rparr>" d items None] r assms by (auto simp: may_call_def)
  show ?thesis
    using True st r R_trans0 [OF s1(1)] R_called [OF s1(2)] charge_step [OF s1(2)] chat_step [OF s1(2)]
    by (auto simp: call_llm_def Let_def split: option.split)
qed (simp add: call_llm_def chat_step [OF assms] Let_def)

section \<open>One turn\<close>

lemma check_structured_step:
  assumes "schema = Some sch"
  shows "R 0 s (snd (check_structured d v sch answer n s))"
proof (cases "check_final_answer (v_float_lit v) sch answer")
  case (Inl e)
  then show ?thesis by (simp add: check_structured_def R_refl)
next
  case (Inr res)
  have user: "R 0 s t \<Longrightarrow> R 0 s (add_user m t)" for t m
    by (rule R_trans0 [OF _ add_user_step])
  have answered: "R 0 s (s\<lparr>a_structured := Some x, a_evidence := y\<rparr>)" if "res = Inr x" for x y
    using R_answered assms Inr that by blast
  show ?thesis
    using Inr answered by (cases res) (auto simp: check_structured_def Let_def R_refl intro!: emit_R user)
qed

lemma verify_step: "R 0 s (snd (verify_final_answer d verifier answer s))"
  by (auto simp: verify_final_answer_def Let_def split: prod.split sum.split verdict.split intro!: emit_R world_step)

lemma raise_step: "R 0 s (snd (raise_answer_not_verified d feedback s))"
  by (simp add: raise_answer_not_verified_def emit_step)

lemma reject_step: "R 0 s (snd (reject_answer d lv answer feedback s))"
proof (cases "lv_verification_retries lv")
  case 0
  then show ?thesis by (simp add: reject_answer_def raise_step)
next
  case (Suc n)
  have user: "R 0 s (emit d ty p (add_user m s))" for ty p m by (rule emit_R [OF add_user_step])
  show ?thesis
    using Suc R_trans0 [OF user maybe_escalate_step] by (simp add: reject_answer_def Let_def case_prod_unfold)
qed

lemma judge_step: "R 0 s (snd (judge_answer d v lv answer s))"
proof (cases "v_verifier v")
  case None
  then show ?thesis by (simp add: judge_answer_def accept_answer_def persist_step)
next
  case (Some verifier)
  obtain ok fb s1 where r: "verify_final_answer d verifier answer s = ((ok, fb), s1)" by (metis prod.exhaust)
  then have "R 0 s s1" using verify_step [of s d verifier answer] by simp
  then show ?thesis
    using Some r by (cases ok) (auto simp: judge_answer_def accept_answer_def intro: R_trans0 persist_step reject_step)
qed

lemma answer_turn_step: "R 0 s (snd (answer_turn d v schema lv answer s))"
proof (cases schema)
  case None
  then show ?thesis by (simp add: answer_turn_def judge_step)
next
  case (Some sch)
  obtain r s1 where r: "check_structured d v sch answer (lv_retries lv) s = (r, s1)" by force
  then have "R 0 s s1" using check_structured_step [OF Some, of s d answer "lv_retries lv"] by simp
  then show ?thesis
    using Some r by (auto simp: answer_turn_def bnd_def ret_def split: sum.split intro: R_trans0 judge_step)
qed

lemma cancel_step: "R 0 s (snd (cancel_turn d lv s))"
  by (simp add: cancel_turn_def emit_step)

lemma gate_step: "R 0 s (pause_gate v s)"
  by (simp add: pause_gate_def world_step)

lemma tools_turn_step:
  assumes "tools_keyed (a_tools s)"
  shows "R 0 s (snd (tools_turn c v lv calls s))"
proof -
  obtain r s1 where r: "execute_tool_calls c calls s = (r, s1)" by force
  have s1: "R 0 s s1" using batch_correct [OF assms r] R_gated by blast
  show ?thesis
  proof (cases r)
    case (Inl e)
    then show ?thesis using r s1 by (simp add: tools_turn_def bnd_def)
  next
    case (Inr err)
    define s2 where "s2 = persist_state c v s1"
    define s3 where "s3 = pause_gate v (drain_inbox c v s2)"
    have s2: "R 0 s s2" unfolding s2_def by (rule R_trans0 [OF s1 persist_step])
    have s3: "R 0 s s3" unfolding s3_def by (rule R_trans0 [OF R_trans0 [OF s2 drain_step] gate_step])
    have "R 0 s (snd (maybe_escalate c i err a s3))" for i a by (rule R_trans0 [OF s3 maybe_escalate_step])
    then show ?thesis
      using r Inr emit_R [OF s2] R_trans0 [OF s3 cancel_step]
      by (auto simp: tools_turn_def bnd_def modify_def s2_def [symmetric] s3_def [symmetric] Let_def case_prod_unfold split: option.split)
  qed
qed

lemma after_response_step: "R 0 s (after_response d i r s)"
proof -
  have upd: "R 0 s t \<Longrightarrow> R 0 s (t\<lparr>a_state := st\<rparr>)" for t st
    by (rule R_trans0 [OF _ R_state])
  show ?thesis
    unfolding after_response_def Let_def
    by (auto split: option.split list.split intro!: emit_R upd hooks_step)
qed

lemma keyed_step: "tools_keyed (a_tools s) \<Longrightarrow> R k s t \<Longrightarrow> tools_keyed (a_tools t)"
  by (simp add: R_tools)

lemma model_turn_step:
  assumes "tools_keyed (a_tools s)" "may_call s"
  shows "R (Suc 0) s (snd (model_turn c v stream schema lv hrs s))"
proof -
  obtain r s1 where r: "call_llm c v stream (system_prompt_append s hrs) s = (r, s1)" by force
  have s1: "R (Suc 0) s s1" using call_llm_step [OF assms(2), of c v stream "system_prompt_append s hrs"] r by simp
  show ?thesis
  proof (cases r)
    case (Inl e)
    then show ?thesis using r s1 by (simp add: model_turn_def bnd_def)
  next
    case (Inr x)
    define s2 where "s2 = after_response c (lv_iteration lv) x s1"
    have s2: "R (Suc 0) s s2" using R_trans [OF s1 after_response_step] unfolding s2_def by simp
    have "R (Suc 0) s (snd (tools_turn c v lv calls s2))" "R (Suc 0) s (snd (answer_turn c v schema lv a s2))" for calls a
      using R_trans [OF s2 tools_turn_step [OF keyed_step [OF assms(1) s2]]] R_trans [OF s2 answer_turn_step] by simp_all
    then show ?thesis using r Inr by (simp add: model_turn_def bnd_def modify_def s2_def [symmetric])
  qed
qed

lemma budgeted_turn_step:
  assumes "tools_keyed (a_tools s)"
  shows "R (Suc 0) s (snd (budgeted_turn c v stream schema lv hrs s))"
proof (cases "cancelled c s")
  case True
  then show ?thesis using R_mono [OF cancel_step] by (simp add: budgeted_turn_def)
next
  case False
  obtain msg s1 where b: "budget_stop_message c s = (msg, s1)" by force
  have s1: "R 0 s s1" using budget_stop_step [of s c] b by simp
  show ?thesis
  proof (cases msg)
    case (Some m)
    then show ?thesis using False b R_mono [OF s1] by (simp add: budgeted_turn_def)
  next
    case None
    then have "may_call s1"
      using b by (auto simp: budget_stop_message_def may_call_def split: option.splits sum.splits)
    from model_turn_step [OF keyed_step [OF assms s1] this] show ?thesis
      using False b None R_trans0 [OF s1] by (simp add: budgeted_turn_def)
  qed
qed

lemma begun_turn_step:
  assumes "tools_keyed (a_tools s)"
  shows "R (Suc 0) s (snd (begun_turn c v stream schema lv s))"
proof (cases "cancelled c s")
  case True
  then show ?thesis using R_mono [OF cancel_step] by (simp add: begun_turn_def)
next
  case False
  define s1 where "s1 = emit c ''agent.turn_started''
             [(''iteration'', JInt (int (lv_iteration lv))), (''mode'', JStr (mode_value (a_mode s)))] s"
  obtain r s2 where r: "maybe_compact_context c v s1 = (r, s2)" by force
  have s2: "R 0 s s2"
    using R_trans0 [OF emit_step compact_step] r unfolding s1_def by (metis snd_conv)
  let ?ctx = "(blank_context BEFORE_LLM_CALL (a_run_id s2))\<lparr>ctx_iteration := Some (lv_iteration lv),
                  ctx_user_message := first_user_message (a_state s2)\<rparr>"
  obtain hrs s3 where h: "trigger_hooks c BEFORE_LLM_CALL ?ctx s2 = (hrs, s3)" by force
  have s3: "R 0 s s3" using R_trans0 [OF s2 hooks_step] h by (metis snd_conv)
  show ?thesis
  proof (cases r)
    case (Inl e)
    then show ?thesis using False r R_mono [OF s2, of "Suc 0"] by (simp add: begun_turn_def bnd_def modify_def s1_def [symmetric])
  next
    case (Inr u)
    from budgeted_turn_step [OF keyed_step [OF assms s3], of stream lv hrs] show ?thesis
      using False r Inr h R_trans0 [OF s3]
      by (simp add: begun_turn_def bnd_def modify_def pure_step_def s1_def [symmetric])
  qed
qed

lemma loop_turn_step:
  assumes "tools_keyed (a_tools s)"
  shows "R (Suc 0) s (snd (loop_turn c v stream schema lv s))"
  unfolding loop_turn_def using begun_turn_step [OF keyed_step [OF assms gate_step]] R_trans0 [OF gate_step] by blast

lemma exhausted_step: "R 0 s (snd (loop_exhausted c lv s))"
  by (auto simp: loop_exhausted_def raise_step emit_step split: option.split)

section \<open>The loop\<close>

lemma run_loop_step:
  assumes "tools_keyed (a_tools s)"
  shows "R (nat (cap_of s - int (lv_iteration lv))) s (snd (run_loop n c v stream schema lv s))"
  using assms
proof (induction n arbitrary: lv s)
  case (Suc n)
  show ?case
  proof (cases "int (lv_iteration lv) \<ge> a_max_iterations s")
    case True
    then show ?thesis using R_mono [OF exhausted_step] by simp
  next
    case False
    obtain r s' where t: "loop_turn c v stream schema lv s = (r, s')" by force
    have step: "R (Suc 0) s s'" using loop_turn_step [OF Suc.prems(1), of stream lv] t by simp
    have pos: "1 \<le> nat (cap_of s - int (lv_iteration lv))" using False max_le_cap [of s] by linarith
    have rest: "R (nat (cap_of s - int (lv_iteration lv))) s (snd (run_loop n c v stream schema lv' s'))" if "r = Inr (Next lv')" for lv'
    proof -
      have it: "lv_iteration lv' = lv_iteration lv + 1" using next_iteration t that by blast
      have "Suc 0 + nat (cap_of s' - int (lv_iteration lv')) \<le> nat (cap_of s - int (lv_iteration lv))"
        using it R_cap [OF step] pos by linarith
      from R_mono [OF R_trans [OF step Suc.IH [OF keyed_step [OF Suc.prems step], of lv']] this] show ?thesis .
    qed
    show ?thesis
      using False t R_mono [OF step, of "nat (cap_of s - int (lv_iteration lv))"] pos rest by (auto split: sum.split turn.split)
  qed
qed (simp add: R_refl)

section \<open>Before and after the loop\<close>

lemma plan_step: "R 0 s (snd (create_plan d u msg s))"
  by (auto simp: create_plan_def Let_def R_refl split: option.split prod.split sum.split intro!: emit_R world_step)

lemma recall_step: "R 0 s (recall_memory d mem q s)"
  by (auto simp: recall_memory_def split: prod.split sum.split list.split
      intro!: emit_R world_step R_trans0 [OF world_step add_user_step])

lemma store_step: "R 0 s (store_memory d mem msg final s)"
  by (auto simp: store_memory_def split: prod.split sum.split intro!: emit_R world_step)

lemma clear_memory_step: "R 0 s t \<Longrightarrow> R 0 s (case v_memory u of None \<Rightarrow> t | Some mem \<Rightarrow> clear_working_memory d mem t)"
  by (auto simp: clear_working_memory_def split: option.split intro: R_trans0 [OF _ best_effort_step])

lemma fail_step: "R 0 s (fail_run d u e s)"
  unfolding fail_run_def Let_def by (intro clear_memory_step emit_R hooks_step)

lemma finish_step: "R 0 s (finish_run d u msg final s)"
proof -
  have "R 0 s (s\<lparr>a_resuming := False\<rparr>)" by (rule quiet_R [OF quiet_update]) (simp_all add: core_def)
  then have 1: "R 0 s (emit d ty p (snd (trigger_hooks d pt ctx (s\<lparr>a_resuming := False\<rparr>))))" for ty p pt ctx
    by (intro emit_R) (rule R_trans0 [OF _ hooks_step])
  show ?thesis
    unfolding finish_run_def Let_def
    by (intro clear_memory_step) (auto split: option.split intro: 1 R_trans0 [OF _ store_step])
qed

end

section \<open>The agent's frame\<close>

definition budget_ok :: "'w agent \<Rightarrow> bool" where
  "budget_ok s \<longleftrightarrow> (\<forall>m. calls_cap s = Some m \<longrightarrow> calls_used s \<le> m)"

definition agent_step :: "'w config \<Rightarrow> nat \<Rightarrow> 'w agent \<Rightarrow> 'w agent \<Rightarrow> bool" where
  "agent_step c k s t \<longleftrightarrow> loop_step k c s t \<and> (budget_ok s \<longrightarrow> budget_ok t)"

text \<open>Updates of fields the frame does not mention.\<close>

lemma field_loop_step:
  assumes "a_tools s' = a_tools s" "a_override s' = a_override s" "a_max_iterations s' = a_max_iterations s" "a_mode s' = a_mode s"
    "a_sticky_max s' = a_sticky_max s" "a_extended s' = a_extended s" "a_log s' = a_log s" "a_budget s' = a_budget s"
  shows "loop_step 0 c s s'"
  using assms by (simp add: loop_step_def gate_inv_def calls_cap_def calls_used_def cap_of_def route_inv_def)

lemma agent_step0: "loop_step 0 c s t \<Longrightarrow> agent_step c 0 s t"
  by (auto simp: agent_step_def loop_step_def budget_ok_def)

lemma log_step: "x \<noteq> ModelCalled \<Longrightarrow> (\<forall>n a. x \<noteq> Executed n a) \<Longrightarrow> loop_step 0 c s (log_effect x s)"
  using safe_log_append [of c "a_log s" "[x]"]
  by (auto simp: loop_step_def log_effect_def gate_inv_def calls_cap_def calls_used_def cap_of_def route_inv_def)

lemma model_called_step:
  assumes "may_call s" "calls_used t \<le> calls_used s + 1" "a_log t = a_log s @ [ModelCalled]"
    "a_tools t = a_tools s" "a_override t = a_override s" "a_max_iterations t = a_max_iterations s"
    "a_mode t = a_mode s" "a_sticky_max t = a_sticky_max s" "a_extended t = a_extended s" "calls_cap t = calls_cap s"
  shows "agent_step c (Suc 0) s t"
proof -
  have "gate_inv c t" if "gate_inv c s"
    using that assms(3,4) safe_log_append [of c "a_log s" "[ModelCalled]"] by (auto simp: gate_inv_def)
  moreover have "calls_used s < m" if "calls_cap s = Some m" for m
    using that assms(1) by (cases "a_budget s")
      (auto simp: may_call_def run_budget_check_def calls_spent_def calls_cap_def calls_used_def split: if_splits)
  moreover have "route_inv s \<longrightarrow> route_inv t" "cap_of t = cap_of s"
    using assms by (simp_all add: route_inv_def cap_of_def)
  ultimately show ?thesis
    using assms(2-) by (auto simp: agent_step_def loop_step_def budget_ok_def intro: le_trans [OF assms(2)])
qed

interpretation agent_frame: turn_frame c v schema "agent_step c"
proof
  show "agent_step c k s t \<Longrightarrow> agent_step c l t u \<Longrightarrow> agent_step c (k + l) s u" for k l and s t u :: "'a agent"
    by (auto simp: agent_step_def intro: loop_step_trans)
  show "agent_step c k s t \<Longrightarrow> k \<le> l \<Longrightarrow> agent_step c l s t" for k l and s t :: "'a agent"
    by (auto simp: agent_step_def intro: loop_step_mono)
  show "gated_step c s t \<Longrightarrow> agent_step c 0 s t" for s t :: "'a agent"
    by (simp add: agent_step0 gated_loop_step)
  show "agent_step c 0 s (log_effect (Persisted (a_state s)) s)" for s :: "'a agent"
    by (simp add: agent_step0 log_step)
  show "a_mode s = Mode_FLASH \<Longrightarrow> agent_step c 0 s (s\<lparr>a_mode := Mode_MAX, a_extended := True, a_sticky_max := True,
        a_max_iterations := (if a_override s = None then mode_cap Mode_MAX else a_max_iterations s)\<rparr>)" for s :: "'a agent"
    by (rule agent_step0) (auto simp: loop_step_def gate_inv_def calls_cap_def calls_used_def less_eq_agent_mode_def cap_of_def
        route_inv_def iteration_cap_def split: option.split)
  show "may_call s \<Longrightarrow> agent_step c (Suc 0) s (log_effect ModelCalled s)" for s :: "'a agent"
    by (rule model_called_step) (simp_all add: log_effect_def calls_used_def calls_cap_def)
  show "may_call s \<Longrightarrow> agent_step c (Suc 0) s
      ((log_effect ModelCalled s)\<lparr>a_budget := map_option (run_budget_record u) (a_budget s), a_usage := x\<rparr>)" for s :: "'a agent" and u x
    by (rule model_called_step)
      (cases "a_budget s"; simp add: log_effect_def calls_used_def calls_cap_def run_budget_record_def)+
  show "agent_step c 0 s (s\<lparr>a_state := st\<rparr>)" "agent_step c 0 s (s\<lparr>a_run_id := rid, a_plan := p\<rparr>)"
    "agent_step c 0 s (s\<lparr>a_structured := Some x, a_evidence := y\<rparr>)" for s :: "'a agent" and st rid p x y
    by (rule agent_step0, rule field_loop_step; simp)+
qed (auto simp: agent_step_def loop_step_def)

end
