(* ===== verification/Agent_Run.thy ===== *)
theory Agent_Run
  imports Agent_Loop_Proofs
begin

text \<open>
  The run as a whole: the loop ends and its bound is never the reason, the number of model calls,
  the run budget, the routing invariant, the authorisation of every execution and the conformance
  of structured answers, for every behaviour of the model, the tools, the hooks and other threads under
  which each call and each wait at the pause gate returns.
\<close>

section \<open>The loop without a bound\<close>





section \<open>The frame of the whole run\<close>

text \<open>What a run keeps outside its loop too, where the mode may be chosen anew.\<close>

definition run_step :: "nat \<Rightarrow> 'w config \<Rightarrow> 'w agent \<Rightarrow> 'w agent \<Rightarrow> bool" where
  "run_step k c s s' \<longleftrightarrow> a_tools s' = a_tools s \<and> a_override s' = a_override s \<and> (gate_inv c s \<longrightarrow> gate_inv c s')
     \<and> (route_inv s \<longrightarrow> route_inv s') \<and> (a_sticky_max s \<longrightarrow> a_sticky_max s') \<and> (budget_ok s \<longrightarrow> budget_ok s')
     \<and> (\<exists>z. a_log s' = a_log s @ z \<and> length (filter (\<lambda>x. x = ModelCalled) z) \<le> k)
     \<and> calls_cap s' = calls_cap s \<and> calls_used s' \<le> calls_used s + k"

lemma loop_run_step: "agent_step c k s s' \<Longrightarrow> run_step k c s s'"
  by (simp add: agent_step_def loop_step_def run_step_def)

lemma run_step_trans:
  assumes "run_step k c s t" "run_step l c t u"
  shows "run_step (k + l) c s u"
proof -
  obtain z y where "a_log t = a_log s @ z" "length (filter (\<lambda>x. x = ModelCalled) z) \<le> k"
    "a_log u = a_log t @ y" "length (filter (\<lambda>x. x = ModelCalled) y) \<le> l"
    using assms unfolding run_step_def by blast
  then have "\<exists>z. a_log u = a_log s @ z \<and> length (filter (\<lambda>x. x = ModelCalled) z) \<le> k + l"
    by (intro exI [of _ "z @ y"]) auto
  then show ?thesis using assms unfolding run_step_def by auto
qed

lemma run_step_trans0: "run_step 0 c s t \<Longrightarrow> run_step 0 c t u \<Longrightarrow> run_step 0 c s u"
  using run_step_trans [of 0 c s t 0 u] by simp

lemma run_step_loop: "run_step 0 c s t \<Longrightarrow> agent_step c 0 t u \<Longrightarrow> run_step 0 c s u"
  using run_step_trans0 loop_run_step by blast

lemma apply_mode_fields [simp]:
  "a_tools (apply_mode m s) = a_tools s" "a_override (apply_mode m s) = a_override s" "a_log (apply_mode m s) = a_log s"
  "a_budget (apply_mode m s) = a_budget s" "a_sticky_max (apply_mode m s) = a_sticky_max s" "a_mode (apply_mode m s) = m"
  "a_extended (apply_mode m s) = (m = Mode_MAX)" "a_max_iterations (apply_mode m s) = iteration_cap (a_override s) m"
  by (simp_all add: apply_mode_def iteration_cap_def)

lemma apply_mode_routed: "(a_sticky_max s \<longrightarrow> m = Mode_MAX) \<Longrightarrow> route_inv (apply_mode m s)"
  by (simp add: route_inv_def)

lemma apply_mode_run_step: "(a_sticky_max s \<longrightarrow> m = Mode_MAX) \<Longrightarrow> run_step 0 c s (apply_mode m s)"
  by (simp add: run_step_def apply_mode_routed gate_inv_def calls_cap_def calls_used_def budget_ok_def)

text \<open>Whatever the classifier answers, the routing invariant holds afterwards.\<close>

lemma classify_routes:
  "run_step 0 c s (classify_and_route d v msg s) \<and> route_inv (classify_and_route d v msg s)"
proof -
  define task where "task = (case msg of Some m \<Rightarrow> m | None \<Rightarrow> (case first_user_message (a_state s) of Some m \<Rightarrow> m | None \<Rightarrow> []))"
  obtain r w where r: "v_classify v task (a_world s) = (r, w)" by force
  let ?s1 = "s\<lparr>a_world := w\<rparr>"
  have w: "run_step 0 c s ?s1" by (rule loop_run_step [OF agent_frame.world_step])
  have inv: "route_inv (emit d ty p t)" if "route_inv t" for ty p t
    using that agent_frame.emit_step [of c t d ty p] by (simp add: agent_step_def loop_step_def)
  have sticky: "run_step 0 c ?s1 (apply_mode Mode_MAX (?s1\<lparr>a_sticky_max := True\<rparr>))"
    by (simp add: run_step_def apply_mode_routed gate_inv_def calls_cap_def calls_used_def budget_ok_def)
  show ?thesis
  proof (cases r)
    case (Inl e)
    then show ?thesis
      using r w apply_mode_run_step [of ?s1 Mode_MAX c] apply_mode_routed [of ?s1 Mode_MAX]
      by (auto simp: classify_and_route_def task_def intro: run_step_trans0)
  next
    case (Inr cl)
    show ?thesis
      using r Inr w sticky apply_mode_run_step [of ?s1 _ c] apply_mode_routed
      by (cases "cl_mode cl"; cases "a_sticky_max s")
        (auto simp: classify_and_route_def task_def Let_def intro!: inv run_step_loop [OF _ agent_frame.emit_step] intro: run_step_trans0)
  qed
qed


lemma start_run_step: "run_step 0 c s (start_run d v msg s) \<and> route_inv (start_run d v msg s)"
proof -
  define s1 where "s1 = s\<lparr>a_world := v_clear_cancel v (a_world s), a_stop_reason := None\<rparr>"
  obtain rid w where u: "v_uuid v (a_world s1) = (rid, w)" by force
  define s2 where "s2 = s1\<lparr>a_world := w, a_run_id := Some rid\<rparr>"
  define s3 where "s3 = snd (trigger_hooks d BEFORE_RUN ((blank_context BEFORE_RUN (Some rid))\<lparr>ctx_user_message := msg\<rparr>) s2)"
  define s4 where "s4 = classify_and_route d v msg s3"
  obtain p s5 where p: "create_plan d v msg s4 = (p, s5)" by force
  have "agent_step c 0 s s2" unfolding s2_def s1_def by (rule agent_step0, rule field_loop_step) simp_all
  then have "agent_step c 0 s s3" unfolding s3_def by (rule agent_frame.R_trans0 [OF _ agent_frame.hooks_step])
  then have s4: "run_step 0 c s s4" "route_inv s4"
    using classify_routes [of c s3 d v msg] run_step_trans0 loop_run_step unfolding s4_def by blast+
  have s5: "agent_step c 0 s4 s5" using agent_frame.plan_step [of c s4 d v msg] p by simp
  have "agent_step c 0 s4 (emit d ty q (s5\<lparr>a_plan := x, a_state := st\<rparr>))" for ty q x st
    by (intro agent_frame.emit_R agent_frame.R_trans0 [OF s5] agent_step0 field_loop_step) simp_all
  then have "run_step 0 c s (emit d ty q (s5\<lparr>a_plan := x, a_state := st\<rparr>)) \<and> route_inv (emit d ty q (s5\<lparr>a_plan := x, a_state := st\<rparr>))"
    for ty q x st using s4 run_step_loop by (metis agent_step_def loop_step_def)
  then show ?thesis
    using u p unfolding start_run_def Let_def s1_def [symmetric] s2_def [symmetric] by (simp add: s2_def [symmetric] s3_def [symmetric] s4_def [symmetric])
qed

text \<open>The calls a run may make: the configured cap, or that of the full mode.\<close>

definition run_cap :: "'w agent \<Rightarrow> int" where
  "run_cap s = iteration_cap (a_override s) Mode_MAX"

lemma routed_cap: "route_inv s \<Longrightarrow> cap_of s = run_cap s"
  by (cases "a_mode s") (auto simp: route_inv_def cap_of_def run_cap_def iteration_cap_def split: option.splits)

text \<open>The parts of a run: how it is set up, and how it goes through the loop.\<close>

definition effective_schema :: "'w services \<Rightarrow> bool option \<Rightarrow> json option \<Rightarrow> json option" where
  "effective_schema v verify schema =
     (if (case verify of None \<Rightarrow> v_verification_required v | Some b \<Rightarrow> b) \<and> schema = None then Some verification_schema else schema)"

definition cleared :: "'w services \<Rightarrow> bool option \<Rightarrow> 'w agent \<Rightarrow> 'w agent" where
  "cleared v verify s = s\<lparr>a_structured := None, a_evidence := None,
     a_effective_verify := (case verify of None \<Rightarrow> v_verification_required v | Some b \<Rightarrow> b)\<rparr>"

definition before_loop :: "'w config \<Rightarrow> 'w services \<Rightarrow> string option \<Rightarrow> json option \<Rightarrow> 'w agent \<Rightarrow> 'w agent" where
  "before_loop c v msg sch s =
     (let s1 = (case (msg, v_memory v) of (Some m, Some mem) \<Rightarrow> recall_memory c mem m s | _ \<Rightarrow> s)
      in case (case sch of Some x \<Rightarrow> Some ((case msg of Some m \<Rightarrow> m | None \<Rightarrow> []) @ [LF, LF] @ schema_instruction x) | None \<Rightarrow> msg) of
           Some m \<Rightarrow> add_user m s1 | None \<Rightarrow> s1)"

lemma run_parts:
  assumes "run c v msg stream schema n verify s = (r, s')"
  obtains (refused) "s' = cleared v verify s" "a_pending s \<noteq> None" "\<exists>e. r = Inl e"
  | (resumed) q s4 where "a_resuming s" "msg = None"
      "run_loop (loop_fuel (before_loop c v msg (effective_schema v verify schema) (cleared v verify s))) c v stream
         (effective_schema v verify schema) (loop_start v n)
         (before_loop c v msg (effective_schema v verify schema) (cleared v verify s)) = (q, s4)"
      "r = q" "s' = s4 \<or> (\<exists>e. s' = fail_run c v e s4) \<or> (\<exists>final. q = Inr final \<and> s' = finish_run c v msg final s4)"
  | (fresh) q s3 s4 where "s3 = start_run c v msg (before_loop c v msg (effective_schema v verify schema) (cleared v verify s))"
      "run_loop (loop_fuel s3) c v stream (effective_schema v verify schema) (loop_start v n) s3 = (q, s4)"
      "r = q" "s' = s4 \<or> (\<exists>e. s' = fail_run c v e s4) \<or> (\<exists>final. q = Inr final \<and> s' = finish_run c v msg final s4)"
proof -
  let ?sch = "effective_schema v verify schema"
  let ?s2 = "before_loop c v msg ?sch (cleared v verify s)"
  let ?s3 = "if a_resuming s \<and> msg = None then ?s2 else start_run c v msg ?s2"
  obtain q s4 where l: "run_loop (loop_fuel ?s3) c v stream ?sch (loop_start v n) ?s3 = (q, s4)" by (metis surj_pair)
  have "run c v msg stream schema n verify s =
      (if a_resuming s \<and> msg = None \<and> a_pending s \<noteq> None
       then (Inl (Exn ''RuntimeError'' ''Resolve the pending confirmation before continuing this checkpoint''), cleared v verify s)
       else case run_loop (loop_fuel ?s3) c v stream ?sch (loop_start v n) ?s3 of
                (Inl e, s4) \<Rightarrow> (Inl e, if is_pending e then s4 else fail_run c v e s4)
              | (Inr final, s4) \<Rightarrow> (Inr final, finish_run c v msg final s4))"
    unfolding run_def Let_def before_loop_def cleared_def effective_schema_def by simp
  with assms l show ?thesis
    by (cases "a_resuming s \<and> msg = None"; cases q) (auto intro: that split: if_splits)
qed

lemma before_loop_step: "agent_step c 0 s (before_loop d v msg sch s)"
proof -
  have "agent_step c 0 s (case (msg, v_memory v) of (Some m, Some mem) \<Rightarrow> recall_memory d mem m s | _ \<Rightarrow> s)"
    by (auto split: option.split intro: agent_frame.R_refl agent_frame.recall_step)
  then show ?thesis
    unfolding before_loop_def Let_def by (auto split: option.split intro: agent_frame.R_trans0 [OF _ agent_frame.add_user_step])
qed

lemma cleared_step: "agent_step c 0 s (cleared v verify s)"
  unfolding cleared_def by (rule agent_step0, rule field_loop_step) simp_all

lemma around_loop:
  assumes "tools_keyed (a_tools s3)" "run_loop (loop_fuel s3) c v stream sch (loop_start v n) s3 = (q, s4)"
    "s' = s4 \<or> (\<exists>e. s' = fail_run c v e s4) \<or> (\<exists>final. q = Inr final \<and> s' = finish_run c v msg final s4)"
  shows "agent_step c (nat (cap_of s3)) s3 s'"
proof -
  have "agent_step c (nat (cap_of s3)) s3 s4"
    using agent_frame.run_loop_step [OF assms(1), of c "loop_start v n" "loop_fuel s3" v stream sch] assms(2) by (simp add: loop_start_def)
  then show ?thesis
    using assms(3) agent_frame.R_trans [OF _ agent_frame.fail_step] agent_frame.R_trans [OF _ agent_frame.finish_step] by fastforce
qed

lemma run_correct:
  assumes keyed: "tools_keyed (a_tools s)" and run: "run c v msg stream schema n verify s = (r, s')"
  shows "run_step (nat (max (cap_of s) (run_cap s))) c s s'"
  using run
proof (cases rule: run_parts)
  case refused
  then show ?thesis using loop_run_step [OF agent_frame.R_mono [OF cleared_step]] by simp
next
  case (resumed q s4)
  have s2: "agent_step c 0 s (before_loop c v msg (effective_schema v verify schema) (cleared v verify s))" (is "agent_step c 0 s ?s2")
    by (rule agent_frame.R_trans0 [OF cleared_step before_loop_step])
  then have "nat (cap_of ?s2) \<le> nat (max (cap_of s) (run_cap s))" using agent_frame.R_cap [OF s2] by simp
  with around_loop [OF agent_frame.keyed_step [OF keyed s2] resumed(3,5)] show ?thesis
    using loop_run_step [OF agent_frame.R_trans0 [OF s2]] agent_frame.R_mono by blast
next
  case (fresh q s3 s4)
  have s3: "run_step 0 c s s3" "route_inv s3"
    using run_step_trans0 [OF loop_run_step [OF agent_frame.R_trans0 [OF cleared_step before_loop_step]]] start_run_step fresh(1) by blast+
  then have "cap_of s3 = run_cap s" "tools_keyed (a_tools s3)"
    using routed_cap [of s3] keyed by (simp_all add: run_step_def run_cap_def)
  then have "agent_step c (nat (max (cap_of s) (run_cap s))) s3 s'"
    using around_loop [OF _ fresh(2,4)] by (auto intro: agent_frame.R_mono)
  then show ?thesis using run_step_trans [OF s3(1) loop_run_step] by simp
qed

section \<open>Structured answers\<close>



lemma structured_log [simp]: "a_structured (log_effect x s) = a_structured s"
  by (simp add: log_effect_def)





section \<open>Properties of a run\<close>


text \<open>
  C6: a run makes at most as many model calls as its iteration cap, 50 where none is configured, and a run
  budget that was kept before is kept: the calls charged to it never exceed its limit.
\<close>

theorem run_model_calls_bounded:
  assumes "tools_keyed (a_tools s)" "route_inv s" "run c v msg stream schema n verify s = (r, s')"
  shows "\<exists>z. a_log s' = a_log s @ z
     \<and> length (filter (\<lambda>x. x = ModelCalled) z) \<le> nat (case a_override s of Some cap \<Rightarrow> cap | None \<Rightarrow> 50)
     \<and> (budget_ok s \<longrightarrow> budget_ok s')"
  using run_correct [OF assms(1,3)] routed_cap [OF assms(2)]
  by (auto simp: run_step_def run_cap_def iteration_cap_def split: option.splits)

text \<open>
  C1: no tool is ever executed in a run on a name and arguments that the permission policy has not
  allowed before, or, where the decision asked for it, that a hook has not confirmed since.
\<close>

theorem run_executes_only_authorised:
  assumes "tools_keyed (a_tools s)" "safe_log c (a_log s)"
  shows "safe_log c (a_log (snd (run c v msg stream schema n verify s)))"
  using run_correct [OF assms(1), of c v msg stream schema n verify] assms
  by (cases "run c v msg stream schema n verify s") (simp add: run_step_def gate_inv_def)

text \<open>
  C30: once a conversation has been pinned to the full mode, no later run leaves it: the mode at the end is
  the full one and the pin stays, even if the classifier asks for the small mode or fails.
\<close>

theorem sticky_max_kept:
  assumes "tools_keyed (a_tools s)" "route_inv s" "a_sticky_max s" "run c v msg stream schema n verify s = (r, s')"
  shows "a_mode s' = Mode_MAX \<and> a_sticky_max s' \<and> a_max_iterations s' = run_cap s"
  using run_correct [OF assms(1,4)] assms(2,3) by (auto simp: run_step_def route_inv_def run_cap_def)


section \<open>A sample run\<close>

text \<open>A model that asks for one tool call and then answers, for the concrete instances.\<close>

definition sample_reply :: "string \<Rightarrow> tool_call list \<Rightarrow> llm_response" where
  "sample_reply answer calls = \<lparr>resp_content = answer, resp_tool_calls = calls, resp_stop_reason = None, resp_usage = [], resp_reasoning = None\<rparr>"

definition sample_services :: "unit services" where
  "sample_services = \<lparr>v_chat = (\<lambda>ms ts sys w. (Inr (if length ms \<le> 1 then sample_reply [] [sample_call ''1'' ''echo'' []] else sample_reply ''done'' []), w)),
     v_chat_stream = (\<lambda>ms ts sys w. (([], None), w)), v_classify = (\<lambda>t w. (Inr (default_classify t), w)), v_planner = None,
     v_verifier = None, v_memory = None, v_should_compact = (\<lambda>st. False), v_compact = (\<lambda>st w. (Inr st, w)), v_estimate = (\<lambda>st. 0),
     v_manager_name = [], v_save = None, v_snapshot = None, v_uuid = (\<lambda>w. (''r'', w)), v_clear_cancel = (\<lambda>w. w), v_inbox = (\<lambda>w. ([], w)), v_await = (\<lambda>w. w),
     v_max_verification_retries = 1, v_verification_required = False, v_float_lit = (\<lambda>s. (0, s))\<rparr>"

lemma sample_routed: "route_inv sample_agent"
  by (simp add: sample_agent_def route_inv_def iteration_cap_def)


theorem run_model_calls_bounded_witness:
  "\<exists>r s' z. run sample_config sample_services (Some ''go'') False None None None sample_agent = (r, s') \<and> a_log s' = z
     \<and> length (filter (\<lambda>x. x = ModelCalled) z) \<le> 50 \<and> budget_ok s'"
proof -
  obtain r s' where run: "run sample_config sample_services (Some ''go'') False None None None sample_agent = (r, s')" by force
  have "budget_ok sample_agent" "a_override sample_agent = None" "a_log sample_agent = []"
    by (simp_all add: budget_ok_def calls_cap_def sample_agent_def)
  with run_model_calls_bounded [OF sample_keyed sample_routed run] run show ?thesis by auto
qed

theorem run_executes_only_authorised_witness:
  "safe_log sample_config (a_log (snd (run sample_config sample_services (Some ''go'') False None None None sample_agent)))"
  by (rule run_executes_only_authorised [OF sample_keyed sample_safe])

theorem sticky_max_kept_witness:
  "a_mode (snd (run sample_config sample_services (Some ''go'') False None None None (sample_agent\<lparr>a_sticky_max := True\<rparr>))) = Mode_MAX"
proof -
  have "tools_keyed (a_tools (sample_agent\<lparr>a_sticky_max := True\<rparr>))" "route_inv (sample_agent\<lparr>a_sticky_max := True\<rparr>)"
    using sample_keyed sample_routed by (simp_all add: route_inv_def iteration_cap_def sample_agent_def)
  with sticky_max_kept [of "sample_agent\<lparr>a_sticky_max := True\<rparr>" sample_config sample_services "Some ''go''" False None None None]
  show ?thesis by (cases "run sample_config sample_services (Some ''go'') False None None None (sample_agent\<lparr>a_sticky_max := True\<rparr>)") simp
qed




end
