(* ===== verification/Agent_Lifecycle.thy ===== *)
theory Agent_Lifecycle
  imports Agent_Run
begin

text \<open>
  The life of an agent: construction with its checks, registration of tools, runs and the resolution
  of pending confirmations, as a reachability relation with the invariant every reachable agent has;
  the bound on retries of one call; and the round trip of the checkpointed runtime state.
\<close>

section \<open>The invariant\<close>

definition agent_inv :: "'w agent \<Rightarrow> bool" where
  "agent_inv s \<longleftrightarrow> route_inv s \<and> tools_keyed (a_tools s) \<and> dwf (a_tools s) \<and> budget_ok s"

lemma agent_inv_core: "core s' = core s \<Longrightarrow> agent_inv s \<Longrightarrow> agent_inv s'"
  by (simp add: core_def agent_inv_def route_inv_def budget_ok_def calls_cap_def calls_used_def)

lemma add_tool_inv:
  assumes "agent_inv s"
  shows "agent_inv (snd (add_tool t s))"
  using assms
  by (auto simp: add_tool_def agent_inv_def route_inv_def budget_ok_def calls_cap_def calls_used_def tools_keyed_def)

lemma add_tools_exact:
  assumes "dwf (a_tools s)" "tools_keyed (a_tools s)"
  shows "((\<exists>s'. add_tools ts s = (Inr (), s')) \<longleftrightarrow> distinct (map tool_name ts) \<and> (\<forall>t \<in> set ts. \<not> dhas (a_tools s) (tool_name t)))
    \<and> (\<forall>s'. add_tools ts s = (Inr (), s') \<longrightarrow> s' = s\<lparr>a_tools := a_tools s @ map (\<lambda>t. (tool_name t, t)) ts\<rparr> \<and> dwf (a_tools s') \<and> tools_keyed (a_tools s'))"
  using assms
proof (induction ts arbitrary: s)
  case (Cons t ts)
  let ?s = "s\<lparr>a_tools := dset (a_tools s) (tool_name t) t\<rparr>"
  have has: "dhas (a_tools ?s) k \<longleftrightarrow> k = tool_name t \<or> dhas (a_tools s) k" for k by (auto simp: dhas_dget)
  have keyed: "dwf (a_tools ?s)" "tools_keyed (a_tools ?s)" using Cons.prems by (auto simp: tools_keyed_def)
  show ?case
  proof (cases "dhas (a_tools s) (tool_name t)")
    case True
    then show ?thesis by (simp add: add_tool_def bnd_def)
  next
    case False
    have step: "add_tools (t # ts) s = add_tools ts ?s" using False by (simp add: add_tool_def bnd_def)
    have tools: "?s\<lparr>a_tools := a_tools ?s @ xs\<rparr> = s\<lparr>a_tools := a_tools s @ (tool_name t, t) # xs\<rparr>" for xs
      using False by (simp add: dset_fresh)
    have "(\<forall>x \<in> set ts. \<not> dhas (a_tools ?s) (tool_name x)) \<longleftrightarrow>
        tool_name t \<notin> tool_name ` set ts \<and> (\<forall>x \<in> set ts. \<not> dhas (a_tools s) (tool_name x))"
      using has by (auto simp: image_iff)
    then show ?thesis
      unfolding step using Cons.IH [OF keyed, unfolded tools] False by auto
  qed
qed (auto simp: ret_def)

lemma init_agent_shape:
  "init_agent c mvr tools w st resumed cap b sd = Inr s \<longleftrightarrow>
     (case c_tool_timeout c of Some x \<Rightarrow> 0 < x | None \<Rightarrow> True) \<and> 0 \<le> c_max_transient_retries c \<and> 0 \<le> c_backoff c \<and> 0 \<le> mvr
     \<and> distinct (map tool_name tools)
     \<and> s = initial_agent w st resumed cap b sd\<lparr>a_tools := map (\<lambda>t. (tool_name t, t)) tools\<rparr>"
proof -
  let ?s = "initial_agent w st resumed cap b sd"
  let ?t = "?s\<lparr>a_tools := map (\<lambda>t. (tool_name t, t)) tools\<rparr>"
  have "dwf (a_tools ?s)" "tools_keyed (a_tools ?s)" "\<And>k. \<not> dhas (a_tools ?s) k" "a_tools ?s = []"
    by (simp_all add: initial_agent_def dwf_def tools_keyed_def dhas_def)
  then have "(\<exists>s'. add_tools tools ?s = (Inr (), s')) \<longleftrightarrow> distinct (map tool_name tools)"
    "\<And>s'. add_tools tools ?s = (Inr (), s') \<Longrightarrow> s' = ?t"
    using add_tools_exact [of ?s tools] by auto
  then have "(case add_tools tools ?s of (Inl e, s') \<Rightarrow> Inl e | (Inr _, s') \<Rightarrow> Inr s') = Inr s
      \<longleftrightarrow> distinct (map tool_name tools) \<and> s = ?t"
    by (cases "add_tools tools ?s"; cases "fst (add_tools tools ?s)") auto
  then show ?thesis
    by (auto simp: init_agent_def split: option.splits)
qed

text \<open>
  construction succeeds exactly for a positive time limit, non-negative retry settings and tools with
  distinct names; the new agent offers exactly the given tools, in order, in the full mode.
\<close>

theorem init_agent_exact:
  "init_agent c mvr tools w st resumed cap b sd = Inr s \<longleftrightarrow>
     (case c_tool_timeout c of Some x \<Rightarrow> 0 < x | None \<Rightarrow> True) \<and> 0 \<le> c_max_transient_retries c \<and> 0 \<le> c_backoff c \<and> 0 \<le> mvr
     \<and> distinct (map tool_name tools)
     \<and> s = initial_agent w st resumed cap b sd\<lparr>a_tools := map (\<lambda>t. (tool_name t, t)) tools\<rparr>"
  by (rule init_agent_shape)

lemma init_agent_inv:
  assumes "init_agent c mvr tools w st resumed cap b sd = Inr s" "\<forall>x. b = Some x \<longrightarrow> rb_used_calls x = 0"
  shows "agent_inv s \<and> a_log s = [] \<and> map snd (a_tools s) = tools"
proof -
  let ?s = "initial_agent w st resumed cap b sd"
  have "dwf (a_tools ?s)" "tools_keyed (a_tools ?s)" by (simp_all add: initial_agent_def dwf_def tools_keyed_def)
  moreover have "add_tools tools ?s = (Inr (), s)"
    using assms(1) by (auto simp: init_agent_def split: if_splits prod.splits sum.splits option.splits)
  ultimately have "s = ?s\<lparr>a_tools := a_tools ?s @ map (\<lambda>t. (tool_name t, t)) tools\<rparr>" "dwf (a_tools s)" "tools_keyed (a_tools s)"
    using add_tools_exact [of ?s tools] by blast+
  then show ?thesis
    using assms(2) by (auto simp: initial_agent_def agent_inv_def route_inv_def iteration_cap_def budget_ok_def calls_cap_def calls_used_def
        comp_def split: option.splits)
qed

section \<open>Resolving a confirmation\<close>

lemma tool_step_core: "tool_step P s t \<Longrightarrow> core t = core s"
  by (simp add: tool_step_def)

lemma quiet_core: "quiet s t \<Longrightarrow> core t = core s"
  by (auto simp: quiet_def dest: tool_step_core)

lemma core_updates [simp]:
  "core (s\<lparr>a_world := w\<rparr>) = core s" "core (log_effect x s) = core s" "core (s\<lparr>a_state := st\<rparr>) = core s"
  "core (s\<lparr>a_pending := p\<rparr>) = core s" "core (s\<lparr>a_remaining := rest\<rparr>) = core s" "core (emit c ty q s) = core s"
  by (simp_all add: core_def log_effect_def quiet_core [OF quiet_emit, unfolded core_def])

lemma persist_core: "core (persist_state c v s) = core s"
proof -
  have "core (best_effort c ty f t) = core t" for ty f t
    by (auto simp: best_effort_def split: prod.split sum.split)
  then show ?thesis
    by (auto simp: persist_state_def Let_def split: option.split)
qed

lemma act_core_bnd: "act_frame (\<lambda>s t. core t = core s) m \<Longrightarrow> (\<And>x. act_frame (\<lambda>s t. core t = core s) (f x)) \<Longrightarrow> act_frame (\<lambda>s t. core t = core s) (bnd m f)"
  by (rule frame_bnd) auto

lemma confirmed_core: "core (snd (confirmed_call c approved call args s)) = core s"
proof -
  have pure: "act_frame (\<lambda>s t. core t = core s) (pure_step f)" if "\<And>s. core (snd (f s)) = core s" for f :: "'a agent \<Rightarrow> tool_result \<times> 'a agent"
    using that by (simp add: act_frame_def pure_step_def case_prod_unfold)
  have quiet_act: "act_frame (\<lambda>s t. core t = core s) m" if "act_frame quiet m" for m :: "('a, 'b) act"
    using that quiet_core by (auto simp: act_frame_def)
  have "act_frame (\<lambda>s t. core t = core s) (bnd (pure_step (run_tool c t args)) (\<lambda>r0.
                bnd (pure_step (retry_transient_tool c call t args r0)) (\<lambda>r.
                bnd (finalize_call c call t args r) (\<lambda>_. ret r))))" for t
    by (intro act_core_bnd pure quiet_act [OF quiet_finalize] quiet_act [OF quiet_ret])
      (use run_tool_frame retry_frame tool_step_core in \<open>fastforce simp: exec_frame_def retry_transient_tool_def\<close>)+
  then show ?thesis
    using quiet_act [OF quiet_deny [of c call "''confirmation declined by user''" args]]
    by (auto simp: confirmed_call_def act_frame_def ret_def split: option.split)
qed

lemma batch_core: "tools_keyed (a_tools s) \<Longrightarrow> core (snd (execute_tool_calls c calls s)) = core s"
  using batch_correct [of s c calls] tool_step_core by (cases "execute_tool_calls c calls s") (auto simp: gated_step_def)

lemma resolve_core:
  assumes "tools_keyed (a_tools s)"
  shows "core (snd (resolve_pending_confirmation c v approved s)) = core s"
proof (cases "a_pending s")
  case None
  then show ?thesis by (simp add: resolve_pending_confirmation_def)
next
  case (Some p)
  obtain call args d where p: "p = (call, args, d)" by (cases p) auto
  obtain r s1 where r: "confirmed_call c approved call args (s\<lparr>a_pending := None\<rparr>) = (r, s1)" by force
  have s1: "core s1 = core s" using confirmed_core [of c approved call args "s\<lparr>a_pending := None\<rparr>"] r by simp
  have rest: "core (snd (bnd (if xs = [] then ret False else execute_tool_calls c xs) (\<lambda>_. modify (persist_state c v)) u)) = core u"
    if "tools_keyed (a_tools u)" for xs u
    using batch_core [OF that, of c xs] persist_core by (auto simp: bnd_def ret_def modify_def split: prod.split sum.split)
  show ?thesis
  proof (cases r)
    case (Inl e)
    then show ?thesis using Some p r s1 by (simp add: resolve_pending_confirmation_def bnd_def)
  next
    case (Inr x)
    define s2 where "s2 = (answer_call c call x (is_error x) (emit_tool_call_finished c call x s1))\<lparr>a_remaining := []\<rparr>"
    have s2: "core s2 = core s" using s1 quiet_core [OF quiet_finished, of c call x s1] by (simp add: s2_def answer_call_def)
    then have "tools_keyed (a_tools s2)" using assms by (simp add: core_def)
    from rest [OF this] s2 show ?thesis
      using Some p r Inr
      by (simp add: resolve_pending_confirmation_def bnd_def [of "confirmed_call c approved call args"] bnd_def [of "modify _"] modify_def
          s2_def [symmetric] Let_def)
  qed
qed

section \<open>Reachable agents\<close>

inductive agent_reach :: "'w config \<Rightarrow> 'w services \<Rightarrow> 'w agent \<Rightarrow> bool" for c v where
  built: "init_agent c mvr tools w st resumed cap b sd = Inr s \<Longrightarrow> \<forall>x. b = Some x \<longrightarrow> rb_used_calls x = 0 \<Longrightarrow> agent_reach c v s"
| tool_added: "agent_reach c v s \<Longrightarrow> agent_reach c v (snd (add_tool t s))"
| ran: "agent_reach c v s \<Longrightarrow> agent_reach c v (snd (run c v msg stream schema n verify s))"
| resolved: "agent_reach c v s \<Longrightarrow> agent_reach c v (snd (resolve_pending_confirmation c v approved s))"

lemma run_inv: "agent_inv s \<Longrightarrow> agent_inv (snd (run c v msg stream schema n verify s))"
  using run_correct [of s c v msg stream schema n verify]
  by (cases "run c v msg stream schema n verify s") (auto simp: agent_inv_def run_step_def)

text \<open>
  C3: every agent reachable from its construction by registering tools, running and resolving
  confirmations, in any order and whatever the outcomes, satisfies the invariant: the iteration cap is the
  configured one or that of the current mode, extended reasoning is on exactly in the full mode, a pinned
  conversation is in the full mode, tools are stored under their own distinct names, and the model calls
  charged to the run budget are within its limit.
\<close>

theorem reachable_agent_inv:
  assumes "agent_reach c v s"
  shows "a_max_iterations s = iteration_cap (a_override s) (a_mode s) \<and> (a_extended s \<longleftrightarrow> a_mode s = Mode_MAX)
     \<and> (a_sticky_max s \<longrightarrow> a_mode s = Mode_MAX) \<and> tools_keyed (a_tools s) \<and> dwf (a_tools s) \<and> budget_ok s"
proof -
  have "agent_inv s"
    using assms
  proof (induction rule: agent_reach.induct)
    case built
    from init_agent_inv [OF built.hyps] show ?case by simp
  next
    case (resolved s approved)
    then show ?case using agent_inv_core [OF resolve_core [of s c v approved]] by (simp add: agent_inv_def)
  qed (auto intro: add_tool_inv run_inv)
  then show ?thesis by (simp add: agent_inv_def route_inv_def)
qed

definition built_agent :: "unit agent" where
  "built_agent = (initial_agent () None None None None None)\<lparr>a_tools := [(''echo'', sample_tool)]\<rparr>"

lemma built_agent_init: "init_agent sample_config 1 [sample_tool] () None None None None None = Inr built_agent"
  by (simp add: init_agent_def built_agent_def sample_config_def initial_agent_def add_tool_def bnd_def ret_def dhas_def sample_tool_def)

theorem reachable_agent_inv_witness:
  "agent_reach sample_config sample_services built_agent
   \<and> budget_ok (snd (run sample_config sample_services (Some ''go'') False None None None built_agent))"
proof -
  have s0: "agent_reach sample_config sample_services built_agent"
    by (rule agent_reach.built [OF built_agent_init]) simp
  from reachable_agent_inv [OF agent_reach.ran [OF s0, of "Some ''go''" False None None None]] s0
  show ?thesis by blast
qed

section \<open>Retries of one call\<close>

fun is_execution :: "effect \<Rightarrow> bool" where
  "is_execution (Executed n a) = True"
| "is_execution _ = False"

definition executes :: "nat \<Rightarrow> 'w agent \<Rightarrow> 'w agent \<Rightarrow> bool" where
  "executes k s s' \<longleftrightarrow> (\<exists>z. a_log s' = a_log s @ z \<and> length (filter is_execution z) \<le> k)"

lemma executes_trans: "executes k s t \<Longrightarrow> executes l t u \<Longrightarrow> executes (k + l) s u"
  unfolding executes_def by (elim exE) (rule_tac x = "z @ za" in exI, auto)

lemma executes_mono: "executes k s t \<Longrightarrow> k \<le> l \<Longrightarrow> executes l s t"
  unfolding executes_def using le_trans by blast

lemma quiet_executes: "quiet s t \<Longrightarrow> executes 0 s t"
proof -
  have "is_execution x \<Longrightarrow> \<exists>n a. x = Executed n a" for x by (cases x) simp_all
  then have "(\<forall>n a. Executed n a \<notin> set z) \<Longrightarrow> filter is_execution z = []" for z
    by (metis filter_False)
  then show "quiet s t \<Longrightarrow> executes 0 s t" by (fastforce simp: quiet_def tool_step_def executes_def)
qed

lemma run_tool_executes: "executes (Suc 0) s (snd (run_tool c t a s))"
  by (auto simp: run_tool_def invoke_tool_def Let_def executes_def log_effect_def split: option.split prod.split)

lemma retry_wait_executes: "executes 0 s (retry_wait c call n s)"
proof -
  have "executes 0 s t \<Longrightarrow> executes 0 s (t\<lparr>a_world := w\<rparr>)" for t w by (simp add: executes_def)
  then show ?thesis by (auto simp: retry_wait_def Let_def intro: quiet_executes quiet_emit)
qed

lemma retry_executes: "executes (nat (max_transient_retries c t - int n)) s (snd (retry_from c call t a n r s))"
proof (induction c call t a n r s rule: retry_from.induct)
  case (1 c call t a n r s)
  show ?case
  proof (cases "is_transient r \<and> int n < max_transient_retries c t \<and> \<not> cancelled c s")
    case True
    obtain r' s3 where r: "run_tool c t a (retry_wait c call (n + 1) s) = (r', s3)" by force
    have "executes (Suc 0) s s3"
      using executes_trans [OF retry_wait_executes run_tool_executes [of _ c t a]] r by (metis snd_conv add_0)
    from executes_trans [OF this "1.IH" [OF True r [symmetric]]]
    have "executes (Suc 0 + nat (max_transient_retries c t - int (n + 1))) s (snd (retry_from c call t a (n + 1) r' s3))" .
    moreover have "retry_from c call t a n r s = retry_from c call t a (n + 1) r' s3"
      using True r by (subst retry_from.simps) simp
    moreover have "Suc 0 + nat (max_transient_retries c t - int (n + 1)) \<le> nat (max_transient_retries c t - int n)"
      using True by linarith
    ultimately show ?thesis using executes_mono by metis
  next
    case False
    then show ?thesis by (subst retry_from.simps) (auto simp: executes_def)
  qed
qed

lemma gate_none: "dget (a_tools s) (call_name call) = None \<Longrightarrow> gate_tool c call args s \<noteq> (Inr (Some t, args', None), s')"
  by (auto dest: gate_tool_admits)

text \<open>
  C33: one requested call leads to at most one execution plus the retries its tool allows, and to none at
  all when no tool of that name is registered, whatever results the tool returns.
\<close>

theorem execute_one_bounded:
  assumes "tools_keyed (a_tools s)" "execute_one c call s = (out, s')"
  shows "\<exists>z. a_log s' = a_log s @ z \<and> length (filter is_execution z) \<le>
    (case dget (a_tools s) (call_name call) of None \<Rightarrow> 0 | Some t \<Rightarrow> 1 + nat (max_transient_retries c t))"
proof -
  obtain p s1 where p: "prepare_call c call s = (p, s1)" by force
  have q: "quiet s s1" using act_frameD [OF quiet_prepare p] .
  have none: "s' = s1 \<Longrightarrow> ?thesis" using quiet_executes [OF q] by (fastforce simp: executes_def)
  show ?thesis
  proof (cases "\<exists>t args. p = Inr (Some t, args, None)")
    case False
    then have "s' = s1"
      using assms(2) p by (auto simp: execute_one_def bnd_def ret_def throw_def split: sum.splits option.splits)
    then show ?thesis by (rule none)
  next
    case True
    then obtain t args where t: "p = Inr (Some t, args, None)" by blast
    obtain r s2 where r: "run_tool c t args s1 = (r, s2)" by force
    obtain r' s3 where r': "retry_transient_tool c call t args r s2 = (r', s3)" by force
    obtain f s4 where f: "finalize_call c call t args r' s3 = (f, s4)" by force
    have "s' = s4" using assms(2) p t r r' f
      by (auto simp: execute_one_def bnd_def pure_step_def ret_def split: sum.splits)
    moreover have "executes (Suc 0) s s2" "executes (nat (max_transient_retries c t)) s2 s3" "executes 0 s3 s4"
      using executes_trans [OF quiet_executes [OF q] run_tool_executes [of s1 c t args]] r
        retry_executes [of c t 0 s2 call args r] r' quiet_executes [OF act_frameD [OF quiet_finalize f]]
      by (simp_all add: retry_transient_tool_def)
    ultimately have "executes (1 + nat (max_transient_retries c t)) s s'"
      using executes_trans [of "Suc 0" s s2 _ s3] executes_trans [of _ s s3 0 s4] by fastforce
    moreover have "dget (a_tools s1) (call_name call) = Some t"
      using prepare_permits [OF assms(1), of c call t args s1] p t by (metis permitted_def)
    moreover have "a_tools s1 = a_tools s" using quiet_core [OF q] by (simp add: core_def)
    ultimately show ?thesis by (simp add: executes_def)
  qed
qed

theorem execute_one_bounded_witness:
  "\<exists>out s' z. execute_one sample_config (sample_call ''1'' ''echo'' []) sample_agent = (out, s') \<and> a_log s' = z
     \<and> length (filter is_execution z) \<le> 3"
proof -
  obtain out s' where x: "execute_one sample_config (sample_call ''1'' ''echo'' []) sample_agent = (out, s')" by force
  have "a_log sample_agent = []" "dget (a_tools sample_agent) (call_name (sample_call ''1'' ''echo'' [])) = Some sample_tool"
    "max_transient_retries sample_config sample_tool = 2"
    by (simp_all add: sample_agent_def sample_call_def max_transient_retries_def sample_config_def sample_tool_def)
  with execute_one_bounded [OF sample_keyed x] x show ?thesis by auto
qed

section \<open>Checkpoints\<close>

lemma call_of_dict_dict [simp]: "call_of_dict (call_dict call) = Inr call"
  by (simp add: call_of_dict_def call_dict_def require_def py_dict_def)

lemma map_res_calls: "map_res call_of_dict (map call_dict calls) = Inr calls"
  by (induction calls) simp_all

text \<open>
  Restoring a runtime checkpoint into any agent gives back the routing state, the pending call with its
  arguments and decision, and the remaining calls of the agent that wrote it, under the given run id.
\<close>

lemma runtime_checkpoint_roundtrip:
  "(case checkpoint_runtime_state s of JObj rt \<Rightarrow> restore_checkpoint_runtime_state rid rt s0 | _ \<Rightarrow> Inl (Exn [] [])) =
    Inr (s0\<lparr>a_mode := a_mode s, a_sticky_max := a_sticky_max s, a_max_iterations := a_max_iterations s, a_override := a_override s,
      a_extended := a_extended s, a_pending := (case a_pending s of None \<Rightarrow> a_pending s0 | Some p \<Rightarrow> Some p), a_remaining := a_remaining s,
      a_run_id := Some rid, a_resuming := True\<rparr>)"
proof -
  have mode: "mode_of_value (JStr (mode_value m)) = Inr m" for m by (cases m) (simp_all add: mode_of_value_def)
  have cap: "as_int (opt_int x) = x" for x by (cases x) (simp_all add: opt_int_def)
  have dec: "\<exists>d'. decision_dict d = JObj d' \<and> decision_of_dict d' = Inr d" for d
    by (cases d) (simp add: decision_dict_def decision_of_dict_def)
  obtain d' where d: "a_pending s = Some (call, args, d) \<Longrightarrow> decision_dict d = JObj d' \<and> decision_of_dict d' = Inr d" for call args d
    using dec by (metis option.inject prod.inject)
  show ?thesis
    using d call_of_dict_dict
    by (cases "a_pending s") (auto simp: checkpoint_runtime_state_def restore_checkpoint_runtime_state_def restore_routing_def require_def mode
        int_of_value_def cap map_res_calls restore_pending_def call_dict_def jget_def)
qed

end
