(* ===== verification/Context_Manager.thy ===== *)
theory Context_Manager
  imports Conversation
begin

text \<open>
  Context-window management: \<open>context/manager.py\<close> and \<open>context/tokens.py\<close>. A manager is a record of
  its settings; \<open>m_limit\<close> is the context limit its last \<open>should_compact\<close> was called with. The texts the
  managers insert (placeholder, truncation marker, labels of a summary) are Vietnamese, outside the
  character range of the model, and are fields of the records; so are the regular expressions of the
  compressor, as predicates on lines. Fractions are exact rationals where the code has floats. Ids of tool
  blocks may be any truthy value; a set of ids is a list read as a set.
\<close>

section \<open>Tool blocks of messages\<close>

definition blocks_of :: "message \<Rightarrow> json list" where
  "blocks_of m = (case jget m ''content'' of JArr bs \<Rightarrow> bs | _ \<Rightarrow> [])"

definition block_id :: "string \<Rightarrow> string \<Rightarrow> json \<Rightarrow> json option" where
  "block_id ty key b = (case b of
     JObj d \<Rightarrow> if jget d ''type'' = JStr ty \<and> truthy (jget d key) then Some (jget d key) else None
   | _ \<Rightarrow> None)"

definition message_tool_use_ids :: "message \<Rightarrow> json list" where
  "message_tool_use_ids m = List.map_filter (block_id ''tool_use'' ''id'') (blocks_of m)"

definition message_tool_result_ids :: "message \<Rightarrow> json list" where
  "message_tool_result_ids m = List.map_filter (block_id ''tool_result'' ''tool_use_id'') (blocks_of m)"

definition message_has_tool_result :: "message \<Rightarrow> bool" where
  "message_has_tool_result m = (message_tool_result_ids m \<noteq> [])"

definition message_has_tool_content :: "message \<Rightarrow> bool" where
  "message_has_tool_content m = (message_tool_use_ids m \<noteq> [] \<or> message_tool_result_ids m \<noteq> [])"

definition stringify_content :: "json \<Rightarrow> string" where
  "stringify_content v = (case v of JStr s \<Rightarrow> s | _ \<Rightarrow> json_dumps_utf8 v)"

section \<open>Settings\<close>

record context_budget =
  cb_system_prompt :: rat
  cb_history :: rat
  cb_tool_output :: rat
  cb_memory :: rat
  cb_plan :: rat

definition budget_fractions :: "context_budget \<Rightarrow> rat list" where
  "budget_fractions b = [cb_system_prompt b, cb_history b, cb_tool_output b, cb_memory b, cb_plan b]"

definition context_budget_init :: "context_budget \<Rightarrow> context_budget result" where
  "context_budget_init b = (if list_ex (\<lambda>x. x < 0) (budget_fractions b) \<or> sum_list (budget_fractions b) > 1
     then Inl (Exn ''ValueError'' ''context budget fractions must be non-negative and sum to <= 1'') else Inr b)"

record manager =
  m_keep :: int
  m_threshold :: rat
  m_chars_per_token :: int
  m_token_counter :: "(string \<Rightarrow> int) option"
  m_max_chars :: "int option"
  m_budget :: "context_budget option"
  m_patterns :: "(string \<Rightarrow> bool) list option"
  m_tail_budget :: "rat option"
  m_limit :: "int option"
  m_placeholder :: "nat \<Rightarrow> string"
  m_marker :: "int \<Rightarrow> string"

definition manager_init :: "manager \<Rightarrow> manager result" where
  "manager_init m =
     (if m_keep m < 0 then value_error ''keep_last_tool_results must be >= 0''
      else if \<not> (0 < m_threshold m \<and> m_threshold m \<le> 1) then value_error ''safety_threshold must be in (0, 1]''
      else if m_chars_per_token m < 1 then value_error ''chars_per_token must be >= 1''
      else if (case m_max_chars m of Some n \<Rightarrow> n < 100 | None \<Rightarrow> False) then value_error ''max_tool_result_chars must be >= 100 or None''
      else if (case m_tail_budget m of Some x \<Rightarrow> \<not> (0 < x \<and> x \<le> 1) | None \<Rightarrow> False) then value_error ''tail_token_budget must be in (0, 1] or None''
      else Inr (m\<lparr>m_limit := None\<rparr>))"

section \<open>Counting\<close>

definition estimate_tokens :: "string \<Rightarrow> int \<Rightarrow> int" where
  "estimate_tokens s chars_per_token = max 1 (int (length s) div chars_per_token)"

definition count_tokens :: "manager \<Rightarrow> string \<Rightarrow> int" where
  "count_tokens m s = (case m_token_counter m of Some f \<Rightarrow> f s | None \<Rightarrow> estimate_tokens s (m_chars_per_token m))"

definition estimate_state_tokens :: "manager \<Rightarrow> conversation_state \<Rightarrow> int" where
  "estimate_state_tokens m st =
     (case system_prompt st of Some (x # xs) \<Rightarrow> count_tokens m (x # xs) | _ \<Rightarrow> 0)
     + sum_list (map (\<lambda>msg. count_tokens m (stringify_content (jget msg ''content''))) (messages st))"

record sections =
  sec_system :: string
  sec_history :: string
  sec_tool_output :: string
  sec_memory :: string
  sec_plan :: json

definition is_result_block :: "json \<Rightarrow> bool" where
  "is_result_block b = (case b of JObj d \<Rightarrow> jget d ''type'' = JStr ''tool_result'' | _ \<Rightarrow> False)"

definition add_section :: "message \<Rightarrow> sections \<Rightarrow> sections" where
  "add_section msg s = (case jget msg ''content'' of
     JStr t \<Rightarrow> if startswith ''[Recalled memories]'' t then s\<lparr>sec_memory := sec_memory s @ t\<rparr>
               else s\<lparr>sec_history := sec_history s @ t\<rparr>
   | JArr bs \<Rightarrow>
       (let tool_blocks = filter is_result_block bs; other_blocks = filter (\<lambda>b. \<not> py_in b tool_blocks) bs in
        s\<lparr>sec_tool_output := sec_tool_output s @ stringify_content (JArr tool_blocks),
          sec_history := sec_history s @ stringify_content (JArr other_blocks)\<rparr>)
   | v \<Rightarrow> s\<lparr>sec_history := sec_history s @ stringify_content v\<rparr>)"

definition budget_sections :: "conversation_state \<Rightarrow> sections" where
  "budget_sections st = foldl (\<lambda>s msg. add_section msg s)
     \<lparr>sec_system = (case system_prompt st of Some p \<Rightarrow> p | None \<Rightarrow> []), sec_history = [], sec_tool_output = [], sec_memory = [],
      sec_plan = (case dget (metadata st) ''plan'' of Some p \<Rightarrow> p | None \<Rightarrow> JStr [])\<rparr> (messages st)"

definition section_texts :: "sections \<Rightarrow> string list" where
  "section_texts s = [sec_system s, sec_history s, sec_tool_output s, sec_memory s, stringify_content (sec_plan s)]"

definition budget_token_counts :: "manager \<Rightarrow> conversation_state \<Rightarrow> int list" where
  "budget_token_counts m st = map (count_tokens m) (section_texts (budget_sections st))"

definition budget_allocations :: "context_budget \<Rightarrow> int \<Rightarrow> rat list" where
  "budget_allocations b limit = map (\<lambda>x. of_int limit * x) (budget_fractions b)"

definition budget_report :: "manager \<Rightarrow> conversation_state \<Rightarrow> rat list" where
  "budget_report m st =
     (let counts = budget_token_counts m st; all = sum_list counts in
      map (\<lambda>n. if all \<noteq> 0 then of_int n / of_int all else 0) counts)"

definition should_compact :: "manager \<Rightarrow> conversation_state \<Rightarrow> int \<Rightarrow> (bool \<times> manager) result" where
  "should_compact m st limit =
     (if limit \<le> 0 then value_error ''model_context_limit must be positive''
      else Inr (case m_budget m of
          Some b \<Rightarrow> list_ex (\<lambda>(n, x). of_int n \<ge> x) (zip (budget_token_counts m st) (budget_allocations b limit))
        | None \<Rightarrow> of_int (estimate_state_tokens m st) \<ge> of_int limit * m_threshold m,
        m\<lparr>m_limit := Some limit\<rparr>))"

section \<open>Shortening tool output\<close>

definition head_tail :: "(int \<Rightarrow> string) \<Rightarrow> string \<Rightarrow> nat \<Rightarrow> string" where
  "head_tail marker s limit =
     (let head = limit * 2 div 3; tail = limit - head; omitted = int (length s) - int head - int tail
      in take head s @ marker omitted @ slice_last tail s)"

definition omitted_marker :: string where
  "omitted_marker = ''[... verbose tool output omitted ...]'' @ [LF]"

fun region_start :: "string list \<Rightarrow> nat \<Rightarrow> nat" where
  "region_start ls 0 = 0"
| "region_start ls (Suc i) = (if is_blank (ls ! i) then Suc i else region_start ls i)"

definition region_end :: "string list \<Rightarrow> nat \<Rightarrow> nat" where
  "region_end ls i = i + length (takeWhile (\<lambda>l. \<not> is_blank l) (drop (Suc i) ls))"

definition salient :: "(string \<Rightarrow> bool) list \<Rightarrow> string list \<Rightarrow> nat set" where
  "salient ps ls =
     (let important = {i \<in> {0..<length ls}. list_ex (\<lambda>p. p (ls ! i)) ps};
          failures = {i \<in> important. list_ex (\<lambda>p. p (ls ! i)) (drop 1 ps)}
      in important \<union> region_start ls ` failures \<union> region_end ls ` failures)"

fun fit_lines :: "nat \<Rightarrow> string list \<Rightarrow> string \<Rightarrow> string" where
  "fit_lines limit [] out = out"
| "fit_lines limit (l # ls) out =
     (if length out + length l + length omitted_marker > limit then fit_lines limit ls out else fit_lines limit ls (out @ l))"

definition compress :: "(int \<Rightarrow> string) \<Rightarrow> (string \<Rightarrow> bool) list \<Rightarrow> string \<Rightarrow> nat \<Rightarrow> string" where
  "compress marker ps s limit =
     (if length s \<le> limit then s
      else let ls = splitlines_keep s; keep = salient ps ls in
        if keep = {} then head_tail marker s limit
        else let selected = map (\<lambda>i. ls ! i) (filter (\<lambda>i. i \<in> keep) [0..<length ls]);
                 whole = omitted_marker @ concat selected @ omitted_marker
             in if length whole \<le> limit then whole
                else let out = fit_lines limit selected omitted_marker
                     in if length out + length omitted_marker \<le> limit then out @ omitted_marker else take limit out)"

definition shorten :: "manager \<Rightarrow> string \<Rightarrow> nat \<Rightarrow> string" where
  "shorten m s limit = (case m_patterns m of Some ps \<Rightarrow> compress (m_marker m) ps s limit | None \<Rightarrow> head_tail (m_marker m) s limit)"

definition result_text :: "json \<Rightarrow> string option" where
  "result_text b = (case b of
     JObj d \<Rightarrow> if jget d ''type'' = JStr ''tool_result'' then str_opt (jget d ''content'') else None
   | _ \<Rightarrow> None)"

definition truncate_block :: "manager \<Rightarrow> int \<Rightarrow> json \<Rightarrow> json" where
  "truncate_block m limit b = (case (b, result_text b) of
     (JObj d, Some s) \<Rightarrow>
       if int (length s) \<le> limit then b
       else let short = shorten m s (nat limit) in
         JObj (dset (dset d ''content'' (JStr short)) ''_compaction''
           (JObj [(''kind'', JStr ''truncated''), (''omitted_chars'', JInt (int (length s) - int (length short)))]))
   | _ \<Rightarrow> b)"

definition oversized :: "int \<Rightarrow> json \<Rightarrow> bool" where
  "oversized limit b = (case result_text b of Some s \<Rightarrow> int (length s) > limit | None \<Rightarrow> False)"

definition truncate_message :: "manager \<Rightarrow> int \<Rightarrow> message \<Rightarrow> message" where
  "truncate_message m limit msg = (case jget msg ''content'' of
     JArr bs \<Rightarrow> if list_ex (oversized limit) bs then dset msg ''content'' (JArr (map (truncate_block m limit) bs)) else msg
   | _ \<Rightarrow> msg)"

definition truncate_oversized_tool_results :: "manager \<Rightarrow> message list \<Rightarrow> message list" where
  "truncate_oversized_tool_results m ms = (case m_max_chars m of None \<Rightarrow> ms | Some limit \<Rightarrow> map (truncate_message m limit) ms)"

definition result_blocks :: "message list \<Rightarrow> (nat \<times> nat \<times> string) list" where
  "result_blocks ms = concat (map (\<lambda>(mi, msg). List.map_filter (\<lambda>(bi, b). map_option (\<lambda>s. (mi, bi, s)) (result_text b))
     (enumerate 0 (blocks_of msg))) (enumerate 0 ms))"

fun reduce_blocks :: "manager \<Rightarrow> int \<Rightarrow> (nat \<times> nat \<times> string) list \<Rightarrow> int \<Rightarrow> message list \<Rightarrow> message list" where
  "reduce_blocks m allowed_chars [] remaining out = out"
| "reduce_blocks m allowed_chars ((mi, bi, s) # rest) remaining out =
     (if remaining \<le> allowed_chars then out
      else let target = max 100 (int (length s) - (remaining - allowed_chars)) in
        if target \<ge> int (length s) then reduce_blocks m allowed_chars rest remaining out
        else let bs = blocks_of (out ! mi);
                 b = truncate_block m target (bs ! bi);
                 out' = out[mi := dset (out ! mi) ''content'' (JArr (bs[bi := b]))];
                 gained = int (length s) - (case result_text b of Some u \<Rightarrow> int (length u) | None \<Rightarrow> 0)
             in reduce_blocks m allowed_chars rest (remaining - gained) out')"

definition compact_tool_output_to_budget :: "manager \<Rightarrow> context_budget \<Rightarrow> int \<Rightarrow> message list \<Rightarrow> message list" where
  "compact_tool_output_to_budget m b limit ms =
     (let allowed_chars = max 100 \<lfloor>of_int limit * cb_tool_output b * of_int (m_chars_per_token m)\<rfloor>;
          blocks = result_blocks ms;
          size_all = sum_list (map (\<lambda>(mi, bi, s). int (length s)) blocks)
      in if size_all \<le> allowed_chars then ms else reduce_blocks m allowed_chars blocks size_all ms)"

section \<open>Compaction\<close>

fun walk_back :: "message list \<Rightarrow> nat \<Rightarrow> json list \<Rightarrow> json list \<Rightarrow> nat" where
  "walk_back ms 0 needed provided = 0"
| "walk_back ms (Suc n) needed provided =
     (if set needed \<subseteq> set provided then Suc n
      else walk_back ms n (message_tool_result_ids (ms ! n) @ needed) (message_tool_use_ids (ms ! n) @ provided))"

definition expand_to_group_boundary :: "message list \<Rightarrow> nat \<Rightarrow> nat" where
  "expand_to_group_boundary ms start = walk_back ms start
     (concat (map message_tool_result_ids (drop start ms))) (concat (map message_tool_use_ids (drop start ms)))"

fun select_tail :: "manager \<Rightarrow> message list \<Rightarrow> rat \<Rightarrow> nat list \<Rightarrow> nat list \<Rightarrow> int \<Rightarrow> nat list" where
  "select_tail m ms limit [] selected spent = selected"
| "select_tail m ms limit (i # is) selected spent =
     (if int (length selected) \<ge> m_keep m then selected
      else let cost = count_tokens m (stringify_content (jget (ms ! i) ''content'')) in
        if of_int (spent + cost) > limit then selected
        else select_tail m ms limit is (i # selected) (spent + cost))"

definition tail_anchor :: "manager \<Rightarrow> message list \<Rightarrow> nat" where
  "tail_anchor m ms =
     (let idx = filter (\<lambda>i. message_has_tool_result (ms ! i)) [0..<length ms]; n = length ms in
      case (m_tail_budget m, m_limit m) of
        (Some f, Some limit) \<Rightarrow> (case select_tail m ms (of_int limit * f) (rev idx) [] 0 of [] \<Rightarrow> n - 1 | i # is \<Rightarrow> i)
      | _ \<Rightarrow> if int (length idx) \<ge> m_keep m then idx ! (length idx - nat (m_keep m))
             else case idx of i # is \<Rightarrow> i | [] \<Rightarrow> n - 1)"

definition tail_start :: "manager \<Rightarrow> message list \<Rightarrow> nat" where
  "tail_start m ms = (if m_keep m = 0 then length ms
     else expand_to_group_boundary ms (min (tail_anchor m ms - 1) (length ms - 1)))"

definition compaction_note :: "string \<Rightarrow> string \<Rightarrow> nat \<Rightarrow> message" where
  "compaction_note kind content removed =
     [(''role'', JStr ''user''), (''content'', JStr content),
      (''_compaction'', JObj [(''kind'', JStr kind), (''source_message_count'', JInt (int removed))])]"

definition elided_message :: "manager \<Rightarrow> message list \<Rightarrow> nat \<Rightarrow> message" where
  "elided_message m elided removed = compaction_note ''truncated'' (m_placeholder m removed) removed"

text \<open>
  What \<open>compact\<close> decides before it asks for the replacing message: keep the given messages, or drop the
  span between a head and a tail.
\<close>

datatype compaction = Keep "message list" | Cut "message list" "message list" "message list"

definition plan_compaction :: "manager \<Rightarrow> message list \<Rightarrow> compaction" where
  "plan_compaction m ms =
     (let reduced = (case (m_budget m, m_limit m) of (Some b, Some limit) \<Rightarrow> compact_tool_output_to_budget m b limit ms | _ \<Rightarrow> ms) in
      if reduced \<noteq> ms then Keep reduced
      else if length ms \<le> 2 then Keep (truncate_oversized_tool_results m ms)
      else let start = tail_start m ms;
               head_end = (if start > 0 \<and> \<not> message_has_tool_content (ms ! 0) then 1 else 0)
           in if start \<le> head_end then Keep (truncate_oversized_tool_results m ms)
              else Cut (take head_end ms) (drop head_end (take start ms)) (drop start ms))"

definition assemble :: "manager \<Rightarrow> message list \<Rightarrow> message \<Rightarrow> message list \<Rightarrow> message list" where
  "assemble m head note tail = truncate_oversized_tool_results m (head @ [note] @ tail)"

definition compact_messages :: "manager \<Rightarrow> (message list \<Rightarrow> nat \<Rightarrow> message) \<Rightarrow> message list \<Rightarrow> message list" where
  "compact_messages m elide ms = (case plan_compaction m ms of
     Keep xs \<Rightarrow> xs
   | Cut front elided tail \<Rightarrow> assemble m front (elide elided (length elided)) tail)"

definition compact_state :: "manager \<Rightarrow> conversation_state \<Rightarrow> conversation_state" where
  "compact_state m st = st\<lparr>messages := compact_messages m (elided_message m) (messages st)\<rparr>"

definition noop_compact :: "conversation_state \<Rightarrow> conversation_state" where
  "noop_compact st = st"

end
