(* ===== verification/History_Validity.thy ===== *)
theory History_Validity
  imports Context_Manager
begin

text \<open>
  Replay validity of a history, the condition providers impose: a request for tools is answered, in
  order and completely, before anything else follows, and nothing is answered that was not requested.
  The theory shows that compaction keeps it, and states the contract of a context manager as a locale.
\<close>

section \<open>Replay-valid histories\<close>

definition raw_id :: "string \<Rightarrow> string \<Rightarrow> json \<Rightarrow> json option" where
  "raw_id ty key b = (case b of JObj d \<Rightarrow> if jget d ''type'' = JStr ty then Some (jget d key) else None | _ \<Rightarrow> None)"

definition requests :: "message \<Rightarrow> json list" where
  "requests m = List.map_filter (raw_id ''tool_use'' ''id'') (blocks_of m)"

definition replies :: "message \<Rightarrow> json list" where
  "replies m = List.map_filter (raw_id ''tool_result'' ''tool_use_id'') (blocks_of m)"

text \<open>\<open>history pending ms\<close>: the requests still open after \<open>ms\<close>, or \<open>None\<close> for an invalid history.\<close>

fun history :: "json list \<Rightarrow> message list \<Rightarrow> json list option" where
  "history pending [] = Some pending"
| "history pending (m # ms) =
     (if replies m \<noteq> [] then
        if requests m = [] \<and> prefix (replies m) pending then history (drop (length (replies m)) pending) ms else None
      else if pending = [] then history (requests m) ms else None)"

definition all_requests :: "message list \<Rightarrow> json list" where
  "all_requests ms = concat (map requests ms)"

definition all_replies :: "message list \<Rightarrow> json list" where
  "all_replies ms = concat (map replies ms)"

definition wf_history :: "message list \<Rightarrow> bool" where
  "wf_history ms \<longleftrightarrow> history [] ms = Some [] \<and> distinct (all_requests ms) \<and> (\<forall>i \<in> set (all_requests ms). truthy i)"

lemma history_append: "history p (xs @ ys) = Option.bind (history p xs) (\<lambda>q. history q ys)"
  by (induction p xs rule: history.induct) auto

lemma all_requests_simps [simp]:
  "all_requests [] = []" "all_requests (m # ms) = requests m @ all_requests ms" "all_requests (xs @ ys) = all_requests xs @ all_requests ys"
  "all_replies [] = []" "all_replies (m # ms) = replies m @ all_replies ms" "all_replies (xs @ ys) = all_replies xs @ all_replies ys"
  by (simp_all add: all_requests_def all_replies_def)

lemma history_open: "history p ms = Some q \<Longrightarrow> set q \<subseteq> set p \<union> set (all_requests ms)"
proof (induction p ms rule: history.induct)
  case (2 p m ms)
  then show ?case by (auto split: if_splits dest: in_set_dropD)
qed simp

lemma history_answered: "history p ms = Some q \<Longrightarrow> set (all_replies ms) \<subseteq> set p \<union> set (all_requests ms)"
proof (induction p ms rule: history.induct)
  case (2 p m ms)
  then show ?case by (fastforce split: if_splits dest: in_set_dropD set_mono_prefix)
qed simp

lemma history_complete: "history p ms = Some [] \<Longrightarrow> set p \<subseteq> set (all_replies ms)"
proof (induction p ms rule: history.induct)
  case (2 p m ms)
  show ?case
  proof (cases "replies m = []")
    case True
    then show ?thesis using 2(3) by (auto split: if_splits)
  next
    case False
    then have p: "prefix (replies m) p" and "set (drop (length (replies m)) p) \<subseteq> set (all_replies ms)"
      using 2 by (auto split: if_splits)
    moreover have "set p = set (replies m) \<union> set (drop (length (replies m)) p)"
      using p by (auto simp: prefix_def)
    ultimately show ?thesis by auto
  qed
qed simp

text \<open>A message without tool blocks neither needs nor disturbs anything.\<close>

lemma history_plain: "requests m = [] \<Longrightarrow> replies m = [] \<Longrightarrow> history [] (m # ms) = history [] ms"
  by simp

lemma user_plain [simp]: "requests (user_message t) = []" "replies (user_message t) = []"
  by (simp_all add: requests_def replies_def blocks_of_def user_message_def jget_def)

lemma note_plain [simp]: "requests (compaction_note k t n) = []" "replies (compaction_note k t n) = []"
  by (simp_all add: requests_def replies_def blocks_of_def compaction_note_def jget_def)

section \<open>The truncation of results\<close>

lemma map_filter_same:
  "(\<And>x. x \<in> set xs \<Longrightarrow> f (g x) = f x) \<Longrightarrow> List.map_filter f (map g xs) = List.map_filter f xs"
  by (induction xs) (auto simp: List.map_filter_simps split: option.split)

lemma map_filter_update:
  "(f v = f (xs ! i)) \<Longrightarrow> List.map_filter f (xs[i := v]) = List.map_filter f xs"
proof (induction xs arbitrary: i)
  case (Cons x xs)
  then show ?case by (cases i) (auto simp: List.map_filter_simps split: option.split)
qed simp

lemma truncate_block_ids: "key \<notin> {''content'', ''_compaction''} \<Longrightarrow> raw_id ty key (truncate_block m n b) = raw_id ty key b"
  by (cases b) (auto simp: truncate_block_def raw_id_def jget_def Let_def split: option.split)

lemma blocks_dset [simp]: "blocks_of (dset msg ''content'' (JArr bs)) = bs"
  by (simp add: blocks_of_def jget_def)

lemma truncate_message_ids [simp]: "requests (truncate_message m n msg) = requests msg" "replies (truncate_message m n msg) = replies msg"
proof -
  have "blocks_of (truncate_message m n msg) = blocks_of msg \<or> blocks_of (truncate_message m n msg) = map (truncate_block m n) (blocks_of msg)"
    unfolding truncate_message_def blocks_of_def [of msg] by (cases "jget msg ''content''") (simp_all add: blocks_of_def)
  then show "requests (truncate_message m n msg) = requests msg" "replies (truncate_message m n msg) = replies msg"
    by (auto simp: requests_def replies_def map_filter_same truncate_block_ids)
qed

text \<open>Two histories with the same blocks of ids are equally valid.\<close>

lemma same_ids_history:
  "map requests ms = map requests ns \<Longrightarrow> map replies ms = map replies ns \<Longrightarrow> history p ms = history p ns"
proof (induction ms arbitrary: ns p)
  case (Cons m ms)
  then show ?case by (cases ns) auto
qed simp

lemma same_ids_wf:
  assumes "map requests ms = map requests ns" "map replies ms = map replies ns" "wf_history ns"
  shows "wf_history ms"
  using assms same_ids_history [OF assms(1,2)] by (simp add: wf_history_def all_requests_def)

lemma truncate_oversized_ids:
  "map requests (truncate_oversized_tool_results m ms) = map requests ms" "map replies (truncate_oversized_tool_results m ms) = map replies ms"
  by (simp_all add: truncate_oversized_tool_results_def comp_def split: option.split)

lemma map_update_same: "f v = f (xs ! i) \<Longrightarrow> map f (xs[i := v]) = map f xs"
  by (cases "i < length xs") (simp_all add: map_update list_update_same_conv list_update_beyond)

lemma reduce_blocks_ids:
  "map requests (reduce_blocks m n bs r out) = map requests out \<and> map replies (reduce_blocks m n bs r out) = map replies out"
proof (induction m n bs r out rule: reduce_blocks.induct)
  case (2 m n mi bi s rest r out)
  let ?b = "truncate_block m (max 100 (int (length s) - (r - n))) (blocks_of (out ! mi) ! bi)"
  let ?msg = "dset (out ! mi) ''content'' (JArr ((blocks_of (out ! mi))[bi := ?b]))"
  have "requests ?msg = requests (out ! mi)" "replies ?msg = replies (out ! mi)"
    by (simp_all add: requests_def replies_def map_filter_update truncate_block_ids)
  then have "map requests (out[mi := ?msg]) = map requests out" "map replies (out[mi := ?msg]) = map replies out"
    by (simp_all add: map_update_same)
  then show ?case using 2 by (auto simp: Let_def)
qed simp

lemma tool_output_ids:
  "map requests (compact_tool_output_to_budget m b l ms) = map requests ms \<and> map replies (compact_tool_output_to_budget m b l ms) = map replies ms"
  by (simp add: compact_tool_output_to_budget_def Let_def reduce_blocks_ids)

section \<open>The boundary of the tail\<close>

text \<open>A cut is closed when every result in the tail has its request in the tail.\<close>

definition closed_cut :: "message list \<Rightarrow> nat \<Rightarrow> bool" where
  "closed_cut ms n \<longleftrightarrow> set (concat (map message_tool_result_ids (drop n ms))) \<subseteq> set (concat (map message_tool_use_ids (drop n ms)))"

lemma walk_back_correct:
  assumes "set needed = set (concat (map message_tool_result_ids (drop n ms)))"
    "set provided = set (concat (map message_tool_use_ids (drop n ms)))" "n \<le> length ms"
  shows "walk_back ms n needed provided \<le> n
    \<and> (walk_back ms n needed provided = 0 \<or> closed_cut ms (walk_back ms n needed provided))
    \<and> (\<forall>k. walk_back ms n needed provided < k \<and> k \<le> n \<longrightarrow> \<not> closed_cut ms k)"
  using assms
proof (induction ms n needed provided rule: walk_back.induct)
  case (2 ms n needed provided)
  have closed: "closed_cut ms (Suc n) \<longleftrightarrow> set needed \<subseteq> set provided" using 2(2,3) by (simp add: closed_cut_def)
  show ?case
  proof (cases "set needed \<subseteq> set provided")
    case True
    then have "walk_back ms (Suc n) needed provided = Suc n" by simp
    then show ?thesis using closed True by auto
  next
    case False
    have "drop n ms = ms ! n # drop (Suc n) ms" using 2(4) by (simp add: Cons_nth_drop_Suc)
    then have IH: "walk_back ms n (message_tool_result_ids (ms ! n) @ needed) (message_tool_use_ids (ms ! n) @ provided) \<le> n
        \<and> (walk_back ms n (message_tool_result_ids (ms ! n) @ needed) (message_tool_use_ids (ms ! n) @ provided) = 0
           \<or> closed_cut ms (walk_back ms n (message_tool_result_ids (ms ! n) @ needed) (message_tool_use_ids (ms ! n) @ provided)))
        \<and> (\<forall>k. walk_back ms n (message_tool_result_ids (ms ! n) @ needed) (message_tool_use_ids (ms ! n) @ provided) < k \<and> k \<le> n \<longrightarrow> \<not> closed_cut ms k)"
      using 2(1) [OF False] 2(2-4) by simp
    then show ?thesis using False closed by (auto simp: le_Suc_eq)
  qed
qed simp

lemma boundary_correct:
  assumes "start \<le> length ms"
  shows "expand_to_group_boundary ms start \<le> start
    \<and> (expand_to_group_boundary ms start = 0 \<or> closed_cut ms (expand_to_group_boundary ms start))
    \<and> (\<forall>k. expand_to_group_boundary ms start < k \<and> k \<le> start \<longrightarrow> \<not> closed_cut ms k)"
  unfolding expand_to_group_boundary_def by (rule walk_back_correct) (simp_all add: assms)

text \<open>On a well-formed history the code sees exactly the ids that are there.\<close>

lemma truthy_ids: "(\<forall>i \<in> set (List.map_filter (raw_id ty key) bs). truthy i) \<Longrightarrow> List.map_filter (block_id ty key) bs = List.map_filter (raw_id ty key) bs"
proof (induction bs)
  case (Cons b bs)
  then show ?case by (cases b) (auto simp: List.map_filter_simps block_id_def raw_id_def split: if_splits)
qed (simp add: List.map_filter_simps)

lemma wf_ids:
  assumes "wf_history ms" "m \<in> set ms"
  shows "message_tool_use_ids m = requests m" "message_tool_result_ids m = replies m"
proof -
  have "set (all_replies ms) \<subseteq> set (all_requests ms)" using history_answered assms(1) by (fastforce simp: wf_history_def)
  then have "\<forall>i \<in> set (requests m) \<union> set (replies m). truthy i"
    using assms by (auto simp: wf_history_def all_requests_def all_replies_def)
  then show "message_tool_use_ids m = requests m" "message_tool_result_ids m = replies m"
    by (simp_all add: message_tool_use_ids_def message_tool_result_ids_def requests_def replies_def truthy_ids)
qed

lemma wf_concat_ids:
  assumes "wf_history ms" "set xs \<subseteq> set ms"
  shows "concat (map message_tool_use_ids xs) = all_requests xs" "concat (map message_tool_result_ids xs) = all_replies xs"
proof -
  have "map message_tool_use_ids xs = map requests xs" "map message_tool_result_ids xs = map replies xs"
    using wf_ids [OF assms(1)] assms(2) by (auto intro: map_cong)
  then show "concat (map message_tool_use_ids xs) = all_requests xs" "concat (map message_tool_result_ids xs) = all_replies xs"
    by (simp_all only: all_requests_def all_replies_def)
qed

lemma closed_cut_splits:
  assumes "wf_history ms" "closed_cut ms n"
  shows "history [] (take n ms) = Some [] \<and> history [] (drop n ms) = Some []"
proof -
  have "history [] (take n ms @ drop n ms) = Some []" using assms(1) by (simp add: wf_history_def)
  then obtain q where q: "history [] (take n ms) = Some q" "history q (drop n ms) = Some []"
    unfolding history_append by (auto simp: bind_eq_Some_conv)
  have "all_requests ms = all_requests (take n ms) @ all_requests (drop n ms)"
    by (metis all_requests_simps(3) append_take_drop_id)
  then have apart: "set (all_requests (take n ms)) \<inter> set (all_requests (drop n ms)) = {}"
    using assms(1) by (metis distinct_append wf_history_def)
  have "set q \<subseteq> set (all_requests (take n ms))" using history_open [OF q(1)] by simp
  moreover have "set q \<subseteq> set (all_replies (drop n ms))" by (rule history_complete [OF q(2)])
  moreover have "set (all_replies (drop n ms)) \<subseteq> set (all_requests (drop n ms))"
    using assms(2) wf_concat_ids [OF assms(1) set_drop_subset] by (simp add: closed_cut_def)
  ultimately have "q = []" using apart by (metis Int_subset_iff set_empty subset_empty subset_trans)
  then show ?thesis using q by simp
qed

section \<open>Compaction keeps histories valid\<close>

lemma wf_drop: "wf_history ms \<Longrightarrow> closed_cut ms n \<Longrightarrow> wf_history (drop n ms)"
proof -
  assume a: "wf_history ms" "closed_cut ms n"
  have "all_requests ms = all_requests (take n ms) @ all_requests (drop n ms)"
    by (metis all_requests_simps(3) append_take_drop_id)
  then show ?thesis using closed_cut_splits [OF a] a(1) by (auto simp: wf_history_def)
qed

lemma wf_Cons_plain: "requests m = [] \<Longrightarrow> replies m = [] \<Longrightarrow> wf_history (m # ms) = wf_history ms"
  by (simp add: wf_history_def)

lemma tail_start_correct:
  assumes "wf_history ms" "0 < tail_start m ms" "ms \<noteq> []"
  shows "closed_cut ms (tail_start m ms) \<and> tail_start m ms \<le> length ms"
proof (cases "m_keep m = 0")
  case True
  then show ?thesis by (simp add: tail_start_def closed_cut_def)
next
  case False
  let ?start = "min (tail_anchor m ms - 1) (length ms - 1)"
  have "?start \<le> length ms" by simp
  from boundary_correct [OF this] show ?thesis
    using False assms(2) le_trans [OF _ \<open>?start \<le> length ms\<close>] by (simp only: tail_start_def if_False) auto
qed

lemma plan_compaction_valid:
  assumes "wf_history ms"
  shows "case plan_compaction m ms of
      Keep xs \<Rightarrow> wf_history xs
    | Cut front elided tail \<Rightarrow> wf_history tail \<and> (\<forall>x \<in> set front. requests x = [] \<and> replies x = []) \<and> elided \<noteq> []"
proof -
  let ?start = "tail_start m ms"
  define reduced where "reduced = (case (m_budget m, m_limit m) of
      (Some b, Some limit) \<Rightarrow> compact_tool_output_to_budget m b limit ms | _ \<Rightarrow> ms)"
  have "wf_history reduced"
    using assms tool_output_ids same_ids_wf by (auto simp: reduced_def split: option.split)
  moreover have "wf_history (truncate_oversized_tool_results m ms)"
    using same_ids_wf [OF truncate_oversized_ids] assms by blast
  moreover have "wf_history (drop ?start ms) \<and> (\<forall>x \<in> set (take h ms). requests x = [] \<and> replies x = []) \<and> drop h (take ?start ms) \<noteq> []"
    if h: "h = (if ?start > 0 \<and> \<not> message_has_tool_content (ms ! 0) then 1 else 0)" "h < ?start" "ms \<noteq> []" for h :: nat
  proof -
    have start: "0 < ?start" using h(2) by simp
    have cut: "closed_cut ms ?start" "?start \<le> length ms" using tail_start_correct [OF assms start h(3)] by blast+
    have "requests x = [] \<and> replies x = []" if "x \<in> set (take h ms)" for x
    proof -
      have "\<not> message_has_tool_content (ms ! 0)" "x = ms ! 0"
        using that h(1,3) by (auto simp: take_Suc hd_conv_nth split: if_splits)
      then show ?thesis using wf_ids [OF assms, of x] h(3) by (auto simp: message_has_tool_content_def)
    qed
    moreover have "drop h (take ?start ms) \<noteq> []" using h(2) cut(2) by simp
    ultimately show ?thesis using wf_drop [OF assms cut(1)] by blast
  qed
  ultimately show ?thesis
    unfolding plan_compaction_def Let_def reduced_def [symmetric] by (cases "ms = []") (auto split: if_splits)
qed

lemma assemble_valid:
  assumes "wf_history tail" "\<forall>x \<in> set front. requests x = [] \<and> replies x = []" "requests note = []" "replies note = []"
  shows "wf_history (assemble m front note tail)"
proof -
  have "wf_history (front @ [note] @ tail)"
    using assms by (induction front) (simp_all add: wf_Cons_plain)
  then show ?thesis unfolding assemble_def using same_ids_wf [OF truncate_oversized_ids] by blast
qed

lemma compact_messages_valid:
  assumes "wf_history ms" "\<And>xs n. requests (elide xs n) = [] \<and> replies (elide xs n) = []"
  shows "wf_history (compact_messages m elide ms)"
  using plan_compaction_valid [OF assms(1), of m] assms(2) assemble_valid
  by (auto simp: compact_messages_def split: compaction.splits)

end
