(* ===== verification/Context_Summary.thy ===== *)
theory Context_Summary
  imports History_Validity
begin

text \<open>
  Summaries in place of elided messages (\<open>context/manager.py\<close>) and the caching token counter
  (\<open>context/tokens.py\<close>). A \<open>StructuredSummary\<close> is the list of its five fields in the order of
  \<open>_FIELDS\<close>. The Vietnamese instructions and labels, the model call, the removal of markdown fences and the
  digest of the cache are arguments. The summary object that \<open>compact\<close> puts under \<open>structured_summary\<close> into
  the metadata is an argument and a result of its own, since it is not a JSON value.
\<close>

section \<open>Structured summaries\<close>

type_synonym structured_summary = "string list list"

definition summary_fields :: "string list" where
  "summary_fields = [''goal'', ''decisions'', ''files_touched'', ''errors_encountered'', ''open_questions'']"

definition empty_summary :: structured_summary where
  "empty_summary = map (\<lambda>_. []) summary_fields"

definition dedup :: "'a list \<Rightarrow> 'a list" where
  "dedup xs = rev (remdups (rev xs))"

definition merged :: "structured_summary \<Rightarrow> structured_summary \<Rightarrow> structured_summary" where
  "merged old newer = map (\<lambda>(a, b). dedup (a @ b)) (zip old newer)"

definition str_items :: "json \<Rightarrow> string list option" where
  "str_items v = (case v of JArr xs \<Rightarrow> if list_all is_str xs then Some (map py_str xs) else None | _ \<Rightarrow> None)"

definition summary_from_value :: "json \<Rightarrow> structured_summary option" where
  "summary_from_value v = (case v of
     JObj d \<Rightarrow>
       (let items = map (\<lambda>name. case dget d name of None \<Rightarrow> Some [] | Some x \<Rightarrow> str_items x) summary_fields in
        if None \<in> set items then None else Some (map the items))
   | _ \<Rightarrow> None)"

record summary_texts =
  txt_title :: string
  txt_labels :: "string list"
  txt_none :: string

definition summary_prompt :: "summary_texts \<Rightarrow> structured_summary \<Rightarrow> string" where
  "summary_prompt tx s = txt_title tx @ [LF] @ py_join [LF]
     (map (\<lambda>(label, items). label @ '': '' @ (if py_join ''; '' items \<noteq> [] then py_join ''; '' items else txt_none tx)) (zip (txt_labels tx) s))"

fun longest :: "'a list list \<Rightarrow> nat" where
  "longest [] = 0"
| "longest (v # vs) = (if list_all (\<lambda>u. length u \<le> length v) vs then 0 else Suc (longest vs))"

lemma longest_bound: "vs \<noteq> [] \<Longrightarrow> longest vs < length vs"
proof (induction vs)
  case (Cons v vs)
  then show ?case by (cases "vs = []") auto
qed simp

lemma longest_max: "v \<in> set vs \<Longrightarrow> length v \<le> length (vs ! longest vs)"
proof (induction vs arbitrary: v)
  case (Cons u us)
  show ?case
  proof (cases "list_all (\<lambda>x. length x \<le> length u) us")
    case True
    then show ?thesis using Cons.prems by (auto simp: list_all_iff)
  next
    case False
    then obtain x where "x \<in> set us" "length u < length x" by (auto simp: list_all_iff)
    then have "length u \<le> length (us ! longest us)" using Cons.IH [of x] by simp
    moreover have "v \<in> set us \<Longrightarrow> length v \<le> length (us ! longest us)" by (rule Cons.IH)
    ultimately show ?thesis using False Cons.prems by auto
  qed
qed simp

lemma sum_lengths_update:
  "i < length vs \<Longrightarrow> vs ! i \<noteq> [] \<Longrightarrow> sum_list (map length (vs[i := tl (vs ! i)])) < sum_list (map length vs)"
proof (induction vs arbitrary: i)
  case (Cons v vs)
  then show ?case by (cases i) auto
qed simp

function limit_fields :: "(structured_summary \<Rightarrow> nat) \<Rightarrow> nat \<Rightarrow> structured_summary \<Rightarrow> structured_summary" where
  "limit_fields size_of bound vs =
     (if size_of vs \<le> bound \<or> list_all (\<lambda>v. v = []) vs then vs
      else limit_fields size_of bound (vs[longest vs := tl (vs ! longest vs)]))"
  by auto
termination
proof (relation "measure (\<lambda>(f, b, vs). sum_list (map length vs))", simp)
  fix size_of :: "structured_summary \<Rightarrow> nat" and bound :: nat and vs :: structured_summary
  assume "\<not> (size_of vs \<le> bound \<or> list_all (\<lambda>v. v = []) vs)"
  then obtain v where v: "v \<in> set vs" "v \<noteq> []" by (auto simp: list_all_iff)
  then have "longest vs < length vs" "vs ! longest vs \<noteq> []"
    using longest_bound [of vs] longest_max [OF v(1)] by fastforce+
  then show "((size_of, bound, vs[longest vs := tl (vs ! longest vs)]), size_of, bound, vs) \<in> measure (\<lambda>(f, b, vs). sum_list (map length vs))"
    by (simp add: sum_lengths_update)
qed

declare limit_fields.simps [simp del]

definition limited :: "summary_texts \<Rightarrow> nat \<Rightarrow> nat \<Rightarrow> structured_summary \<Rightarrow> structured_summary" where
  "limited tx max_chars max_items s = limit_fields (\<lambda>vs. length (summary_prompt tx vs)) max_chars (map (slice_last max_items) s)"

section \<open>The progressive summarizer\<close>

record 'w progressive =
  pg_max_input :: int
  pg_marker :: "int \<Rightarrow> string"
  pg_body :: "string \<Rightarrow> string \<Rightarrow> string"
  pg_unfence :: "string \<Rightarrow> string"
  pg_float :: float_conv
  pg_chat :: "string \<Rightarrow> 'w \<Rightarrow> json result \<times> 'w"

definition bounded_message :: "(int \<Rightarrow> string) \<Rightarrow> message \<Rightarrow> message" where
  "bounded_message marker msg =
     (let content = stringify_content (jget msg ''content'')
      in dset msg ''content'' (JStr (if length content > 2000 then head_tail marker content 2000 else content)))"

definition message_size :: "message \<Rightarrow> int" where
  "message_size msg = int (length (json_dumps_utf8 (JObj msg)))"

fun group_messages :: "int \<Rightarrow> message list \<Rightarrow> int \<Rightarrow> message list \<Rightarrow> message list list" where
  "group_messages limit batch fill [] = (if batch \<noteq> [] then [batch] else [])"
| "group_messages limit batch fill (m # ms) =
     (if batch \<noteq> [] \<and> fill + message_size m > limit
      then batch # group_messages limit [m] (message_size m) ms
      else group_messages limit (batch @ [m]) (fill + message_size m) ms)"

definition batch_limit :: "int \<Rightarrow> int" where
  "batch_limit max_input = max 1 (min (max_input - 8000) 20000)"

definition batches :: "'w progressive \<Rightarrow> message list \<Rightarrow> message list list" where
  "batches p ms = group_messages (batch_limit (pg_max_input p)) [] 0 (map (bounded_message (pg_marker p)) ms)"

definition parse_summary :: "'w progressive \<Rightarrow> json \<Rightarrow> structured_summary option" where
  "parse_summary p content = (case content of
     JStr s \<Rightarrow> (case dropWhile (\<lambda>ch. ch \<noteq> CHR ''{'') (py_strip (pg_unfence p s)) of
        [] \<Rightarrow> None
      | rest \<Rightarrow> Option.bind (raw_decode (pg_float p) rest) summary_from_value)
   | _ \<Rightarrow> None)"

definition summary_json :: "structured_summary \<Rightarrow> json" where
  "summary_json s = JObj (zip summary_fields (map (\<lambda>items. JArr (map JStr items)) s))"

fun summarize_batches :: "'w progressive \<Rightarrow> message list list \<Rightarrow> structured_summary \<Rightarrow> 'w \<Rightarrow> structured_summary result \<times> 'w" where
  "summarize_batches p [] acc w = (Inr acc, w)"
| "summarize_batches p (b # bs) acc w =
     (case pg_chat p (pg_body p (json_dumps_utf8 (summary_json acc)) (json_dumps_utf8 (JArr (map JObj b)))) w of
        (Inl e, w') \<Rightarrow> (Inl e, w')
      | (Inr content, w') \<Rightarrow> (case parse_summary p content of
           None \<Rightarrow> (Inl (Exn ''ValueError'' ''progressive summarizer returned invalid JSON schema''), w')
         | Some s \<Rightarrow> summarize_batches p bs (merged acc s) w'))"

definition progressive_summarize :: "'w progressive \<Rightarrow> message list \<Rightarrow> structured_summary option \<Rightarrow> 'w \<Rightarrow> structured_summary result \<times> 'w" where
  "progressive_summarize p elided previous w =
     summarize_batches p (batches p elided) (case previous of Some s \<Rightarrow> s | None \<Rightarrow> empty_summary) w"

definition progressive_init :: "int \<Rightarrow> 'w progressive \<Rightarrow> 'w progressive result" where
  "progressive_init max_tokens p =
     (if max_tokens < 1 then value_error ''max_tokens must be >= 1''
      else if pg_max_input p < 1 then value_error ''max_input_chars must be >= 1''
      else Inr p)"

definition llm_summarizer_init :: "int \<Rightarrow> 'a \<Rightarrow> 'a result" where
  "llm_summarizer_init max_tokens client = (if max_tokens < 1 then value_error ''max_tokens must be >= 1'' else Inr client)"

definition llm_summarize :: "(string \<Rightarrow> string) \<Rightarrow> (string \<Rightarrow> 'w \<Rightarrow> string option result \<times> 'w) \<Rightarrow> message list \<Rightarrow> 'w \<Rightarrow> json result \<times> 'w" where
  "llm_summarize body chat ms w = (case chat (body (json_dumps_utf8 (JArr (map JObj ms)))) w of
     (Inl e, w') \<Rightarrow> (Inl e, w')
   | (Inr content, w') \<Rightarrow> (Inr (JStr (py_strip (case content of Some s \<Rightarrow> s | None \<Rightarrow> []))), w'))"

section \<open>The summarizing manager\<close>

datatype 'w summarizer = Plain "message list \<Rightarrow> 'w \<Rightarrow> json result \<times> 'w" | Progressive "'w progressive"

record 'w summarizing =
  sm_base :: manager
  sm_summarizer :: "'w summarizer option"
  sm_max_summary :: nat
  sm_max_structured :: nat
  sm_max_items :: nat
  sm_template :: "nat \<Rightarrow> string \<Rightarrow> string"
  sm_ellipsis :: string
  sm_texts :: summary_texts
  sm_scrub :: "message \<Rightarrow> message"
  sm_emit :: "string \<Rightarrow> obj \<Rightarrow> 'w \<Rightarrow> 'w"
  sm_redact :: "string \<Rightarrow> string"

definition summarizing_init :: "'w summarizing \<Rightarrow> int \<Rightarrow> int \<Rightarrow> int \<Rightarrow> bool \<Rightarrow> 'w summarizing result" where
  "summarizing_init s max_summary max_structured max_items both =
     bind_res (manager_init (sm_base s)) (\<lambda>b.
       if both then value_error ''pass either `summarizer` or `summarizer_client`, not both''
       else if max_summary < 1 then value_error ''max_summary_chars must be >= 1''
       else if max_structured < 1 then value_error ''max_structured_chars must be >= 1''
       else if max_items < 1 then value_error ''max_items_per_field must be >= 1''
       else Inr (s\<lparr>sm_base := b, sm_max_summary := nat max_summary, sm_max_structured := nat max_structured, sm_max_items := nat max_items\<rparr>))"

text \<open>\<open>" ".join(s.split())\<close>.\<close>

fun words_from :: "string \<Rightarrow> string \<Rightarrow> string list" where
  "words_from cur [] = (if cur = [] then [] else [cur])"
| "words_from cur (c # cs) = (if is_space c then (if cur = [] then words_from [] cs else cur # words_from [] cs) else words_from (cur @ [c]) cs)"

definition emit_failure :: "'w summarizing \<Rightarrow> string \<Rightarrow> nat \<Rightarrow> exn option \<Rightarrow> 'w \<Rightarrow> 'w" where
  "emit_failure s why n e w = sm_emit s ''context.summarization_failed''
     ([(''manager'', JStr ''SummarizingContextManager''), (''reason'', JStr why), (''elided_messages'', JInt (int n))]
      @ (case e of Some x \<Rightarrow> [(''error'', JStr (sm_redact s (exn_text x)))] | None \<Rightarrow> [])) w"

definition clip_summary :: "'w summarizing \<Rightarrow> string \<Rightarrow> string" where
  "clip_summary s x = (if length x > sm_max_summary s then rstrip_by is_space (take (sm_max_summary s) x) @ sm_ellipsis s else x)"

definition summarize_span :: "'w summarizing \<Rightarrow> structured_summary option \<Rightarrow> message list \<Rightarrow> 'w
    \<Rightarrow> (string \<times> structured_summary option) \<times> 'w" where
  "summarize_span s previous ms w = (case sm_summarizer s of
     None \<Rightarrow> (([], None), w)
   | Some (Progressive p) \<Rightarrow>
       (case progressive_summarize p (map (sm_scrub s) ms) previous w of
          (Inl e, w1) \<Rightarrow> (([], None), emit_failure s ''exception'' (length ms) (Some e) w1)
        | (Inr x, w1) \<Rightarrow>
            (let res = limited (sm_texts s) (sm_max_structured s) (sm_max_items s) x; prompt = summary_prompt (sm_texts s) res in
             if prompt = [] then (([], Some res), emit_failure s ''empty_summary'' (length ms) None w1) else ((prompt, Some res), w1)))
   | Some (Plain f) \<Rightarrow>
       (case f (map (sm_scrub s) ms) w of
          (Inl e, w1) \<Rightarrow> (([], None), emit_failure s ''exception'' (length ms) (Some e) w1)
        | (Inr (JStr x), w1) \<Rightarrow>
            (let flat = py_join '' '' (words_from [] x) in
             if flat = [] then (([], None), emit_failure s ''empty_summary'' (length ms) None w1) else ((clip_summary s flat, None), w1))
        | (Inr _, w1) \<Rightarrow> (([], None), emit_failure s ''non_string_summary'' (length ms) None w1)))"

definition summary_message :: "'w summarizing \<Rightarrow> string \<Rightarrow> message list \<Rightarrow> nat \<Rightarrow> message" where
  "summary_message s summary elided removed = (if summary = [] then elided_message (sm_base s) elided removed
     else compaction_note ''summary'' (sm_template s removed summary) removed)"

text \<open>The result also carries the structured summary to put into the metadata, if there is a new one.\<close>

definition summarizing_compact :: "'w summarizing \<Rightarrow> structured_summary option \<Rightarrow> conversation_state \<Rightarrow> 'w
    \<Rightarrow> (conversation_state \<times> structured_summary option) \<times> 'w" where
  "summarizing_compact s previous st w = (case plan_compaction (sm_base s) (messages st) of
     Keep xs \<Rightarrow> ((st\<lparr>messages := xs\<rparr>, None), w)
   | Cut front elided tail \<Rightarrow> (case summarize_span s previous elided w of ((summary, res), w1) \<Rightarrow>
       ((st\<lparr>messages := assemble (sm_base s) front (summary_message s summary elided (length elided)) tail\<rparr>, res), w1)))"

section \<open>The caching token counter\<close>

record token_counter =
  tc_digest :: "string \<Rightarrow> string"
  tc_provider :: "string \<Rightarrow> json result"
  tc_fallback :: "string \<Rightarrow> int"
  tc_max_entries :: int

definition token_counter_init :: "token_counter \<Rightarrow> token_counter result" where
  "token_counter_init t = (if tc_max_entries t < 1 then value_error ''max_cache_entries must be >= 1'' else Inr t)"

definition fresh_count :: "token_counter \<Rightarrow> string \<Rightarrow> int" where
  "fresh_count t s = max 1 (case tc_provider t s of
     Inr v \<Rightarrow> (case as_int v of Some n \<Rightarrow> if n < 0 then tc_fallback t s else n | None \<Rightarrow> tc_fallback t s)
   | Inl e \<Rightarrow> tc_fallback t s)"

definition cached_count :: "token_counter \<Rightarrow> string \<Rightarrow> (string, int) dict \<Rightarrow> int \<times> (string, int) dict" where
  "cached_count t s cache =
     (let key = tc_digest t s in
      case dget cache key of
        Some n \<Rightarrow> (n, dpop cache key @ [(key, n)])
      | None \<Rightarrow>
          (let n = fresh_count t s; cache' = cache @ [(key, n)]
           in (n, if int (length cache') > tc_max_entries t then drop 1 cache' else cache')))"

section \<open>The contract of a context manager\<close>

locale context_manager =
  fixes compact :: "conversation_state \<Rightarrow> 'w \<Rightarrow> conversation_state result \<times> 'w"
  assumes compact_wf: "wf_history (messages st) \<Longrightarrow> compact st w = (Inr st', w') \<Longrightarrow> wf_history (messages st')"
    and compact_cap: "compact st w = (Inr st', w') \<Longrightarrow> max_messages st' = max_messages st"
begin

lemma compact_keeps:
  "wf_history (messages st) \<and> max_messages st = None \<Longrightarrow> compact st w = (Inr st', w') \<Longrightarrow> wf_history (messages st') \<and> max_messages st' = None"
  using compact_wf compact_cap by metis

end

lemma summarizing_valid:
  assumes "wf_history (messages st)"
  shows "wf_history (messages (fst (fst (summarizing_compact s prev st w))))"
proof -
  have "requests (summary_message s x e n) = [] \<and> replies (summary_message s x e n) = []" for x e n
    by (simp add: summary_message_def elided_message_def)
  then show ?thesis
    using plan_compaction_valid [OF assms, of "sm_base s"] assemble_valid
    by (auto simp: summarizing_compact_def split: compaction.splits prod.split)
qed

interpretation noop: context_manager "\<lambda>st w. (Inr (noop_compact st), w)"
  by unfold_locales (auto simp: noop_compact_def)

interpretation truncating: context_manager "\<lambda>st w. (Inr (compact_state m st), w)"
  by unfold_locales (auto simp: compact_state_def elided_message_def intro!: compact_messages_valid)

interpretation summarising: context_manager "\<lambda>st w. (Inr (fst (fst (summarizing_compact s prev st w))), snd (summarizing_compact s prev st w))"
proof
  fix st st' :: conversation_state and w w' :: 'a
  assume eq: "(Inr (fst (fst (summarizing_compact s prev st w))), snd (summarizing_compact s prev st w)) = (Inr st', w')"
  show "wf_history (messages st')" if "wf_history (messages st)" using eq summarizing_valid [OF that] by auto
  show "max_messages st' = max_messages st" using eq by (auto simp: summarizing_compact_def split: compaction.splits prod.splits)
qed

text \<open>
  C7: compaction never breaks a history: if every request for tools was answered completely and in
  order, and the ids are distinct and non-empty, the same holds after truncation and after
  summarisation, for every setting, token counter and summarizer.
\<close>

theorem compaction_keeps_history_valid:
  assumes "wf_history (messages st)"
  shows "wf_history (messages (compact_state m st)) \<and> wf_history (messages (fst (fst (summarizing_compact s prev st w))))"
  by (rule conjI [OF truncating.compact_wf [OF assms refl] summarising.compact_wf [OF assms refl]])

text \<open>
  the tail kept by a compaction begins at the last point before the anchor where no result is
  separated from its request; only if there is none is nothing cut.
\<close>

theorem group_boundary_exact:
  assumes "start \<le> length ms"
  shows "expand_to_group_boundary ms start = Max (insert 0 {k. k \<le> start \<and> closed_cut ms k})"
proof -
  let ?b = "expand_to_group_boundary ms start" and ?S = "insert 0 {k. k \<le> start \<and> closed_cut ms k}"
  have fin: "finite ?S" by simp
  have b: "?b \<le> start" "?b = 0 \<or> closed_cut ms ?b" "\<And>k. ?b < k \<Longrightarrow> k \<le> start \<Longrightarrow> \<not> closed_cut ms k"
    using boundary_correct [OF assms] by blast+
  show ?thesis
  proof (rule Max_eqI [symmetric])
    show "finite ?S" by (rule fin)
    show "k \<le> ?b" if "k \<in> ?S" for k using that b(3) [of k] by (auto simp: not_less [symmetric])
    show "?b \<in> ?S" using b(1,2) by blast
  qed
qed

definition sample_history :: "message list" where
  "sample_history =
     [user_message ''go'',
      assistant_message (JArr [JObj [(''type'', JStr ''tool_use''), (''id'', JStr ''a'')], JObj [(''type'', JStr ''tool_use''), (''id'', JStr ''b'')]]),
      tool_result_message ''a'' (JStr ''1'') False, tool_result_message ''b'' (JStr ''2'') False, user_message ''next'']"

definition sample_manager :: manager where
  "sample_manager = \<lparr>m_keep = 1, m_threshold = 8 / 10, m_chars_per_token = 4, m_token_counter = None, m_max_chars = None, m_budget = None,
     m_patterns = None, m_tail_budget = None, m_limit = None, m_placeholder = (\<lambda>n. str_of_nat n), m_marker = (\<lambda>n. ''...'')\<rparr>"

lemma sample_history_wf: "wf_history sample_history"
  by code_simp

theorem compaction_keeps_history_valid_witness:
  "wf_history sample_history \<and> wf_history (messages (compact_state sample_manager (empty_state\<lparr>messages := sample_history\<rparr>)))"
proof -
  have "wf_history (messages (empty_state\<lparr>messages := sample_history\<rparr>))" using sample_history_wf by simp
  from conjunct1 [OF compaction_keeps_history_valid [OF this, of sample_manager]] sample_history_wf show ?thesis by (rule conjI [rotated])
qed

theorem group_boundary_exact_witness:
  "expand_to_group_boundary sample_history 3 = Max (insert 0 {k. k \<le> 3 \<and> closed_cut sample_history k}) \<and> expand_to_group_boundary sample_history 3 = 1"
proof -
  have "3 \<le> length sample_history" "expand_to_group_boundary sample_history 3 = 1" by code_simp+
  with group_boundary_exact [of 3 sample_history] show ?thesis by simp
qed

section \<open>Summaries keep what matters\<close>

lemma set_dedup [simp]: "set (dedup xs) = set xs" "distinct (dedup xs)"
  by (simp_all add: dedup_def)

lemma merged_length: "length old = length newer \<Longrightarrow> length (merged old newer) = length old"
  by (simp add: merged_def)

lemma merged_nth: "i < length old \<Longrightarrow> length old = length newer \<Longrightarrow> merged old newer ! i = dedup (old ! i @ newer ! i)"
  by (simp add: merged_def)

lemma summary_from_value_length: "summary_from_value v = Some s \<Longrightarrow> length s = length summary_fields"
  by (auto simp: summary_from_value_def Let_def split: json.splits if_splits)

lemma summarize_batches_keeps:
  assumes "summarize_batches p bs acc w = (Inr s, w')" "length acc = length summary_fields"
  shows "length s = length summary_fields \<and> (\<forall>i < length summary_fields. set (acc ! i) \<subseteq> set (s ! i))"
  using assms
proof (induction p bs acc w rule: summarize_batches.induct)
  case (2 p b bs acc w)
  obtain content w1 x where step: "pg_chat p (pg_body p (json_dumps_utf8 (summary_json acc)) (json_dumps_utf8 (JArr (map JObj b)))) w = (Inr content, w1)"
    "parse_summary p content = Some x" "summarize_batches p bs (merged acc x) w1 = (Inr s, w')"
    using 2(2) by (auto split: prod.splits sum.splits option.splits)
  have x: "length x = length summary_fields"
    using step(2) summary_from_value_length by (auto simp: parse_summary_def bind_eq_Some_conv split: json.splits list.splits)
  have IH: "length s = length summary_fields \<and> (\<forall>i < length summary_fields. set (merged acc x ! i) \<subseteq> set (s ! i))"
    using 2(1) [OF step(1) [symmetric] refl step(2,3)] x 2(3) merged_length by simp
  then show ?case using x 2(3) merged_nth [of _ acc x] by fastforce
qed auto

lemma slice_last_suffix: "suffix (slice_last n xs) xs"
  by (simp add: slice_last_def suffix_drop)

lemma limit_fields_suffix:
  "list_all2 suffix (limit_fields f b vs) vs \<and> (f (limit_fields f b vs) \<le> b \<or> list_all (\<lambda>v. v = []) (limit_fields f b vs))"
proof (induction f b vs rule: limit_fields.induct)
  case (1 f b vs)
  show ?case
  proof (cases "f vs \<le> b \<or> list_all (\<lambda>v. v = []) vs")
    case True
    then show ?thesis by (subst (1 2 3) limit_fields.simps) (auto simp: list_all2_refl)
  next
    case False
    let ?vs = "vs[longest vs := tl (vs ! longest vs)]"
    have "list_all2 suffix ?vs vs"
      unfolding list_all2_conv_all_nth
    proof (intro conjI allI impI)
      fix i assume "i < length ?vs"
      then show "suffix (?vs ! i) (vs ! i)" by (cases "i = longest vs") simp_all
    qed simp
    moreover note "1.IH" [OF False]
    ultimately have "list_all2 suffix (limit_fields f b ?vs) vs"
      using list_all2_trans [of suffix suffix suffix] suffix_order.trans by blast
    then show ?thesis using False "1.IH" [OF False] by (subst (1 2 3) limit_fields.simps) auto
  qed
qed

text \<open>
  the progressive summary only grows: every finding of the previous summary is in the new one, under
  the same field; and cutting a summary to its limits always ends, fits the limit unless nothing is left,
  and drops only the oldest findings of each field, whole.
\<close>

theorem progressive_summary_additive:
  assumes "progressive_summarize p elided (Some previous) w = (Inr s, w')" "length previous = length summary_fields"
  shows "(\<forall>i < length summary_fields. set (previous ! i) \<subseteq> set (s ! i))
    \<and> list_all2 suffix (limited tx mc mi s) s
    \<and> (length (summary_prompt tx (limited tx mc mi s)) \<le> mc \<or> list_all (\<lambda>v. v = []) (limited tx mc mi s))"
proof -
  have "list_all2 suffix (map (slice_last mi) s) s"
    by (simp add: list_all2_conv_all_nth slice_last_suffix)
  then have "list_all2 suffix (limited tx mc mi s) s"
    using limit_fields_suffix [of "\<lambda>vs. length (summary_prompt tx vs)" mc "map (slice_last mi) s"]
      list_all2_trans [of suffix suffix suffix] suffix_order.trans unfolding limited_def by blast
  then show ?thesis
    using assms summarize_batches_keeps [of p "batches p elided" previous w s w']
      limit_fields_suffix [of "\<lambda>vs. length (summary_prompt tx vs)" mc "map (slice_last mi) s"]
    by (simp add: progressive_summarize_def limited_def)
qed

definition sample_progressive :: "unit progressive" where
  "sample_progressive = \<lparr>pg_max_input = 60000, pg_marker = (\<lambda>n. []), pg_body = (\<lambda>a b. a @ b), pg_unfence = (\<lambda>s. s), pg_float = (\<lambda>s. (0, s)),
     pg_chat = (\<lambda>b w. (Inr (JStr (''{'' @ [DQ] @ ''goal'' @ [DQ] @ '': ['' @ [DQ] @ ''g'' @ [DQ] @ '']}'')), w))\<rparr>"

theorem progressive_summary_additive_witness:
  "\<exists>s. progressive_summarize sample_progressive [user_message ''x''] (Some [[''old''], [], [], [], []]) () = (Inr s, ()) \<and> set [''old''] \<subseteq> set (s ! 0)"
proof -
  have ok: "case fst (progressive_summarize sample_progressive [user_message ''x''] (Some [[''old''], [], [], [], []]) ()) of Inr s \<Rightarrow> True | Inl e \<Rightarrow> False"
    by code_simp
  then obtain s where s: "progressive_summarize sample_progressive [user_message ''x''] (Some [[''old''], [], [], [], []]) () = (Inr s, ())"
    by (cases "progressive_summarize sample_progressive [user_message ''x''] (Some [[''old''], [], [], [], []]) ()") (auto split: sum.splits)
  have "length [[''old''], [], [], [], []] = length summary_fields" by (simp add: summary_fields_def)
  from progressive_summary_additive [OF s this]
  have "\<forall>i < length summary_fields. set ([[''old''], [], [], [], []] ! i) \<subseteq> set (s ! i)" by blast
  then have "set ([[''old''], [], [], [], []] ! 0) \<subseteq> set (s ! 0)" by (rule allE [of _ 0]) (simp add: summary_fields_def)
  with s show ?thesis by auto
qed

section \<open>Counting with a cache\<close>

fun count_all :: "token_counter \<Rightarrow> string list \<Rightarrow> (string, int) dict \<Rightarrow> int list \<times> (string, int) dict" where
  "count_all t [] cache = ([], cache)"
| "count_all t (s # ss) cache = (case cached_count t s cache of (n, cache') \<Rightarrow>
     (case count_all t ss cache' of (ns, cache'') \<Rightarrow> (n # ns, cache'')))"

definition cache_inv :: "token_counter \<Rightarrow> (string, int) dict \<Rightarrow> bool" where
  "cache_inv t cache \<longleftrightarrow> dwf cache \<and> int (length cache) \<le> tc_max_entries t
     \<and> (\<forall>k n. dget cache k = Some n \<longrightarrow> (\<exists>s. k = tc_digest t s \<and> n = fresh_count t s))"

lemma dget_append: "dget (xs @ ys) k = (case dget xs k of Some v \<Rightarrow> Some v | None \<Rightarrow> dget ys k)"
  by (induction xs) (auto split: option.splits)

lemma dpop_length: "dget d k \<noteq> None \<Longrightarrow> length (dpop d k) < length d"
  unfolding dpop_def by (induction d) (auto simp: less_Suc_eq_le)

lemma cached_count_correct:
  assumes inv: "cache_inv t cache" and digest: "inj (tc_digest t)" and room: "1 \<le> tc_max_entries t"
    and step: "cached_count t s cache = (n, cache')"
  shows "n = fresh_count t s \<and> cache_inv t cache'"
proof (cases "dget cache (tc_digest t s)")
  case (Some m)
  then obtain u where "tc_digest t s = tc_digest t u" "m = fresh_count t u" using inv by (auto simp: cache_inv_def)
  then have m: "m = fresh_count t s" using digest by (simp add: inj_eq)
  have out: "n = m" "cache' = dpop cache (tc_digest t s) @ [(tc_digest t s, m)]" using Some step by (auto simp: cached_count_def Let_def)
  have "dwf cache'" unfolding out
    using inv dwf_dpop [of cache "tc_digest t s"] dhas_dget [of "dpop cache (tc_digest t s)" "tc_digest t s"]
    by (auto simp: dwf_def cache_inv_def dhas_def)
  moreover have "length cache' \<le> length cache" using dpop_length [of cache "tc_digest t s"] Some out by simp
  moreover have "dget cache' k = Some v \<Longrightarrow> dget cache k = Some v" for k v
    using out Some by (auto simp: dget_append split: option.splits if_splits)
  ultimately show ?thesis using inv m out(1) by (auto simp: cache_inv_def)
next
  case None
  let ?new = "cache @ [(tc_digest t s, fresh_count t s)]"
  have out: "n = fresh_count t s" "cache' = (if int (length ?new) > tc_max_entries t then drop 1 ?new else ?new)"
    using None step by (auto simp: cached_count_def Let_def)
  have wf: "dwf ?new" using inv None dhas_dget [of cache "tc_digest t s"] by (auto simp: dwf_def cache_inv_def dhas_def)
  have new: "\<exists>s. k = tc_digest t s \<and> v = fresh_count t s" if "(k, v) \<in> set ?new" for k v
  proof -
    have "dwf cache" using inv by (simp add: cache_inv_def)
    then have "(k, v) \<in> set cache \<Longrightarrow> dget cache k = Some v" by (simp add: dget_def dwf_def map_of_is_SomeI)
    then show ?thesis using that inv by (auto simp: cache_inv_def)
  qed
  have "dwf xs \<Longrightarrow> dwf (drop 1 xs)" for xs :: "(string, int) dict" by (simp add: dwf_def drop_map [symmetric] del: drop_append)
  then have "dwf cache'" using wf unfolding out(2) by (simp del: drop_append)
  moreover have "int (length cache') \<le> tc_max_entries t" using inv out(2) room by (auto simp: cache_inv_def)
  moreover have "\<exists>s. k = tc_digest t s \<and> v = fresh_count t s" if "dget cache' k = Some v" for k v
  proof -
    have "(k, v) \<in> set cache'" using that by (simp add: dget_def map_of_SomeD)
    then show ?thesis using new out(2) by (auto split: if_splits dest: in_set_dropD)
  qed
  ultimately show ?thesis using out(1) by (simp add: cache_inv_def)
qed

text \<open>
  counting tokens through the bounded cache gives, for every sequence of texts, exactly the counts of
  the uncached provider-or-fallback computation, and the cache never exceeds its limit, as long as the digest
  separates texts.
\<close>

theorem token_cache_exact:
  assumes "inj (tc_digest t)" "1 \<le> tc_max_entries t" "count_all t ss [] = (ns, cache)"
  shows "ns = map (fresh_count t) ss \<and> int (length cache) \<le> tc_max_entries t"
proof -
  have "ns = map (fresh_count t) ss \<and> cache_inv t cache" if "cache_inv t cache0" "count_all t ss cache0 = (ns, cache)" for cache0
    using that
  proof (induction ss arbitrary: cache0 ns)
    case (Cons s ss)
    obtain n cache1 where c: "cached_count t s cache0 = (n, cache1)" by force
    obtain ns' where "count_all t ss cache1 = (ns', cache)" "ns = n # ns'" using Cons.prems c by (auto split: prod.splits)
    then show ?case using Cons.IH [of cache1 ns'] cached_count_correct [OF Cons.prems(1) assms(1,2) c] by simp
  qed auto
  from this [of "[]"] have "ns = map (fresh_count t) ss \<and> cache_inv t cache"
    using assms(2,3) by (simp add: cache_inv_def dwf_def)
  then show ?thesis by (simp add: cache_inv_def)
qed

definition sample_counter :: token_counter where
  "sample_counter = \<lparr>tc_digest = (\<lambda>s. s), tc_provider = (\<lambda>s. Inl (Exn ''NotImplementedError'' [])), tc_fallback = (\<lambda>s. estimate_tokens s 4), tc_max_entries = 2\<rparr>"

theorem token_cache_exact_witness:
  "\<exists>ns cache. count_all sample_counter [''abcdefgh'', ''x'', ''y'', ''abcdefgh''] [] = (ns, cache) \<and> ns = [2, 1, 1, 2] \<and> length cache \<le> 2"
proof -
  obtain ns cache where r: "count_all sample_counter [''abcdefgh'', ''x'', ''y'', ''abcdefgh''] [] = (ns, cache)" by force
  have "inj (tc_digest sample_counter)" "1 \<le> tc_max_entries sample_counter" by (simp_all add: sample_counter_def)
  from token_cache_exact [OF this r] r show ?thesis
    by (simp add: sample_counter_def fresh_count_def estimate_tokens_def)
qed

section \<open>Limits of the truncation\<close>

text \<open>
  With at least one salient line the compressed text fits the limit; without one the head-and-tail cut adds
  its marker on top of the limit, so it can be longer than the limit and even than the text itself.
\<close>

lemma compress_within_limit:
  assumes "salient ps (splitlines_keep s) \<noteq> {}"
  shows "length (compress marker ps s limit) \<le> limit"
  using assms by (auto simp: compress_def Let_def)

lemma head_tail_lengthens:
  "length (head_tail (\<lambda>n. ''[... cut ...]'') (replicate 101 CHR ''x'') 100) = 113"
  by (simp add: head_tail_def slice_last_def)

end
