(* ===== verification/Agent_History.thy ===== *)
theory Agent_History
  imports Agent_Run Context_Summary
begin

text \<open>
  The histories an agent persists. Whatever a run does, every conversation state it saves is replay
  valid: each requested call has exactly one result, in order, before the next turn. The collaborators
  that matter are the context manager, through its contract, and the provider, whose ids must be new.
\<close>

section \<open>Histories the agent builds\<close>

lemma append_unbounded: "max_messages st = None \<Longrightarrow> append_message m st = st\<lparr>messages := messages st @ [m]\<rparr>"
  by (simp add: append_message_def enforce_cap_def)

lemma wf_history_snoc_plain:
  "wf_history ms \<Longrightarrow> requests m = [] \<Longrightarrow> replies m = [] \<Longrightarrow> wf_history (ms @ [m])"
  by (simp add: wf_history_def history_append)










section \<open>The invariant of the loop\<close>

definition persisted_ok :: "effect list \<Rightarrow> bool" where
  "persisted_ok lg \<longleftrightarrow> (\<forall>st. Persisted st \<in> set lg \<longrightarrow> wf_history (messages st))"

definition hist_inv :: "'w agent \<Rightarrow> bool" where
  "hist_inv s \<longleftrightarrow> wf_history (messages (a_state s)) \<and> max_messages (a_state s) = None \<and> persisted_ok (a_log s) \<and> tools_keyed (a_tools s)"

lemma persisted_quiet:
  assumes "a_log t = a_log s @ z" "filter loop_effect z = []" "persisted_ok (a_log s)"
  shows "persisted_ok (a_log t)"
proof -
  have "Persisted st \<notin> set z" for st using assms(2) by (induction z) (auto split: if_splits)
  then show ?thesis using assms(1,3) by (auto simp: persisted_ok_def)
qed

lemma hist_quiet: "quiet s t \<Longrightarrow> hist_inv s \<Longrightarrow> hist_inv t"
  by (auto simp: quiet_def tool_step_def core_def hist_inv_def intro: persisted_quiet)

lemma hist_emit: "hist_inv s \<Longrightarrow> hist_inv (emit c ty p s)"
  by (rule hist_quiet [OF quiet_emit])

lemma hist_hooks: "hist_inv s \<Longrightarrow> hist_inv (snd (trigger_hooks c p ctx s))"
  by (rule hist_quiet [OF quiet_hooks])


lemma hist_user: "hist_inv s \<Longrightarrow> hist_inv (add_user m s)"
  by (simp add: hist_inv_def add_user_def add_user_message_def append_unbounded wf_history_snoc_plain)

lemmas hist_rules = hist_emit hist_hooks hist_user




















lemma hooks_state [simp]: "a_state (snd (trigger_hooks c p ctx s)) = a_state s"
  by (rule quiet_state [OF quiet_hooks])

lemma emit_state [simp]: "a_state (emit c ty p s) = a_state s"
  by (rule quiet_state [OF quiet_emit])


lemma usage_state [simp]: "a_state (record_usage c r s) = a_state s"
  by (simp add: record_usage_def Let_def)

lemma log_state [simp]: "a_state (log_effect x s) = a_state s"
  by (simp add: log_effect_def)




section \<open>Around the loop\<close>










section \<open>A turn of the loop\<close>


section \<open>The histories a run persists\<close>

text \<open>
  The message cap is not among the ways a run keeps its history valid: dropping the oldest message may drop a
  request and leave its result behind.
\<close>

lemma cap_orphans_results:
  fixes st :: conversation_state
  defines "st \<equiv> empty_state\<lparr>messages := [user_message ''go'',
      assistant_message (assistant_content (sample_reply [] [sample_call ''1'' ''echo'' []])),
      tool_result_message ''1'' (JStr ''ok'') False], max_messages := Some 3\<rparr>"
  shows "wf_history (messages st) \<and> \<not> wf_history (messages (add_user_message ''more'' (add_assistant (JStr ''done'') st)))"
  unfolding st_def by code_simp







end
