(* ===== verification/Json_Document.thy ===== *)
theory Json_Document
  imports Conversation
begin

text \<open>
  The versioned JSON files of the todo list and of the replay record (\<open>todo/store.py\<close>,
  \<open>replay/store.py\<close>): the two stores run the same code on different documents, so it is one
  definition over the format of the file. An encoder and a decoder that are inverse to each other make
  a document store out of it.
\<close>

record doc_format =
  df_error :: string
  df_noun :: string
  df_kind :: string
  df_key :: string

definition doc_save :: "doc_format \<Rightarrow> ('d \<Rightarrow> obj) \<Rightarrow> string \<Rightarrow> 'd \<Rightarrow> files \<Rightarrow> files" where
  "doc_save F enc path x fs = fs(path \<mapsto> json_dumps_utf8 (JObj [(''schema_version'', JInt 1), (df_key F, JObj (enc x))]))"

definition doc_error :: "doc_format \<Rightarrow> string \<Rightarrow> string \<Rightarrow> exn" where
  "doc_error F path why = Exn (df_error F) (''Cannot load '' @ df_noun F @ '' from '' @ path @ '': '' @ why)"

definition doc_load :: "doc_format \<Rightarrow> (obj \<Rightarrow> 'd result) \<Rightarrow> float_conv \<Rightarrow> string \<Rightarrow> files \<Rightarrow> 'd option result" where
  "doc_load F dec fl path fs = (case fs path of
     None \<Rightarrow> Inr None
   | Some content \<Rightarrow>
       (case json_loads fl content of
          None \<Rightarrow> Inl (doc_error F path ''invalid JSON'')
        | Some (JObj payload) \<Rightarrow>
            if \<not> dhas payload (df_key F) then Inl (doc_error F path (df_kind F))
            else if \<not> py_eq (jget payload ''schema_version'') (JInt 1)
            then Inl (doc_error F path (''schema version '' @ py_repr (jget payload ''schema_version'')
                   @ '' is not supported (expected 1)''))
            else (case jget payload (df_key F) of
                JObj d \<Rightarrow> (case dec d of Inl e \<Rightarrow> Inl (doc_error F path (exn_msg e)) | Inr x \<Rightarrow> Inr (Some x))
              | _ \<Rightarrow> Inl (doc_error F path (df_key F @ '' must be a dict'')))
        | Some _ \<Rightarrow> Inl (doc_error F path (df_kind F))))"

definition doc_delete :: "string \<Rightarrow> files \<Rightarrow> files" where
  "doc_delete path fs = fs(path := None)"

locale json_document =
  fixes F :: doc_format and enc :: "'d \<Rightarrow> obj" and dec :: "obj \<Rightarrow> 'd result" and ok :: "'d \<Rightarrow> bool" and fl :: float_conv
  assumes dec_enc: "ok x \<Longrightarrow> dec (enc x) = Inr x"
    and enc_wf: "ok x \<Longrightarrow> json_wf fl (JObj (enc x))"
    and key: "df_key F \<noteq> ''schema_version''"
begin

lemma load_saved: "ok x \<Longrightarrow> doc_load F dec fl path (doc_save F enc path x fs) = Inr (Some x)"
proof -
  assume ok: "ok x"
  let ?doc = "JObj [(''schema_version'', JInt 1), (df_key F, JObj (enc x))]"
  have "json_wf fl ?doc" using enc_wf [OF ok] key by (auto simp: dwf_def)
  then have "json_loads fl (json_dumps_utf8 ?doc) = Some ?doc" by (rule dumps_utf8_loads)
  then show ?thesis using key dec_enc [OF ok] by (auto simp: doc_load_def doc_save_def dhas_def)
qed

end

sublocale json_document \<subseteq> stored: document_store "doc_save F enc path" "doc_load F dec fl path" "doc_delete path" ok for path
  by unfold_locales (simp_all add: load_saved, simp add: doc_load_def doc_delete_def)

end
