(* ===== verification/Todo_List.thy ===== *)
theory Todo_List
  imports Json_Document Tool_Model
begin

text \<open>
  The todo scratchpad: \<open>todo/models.py\<close>, the file and the process-local store of \<open>todo/store.py\<close> and
  the two tools of \<open>todo/tool.py\<close>. A tool is given the save and load functions of its store.
\<close>

section \<open>Items (\<open>todo/models.py\<close>)\<close>

record todo_item =
  todo_id :: string
  todo_content :: string
  todo_status :: string

type_synonym todo_list = "todo_item list"

definition todo_statuses :: "string list" where
  "todo_statuses = [''completed'', ''in_progress'', ''pending'']"

definition status_message :: string where
  "status_message = ''status must be one of '' @ py_repr (JArr (map JStr todo_statuses))"

definition todo_item_init :: "string \<Rightarrow> string \<Rightarrow> string \<Rightarrow> todo_item result" where
  "todo_item_init i content status =
     (if is_blank i then Inl (Exn ''ValueError'' ''todo item id must be a non-empty string'')
      else if is_blank content then Inl (Exn ''ValueError'' ''todo item content must be a non-empty string'')
      else if status \<notin> set todo_statuses then Inl (Exn ''ValueError'' (''todo item '' @ status_message))
      else Inr \<lparr>todo_id = i, todo_content = content, todo_status = status\<rparr>)"

definition todo_item_to_dict :: "todo_item \<Rightarrow> obj" where
  "todo_item_to_dict t = [(''id'', JStr (todo_id t)), (''content'', JStr (todo_content t)), (''status'', JStr (todo_status t))]"

definition todo_item_from_dict :: "obj \<Rightarrow> todo_item result" where
  "todo_item_from_dict d =
     (case str_opt (jget d ''id'') of None \<Rightarrow> Inl (Exn ''ValueError'' ''todo item id must be a non-empty string'')
      | Some i \<Rightarrow> if is_blank i then Inl (Exn ''ValueError'' ''todo item id must be a non-empty string'') else
     (case str_opt (jget d ''content'') of None \<Rightarrow> Inl (Exn ''ValueError'' ''todo item content must be a non-empty string'')
      | Some content \<Rightarrow> if is_blank content then Inl (Exn ''ValueError'' ''todo item content must be a non-empty string'') else
     (case str_opt (jget d ''status'') of None \<Rightarrow> Inl (Exn ''ValueError'' (''todo item '' @ status_message))
      | Some status \<Rightarrow> if status \<notin> set todo_statuses then Inl (Exn ''ValueError'' (''todo item '' @ status_message))
        else todo_item_init i content status)))"

definition todo_list_to_dict :: "todo_list \<Rightarrow> obj" where
  "todo_list_to_dict ts = [(''items'', JArr (map (\<lambda>t. JObj (todo_item_to_dict t)) ts))]"

fun todo_items_from :: "json list \<Rightarrow> todo_list result" where
  "todo_items_from [] = Inr []"
| "todo_items_from (JObj d # xs) = bind_res (todo_item_from_dict d) (\<lambda>t. bind_res (todo_items_from xs) (\<lambda>ts. Inr (t # ts)))"
| "todo_items_from (_ # xs) = todo_items_from xs"

definition todo_list_from_dict :: "obj \<Rightarrow> todo_list result" where
  "todo_list_from_dict d = (case jget d ''items'' of
     JArr items \<Rightarrow> bind_res (todo_items_from items) (\<lambda>ts.
        if length ts \<noteq> length items then Inl (Exn ''ValueError'' ''each todo item must be a dict'') else Inr ts)
   | _ \<Rightarrow> Inl (Exn ''ValueError'' ''todo list items must be a list''))"

section \<open>Stores (\<open>todo/store.py\<close>)\<close>

definition todo_format :: doc_format where
  "todo_format = \<lparr>df_error = ''TodoStoreError'', df_noun = ''todos'', df_kind = ''not a todo file'', df_key = ''todos''\<rparr>"

definition todo_file_save :: "string \<Rightarrow> todo_list \<Rightarrow> files \<Rightarrow> files" where
  "todo_file_save = doc_save todo_format todo_list_to_dict"

definition todo_file_load :: "float_conv \<Rightarrow> string \<Rightarrow> files \<Rightarrow> todo_list option result" where
  "todo_file_load = doc_load todo_format todo_list_from_dict"

definition todo_file_delete :: "string \<Rightarrow> files \<Rightarrow> files" where
  "todo_file_delete = doc_delete"

text \<open>The process-local store copies what it saves and what it hands out through its dictionary form.\<close>

definition todo_mem_save :: "todo_list \<Rightarrow> todo_list option \<Rightarrow> unit result \<times> todo_list option" where
  "todo_mem_save ts held = (case todo_list_from_dict (todo_list_to_dict ts) of Inl e \<Rightarrow> (Inl e, held) | Inr c \<Rightarrow> (Inr (), Some c))"

definition todo_mem_load :: "todo_list option \<Rightarrow> todo_list option result" where
  "todo_mem_load held = (case held of None \<Rightarrow> Inr None | Some ts \<Rightarrow> bind_res (todo_list_from_dict (todo_list_to_dict ts)) (\<lambda>c. Inr (Some c)))"

definition todo_mem_delete :: "todo_list option \<Rightarrow> todo_list option" where
  "todo_mem_delete held = None"

section \<open>Tools (\<open>todo/tool.py\<close>)\<close>

definition status_marker :: "string \<Rightarrow> string" where
  "status_marker s = (if s = ''completed'' then ''[x]'' else if s = ''in_progress'' then ''[~]'' else ''[ ]'')"

definition todo_render :: "todo_list \<Rightarrow> string" where
  "todo_render ts = py_join [LF] (map (\<lambda>t. status_marker (todo_status t) @ '' '' @ todo_id t @ ''. '' @ todo_content t) ts)"

text \<open>The item's own checks repeat those made before it is built, so they never fail here.\<close>

definition read_todo :: "nat \<Rightarrow> json \<Rightarrow> string + todo_item" where
  "read_todo position raw = (let place = ''todo at position '' @ str_of_nat position in
     case raw of
       JObj d \<Rightarrow>
         (case str_opt (jget d ''content'') of None \<Rightarrow> Inl (place @ '' content must be a non-empty string'')
          | Some content \<Rightarrow> if is_blank content then Inl (place @ '' content must be a non-empty string'') else
         (case str_opt (jget d ''status'') of None \<Rightarrow> Inl (place @ '' '' @ status_message)
          | Some status \<Rightarrow> if status \<notin> set todo_statuses then Inl (place @ '' '' @ status_message) else
         (case str_opt (case dget d ''id'' of Some x \<Rightarrow> x | None \<Rightarrow> JStr (str_of_nat position)) of
            None \<Rightarrow> Inl (place @ '' id must be a non-empty string'')
          | Some i \<Rightarrow> if is_blank i then Inl (place @ '' id must be a non-empty string'')
              else (case todo_item_init i content status of Inl e \<Rightarrow> Inl (exn_msg e) | Inr t \<Rightarrow> Inr t))))
     | _ \<Rightarrow> Inl (place @ '' must be an object''))"

fun read_todos :: "nat \<Rightarrow> json list \<Rightarrow> string + todo_list" where
  "read_todos position [] = Inr []"
| "read_todos position (x # xs) = (case read_todo position x of
     Inl e \<Rightarrow> Inl e
   | Inr t \<Rightarrow> (case read_todos (Suc position) xs of Inl e \<Rightarrow> Inl e | Inr ts \<Rightarrow> Inr (t # ts)))"

definition todo_discipline :: "todo_list \<Rightarrow> bool" where
  "todo_discipline ts \<longleftrightarrow> ts = [] \<or> list_all (\<lambda>t. todo_status t = ''completed'') ts \<or> list_all (\<lambda>t. todo_status t = ''pending'') ts
     \<or> length (filter (\<lambda>t. todo_status t = ''in_progress'') ts) = 1"

definition todo_write :: "(todo_list \<Rightarrow> 's \<Rightarrow> unit result \<times> 's) \<Rightarrow> json \<Rightarrow> 's \<Rightarrow> tool_result \<times> 's" where
  "todo_write save todos s = (case todos of
     JArr xs \<Rightarrow> (case read_todos 1 xs of
        Inl e \<Rightarrow> (err_result e, s)
      | Inr ts \<Rightarrow>
          if \<not> distinct (map todo_id ts) then (err_result ''todo ids must be unique'', s)
          else if \<not> todo_discipline ts
          then (err_result ''exactly one todo must be in_progress unless the list is empty, all completed, or all pending'', s)
          else (case save ts s of
              (Inl e, s') \<Rightarrow> (err_result (''could not save todos: '' @ exn_msg e), s')
            | (Inr _, s') \<Rightarrow> (ok_result (JStr (todo_render ts)), s')))
   | _ \<Rightarrow> (err_result ''todos must be a list'', s))"

definition todo_read :: "('s \<Rightarrow> todo_list option result) \<Rightarrow> 's \<Rightarrow> tool_result" where
  "todo_read load s = (case load s of
     Inl e \<Rightarrow> err_result (''could not load todos: '' @ exn_msg e)
   | Inr None \<Rightarrow> ok_result (JStr ''No todos yet.'')
   | Inr (Some []) \<Rightarrow> ok_result (JStr ''No todos yet.'')
   | Inr (Some ts) \<Rightarrow> ok_result (JStr (todo_render ts)))"

section \<open>Round trips\<close>

definition todo_ok :: "todo_item \<Rightarrow> bool" where
  "todo_ok t \<longleftrightarrow> \<not> is_blank (todo_id t) \<and> \<not> is_blank (todo_content t) \<and> todo_status t \<in> set todo_statuses"

lemma todo_item_roundtrip: "todo_ok t \<Longrightarrow> todo_item_from_dict (todo_item_to_dict t) = Inr t"
  by (simp add: todo_ok_def todo_item_from_dict_def todo_item_to_dict_def todo_item_init_def)

lemma todo_list_roundtrip: "list_all todo_ok ts \<Longrightarrow> todo_list_from_dict (todo_list_to_dict ts) = Inr ts"
proof -
  have "list_all todo_ok ts \<Longrightarrow> todo_items_from (map (\<lambda>t. JObj (todo_item_to_dict t)) ts) = Inr ts"
    by (induction ts) (simp_all add: todo_item_roundtrip)
  then show "list_all todo_ok ts \<Longrightarrow> ?thesis" by (simp add: todo_list_from_dict_def todo_list_to_dict_def)
qed

interpretation todo_file: json_document todo_format todo_list_to_dict todo_list_from_dict "list_all todo_ok" fl
  by unfold_locales
    (simp add: todo_list_roundtrip, simp_all add: todo_format_def todo_list_to_dict_def todo_item_to_dict_def dwf_def list_all_iff)

interpretation todo_memory: document_store "\<lambda>ts s. snd (todo_mem_save ts s)" todo_mem_load todo_mem_delete "list_all todo_ok"
  by unfold_locales (simp_all add: todo_mem_save_def todo_mem_load_def todo_mem_delete_def todo_list_roundtrip)

lemma read_todo_ok: "read_todo n x = Inr t \<Longrightarrow> todo_ok t"
  by (auto simp: read_todo_def Let_def todo_item_init_def todo_ok_def split: json.splits option.splits if_splits sum.splits)

lemma read_todos_ok: "read_todos n xs = Inr ts \<Longrightarrow> list_all todo_ok ts \<and> length ts = length xs"
  by (induction n xs arbitrary: ts rule: read_todos.induct) (auto split: sum.splits dest: read_todo_ok)

section \<open>The tools on a store\<close>

definition valid_todos :: "todo_list \<Rightarrow> bool" where
  "valid_todos ts \<longleftrightarrow> list_all todo_ok ts \<and> distinct (map todo_id ts) \<and> todo_discipline ts"

datatype todo_op = WriteTodos json | ReadTodos | DeleteTodos

fun todo_trace :: "(todo_list \<Rightarrow> 's \<Rightarrow> unit result \<times> 's) \<Rightarrow> ('s \<Rightarrow> todo_list option result) \<Rightarrow> ('s \<Rightarrow> 's) \<Rightarrow> todo_op list \<Rightarrow> 's \<Rightarrow> tool_result list \<times> 's" where
  "todo_trace save load delete [] s = ([], s)"
| "todo_trace save load delete (WriteTodos x # ops) s =
     (let (r, s1) = todo_write save x s; (rs, s2) = todo_trace save load delete ops s1 in (r # rs, s2))"
| "todo_trace save load delete (ReadTodos # ops) s =
     (let (rs, s1) = todo_trace save load delete ops s in (todo_read load s # rs, s1))"
| "todo_trace save load delete (DeleteTodos # ops) s = todo_trace save load delete ops (delete s)"

definition accepts_todos :: "json \<Rightarrow> todo_list option" where
  "accepts_todos x = (case x of
     JArr xs \<Rightarrow> (case read_todos 1 xs of Inr ts \<Rightarrow> if distinct (map todo_id ts) \<and> todo_discipline ts then Some ts else None | Inl e \<Rightarrow> None)
   | _ \<Rightarrow> None)"

lemma accepts_valid: "accepts_todos x = Some ts \<Longrightarrow> valid_todos ts"
  by (auto simp: accepts_todos_def valid_todos_def dest: read_todos_ok split: json.splits sum.splits if_splits)

lemma write_rejected: "accepts_todos x = None \<Longrightarrow> is_error (fst (todo_write save x s)) \<and> snd (todo_write save x s) = s"
proof -
  have "read_todo n y = Inl e \<Longrightarrow> e \<noteq> []" for n y e
    by (auto simp: read_todo_def Let_def todo_item_init_def status_message_def split: json.splits option.splits if_splits)
  then have msg: "read_todos n xs = Inl e \<Longrightarrow> e \<noteq> []" for n xs e
    by (induction n xs rule: read_todos.induct) (auto split: sum.splits)
  show "accepts_todos x = None \<Longrightarrow> ?thesis"
    by (auto simp: accepts_todos_def todo_write_def is_error_def err_result_def dest: msg split: json.splits sum.splits if_splits)
qed

lemma write_rejected_same: "accepts_todos x = None \<Longrightarrow> fst (todo_write save x s) = fst (todo_write save' x s')"
  by (auto simp: accepts_todos_def todo_write_def split: json.splits sum.splits if_splits)

lemma write_accepted:
  "accepts_todos x = Some ts \<Longrightarrow> save ts s = (Inr (), s') \<Longrightarrow> todo_write save x s = (ok_result (JStr (todo_render ts)), s')"
  by (auto simp: accepts_todos_def todo_write_def split: json.splits sum.splits if_splits)

text \<open>The contract the tools rely on: a valid list is saved without error and then read back.\<close>

locale todo_backend = document_store save load delete "list_all todo_ok"
  for save :: "todo_list \<Rightarrow> 's \<Rightarrow> 's" and load :: "'s \<Rightarrow> todo_list option result" and delete :: "'s \<Rightarrow> 's" +
  fixes attempt :: "todo_list \<Rightarrow> 's \<Rightarrow> unit result \<times> 's"
  assumes attempt_saves: "list_all todo_ok ts \<Longrightarrow> attempt ts s = (Inr (), save ts s)"
begin

lemma write_then_load:
  "load (snd (todo_write attempt x s)) = (case accepts_todos x of Some ts \<Rightarrow> Inr (Some ts) | None \<Rightarrow> load s)"
proof (cases "accepts_todos x")
  case None
  then show ?thesis using write_rejected [OF None, of attempt s] by simp
next
  case (Some ts)
  then have ok: "list_all todo_ok ts" using accepts_valid by (auto simp: valid_todos_def)
  have "todo_write attempt x s = (ok_result (JStr (todo_render ts)), save ts s)"
    by (rule write_accepted [where save = attempt, OF Some attempt_saves [OF ok]])
  then show ?thesis using Some load_save [OF ok] by simp
qed

text \<open>The observable behaviour depends on what is held only: the abstract store is an optional list.\<close>

lemma trace_abstract:
  "load s = Inr held \<Longrightarrow> list_all todo_ok (case held of None \<Rightarrow> [] | Some ts \<Rightarrow> ts) \<Longrightarrow>
    fst (todo_trace attempt load delete ops s) = fst (todo_trace (\<lambda>ts s. (Inr (), Some ts)) Inr (\<lambda>_. None) ops held)"
proof (induction ops arbitrary: s held)
  case (Cons op ops)
  show ?case
  proof (cases op)
    case (WriteTodos x)
    show ?thesis
    proof (cases "accepts_todos x")
      case None
      have "snd (todo_write attempt x s) = s" "snd (todo_write (\<lambda>ts s. (Inr (), Some ts)) x held) = held"
        by (rule conjunct2 [OF write_rejected [OF None]])+
      moreover have "fst (todo_write attempt x s) = fst (todo_write (\<lambda>ts s. (Inr (), Some ts)) x held)"
        by (rule write_rejected_same [OF None])
      ultimately show ?thesis using WriteTodos Cons.IH [OF Cons.prems] by (simp add: case_prod_unfold Let_def)
    next
      case (Some ts)
      then have ok: "list_all todo_ok ts" using accepts_valid by (auto simp: valid_todos_def)
      have "todo_write attempt x s = (ok_result (JStr (todo_render ts)), save ts s)"
        by (rule write_accepted [where save = attempt, OF Some attempt_saves [OF ok]])
      then show ?thesis
        using WriteTodos write_accepted [OF Some, of "\<lambda>ts s. (Inr (), Some ts)" held "Some ts"]
          Cons.IH [of "save ts s" "Some ts"] load_save [OF ok] ok by (simp add: case_prod_unfold Let_def)
    qed
  next
    case ReadTodos
    then show ?thesis using Cons.IH [OF Cons.prems] Cons.prems(1) by (simp add: case_prod_unfold Let_def todo_read_def)
  next
    case DeleteTodos
    then show ?thesis using Cons.IH [of "delete s" None] load_delete by simp
  qed
qed simp

end

interpretation todo_file_backend: todo_backend "todo_file_save path" "todo_file_load fl path" "todo_file_delete path"
  "\<lambda>ts fs. (Inr (), todo_file_save path ts fs)" for fl path
  unfolding todo_file_save_def todo_file_load_def todo_file_delete_def
  by (intro todo_backend.intro todo_backend_axioms.intro todo_file.stored.document_store_axioms) simp

interpretation todo_memory_backend: todo_backend "\<lambda>ts s. snd (todo_mem_save ts s)" todo_mem_load todo_mem_delete todo_mem_save
  by (intro todo_backend.intro todo_backend_axioms.intro todo_memory.document_store_axioms)
    (simp add: todo_mem_save_def todo_list_roundtrip)

text \<open>
  the todo tools on the JSON file and on the process-local store are indistinguishable: any
  sequence of writes, reads and deletions of the file gives the same tool results, through the
  actual text of the file.
\<close>

theorem todo_file_refines_memory:
  assumes "fs path = None"
  shows "fst (todo_trace (\<lambda>ts fs. (Inr (), todo_file_save path ts fs)) (todo_file_load fl path) (todo_file_delete path) ops fs)
    = fst (todo_trace todo_mem_save todo_mem_load todo_mem_delete ops None)"
proof -
  have held: "todo_file_load fl path fs = Inr None" using assms by (simp add: todo_file_load_def doc_load_def)
  have mem: "todo_mem_load None = Inr None" by (simp add: todo_mem_load_def)
  show ?thesis
    using todo_file_backend.trace_abstract [where held = None, OF held] todo_memory_backend.trace_abstract [where held = None, OF mem] by simp
qed

theorem todo_file_refines_memory_witness:
  "fst (todo_trace (\<lambda>ts fs. (Inr (), todo_file_save ''t.json'' ts fs)) (todo_file_load (\<lambda>s. (0, s)) ''t.json'') (todo_file_delete ''t.json'')
      [WriteTodos (JArr [JObj [(''content'', JStr ''fix''), (''status'', JStr ''in_progress'')]]), ReadTodos] Map.empty)
    = [ok_result (JStr ''[~] 1. fix''), ok_result (JStr ''[~] 1. fix'')]"
  unfolding todo_file_refines_memory [of Map.empty "''t.json''", OF refl] by code_simp

text \<open>
  \<open>todo_write\<close> replaces the list exactly when the argument is a list of well-formed items with
  distinct ids of which exactly one is in progress (or all are pending, or all completed); otherwise it
  reports an error and the stored list is as it was.
\<close>

theorem todo_write_exact:
  "(case accepts_todos x of
      Some ts \<Rightarrow> valid_todos ts \<and> todo_write (\<lambda>ts fs. (Inr (), todo_file_save path ts fs)) x fs = (ok_result (JStr (todo_render ts)), todo_file_save path ts fs)
        \<and> todo_file_load fl path (todo_file_save path ts fs) = Inr (Some ts)
    | None \<Rightarrow> is_error (fst (todo_write (\<lambda>ts fs. (Inr (), todo_file_save path ts fs)) x fs))
        \<and> snd (todo_write (\<lambda>ts fs. (Inr (), todo_file_save path ts fs)) x fs) = fs)"
proof (cases "accepts_todos x")
  case None
  then show ?thesis using write_rejected [OF None] by simp
next
  case (Some ts)
  then have "valid_todos ts" by (rule accepts_valid)
  moreover have "todo_file_load fl path (todo_file_save path ts fs) = Inr (Some ts)"
    using todo_file_backend.load_save calculation by (simp add: valid_todos_def)
  ultimately show ?thesis using Some write_accepted [OF Some, of "\<lambda>ts fs. (Inr (), todo_file_save path ts fs)" fs] by simp
qed

end
