(* ===== verification/Replay_Log.thy ===== *)
theory Replay_Log
  imports Json_Document Audit_Log Events_Hooks
begin

text \<open>
  The recorded timeline of a run: \<open>replay/models.py\<close>, \<open>replay/store.py\<close>, \<open>replay/recorder.py\<close>,
  \<open>replay/session.py\<close> and \<open>replay/debugger.py\<close>. Timestamps are arguments. A recorder works on the
  save and load functions of its store; deep copies are the identity on values.
\<close>

section \<open>Steps and runs (\<open>replay/models.py\<close>)\<close>

record replay_step =
  rs_sequence :: int
  rs_timestamp :: string
  rs_type :: string
  rs_payload :: obj

record replay_run =
  rr_id :: string
  rr_steps :: "replay_step list"
  rr_parent :: "string option"
  rr_fork :: "int option"

definition step_to_dict :: "replay_step \<Rightarrow> obj" where
  "step_to_dict st = [(''sequence'', JInt (rs_sequence st)), (''timestamp'', JStr (rs_timestamp st)),
     (''event_type'', JStr (rs_type st)), (''payload'', JObj (rs_payload st))]"

definition step_from_dict :: "obj \<Rightarrow> replay_step result" where
  "step_from_dict d =
     (case as_int (jget d ''sequence'') of
        None \<Rightarrow> value_error ''step.sequence must be a non-negative int''
      | Some n \<Rightarrow> if n < 0 then value_error ''step.sequence must be a non-negative int'' else
     (case (str_opt (jget d ''timestamp''), str_opt (jget d ''event_type'')) of
        (Some ts, Some ty) \<Rightarrow>
          (case jget d ''payload'' of
             JObj p \<Rightarrow> Inr \<lparr>rs_sequence = n, rs_timestamp = ts, rs_type = ty, rs_payload = p\<rparr>
           | _ \<Rightarrow> value_error ''step.payload must be a dict'')
      | _ \<Rightarrow> value_error ''step timestamp and event_type must be strings''))"

definition run_to_dict :: "replay_run \<Rightarrow> obj" where
  "run_to_dict r = [(''run_id'', JStr (rr_id r)), (''steps'', JArr (map (\<lambda>st. JObj (step_to_dict st)) (rr_steps r)))]
     @ (case rr_parent r of None \<Rightarrow> [] | Some p \<Rightarrow> [(''parent_run_id'', JStr p)])
     @ (case rr_fork r of None \<Rightarrow> [] | Some n \<Rightarrow> [(''fork_sequence'', JInt n)])"

fun steps_from :: "json list \<Rightarrow> replay_step list result" where
  "steps_from [] = Inr []"
| "steps_from (JObj d # xs) = bind_res (step_from_dict d) (\<lambda>st. bind_res (steps_from xs) (\<lambda>sts. Inr (st # sts)))"
| "steps_from (_ # xs) = steps_from xs"

definition parent_of :: "json \<Rightarrow> string option result" where
  "parent_of v = (case v of JNull \<Rightarrow> Inr None
     | JStr s \<Rightarrow> if s = [] then value_error ''parent_run_id must be a non-empty string when supplied'' else Inr (Some s)
     | _ \<Rightarrow> value_error ''parent_run_id must be a non-empty string when supplied'')"

definition fork_of :: "json \<Rightarrow> int option result" where
  "fork_of v = (if v = JNull then Inr None else (case as_int v of
       Some n \<Rightarrow> if n < 0 then value_error ''fork_sequence must be a non-negative int when supplied'' else Inr (Some n)
     | None \<Rightarrow> value_error ''fork_sequence must be a non-negative int when supplied''))"

definition run_from_dict :: "obj \<Rightarrow> replay_run result" where
  "run_from_dict d =
     (case str_opt (jget d ''run_id'') of
        None \<Rightarrow> value_error ''run_id must be a non-empty string''
      | Some rid \<Rightarrow> if rid = [] then value_error ''run_id must be a non-empty string'' else
     (case jget d ''steps'' of
        JArr steps \<Rightarrow>
          bind_res (parent_of (jget d ''parent_run_id'')) (\<lambda>parent.
          bind_res (fork_of (jget d ''fork_sequence'')) (\<lambda>fork.
          bind_res (steps_from steps) (\<lambda>parsed.
            if length parsed \<noteq> length steps then value_error ''each step must be a dict''
            else if map rs_sequence parsed \<noteq> map int [0..<length parsed]
            then value_error ''step sequences must start at zero and be contiguous''
            else Inr \<lparr>rr_id = rid, rr_steps = parsed, rr_parent = parent, rr_fork = fork\<rparr>)))
      | _ \<Rightarrow> value_error ''steps must be a list''))"

section \<open>The store (\<open>replay/store.py\<close>)\<close>

definition replay_format :: doc_format where
  "replay_format = \<lparr>df_error = ''ReplayStoreError'', df_noun = ''replay'', df_kind = ''not a replay file'', df_key = ''replay''\<rparr>"

definition replay_save :: "string \<Rightarrow> replay_run \<Rightarrow> files \<Rightarrow> files" where
  "replay_save = doc_save replay_format run_to_dict"

definition replay_load :: "float_conv \<Rightarrow> string \<Rightarrow> files \<Rightarrow> replay_run option result" where
  "replay_load = doc_load replay_format run_from_dict"

definition replay_delete :: "string \<Rightarrow> files \<Rightarrow> files" where
  "replay_delete = doc_delete"

section \<open>The recorder (\<open>replay/recorder.py\<close>)\<close>

record recorder =
  rc_raw :: bool
  rc_reasoning :: bool
  rc_parent :: "string option"
  rc_fork :: "int option"
  rc_run :: "replay_run option"

definition recorder_init :: "bool \<Rightarrow> bool \<Rightarrow> string option \<Rightarrow> int option \<Rightarrow> recorder result" where
  "recorder_init raw reasoning parent fork =
     (if (parent = None) \<noteq> (fork = None) then value_error ''parent_run_id and fork_sequence must be supplied together''
      else Inr \<lparr>rc_raw = raw, rc_reasoning = reasoning, rc_parent = parent, rc_fork = fork, rc_run = None\<rparr>)"

record 's replay_store =
  st_save :: "replay_run \<Rightarrow> 's \<Rightarrow> 's"
  st_load :: "'s \<Rightarrow> replay_run option result"

definition file_replay_store :: "float_conv \<Rightarrow> string \<Rightarrow> files replay_store" where
  "file_replay_store fl path = \<lparr>st_save = replay_save path, st_load = replay_load fl path\<rparr>"

lemma file_replay_store_simps [simp]:
  "st_load (file_replay_store fl path) = replay_load fl path" "st_save (file_replay_store fl path) = replay_save path"
  by (simp_all add: file_replay_store_def)

definition new_run :: "'s replay_store \<Rightarrow> recorder \<Rightarrow> string \<Rightarrow> 's \<Rightarrow> replay_run result" where
  "new_run S rc rid s = bind_res (st_load S s) (\<lambda>existing. case existing of
     Some r \<Rightarrow> if rr_id r = rid then Inr r else Inr \<lparr>rr_id = rid, rr_steps = [], rr_parent = rc_parent rc, rr_fork = rc_fork rc\<rparr>
   | None \<Rightarrow> Inr \<lparr>rr_id = rid, rr_steps = [], rr_parent = rc_parent rc, rr_fork = rc_fork rc\<rparr>)"

definition append_step :: "string \<Rightarrow> string \<Rightarrow> obj \<Rightarrow> replay_run \<Rightarrow> replay_run" where
  "append_step now ty payload r = r\<lparr>rr_steps := rr_steps r @
     [\<lparr>rs_sequence = int (length (rr_steps r)), rs_timestamp = now, rs_type = ty, rs_payload = payload\<rparr>]\<rparr>"

definition record_step :: "'s replay_store \<Rightarrow> string \<Rightarrow> string \<Rightarrow> string \<Rightarrow> obj \<Rightarrow> recorder \<times> 's \<Rightarrow> unit result \<times> recorder \<times> 's" where
  "record_step S now rid ty payload = (\<lambda>(rc, s).
     (case (case rc_run rc of Some r \<Rightarrow> if rr_id r = rid then Inr r else new_run S rc rid s | None \<Rightarrow> new_run S rc rid s) of
        Inl e \<Rightarrow> (Inl e, rc, s)
      | Inr r \<Rightarrow> (let r' = append_step now ty payload r in (Inr (), rc\<lparr>rc_run := Some r'\<rparr>, st_save S r' s))))"

definition redact_obj :: "(string \<Rightarrow> string) \<Rightarrow> obj \<Rightarrow> obj" where
  "redact_obj scrub d = (case redact_value scrub (JObj d) of JObj e \<Rightarrow> e | _ \<Rightarrow> d)"

definition recorder_handle :: "'s replay_store \<Rightarrow> (string \<Rightarrow> string) \<Rightarrow> string \<Rightarrow> event \<Rightarrow> recorder \<times> 's \<Rightarrow> unit result \<times> recorder \<times> 's" where
  "recorder_handle S scrub now e = (\<lambda>(rc, s).
     (if event_type e = ''agent.reasoning_trace'' \<and> \<not> rc_reasoning rc then (Inr (), rc, s)
      else case jget (event_payload e) ''run_id'' of
        JStr (x # xs) \<Rightarrow> record_step S now (x # xs) (event_type e) (redact_obj scrub (event_payload e)) (rc, s)
      | _ \<Rightarrow> (Inr (), rc, s)))"

definition recorder_snapshot :: "'s replay_store \<Rightarrow> (string \<Rightarrow> string) \<Rightarrow> string \<Rightarrow> conversation_state \<Rightarrow> string option
    \<Rightarrow> recorder \<times> 's \<Rightarrow> unit result \<times> recorder \<times> 's" where
  "recorder_snapshot S scrub now st rid = (\<lambda>(rc, s). (case rid of
     None \<Rightarrow> (Inr (), rc, s)
   | Some r \<Rightarrow> record_step S now r ''replay.snapshot''
        [(''state'', if rc_raw rc then state_to_dict st else redact_value scrub (state_to_dict st))] (rc, s)))"

section \<open>Forks, comparison and the timeline (\<open>replay/session.py\<close>)\<close>

record replay_branch =
  rb_parent :: string
  rb_fork :: int
  rb_state :: conversation_state

definition is_snapshot :: "replay_step \<Rightarrow> bool" where
  "is_snapshot st = (rs_type st = ''replay.snapshot'')"

fun contains_redaction :: "json \<Rightarrow> bool" where
  "contains_redaction (JStr s) = contains ''[REDACTED]'' s"
| "contains_redaction (JObj d) = list_ex (\<lambda>(k, v). contains_redaction v) d"
| "contains_redaction (JArr xs) = list_ex contains_redaction xs"
| "contains_redaction v = False"

definition fork_error :: "string \<Rightarrow> 'a result" where
  "fork_error msg = Inl (Exn ''ReplayForkError'' msg)"

definition session_fork :: "replay_run \<Rightarrow> int option \<Rightarrow> replay_branch result" where
  "session_fork r sequence =
     (let target = (case sequence of None \<Rightarrow> int (length (rr_steps r)) - 1 | Some n \<Rightarrow> n) in
      if target < 0 \<or> target \<ge> int (length (rr_steps r)) then fork_error ''fork sequence is outside the recorded timeline''
      else let snapshots = filter is_snapshot (take (nat (target + 1)) (rr_steps r)) in
        if snapshots = [] then fork_error ''no replay-valid snapshot exists at or before this sequence''
        else let snapshot = last snapshots in
          case jget (rs_payload snapshot) ''state'' of
            JObj d \<Rightarrow>
              if contains_redaction (JObj d)
              then fork_error ''snapshot is redacted; use protected raw snapshots to fork a live conversation''
              else (case state_from_dict (JObj d) of
                  Inl e \<Rightarrow> fork_error (''snapshot state is invalid: '' @ exn_msg e)
                | Inr st \<Rightarrow> Inr \<lparr>rb_parent = rr_id r, rb_fork = rs_sequence snapshot, rb_state = st\<rparr>)
          | _ \<Rightarrow> fork_error ''snapshot has no conversation state'')"

definition plain_user :: "message \<Rightarrow> bool" where
  "plain_user m = (jget m ''role'' = JStr ''user'' \<and> is_str (jget m ''content''))"

fun replace_last :: "('a \<Rightarrow> bool) \<Rightarrow> ('a \<Rightarrow> 'a) \<Rightarrow> 'a list \<Rightarrow> 'a list option" where
  "replace_last p f [] = None"
| "replace_last p f (x # xs) = (case replace_last p f xs of
     Some ys \<Rightarrow> Some (x # ys)
   | None \<Rightarrow> if p x then Some (f x # xs) else None)"

definition branch_replace_input :: "string \<Rightarrow> replay_branch \<Rightarrow> replay_branch result" where
  "branch_replace_input t b = (if is_blank t then value_error ''input text must be a non-empty string''
     else Inr (b\<lparr>rb_state := (case replace_last plain_user (\<lambda>m. dset m ''content'' (JStr t)) (messages (rb_state b)) of
        Some ms \<Rightarrow> (rb_state b)\<lparr>messages := ms\<rparr>
      | None \<Rightarrow> add_user_message t (rb_state b))\<rparr>))"

definition branch_add_input :: "string \<Rightarrow> replay_branch \<Rightarrow> replay_branch result" where
  "branch_add_input t b = (if is_blank t then value_error ''input text must be a non-empty string''
     else Inr (b\<lparr>rb_state := add_user_message t (rb_state b)\<rparr>))"

fun stable_value :: "json \<Rightarrow> json" where
  "stable_value (JObj d) = JObj (map (\<lambda>(k, v). (k, stable_value v)) (filter (\<lambda>(k, v). k \<noteq> ''run_id'') d))"
| "stable_value (JArr xs) = JArr (map stable_value xs)"
| "stable_value v = v"

definition step_key :: "replay_step \<Rightarrow> string" where
  "step_key st = json_dumps_sorted (JObj [(''event_type'', JStr (rs_type st)), (''payload'', stable_value (JObj (rs_payload st)))])"

datatype diff_kind = Added | Removed | Equal | Changed

definition diff_entry :: "replay_step option \<Rightarrow> replay_step option \<Rightarrow> diff_kind" where
  "diff_entry l r = (case (l, r) of
     (None, _) \<Rightarrow> Added
   | (_, None) \<Rightarrow> Removed
   | (Some a, Some b) \<Rightarrow> if step_key a = step_key b then Equal else Changed)"

definition step_at :: "replay_run \<Rightarrow> nat \<Rightarrow> replay_step option" where
  "step_at r i = (if i < length (rr_steps r) then Some (rr_steps r ! i) else None)"

definition compare_runs :: "replay_run \<Rightarrow> replay_run \<Rightarrow> (diff_kind \<times> replay_step option \<times> replay_step option) list" where
  "compare_runs l r = map (\<lambda>i. (diff_entry (step_at l i) (step_at r i), step_at l i, step_at r i))
     [0..<max (length (rr_steps l)) (length (rr_steps r))]"

definition diff_changed :: "(diff_kind \<times> 'a) list \<Rightarrow> (diff_kind \<times> 'a) list" where
  "diff_changed es = filter (\<lambda>(k, x). k \<noteq> Equal) es"

fun replace_char :: "char \<Rightarrow> string \<Rightarrow> string \<Rightarrow> string" where
  "replace_char c by_text [] = []"
| "replace_char c by_text (x # xs) = (if x = c then by_text else [x]) @ replace_char c by_text xs"

definition step_label :: "replay_step \<Rightarrow> string" where
  "step_label st =
     (let name = (case dget (rs_payload st) ''name'' of Some v \<Rightarrow> py_str v | None \<Rightarrow> ''unknown'') in
      if rs_type st = ''agent.tool_call_started'' then ''Tool started: '' @ name
      else if rs_type st = ''agent.tool_call_finished''
      then ''Tool '' @ (if truthy (jget (rs_payload st) ''is_error'') then ''failed'' else ''finished'') @ '': '' @ name
      else if is_snapshot st then ''Replay-valid checkpoint''
      else replace_char (CHR ''.'') [CHR '' '', CHR 0xB7, CHR '' ''] (rs_type st))"

definition timeline :: "replay_run \<Rightarrow> (replay_step \<times> string) list" where
  "timeline r = map (\<lambda>st. (st, step_label st)) (rr_steps r)"

definition timeline_json :: "replay_run \<Rightarrow> string" where
  "timeline_json r = json_dumps_utf8 (JArr (map (\<lambda>(st, label).
     JObj [(''sequence'', JInt (rs_sequence st)), (''timestamp'', JStr (rs_timestamp st)), (''event_type'', JStr (rs_type st)),
       (''label'', JStr label), (''payload'', JObj (rs_payload st))]) (timeline r)))"

section \<open>The cursor (\<open>replay/debugger.py\<close>)\<close>

record debugger =
  db_run :: replay_run
  db_position :: int

definition debugger_open :: "'s replay_store \<Rightarrow> 's \<Rightarrow> debugger result" where
  "debugger_open S s = bind_res (st_load S s) (\<lambda>r. case r of
     None \<Rightarrow> Inl (Exn ''ReplayStoreError'' ''No replay has been saved'')
   | Some x \<Rightarrow> Inr \<lparr>db_run = x, db_position = -1\<rparr>)"

definition debugger_current :: "debugger \<Rightarrow> replay_step option" where
  "debugger_current d = (if 0 \<le> db_position d \<and> db_position d < int (length (rr_steps (db_run d)))
     then Some (rr_steps (db_run d) ! nat (db_position d)) else None)"

definition debugger_seek :: "int \<Rightarrow> debugger \<Rightarrow> (replay_step option \<times> debugger) result" where
  "debugger_seek n d = (if \<not> (-1 \<le> n \<and> n \<le> int (length (rr_steps (db_run d))))
     then Inl (Exn ''IndexError'' ''Replay sequence is outside the recorded timeline'')
     else let d' = d\<lparr>db_position := n\<rparr> in Inr (debugger_current d', d'))"

definition debugger_next :: "debugger \<Rightarrow> (replay_step option \<times> debugger) result" where
  "debugger_next d = debugger_seek (min (db_position d + 1) (int (length (rr_steps (db_run d))))) d"

definition debugger_previous :: "debugger \<Rightarrow> (replay_step option \<times> debugger) result" where
  "debugger_previous d = debugger_seek (max (db_position d - 1) (-1)) d"

section \<open>Round trips\<close>

definition contiguous :: "replay_step list \<Rightarrow> bool" where
  "contiguous sts \<longleftrightarrow> map rs_sequence sts = map int [0..<length sts]"

definition run_ok :: "float_conv \<Rightarrow> replay_run \<Rightarrow> bool" where
  "run_ok fl r \<longleftrightarrow> rr_id r \<noteq> [] \<and> contiguous (rr_steps r) \<and> rr_parent r \<noteq> Some [] \<and> (case rr_fork r of None \<Rightarrow> True | Some n \<Rightarrow> 0 \<le> n)
     \<and> list_all (\<lambda>st. json_wf fl (JObj (rs_payload st))) (rr_steps r)"

lemma step_roundtrip: "0 \<le> rs_sequence st \<Longrightarrow> step_from_dict (step_to_dict st) = Inr st"
  by (simp add: step_from_dict_def step_to_dict_def)

lemma steps_roundtrip: "list_all (\<lambda>st. 0 \<le> rs_sequence st) sts \<Longrightarrow> steps_from (map (\<lambda>st. JObj (step_to_dict st)) sts) = Inr sts"
  by (induction sts) (simp_all add: step_roundtrip)

lemma contiguous_nonneg: "contiguous sts \<Longrightarrow> list_all (\<lambda>st. 0 \<le> rs_sequence st) sts"
proof -
  assume "contiguous sts"
  then have "set (map rs_sequence sts) = set (map int [0..<length sts])" by (simp add: contiguous_def)
  then have "\<And>x. x \<in> set (map rs_sequence sts) \<Longrightarrow> 0 \<le> x" by auto
  then show ?thesis by (auto simp: list_all_iff)
qed

lemma run_roundtrip: "run_ok fl r \<Longrightarrow> run_from_dict (run_to_dict r) = Inr r"
  using steps_roundtrip [OF contiguous_nonneg]
  by (cases "rr_parent r"; cases "rr_fork r")
    (auto simp: run_ok_def run_from_dict_def run_to_dict_def parent_of_def fork_of_def contiguous_def split: list.split)

lemma run_dict_wf: "run_ok fl r \<Longrightarrow> json_wf fl (JObj (run_to_dict r))"
  by (cases "rr_parent r"; cases "rr_fork r")
    (auto simp: run_ok_def run_to_dict_def step_to_dict_def dwf_def list_all_iff)

interpretation replay_file: json_document replay_format run_to_dict run_from_dict "run_ok fl" fl for fl
  by unfold_locales (rule run_roundtrip, assumption, rule run_dict_wf, assumption, simp add: replay_format_def)

section \<open>Recording\<close>

text \<open>One operation of a recorder, with the time it happens at, and the step it adds, if any.\<close>

datatype rec_op = RecEvent string event | RecSnapshot string conversation_state "string option"

fun rec_apply :: "'s replay_store \<Rightarrow> (string \<Rightarrow> string) \<Rightarrow> rec_op \<Rightarrow> recorder \<times> 's \<Rightarrow> recorder \<times> 's" where
  "rec_apply S scrub (RecEvent now e) x = snd (recorder_handle S scrub now e x)"
| "rec_apply S scrub (RecSnapshot now st rid) x = snd (recorder_snapshot S scrub now st rid x)"

fun rec_entry :: "(string \<Rightarrow> string) \<Rightarrow> bool \<Rightarrow> bool \<Rightarrow> rec_op \<Rightarrow> (string \<times> string \<times> string \<times> obj) option" where
  "rec_entry scrub raw reasoning (RecEvent now e) =
     (if event_type e = ''agent.reasoning_trace'' \<and> \<not> reasoning then None
      else case jget (event_payload e) ''run_id'' of JStr (x # xs) \<Rightarrow> Some (x # xs, now, event_type e, redact_obj scrub (event_payload e)) | _ \<Rightarrow> None)"
| "rec_entry scrub raw reasoning (RecSnapshot now st rid) = map_option (\<lambda>r. (r, now, ''replay.snapshot'',
     [(''state'', if raw then state_to_dict st else redact_value scrub (state_to_dict st))])) rid"

definition entry_wf :: "float_conv \<Rightarrow> string \<Rightarrow> (string \<times> string \<times> string \<times> obj) option \<Rightarrow> bool" where
  "entry_wf fl rid en = (case en of None \<Rightarrow> True | Some (r, now, ty, p) \<Rightarrow> r = rid \<and> json_wf fl (JObj p))"

definition step_view :: "replay_step \<Rightarrow> string \<times> string \<times> obj" where
  "step_view st = (rs_timestamp st, rs_type st, rs_payload st)"

lemma rec_apply_entry:
  "rec_apply S scrub op (rc, s) = (case rec_entry scrub (rc_raw rc) (rc_reasoning rc) op of
     None \<Rightarrow> (rc, s) | Some (r, now, ty, p) \<Rightarrow> snd (record_step S now r ty p (rc, s)))"
  by (cases op) (auto simp: recorder_handle_def recorder_snapshot_def split: json.split list.split option.split)

lemma append_ok: "run_ok fl r \<Longrightarrow> json_wf fl (JObj p) \<Longrightarrow> run_ok fl (append_step now ty p r)"
  by (auto simp: run_ok_def append_step_def contiguous_def)

lemma append_view: "map step_view (rr_steps (append_step now ty p r)) = map step_view (rr_steps r) @ [(now, ty, p)]"
  by (simp add: append_step_def step_view_def)

text \<open>The recorder over any store that keeps the document contract.\<close>

locale replay_backend = document_store "st_save S" "st_load S" delete "run_ok fl"
  for S :: "'s replay_store" and delete :: "'s \<Rightarrow> 's" and fl :: float_conv
begin

text \<open>
  The recorder is in step with its store: what it holds for the run is what the store holds, or it
  holds nothing yet and the store's timeline of this run, if any, is \<open>r\<close>.
\<close>

definition in_step :: "string \<Rightarrow> replay_run \<Rightarrow> recorder \<times> 's \<Rightarrow> bool" where
  "in_step rid r x \<longleftrightarrow> run_ok fl r \<and> rr_id r = rid
     \<and> (case rc_run (fst x) of
          Some h \<Rightarrow> if rr_id h = rid then h = r else new_run S (fst x) rid (snd x) = Inr r
        | None \<Rightarrow> new_run S (fst x) rid (snd x) = Inr r)"

lemma record_in_step:
  assumes "in_step rid r (rc, s)" "json_wf fl (JObj p)" "record_step S now rid ty p (rc, s) = (res, rc', s')"
  shows "res = Inr () \<and> in_step rid (append_step now ty p r) (rc', s') \<and> rc_raw rc' = rc_raw rc \<and> rc_reasoning rc' = rc_reasoning rc
    \<and> st_load S s' = Inr (Some (append_step now ty p r))"
proof -
  have "(case rc_run rc of Some h \<Rightarrow> if rr_id h = rid then Inr h else new_run S rc rid s | None \<Rightarrow> new_run S rc rid s) = Inr r"
    using assms(1) by (auto simp: in_step_def split: option.splits if_splits)
  then have eq: "res = Inr ()" "rc' = rc\<lparr>rc_run := Some (append_step now ty p r)\<rparr>" "s' = st_save S (append_step now ty p r) s"
    using assms(3) by (auto simp: record_step_def Let_def)
  have ok: "run_ok fl (append_step now ty p r)" using assms(1,2) append_ok by (simp add: in_step_def)
  have "rr_id (append_step now ty p r) = rid" using assms(1) by (simp add: in_step_def append_step_def)
  then show ?thesis using eq ok load_save [OF ok, of s] by (simp add: in_step_def)
qed

lemma record_all:
  assumes "in_step rid r (rc, s)" "list_all (\<lambda>op. entry_wf fl rid (rec_entry scrub (rc_raw rc) (rc_reasoning rc) op)) ops"
  shows "\<exists>r'. in_step rid r' (fold (rec_apply S scrub) ops (rc, s))
    \<and> map step_view (rr_steps r') = map step_view (rr_steps r) @ map snd (List.map_filter (rec_entry scrub (rc_raw rc) (rc_reasoning rc)) ops)
    \<and> (List.map_filter (rec_entry scrub (rc_raw rc) (rc_reasoning rc)) ops \<noteq> [] \<longrightarrow>
         st_load S (snd (fold (rec_apply S scrub) ops (rc, s))) = Inr (Some r'))"
  using assms
proof (induction ops arbitrary: r rc s)
  case (Cons op ops)
  show ?case
  proof (cases "rec_entry scrub (rc_raw rc) (rc_reasoning rc) op")
    case None
    then show ?thesis using Cons.IH [OF Cons.prems(1)] Cons.prems(2) by (simp add: rec_apply_entry List.map_filter_simps)
  next
    case (Some en)
    then obtain now ty p where en: "en = (rid, now, ty, p)" "json_wf fl (JObj p)"
      using Cons.prems(2) by (cases en) (auto simp: entry_wf_def)
    obtain res rc' s' where st: "record_step S now rid ty p (rc, s) = (res, rc', s')" by (metis surj_pair)
    note k = record_in_step [OF Cons.prems(1) en(2) st]
    have step: "rec_apply S scrub op (rc, s) = (rc', s')" using Some en st by (simp add: rec_apply_entry)
    let ?f = "rec_entry scrub (rc_raw rc) (rc_reasoning rc)"
    have "\<exists>r'. in_step rid r' (fold (rec_apply S scrub) ops (rc', s'))
      \<and> map step_view (rr_steps r') = map step_view (rr_steps (append_step now ty p r)) @ map snd (List.map_filter ?f ops)
      \<and> (List.map_filter ?f ops \<noteq> [] \<longrightarrow> st_load S (snd (fold (rec_apply S scrub) ops (rc', s'))) = Inr (Some r'))"
      using Cons.IH [of "append_step now ty p r" rc' s'] k Cons.prems(2) by simp
    then obtain r' where r': "in_step rid r' (fold (rec_apply S scrub) ops (rc', s'))"
      "map step_view (rr_steps r') = map step_view (rr_steps (append_step now ty p r)) @ map snd (List.map_filter ?f ops)"
      "List.map_filter ?f ops \<noteq> [] \<longrightarrow> st_load S (snd (fold (rec_apply S scrub) ops (rc', s'))) = Inr (Some r')"
      by blast
    have "st_load S (snd (fold (rec_apply S scrub) ops (rc', s'))) = Inr (Some r')"
    proof (cases "List.map_filter ?f ops = []")
      case True
      then have idle: "fold (rec_apply S scrub) ops (rc', s') = (rc', s')"
        using k by (induction ops) (auto simp: rec_apply_entry List.map_filter_simps split: option.splits)
      have "in_step rid r' (rc', s')" using r'(1) idle by simp
      moreover have "rc_run rc' = Some (append_step now ty p r)" using st k Cons.prems(1)
        by (auto simp: record_step_def Let_def in_step_def split: option.splits if_splits)
      moreover have "rr_id (append_step now ty p r) = rid" using Cons.prems(1) by (simp add: in_step_def append_step_def)
      ultimately have "r' = append_step now ty p r" by (simp add: in_step_def)
      then show ?thesis using idle k by simp
    qed (use r'(3) in blast)
    then show ?thesis using r' step Some en by (auto simp: List.map_filter_simps append_view intro!: exI [of _ r'])
  qed
qed (auto simp: List.map_filter_simps)

text \<open>
  A recorder that already holds its run writes it back without looking at the store: whatever another
  recorder has added to the same run in between is gone.
\<close>

lemma stale_recorder_overwrites:
  assumes "rc_run rc = Some r" "run_ok fl r" "json_wf fl (JObj p)"
  shows "st_load S (snd (snd (record_step S now (rr_id r) ty p (rc, s)))) = Inr (Some (append_step now ty p r))"
  using assms load_save [OF append_ok [OF assms(2,3)]] by (simp add: record_step_def Let_def)

end

interpretation file_replay: replay_backend "file_replay_store fl path" "replay_delete path" fl for fl path
  unfolding replay_backend_def replay_delete_def file_replay_store_simps replay_save_def replay_load_def
  by (rule replay_file.stored.document_store_axioms)

text \<open>
  C39: recording is append-only and complete: after any sequence of events and snapshots of a run, the
  replay file holds what it held of this run before, followed by exactly one step per accepted event or
  snapshot, redacted as configured, in order and numbered without gaps.
\<close>

theorem recorder_timeline_exact:
  assumes "recorder_init raw reasoning parent fork = Inr rc" "replay_load fl path fs = Inr existing"
    "case existing of None \<Rightarrow> True | Some e \<Rightarrow> run_ok fl e" "rid \<noteq> []" "parent \<noteq> Some []" "case fork of None \<Rightarrow> True | Some n \<Rightarrow> 0 \<le> n"
    "list_all (\<lambda>op. entry_wf fl rid (rec_entry scrub raw reasoning op)) ops" "List.map_filter (rec_entry scrub raw reasoning) ops \<noteq> []"
  shows "\<exists>r. replay_load fl path (snd (fold (rec_apply (file_replay_store fl path) scrub) ops (rc, fs))) = Inr (Some r)
    \<and> rr_id r = rid \<and> contiguous (rr_steps r)
    \<and> map step_view (rr_steps r) = (case existing of Some e \<Rightarrow> if rr_id e = rid then map step_view (rr_steps e) else [] | None \<Rightarrow> [])
        @ map snd (List.map_filter (rec_entry scrub raw reasoning) ops)"
proof -
  let ?S = "file_replay_store fl path"
  let ?new = "\<lparr>rr_id = rid, rr_steps = [], rr_parent = parent, rr_fork = fork\<rparr>"
  define r0 where "r0 = (case existing of Some e \<Rightarrow> if rr_id e = rid then e else ?new | None \<Rightarrow> ?new)"
  have rc: "rc = \<lparr>rc_raw = raw, rc_reasoning = reasoning, rc_parent = parent, rc_fork = fork, rc_run = None\<rparr>"
    using assms(1) by (auto simp: recorder_init_def value_error_def split: if_splits)
  have "run_ok fl ?new" using assms(4-6) by (simp add: run_ok_def contiguous_def)
  then have "run_ok fl r0 \<and> rr_id r0 = rid" using assms(3) by (auto simp: r0_def split: option.splits)
  moreover have "new_run ?S rc rid fs = Inr r0" using assms(2) by (auto simp: new_run_def rc r0_def split: option.split)
  ultimately have "file_replay.in_step fl path rid r0 (rc, fs)" by (simp add: file_replay.in_step_def rc)
  from file_replay.record_all [OF this, of scrub ops] obtain r where
    r: "file_replay.in_step fl path rid r (fold (rec_apply ?S scrub) ops (rc, fs))"
      "map step_view (rr_steps r) = map step_view (rr_steps r0) @ map snd (List.map_filter (rec_entry scrub raw reasoning) ops)"
      "st_load ?S (snd (fold (rec_apply ?S scrub) ops (rc, fs))) = Inr (Some r)"
    using assms(7,8) by (auto simp: rc)
  have "rr_id r = rid" "contiguous (rr_steps r)" using r(1) by (simp_all add: file_replay.in_step_def run_ok_def)
  moreover have "map step_view (rr_steps r0) = (case existing of Some e \<Rightarrow> if rr_id e = rid then map step_view (rr_steps e) else [] | None \<Rightarrow> [])"
    by (simp add: r0_def split: option.split)
  ultimately show ?thesis using r(2,3) by (intro exI [of _ r]) simp
qed

definition sample_event :: event where
  "sample_event = \<lparr>event_type = ''agent.run_started'', event_payload = [(''run_id'', JStr ''r''), (''token'', JStr ''abc'')], event_source = None\<rparr>"

definition sample_ops :: "rec_op list" where
  "sample_ops = [RecEvent ''t'' sample_event, RecSnapshot ''u'' empty_state (Some ''r'')]"

theorem recorder_timeline_exact_witness:
  "\<exists>r. replay_load (\<lambda>s. (0, s)) ''r.json'' (snd (fold (rec_apply (file_replay_store (\<lambda>s. (0, s)) ''r.json'') id) sample_ops
       (\<lparr>rc_raw = True, rc_reasoning = False, rc_parent = None, rc_fork = None, rc_run = None\<rparr>, Map.empty))) = Inr (Some r)
    \<and> rr_id r = ''r'' \<and> contiguous (rr_steps r)
    \<and> map step_view (rr_steps r) = [(''t'', ''agent.run_started'', [(''run_id'', JStr ''r''), (''token'', JStr ''[REDACTED]'')]),
        (''u'', ''replay.snapshot'', [(''state'', state_to_dict empty_state)])]"
proof -
  have init: "recorder_init True False None None = Inr \<lparr>rc_raw = True, rc_reasoning = False, rc_parent = None, rc_fork = None, rc_run = None\<rparr>"
    by (simp add: recorder_init_def)
  have load: "replay_load (\<lambda>s. (0, s)) ''r.json'' Map.empty = Inr None" by (simp add: replay_load_def doc_load_def)
  have wf: "list_all (\<lambda>op. entry_wf (\<lambda>s. (0, s)) ''r'' (rec_entry id True False op)) sample_ops" by code_simp
  have entries: "List.map_filter (rec_entry id True False) sample_ops
      = [(''r'', ''t'', ''agent.run_started'', [(''run_id'', JStr ''r''), (''token'', JStr ''[REDACTED]'')]),
         (''r'', ''u'', ''replay.snapshot'', [(''state'', state_to_dict empty_state)])]" by code_simp
  from recorder_timeline_exact [OF init load _ _ _ _ wf] show ?thesis by (simp add: entries)
qed

section \<open>Forks, comparison, cursor\<close>

lemma last_filter_in: "filter p xs \<noteq> [] \<Longrightarrow> last (filter p xs) \<in> set xs \<and> p (last (filter p xs))"
  using last_in_set [of "filter p xs"] by auto

text \<open>A fork continues from the latest snapshot: it gives back the very state that was recorded raw.\<close>

lemma fork_restores_state:
  assumes "rr_steps r = pre @ [st] @ post" "is_snapshot st" "list_all (\<lambda>x. \<not> is_snapshot x) post"
    "rs_payload st = [(''state'', state_to_dict cs)]" "\<not> contains_redaction (state_to_dict cs)"
  shows "session_fork r None = Inr \<lparr>rb_parent = rr_id r, rb_fork = rs_sequence st, rb_state = cs\<rparr>"
proof -
  have "filter is_snapshot (rr_steps r) = filter is_snapshot pre @ [st]"
    using assms(1-3) by (auto simp: filter_empty_conv list_all_iff)
  moreover obtain d where "state_to_dict cs = JObj d" by (simp add: state_to_dict_def)
  ultimately show ?thesis
    using assms state_dict_roundtrip [of cs] by (simp add: session_fork_def Let_def)
qed

lemma compare_self: "diff_changed (compare_runs r r) = []"
  by (auto simp: diff_changed_def compare_runs_def diff_entry_def step_at_def filter_empty_conv)

definition debugger_inv :: "debugger \<Rightarrow> bool" where
  "debugger_inv d \<longleftrightarrow> -1 \<le> db_position d \<and> db_position d \<le> int (length (rr_steps (db_run d)))"

lemma debugger_moves:
  assumes "debugger_inv d"
  shows "\<exists>st d'. debugger_next d = Inr (st, d') \<and> debugger_inv d' \<and> db_run d' = db_run d"
    and "\<exists>st d'. debugger_previous d = Inr (st, d') \<and> debugger_inv d' \<and> db_run d' = db_run d"
  using assms by (auto simp: debugger_next_def debugger_previous_def debugger_seek_def debugger_inv_def Let_def)

end
