(* ===== verification/Replay_Checkpoint.thy ===== *)
theory Replay_Checkpoint
  imports Replay_Log Agent_Lifecycle
begin

text \<open>
  Durable checkpoints of a run (\<open>replay/checkpoint.py\<close>) and recorded tool doubles
  (\<open>replay/deterministic.py\<close>). The store is part of the world the agent works on, so that an agent can be
  configured with a checkpoint manager; the time is read from the world too.
\<close>

section \<open>Checkpoints (\<open>replay/checkpoint.py\<close>)\<close>

record 'w checkpointing =
  cp_store :: "'w replay_store"
  cp_scrub :: "string \<Rightarrow> string"
  cp_now :: "'w \<Rightarrow> string"

definition checkpoint_error :: "string \<Rightarrow> exn" where
  "checkpoint_error msg = Exn ''CheckpointError'' msg"

definition raw_recorder :: recorder where
  "raw_recorder = \<lparr>rc_raw = True, rc_reasoning = False, rc_parent = None, rc_fork = None, rc_run = None\<rparr>"

definition replay_event :: "string \<Rightarrow> obj \<Rightarrow> event" where
  "replay_event ty payload = \<lparr>event_type = ty, event_payload = payload, event_source = None\<rparr>"

definition checkpoint_save :: "'w checkpointing \<Rightarrow> conversation_state \<Rightarrow> string option \<Rightarrow> json \<Rightarrow> 'w \<Rightarrow> string result \<times> 'w" where
  "checkpoint_save P st rid runtime w =
     (if rid = None \<or> rid = Some [] then (Inl (checkpoint_error ''Cannot checkpoint an agent before its run has started''), w)
      else case recorder_snapshot (cp_store P) (cp_scrub P) (cp_now P w) st rid (raw_recorder, w) of
        (Inl e, rc, w1) \<Rightarrow> (Inl e, w1)
      | (Inr _, rc, w1) \<Rightarrow>
          (case recorder_handle (cp_store P) (cp_scrub P) (cp_now P w1)
              (replay_event ''replay.checkpoint'' [(''run_id'', JStr (the rid)), (''agent'', runtime)]) (rc, w1) of
             (Inl e, rc', w2) \<Rightarrow> (Inl e, w2)
           | (Inr _, rc', w2) \<Rightarrow> (Inr (the rid), w2)))"

definition is_checkpoint :: "replay_step \<Rightarrow> bool" where
  "is_checkpoint st = (rs_type st = ''replay.checkpoint'')"

definition checkpoint_data :: "string \<Rightarrow> replay_run option \<Rightarrow> (conversation_state \<times> obj) result" where
  "checkpoint_data cid replay = (case replay of
     None \<Rightarrow> Inl (checkpoint_error (''Checkpoint '' @ repr_str cid @ '' was not found''))
   | Some r \<Rightarrow>
       if rr_id r \<noteq> cid then Inl (checkpoint_error (''Checkpoint '' @ repr_str cid @ '' was not found''))
       else (case (List.find is_snapshot (rev (rr_steps r)), List.find is_checkpoint (rev (rr_steps r))) of
          (Some snapshot, Some meta) \<Rightarrow>
            (case (jget (rs_payload snapshot) ''state'', jget (rs_payload meta) ''agent'') of
               (JObj sd, JObj rt) \<Rightarrow>
                 (case state_from_dict (JObj sd) of
                    Inl e \<Rightarrow> Inl (if exn_class e \<in> {''TypeError'', ''ValueError'', ''KeyError''}
                      then checkpoint_error (''Checkpoint '' @ repr_str cid @ '' has invalid state: '' @ exn_msg e) else e)
                  | Inr st \<Rightarrow> Inr (st, rt))
             | _ \<Rightarrow> Inl (checkpoint_error (''Checkpoint '' @ repr_str cid @ '' is invalid'')))
        | _ \<Rightarrow> Inl (checkpoint_error (''Checkpoint '' @ repr_str cid @ '' is incomplete''))))"

definition checkpoint_resume :: "'w checkpointing \<Rightarrow> 'w config \<Rightarrow> int \<Rightarrow> tool list \<Rightarrow> int option \<Rightarrow> run_budget option \<Rightarrow> stuck_detector option
    \<Rightarrow> string \<Rightarrow> 'w \<Rightarrow> 'w agent result" where
  "checkpoint_resume P c mvr tools cap b sd cid w =
     bind_res (st_load (cp_store P) w) (\<lambda>replay.
     bind_res (checkpoint_data cid replay) (\<lambda>(st, rt).
     bind_res (init_agent c mvr tools w (Some st) None cap b sd) (\<lambda>a.
     bind_res (restore_checkpoint_runtime_state cid rt a) (\<lambda>a1.
       case recorder_handle (cp_store P) (cp_scrub P) (cp_now P w)
           (replay_event ''replay.resumed'' [(''run_id'', JStr cid), (''checkpoint_id'', JStr cid)]) (raw_recorder, w) of
         (Inl e, rc, w1) \<Rightarrow> Inl e
       | (Inr _, rc, w1) \<Rightarrow> Inr (a1\<lparr>a_world := w1\<rparr>)))))"

definition resume_from_confirmation :: "'w checkpointing \<Rightarrow> 'w config \<Rightarrow> 'w services \<Rightarrow> int \<Rightarrow> tool list \<Rightarrow> int option \<Rightarrow> run_budget option
    \<Rightarrow> stuck_detector option \<Rightarrow> string \<Rightarrow> bool \<Rightarrow> 'w \<Rightarrow> (string result \<times> 'w agent) result" where
  "resume_from_confirmation P c v mvr tools cap b sd cid approved w =
     bind_res (checkpoint_resume P c mvr tools cap b sd cid w) (\<lambda>a.
       case resolve_pending_confirmation c v approved a of
         (Inl e, a1) \<Rightarrow> Inr (Inl e, a1)
       | (Inr _, a1) \<Rightarrow> Inr (run c v None False None None None a1))"

section \<open>Saving and resuming\<close>

lemma raw_in_step:
  assumes "replay_load fl path w = Inr existing" "case existing of None \<Rightarrow> True | Some e \<Rightarrow> run_ok fl e" "cid \<noteq> []"
  shows "file_replay.in_step fl path cid
    (case existing of Some e \<Rightarrow> if rr_id e = cid then e else \<lparr>rr_id = cid, rr_steps = [], rr_parent = None, rr_fork = None\<rparr>
     | None \<Rightarrow> \<lparr>rr_id = cid, rr_steps = [], rr_parent = None, rr_fork = None\<rparr>) (raw_recorder, w)"
proof -
  have "run_ok fl \<lparr>rr_id = cid, rr_steps = [], rr_parent = None, rr_fork = None\<rparr>" using assms(3) by (simp add: run_ok_def contiguous_def)
  then show ?thesis
    using assms by (auto simp: file_replay.in_step_def raw_recorder_def new_run_def split: option.splits)
qed

lemma snapshot_record:
  "recorder_snapshot S scrub now st (Some r) (rc, s) = record_step S now r ''replay.snapshot''
     [(''state'', if rc_raw rc then state_to_dict st else redact_value scrub (state_to_dict st))] (rc, s)"
  by (simp add: recorder_snapshot_def)

lemma handle_record:
  "ty \<noteq> ''agent.reasoning_trace'' \<Longrightarrow> jget payload ''run_id'' = JStr r \<Longrightarrow> r \<noteq> [] \<Longrightarrow>
    recorder_handle S scrub now (replay_event ty payload) (rc, s) = record_step S now r ty (redact_obj scrub payload) (rc, s)"
  by (cases r) (simp_all add: recorder_handle_def replay_event_def)

lemma save_timeline:
  assumes P: "cp_store P = file_replay_store fl path" and load: "replay_load fl path w = Inr existing"
    and ok: "case existing of None \<Rightarrow> True | Some e \<Rightarrow> run_ok fl e" and cid: "cid \<noteq> []"
    and wf: "json_wf fl (state_to_dict st)" "json_wf fl (JObj (redact_obj (cp_scrub P) [(''run_id'', JStr cid), (''agent'', rt)]))"
  shows "\<exists>w' r pre n1 n2. checkpoint_save P st (Some cid) rt w = (Inr cid, w') \<and> replay_load fl path w' = Inr (Some r) \<and> run_ok fl r \<and> rr_id r = cid
    \<and> rr_steps r = pre @ [\<lparr>rs_sequence = int (length pre), rs_timestamp = n1, rs_type = ''replay.snapshot'', rs_payload = [(''state'', state_to_dict st)]\<rparr>,
        \<lparr>rs_sequence = int (length pre) + 1, rs_timestamp = n2, rs_type = ''replay.checkpoint'',
         rs_payload = redact_obj (cp_scrub P) [(''run_id'', JStr cid), (''agent'', rt)]\<rparr>]"
proof -
  define r0 where "r0 = (case existing of Some e \<Rightarrow> if rr_id e = cid then e else \<lparr>rr_id = cid, rr_steps = [], rr_parent = None, rr_fork = None\<rparr>
     | None \<Rightarrow> \<lparr>rr_id = cid, rr_steps = [], rr_parent = None, rr_fork = None\<rparr>)"
  let ?S = "file_replay_store fl path" and ?p1 = "[(''state'', state_to_dict st)]"
  let ?p2 = "redact_obj (cp_scrub P) [(''run_id'', JStr cid), (''agent'', rt)]"
  have s0: "file_replay.in_step fl path cid r0 (raw_recorder, w)" unfolding r0_def by (rule raw_in_step [OF load ok cid])
  obtain q1 rc1 w1 where a1: "record_step ?S (cp_now P w) cid ''replay.snapshot'' ?p1 (raw_recorder, w) = (q1, rc1, w1)" by (metis surj_pair)
  have k1: "q1 = Inr ()" "file_replay.in_step fl path cid (append_step (cp_now P w) ''replay.snapshot'' ?p1 r0) (rc1, w1)"
    using file_replay.record_in_step [OF s0 _ a1] wf(1) by (auto simp: dwf_def)
  obtain q2 rc2 w2 where a2: "record_step ?S (cp_now P w1) cid ''replay.checkpoint'' ?p2 (rc1, w1) = (q2, rc2, w2)" by (metis surj_pair)
  let ?r = "append_step (cp_now P w1) ''replay.checkpoint'' ?p2 (append_step (cp_now P w) ''replay.snapshot'' ?p1 r0)"
  have k2: "q2 = Inr ()" "file_replay.in_step fl path cid ?r (rc2, w2)" "replay_load fl path w2 = Inr (Some ?r)"
    using file_replay.record_in_step [OF k1(2) wf(2) a2] by auto
  have "checkpoint_save P st (Some cid) rt w = (Inr cid, w2)"
    using cid a1 a2 k1(1) k2(1) by (simp add: checkpoint_save_def P snapshot_record raw_recorder_def handle_record)
  moreover have "run_ok fl ?r" "rr_id ?r = cid" using k2(2) by (simp_all add: file_replay.in_step_def)
  ultimately show ?thesis using k2(3) by (intro exI [of _ w2] exI [of _ ?r]) (auto simp: append_step_def)
qed

text \<open>
  C23: a checkpoint written to the replay file resumes the same run: the rebuilt agent has the
  conversation, the routing state, the call that waits for a confirmation with its arguments and
  decision, and the remaining calls of the agent that was saved, under the same run id, and it offers
  the given tools. This holds whenever the payload of the checkpoint event has nothing to redact.
\<close>

theorem checkpoint_resumes_run:
  assumes P: "cp_store P = file_replay_store fl path" and load: "replay_load fl path w = Inr existing"
    and ok: "case existing of None \<Rightarrow> True | Some e \<Rightarrow> run_ok fl e" and cid: "a_run_id s = Some cid" "cid \<noteq> []"
    and wf: "json_wf fl (state_to_dict (a_state s))" "json_wf fl (checkpoint_runtime_state s)"
    and clean: "redact_value (cp_scrub P) (JObj [(''run_id'', JStr cid), (''agent'', checkpoint_runtime_state s)])
        = JObj [(''run_id'', JStr cid), (''agent'', checkpoint_runtime_state s)]"
    and init: "init_agent c mvr tools w0 (Some (a_state s)) None cap b sd = Inr a0"
  shows "\<exists>w' w''. checkpoint_save P (a_state s) (a_run_id s) (checkpoint_runtime_state s) w = (Inr cid, w')
    \<and> checkpoint_resume P c mvr tools cap b sd cid w' = Inr (a0\<lparr>a_world := w'', a_mode := a_mode s, a_sticky_max := a_sticky_max s,
        a_max_iterations := a_max_iterations s, a_override := a_override s, a_extended := a_extended s, a_pending := a_pending s,
        a_remaining := a_remaining s, a_run_id := Some cid, a_resuming := True\<rparr>)
    \<and> a_state a0 = a_state s \<and> map snd (a_tools a0) = tools"
proof -
  let ?p2 = "[(''run_id'', JStr cid), (''agent'', checkpoint_runtime_state s)]"
  have red: "redact_obj (cp_scrub P) ?p2 = ?p2" using clean by (simp add: redact_obj_def)
  have "json_wf fl (JObj (redact_obj (cp_scrub P) ?p2))" unfolding red using wf(2) by (simp add: dwf_def)
  from save_timeline [OF P load ok cid(2) wf(1) this] obtain w' r pre n1 n2 where
    saved: "checkpoint_save P (a_state s) (Some cid) (checkpoint_runtime_state s) w = (Inr cid, w')" "replay_load fl path w' = Inr (Some r)"
      "run_ok fl r" "rr_id r = cid" and
    steps: "rr_steps r = pre @ [\<lparr>rs_sequence = int (length pre), rs_timestamp = n1, rs_type = ''replay.snapshot'', rs_payload = [(''state'', state_to_dict (a_state s))]\<rparr>,
        \<lparr>rs_sequence = int (length pre) + 1, rs_timestamp = n2, rs_type = ''replay.checkpoint'', rs_payload = ?p2\<rparr>]"
    unfolding red by blast
  obtain sd0 where sd0: "state_to_dict (a_state s) = JObj sd0" by (simp add: state_to_dict_def)
  obtain rt where rt: "checkpoint_runtime_state s = JObj rt" by (simp add: checkpoint_runtime_state_def)
  have data: "checkpoint_data cid (Some r) = Inr (a_state s, rt)"
    using saved(4) steps sd0 rt state_dict_roundtrip [of "a_state s"]
    by (simp add: checkpoint_data_def is_snapshot_def is_checkpoint_def)
  have none: "a_pending a0 = None" "a_state a0 = a_state s" "map snd (a_tools a0) = tools"
    using init unfolding init_agent_shape by (auto simp: initial_agent_def comp_def)
  have init': "init_agent c mvr tools w' (Some (a_state s)) None cap b sd = Inr (a0\<lparr>a_world := w'\<rparr>)"
    using init unfolding init_agent_shape by (auto simp: initial_agent_def)
  have fresh: "json_wf fl (JObj (redact_obj (cp_scrub P) [(''run_id'', JStr cid), (''checkpoint_id'', JStr cid)]))"
    by (simp add: redact_obj_def dwf_def)
  have restore: "restore_checkpoint_runtime_state cid rt (a0\<lparr>a_world := w'\<rparr>) = Inr (a0\<lparr>a_world := w', a_mode := a_mode s, a_sticky_max := a_sticky_max s,
      a_max_iterations := a_max_iterations s, a_override := a_override s, a_extended := a_extended s, a_pending := a_pending s,
      a_remaining := a_remaining s, a_run_id := Some cid, a_resuming := True\<rparr>)"
    using runtime_checkpoint_roundtrip [where s = s and rid = cid and ?s0.0 = "a0\<lparr>a_world := w'\<rparr>"] rt none(1) by (cases "a_pending s") simp_all
  have "file_replay.in_step fl path cid r (raw_recorder, w')"
    using raw_in_step [OF saved(2) _ cid(2)] saved(3,4) by simp
  obtain q rc w'' where rec: "record_step (file_replay_store fl path) (cp_now P w') cid ''replay.resumed''
      (redact_obj (cp_scrub P) [(''run_id'', JStr cid), (''checkpoint_id'', JStr cid)]) (raw_recorder, w') = (q, rc, w'')" by (metis surj_pair)
  have "q = Inr ()" using file_replay.record_in_step [OF \<open>file_replay.in_step fl path cid r (raw_recorder, w')\<close> fresh rec] by simp
  then have "checkpoint_resume P c mvr tools cap b sd cid w' = Inr (a0\<lparr>a_world := w'', a_mode := a_mode s, a_sticky_max := a_sticky_max s,
        a_max_iterations := a_max_iterations s, a_override := a_override s, a_extended := a_extended s, a_pending := a_pending s,
        a_remaining := a_remaining s, a_run_id := Some cid, a_resuming := True\<rparr>)"
    using saved(1,2) data init' restore rec cid by (simp add: checkpoint_resume_def P handle_record)
  then show ?thesis using saved(1) cid(1) none by auto
qed

definition sample_checkpointing :: "files checkpointing" where
  "sample_checkpointing = \<lparr>cp_store = file_replay_store (\<lambda>s. (0, s)) ''r.json'', cp_scrub = id, cp_now = (\<lambda>w. ''now'')\<rparr>"

definition paused_config :: "files config" where
  "paused_config = \<lparr>c_bus = [], c_hooks = None, c_policy = (\<lambda>n a. Inr (sample_decision n)),
     c_execute = (\<lambda>t a w. (\<lparr>rep_outcome = ExecValue (JStr ''ok''), rep_duration = 0, rep_late = False\<rparr>, w)),
     c_slot_free = (\<lambda>i w. True), c_schedule = (\<lambda>i. i), c_clock = (\<lambda>w. 0), c_sleep = (\<lambda>r w. w),
     c_stamp = (\<lambda>w. ((''id'', ''now''), w)), c_audit = (\<lambda>e w. (Inr (), w)), c_cancelled = (\<lambda>w. False),
     c_checkpoint = Some (\<lambda>st rid rt w. case checkpoint_save sample_checkpointing st rid rt w of (Inl e, w') \<Rightarrow> (Inl e, w') | (Inr x, w') \<Rightarrow> (Inr (), w')),
     c_redact = (\<lambda>s. []), c_sha = (\<lambda>s. s), c_float_repr = (\<lambda>r. ''0.0''), c_tool_timeout = None, c_validate = True, c_parallel = True,
     c_max_transient_retries = 2, c_backoff = 0, c_guard = False\<rparr>"

definition paused_agent :: "files agent" where
  "paused_agent = (initial_agent Map.empty (Some (empty_state\<lparr>messages := [user_message ''go'']\<rparr>)) None (Some 7) None None)
     \<lparr>a_tools := [(''echo'', sample_tool)], a_run_id := Some ''r'', a_pending := Some (sample_call ''1'' ''echo'' [(''x'', JInt 1)], [(''x'', JInt 1)],
        \<lparr>allowed = True, reason = ''ask'', requires_confirmation = True\<rparr>), a_remaining := [sample_call ''1'' ''echo'' [(''x'', JInt 1)]]\<rparr>"

definition rebuilt_agent :: "files agent" where
  "rebuilt_agent = initial_agent Map.empty (Some (a_state paused_agent)) None None None None\<lparr>a_tools := [(tool_name sample_tool, sample_tool)]\<rparr>"

theorem checkpoint_resumes_run_witness:
  "\<exists>w' w''. checkpoint_save sample_checkpointing (a_state paused_agent) (Some ''r'') (checkpoint_runtime_state paused_agent) Map.empty = (Inr ''r'', w')
    \<and> checkpoint_resume sample_checkpointing paused_config 0 [sample_tool] None None None ''r'' w' = Inr (rebuilt_agent\<lparr>a_world := w'', a_mode := Mode_MAX,
        a_sticky_max := False, a_max_iterations := 7, a_override := Some 7, a_extended := True, a_pending := a_pending paused_agent,
        a_remaining := a_remaining paused_agent, a_run_id := Some ''r'', a_resuming := True\<rparr>)
    \<and> a_state rebuilt_agent = a_state paused_agent \<and> map snd (a_tools rebuilt_agent) = [sample_tool]"
proof -
  have P: "cp_store sample_checkpointing = file_replay_store (\<lambda>s. (0, s)) ''r.json''" by (simp add: sample_checkpointing_def)
  have load: "replay_load (\<lambda>s. (0, s)) ''r.json'' Map.empty = Inr None" by (simp add: replay_load_def doc_load_def)
  have rid: "a_run_id paused_agent = Some ''r''" by (simp add: paused_agent_def)
  have wf: "json_wf (\<lambda>s. (0, s)) (state_to_dict (a_state paused_agent))" "json_wf (\<lambda>s. (0, s)) (checkpoint_runtime_state paused_agent)" by code_simp+
  have clean: "redact_value (cp_scrub sample_checkpointing) (JObj [(''run_id'', JStr ''r''), (''agent'', checkpoint_runtime_state paused_agent)])
      = JObj [(''run_id'', JStr ''r''), (''agent'', checkpoint_runtime_state paused_agent)]" by code_simp
  have init: "init_agent paused_config 0 [sample_tool] Map.empty (Some (a_state paused_agent)) None None None None = Inr rebuilt_agent"
    by (simp add: init_agent_shape paused_config_def rebuilt_agent_def)
  have fields: "a_mode paused_agent = Mode_MAX" "\<not> a_sticky_max paused_agent" "a_max_iterations paused_agent = 7" "a_override paused_agent = Some 7"
    "a_extended paused_agent" by (simp_all add: paused_agent_def initial_agent_def)
  from checkpoint_resumes_run [OF P load _ rid _ wf clean init] show ?thesis by (simp add: rid fields)
qed

text \<open>
  The checkpoint event goes through the recorder like any other event, so its payload is redacted: the
  arguments of a call that waits for a confirmation come back changed when they hold something sensitive.
\<close>

lemma checkpoint_redacts_arguments:
  assumes "a_pending s = Some (call, [(''token'', JStr x)], d)"
  shows "\<exists>rt p. redact_value scrub (checkpoint_runtime_state s) = JObj rt \<and> jget rt ''pending_confirmation'' = JObj p
    \<and> jget p ''arguments'' = JObj [(''token'', JStr REDACTED)]"
proof -
  have "sensitive_key ''token''" by code_simp
  then show ?thesis using assms by (simp add: checkpoint_runtime_state_def)
qed

end
