(* ===== verification/Replay_Tools.thy ===== *)
theory Replay_Tools
  imports Replay_Log
begin

text \<open>
  Recorded tool doubles (\<open>replay/deterministic.py\<close>): the calls of a recorded run, extracted from its raw
  snapshots, and tools that answer from the recording instead of acting.
\<close>

record recorded_call =
  rec_name :: string
  rec_arguments :: obj
  rec_result :: tool_result

record replay_tool =
  rt_name :: string
  rt_calls :: "recorded_call list"
  rt_strict :: bool

definition replay_execute :: "obj \<Rightarrow> replay_tool \<Rightarrow> tool_result \<times> replay_tool" where
  "replay_execute params t = (case rt_calls t of
     [] \<Rightarrow> (err_result (''No recorded result remains for tool '' @ repr_str (rt_name t)), t)
   | r # rest \<Rightarrow>
       (let t' = t\<lparr>rt_calls := rest\<rparr> in
        if rt_strict t \<and> \<not> py_eq (JObj (rec_arguments r)) (JObj params)
        then (err_result (''Recorded input mismatch for tool '' @ repr_str (rt_name t) @ '': expected '' @ py_repr (JObj (rec_arguments r))
                @ '', got '' @ py_repr (JObj params)), t')
        else (rec_result r, t')))"

definition result_of_block :: "float_conv \<Rightarrow> obj \<Rightarrow> tool_result" where
  "result_of_block fl b =
     (let content = jget b ''content'' in
      if truthy (jget b ''is_error'')
      then (case (case content of JStr s \<Rightarrow> json_loads fl s | _ \<Rightarrow> None) of
          Some (JObj d) \<Rightarrow> (case jget d ''error'' of JStr e \<Rightarrow> err_result e | _ \<Rightarrow> err_result (py_str content))
        | _ \<Rightarrow> err_result (py_str content))
      else ok_result content)"

type_synonym call_defs = "(string, string \<times> obj) dict"

definition add_call_def :: "json \<Rightarrow> call_defs \<Rightarrow> call_defs" where
  "add_call_def b defs = (case b of
     JObj d \<Rightarrow> if jget d ''type'' = JStr ''tool_use'' then
         (case (jget d ''id'', jget d ''name'', jget d ''input'') of
            (JStr i, JStr n, JObj a) \<Rightarrow> dset defs i (n, a)
          | _ \<Rightarrow> defs)
       else defs
   | _ \<Rightarrow> defs)"

definition add_call_result :: "float_conv \<Rightarrow> json \<Rightarrow> (string, tool_result) dict \<Rightarrow> (string, tool_result) dict" where
  "add_call_result fl b results = (case b of
     JObj d \<Rightarrow> if jget d ''type'' = JStr ''tool_result'' then
         (case jget d ''tool_use_id'' of
            JStr i \<Rightarrow> if dhas results i then results else dset results i (result_of_block fl d)
          | _ \<Rightarrow> results)
       else results
   | _ \<Rightarrow> results)"

definition scan_message :: "float_conv \<Rightarrow> message \<Rightarrow> call_defs \<times> (string, tool_result) dict \<Rightarrow> call_defs \<times> (string, tool_result) dict" where
  "scan_message fl m = (\<lambda>(defs, results). (case jget m ''content'' of
     JArr bs \<Rightarrow>
       (if jget m ''role'' = JStr ''assistant'' then fold add_call_def bs defs else defs,
        if jget m ''role'' = JStr ''user'' then fold (add_call_result fl) bs results else results)
   | _ \<Rightarrow> (defs, results)))"

definition redacted_error :: exn where
  "redacted_error = Exn ''DeterministicReplayError'' ''Replay contains redacted snapshots; record with capture_raw_snapshots=True in protected storage to replay tools''"

definition scan_step :: "float_conv \<Rightarrow> replay_step \<Rightarrow> call_defs \<times> (string, tool_result) dict \<Rightarrow> (call_defs \<times> (string, tool_result) dict) result" where
  "scan_step fl st acc =
     (if \<not> is_snapshot st then Inr acc
      else case jget (rs_payload st) ''state'' of
        JObj d \<Rightarrow> if contains_redaction (JObj d) then Inl redacted_error
           else bind_res (state_from_dict (JObj d)) (\<lambda>cs. Inr (fold (scan_message fl) (messages cs) acc))
      | _ \<Rightarrow> Inr acc)"

fun scan_steps :: "float_conv \<Rightarrow> replay_step list \<Rightarrow> call_defs \<times> (string, tool_result) dict \<Rightarrow> (call_defs \<times> (string, tool_result) dict) result" where
  "scan_steps fl [] acc = Inr acc"
| "scan_steps fl (st # sts) acc = bind_res (scan_step fl st acc) (scan_steps fl sts)"

definition recorded_calls :: "call_defs \<times> (string, tool_result) dict \<Rightarrow> recorded_call list" where
  "recorded_calls = (\<lambda>(defs, results). List.map_filter (\<lambda>(i, n, a). map_option (\<lambda>r. \<lparr>rec_name = n, rec_arguments = a, rec_result = r\<rparr>) (dget results i)) defs)"

definition from_replay :: "float_conv \<Rightarrow> replay_run \<Rightarrow> recorded_call list result" where
  "from_replay fl r = bind_res (scan_steps fl (rr_steps r) ([], [])) (\<lambda>acc. Inr (recorded_calls acc))"

definition replay_tools :: "bool \<Rightarrow> recorded_call list \<Rightarrow> replay_tool list" where
  "replay_tools strict calls = map (\<lambda>n. \<lparr>rt_name = n, rt_calls = filter (\<lambda>r. rec_name r = n) calls, rt_strict = strict\<rparr>)
     (rev (remdups (rev (map rec_name calls))))"

section \<open>Replaying\<close>

fun replay_all :: "obj list \<Rightarrow> replay_tool \<Rightarrow> tool_result list \<times> replay_tool" where
  "replay_all [] t = ([], t)"
| "replay_all (p # ps) t = (case replay_execute p t of (r, t1) \<Rightarrow> case replay_all ps t1 of (rs, t2) \<Rightarrow> (r # rs, t2))"

lemma py_eq_refl: "json_wf fl v \<Longrightarrow> py_eq v v"
proof (induction v)
  case (JArr xs)
  then show ?case by (auto simp: list_all_iff list_all2_conv_all_nth)
next
  case (JObj d)
  have "dget d k = Some v" if "(k, v) \<in> set d" for k v
    using JObj.prems that by (simp add: dget_def dwf_def)
  then show ?case using JObj by (fastforce simp: list_all_iff)
qed auto

text \<open>Asked again with what was recorded, a tool double gives exactly the recorded results, in order, and then none.\<close>

lemma replay_exact:
  assumes "list_all (\<lambda>r. json_wf fl (JObj (rec_arguments r))) (rt_calls t)"
  shows "replay_all (map rec_arguments (rt_calls t)) t = (map rec_result (rt_calls t), t\<lparr>rt_calls := []\<rparr>)"
  using assms
proof (induction "rt_calls t" arbitrary: t)
  case Nil
  then show ?case by (metis (no_types, lifting) list.simps(8) replay_all.simps(1) replay_tool.surjective replay_tool.update_convs(2) replay_tool.select_convs(2))
next
  case (Cons r rest)
  let ?t = "t\<lparr>rt_calls := rest\<rparr>"
  have "py_eq (JObj (rec_arguments r)) (JObj (rec_arguments r))"
    using Cons.prems unfolding Cons.hyps(2) [symmetric] by (intro py_eq_refl [of fl]) simp
  then have "replay_execute (rec_arguments r) t = (rec_result r, ?t)"
    by (simp add: replay_execute_def Cons.hyps(2) [symmetric])
  moreover have "replay_all (map rec_arguments rest) ?t = (map rec_result rest, ?t\<lparr>rt_calls := []\<rparr>)"
    using Cons.hyps(1) [of ?t] Cons.prems unfolding Cons.hyps(2) [symmetric] by simp
  ultimately show ?case unfolding Cons.hyps(2) [symmetric] by simp
qed

section \<open>What is extracted\<close>

text \<open>The reference: the tool uses of a history in order, and the first result given for an id.\<close>

definition use_of :: "json \<Rightarrow> (string \<times> string \<times> obj) option" where
  "use_of b = (case b of
     JObj d \<Rightarrow> if jget d ''type'' = JStr ''tool_use'' then
         (case (jget d ''id'', jget d ''name'', jget d ''input'') of (JStr i, JStr n, JObj a) \<Rightarrow> Some (i, n, a) | _ \<Rightarrow> None)
       else None
   | _ \<Rightarrow> None)"

definition result_at :: "float_conv \<Rightarrow> json \<Rightarrow> (string \<times> tool_result) option" where
  "result_at fl b = (case b of
     JObj d \<Rightarrow> if jget d ''type'' = JStr ''tool_result'' then
         (case jget d ''tool_use_id'' of JStr i \<Rightarrow> Some (i, result_of_block fl d) | _ \<Rightarrow> None)
       else None
   | _ \<Rightarrow> None)"

definition blocks_by :: "string \<Rightarrow> message \<Rightarrow> json list" where
  "blocks_by role m = (case jget m ''content'' of JArr bs \<Rightarrow> if jget m ''role'' = JStr role then bs else [] | _ \<Rightarrow> [])"

definition history_uses :: "message list \<Rightarrow> (string \<times> string \<times> obj) list" where
  "history_uses ms = List.map_filter use_of (concat (map (blocks_by ''assistant'') ms))"

definition history_results :: "float_conv \<Rightarrow> message list \<Rightarrow> (string \<times> tool_result) list" where
  "history_results fl ms = List.map_filter (result_at fl) (concat (map (blocks_by ''user'') ms))"

definition answered_calls :: "float_conv \<Rightarrow> message list \<Rightarrow> recorded_call list" where
  "answered_calls fl ms = List.map_filter (\<lambda>(i, n, a). map_option (\<lambda>r. \<lparr>rec_name = n, rec_arguments = a, rec_result = r\<rparr>)
     (map_of (history_results fl ms) i)) (history_uses ms)"

lemma fold_defs: "fold add_call_def bs defs = fold (\<lambda>(i, x) d. dset d i x) (List.map_filter use_of bs) defs"
  by (induction bs arbitrary: defs)
    (auto simp: List.map_filter_simps add_call_def_def use_of_def split: json.splits option.split)

lemma fold_results:
  "dget (fold (add_call_result fl) bs acc) i = (case dget acc i of Some r \<Rightarrow> Some r | None \<Rightarrow> map_of (List.map_filter (result_at fl) bs) i)"
proof (induction bs arbitrary: acc)
  case (Cons b bs)
  have "dget (add_call_result fl b acc) i = (case dget acc i of Some r \<Rightarrow> Some r
      | None \<Rightarrow> (case result_at fl b of Some (j, r) \<Rightarrow> if i = j then Some r else None | None \<Rightarrow> None))"
    by (auto simp: add_call_result_def result_at_def dhas_dget split: json.splits option.splits)
  then show ?case unfolding fold_Cons comp_def Cons.IH
    by (auto simp: List.map_filter_simps split: option.splits)
qed (simp add: List.map_filter_simps split: option.split)

lemma scan_messages:
  assumes "fold (scan_message fl) ms (defs, results) = (defs', results')"
  shows "defs' = fold (\<lambda>(i, x) d. dset d i x) (history_uses ms) defs"
    and "dget results' i = (case dget results i of Some r \<Rightarrow> Some r | None \<Rightarrow> map_of (history_results fl ms) i)"
proof -
  have "defs' = fold (\<lambda>(i, x) d. dset d i x) (history_uses ms) defs
    \<and> dget results' i = (case dget results i of Some r \<Rightarrow> Some r | None \<Rightarrow> map_of (history_results fl ms) i)"
    using assms
  proof (induction ms arbitrary: defs results)
    case (Cons m ms)
    obtain d r where m: "scan_message fl m (defs, results) = (d, r)" by force
    have "d = fold (\<lambda>(i, x) d. dset d i x) (List.map_filter use_of (blocks_by ''assistant'' m)) defs"
      "dget r i = (case dget results i of Some x \<Rightarrow> Some x | None \<Rightarrow> map_of (List.map_filter (result_at fl) (blocks_by ''user'' m)) i)"
      using m by (auto simp: scan_message_def blocks_by_def fold_defs fold_results List.map_filter_simps split: json.splits option.split if_splits)
    then show ?case
      using Cons.IH [of d r] Cons.prems m
      by (auto simp: history_uses_def history_results_def map_filter_append map_add_def split: option.splits)
  qed (auto simp: history_uses_def history_results_def List.map_filter_simps split: option.split)
  then show "defs' = fold (\<lambda>(i, x) d. dset d i x) (history_uses ms) defs"
    and "dget results' i = (case dget results i of Some r \<Rightarrow> Some r | None \<Rightarrow> map_of (history_results fl ms) i)" by simp_all
qed

lemma dset_same: "dget d k = Some v \<Longrightarrow> dset d k v = d"
  by (induction d k v rule: dset.induct) (auto split: if_splits)

lemma fold_dset_prefix:
  assumes "prefix p u" "dwf u"
  shows "fold (\<lambda>(i, x) d. dset d i x) u p = u"
proof -
  obtain q where u: "u = p @ q" using assms(1) by (auto simp: prefix_def)
  have same: "fold (\<lambda>(i, x) d. dset d i x) xs p = p" if "set xs \<subseteq> set p" "dwf p" for xs
    using that by (induction xs) (auto simp: dset_same dget_def dwf_def)
  have new: "fold (\<lambda>(i, x) d. dset d i x) xs a = a @ xs" if "dwf (a @ xs)" for xs a
    using that
  proof (induction xs arbitrary: a)
    case (Cons y xs)
    obtain i x where y: "y = (i, x)" by force
    have "dset a i x = a @ [(i, x)]" using Cons.prems y by (intro dset_fresh) (auto simp: dwf_def dhas_def)
    then show ?case using Cons.IH [of "a @ [y]"] Cons.prems y by simp
  qed simp
  have "dwf p" using assms(2) u by (simp add: dwf_def)
  then show ?thesis using same [of p] new [of p q] assms(2) u by simp
qed

text \<open>The snapshots of a run whose history only grows, the last one being \<open>ms\<close>.\<close>

fun growing :: "replay_step list \<Rightarrow> message list \<Rightarrow> message list \<Rightarrow> bool" where
  "growing [] seen ms = (seen = ms)"
| "growing (st # sts) seen ms = (if \<not> is_snapshot st then growing sts seen ms
     else \<exists>cs. jget (rs_payload st) ''state'' = state_to_dict cs \<and> \<not> contains_redaction (state_to_dict cs)
       \<and> prefix seen (messages cs) \<and> growing sts (messages cs) ms)"

lemma growing_prefix: "growing sts seen ms \<Longrightarrow> prefix seen ms"
  by (induction sts seen ms rule: growing.induct) (auto split: if_splits dest: prefix_order.trans)

lemma uses_prefix: "prefix ms ns \<Longrightarrow> prefix (history_uses ms) (history_uses ns)"
  by (auto simp: prefix_def history_uses_def map_filter_append)

lemma scan_growing:
  assumes "growing sts seen ms" "dwf (history_uses ms)" "defs = history_uses seen" "\<And>i. dget results i = map_of (history_results fl seen) i"
  shows "\<exists>results'. scan_steps fl sts (defs, results) = Inr (history_uses ms, results') \<and> (\<forall>i. dget results' i = map_of (history_results fl ms) i)"
  using assms
proof (induction sts arbitrary: seen defs results)
  case (Cons st sts)
  show ?case
  proof (cases "is_snapshot st")
    case False
    then show ?thesis using Cons by (simp add: scan_step_def)
  next
    case True
    then obtain cs where cs: "jget (rs_payload st) ''state'' = state_to_dict cs" "\<not> contains_redaction (state_to_dict cs)"
      "prefix seen (messages cs)" "growing sts (messages cs) ms" using Cons.prems(1) by auto
    obtain d where d: "state_to_dict cs = JObj d" by (simp add: state_to_dict_def)
    obtain defs' results' where f: "fold (scan_message fl) (messages cs) (defs, results) = (defs', results')" by force
    have "prefix (history_uses (messages cs)) (history_uses ms)" by (rule uses_prefix [OF growing_prefix [OF cs(4)]])
    then have "dwf (history_uses (messages cs))" using Cons.prems(2) by (auto simp: prefix_def dwf_def)
    then have defs': "defs' = history_uses (messages cs)"
      using scan_messages(1) [OF f] fold_dset_prefix [OF uses_prefix [OF cs(3)]] Cons.prems(3) by simp
    have "history_results fl (messages cs) = history_results fl seen @ q" if "messages cs = seen @ qs" "q = history_results fl qs" for q qs
      using that by (simp add: history_results_def map_filter_append)
    then obtain q where "history_results fl (messages cs) = history_results fl seen @ q" using cs(3) by (auto simp: prefix_def)
    then have res': "dget results' i = map_of (history_results fl (messages cs)) i" for i
      using scan_messages(2) [OF f, of i] Cons.prems(4) [of i] by (auto simp: map_add_def split: option.splits)
    have "scan_step fl st (defs, results) = Inr (defs', results')"
      using True cs(1,2) d state_dict_roundtrip [of cs] f by (simp add: scan_step_def)
    then show ?thesis using Cons.IH [OF cs(4) Cons.prems(2) defs' res'] by simp
  qed
qed (simp add: scan_step_def)

text \<open>
  the doubles of a recorded run repeat it: what is extracted from raw snapshots of a growing history
  is exactly the list of answered tool uses of its last snapshot, in order, each with its arguments and the
  first result given under its id, however many snapshots repeat it.
\<close>

theorem replay_extracts_history:
  assumes "growing (rr_steps r) [] ms" "dwf (history_uses ms)"
  shows "from_replay fl r = Inr (answered_calls fl ms)"
proof -
  have "\<exists>results. scan_steps fl (rr_steps r) ([], []) = Inr (history_uses ms, results) \<and> (\<forall>i. dget results i = map_of (history_results fl ms) i)"
    by (rule scan_growing [OF assms]) (simp_all add: history_uses_def history_results_def List.map_filter_simps)
  then show ?thesis by (auto simp: from_replay_def recorded_calls_def answered_calls_def)
qed

definition tool_turns :: "message list" where
  "tool_turns =
     [user_message ''go'',
      assistant_message (JArr [JObj [(''type'', JStr ''tool_use''), (''id'', JStr ''a''), (''name'', JStr ''ls''), (''input'', JObj [])]]),
      tool_result_message ''a'' (JStr ''1'') False]"

definition sample_replay :: replay_run where
  "sample_replay = \<lparr>rr_id = ''r'', rr_steps =
     [\<lparr>rs_sequence = 0, rs_timestamp = ''t'', rs_type = ''agent.run_started'', rs_payload = []\<rparr>,
      \<lparr>rs_sequence = 1, rs_timestamp = ''t'', rs_type = ''replay.snapshot'', rs_payload = [(''state'', state_to_dict (empty_state\<lparr>messages := take 1 tool_turns\<rparr>))]\<rparr>,
      \<lparr>rs_sequence = 2, rs_timestamp = ''t'', rs_type = ''replay.snapshot'', rs_payload = [(''state'', state_to_dict (empty_state\<lparr>messages := tool_turns\<rparr>))]\<rparr>],
     rr_parent = None, rr_fork = None\<rparr>"

theorem replay_extracts_history_witness:
  "from_replay (\<lambda>s. (0, s)) sample_replay = Inr [\<lparr>rec_name = ''ls'', rec_arguments = [], rec_result = ok_result (JStr ''1'')\<rparr>]"
proof -
  have clean: "\<not> contains_redaction (state_to_dict (empty_state\<lparr>messages := take 1 tool_turns\<rparr>))"
    "\<not> contains_redaction (state_to_dict (empty_state\<lparr>messages := tool_turns\<rparr>))" by code_simp+
  have "growing (rr_steps sample_replay) [] tool_turns"
    using clean by (simp add: sample_replay_def is_snapshot_def, intro exI [of _ "empty_state\<lparr>messages := take (Suc 0) tool_turns\<rparr>"] conjI
        exI [of _ "empty_state\<lparr>messages := tool_turns\<rparr>"]) (simp_all add: take_is_prefix)
  moreover have "dwf (history_uses tool_turns)" by code_simp
  moreover have "answered_calls (\<lambda>s. (0, s)) tool_turns = [\<lparr>rec_name = ''ls'', rec_arguments = [], rec_result = ok_result (JStr ''1'')\<rparr>]" by code_simp
  ultimately show ?thesis using replay_extracts_history by metis
qed

end
