(* ===== verification/Memory_Store.thy ===== *)
theory Memory_Store
  imports Json_Document Tool_Model "HOL-Library.Product_Lexorder" "HOL-Library.Multiset"
begin

text \<open>
  Long-term memory: the entries and the keyword relevance of \<open>memory/provider.py\<close>, the process-local
  store of \<open>memory/inmemory.py\<close>, the vector store of \<open>memory/vector.py\<close>, the JSON file of
  \<open>memory/json_file.py\<close> and the three tools of \<open>memory/tool.py\<close>. The \<open>datetime\<close> module, the random
  identifiers, the embedding backend and the square sqr of floats are arguments; a score is a rational.
\<close>

section \<open>Entries (\<open>memory/provider.py\<close>)\<close>

datatype memory_tier = WORKING | EPISODIC | PERSISTENT

datatype memory_source = UNKNOWN | USER_INPUT | TOOL_RESULT | LLM_INFERENCE

fun tier_name :: "memory_tier \<Rightarrow> string" where
  "tier_name WORKING = ''working''"
| "tier_name EPISODIC = ''episodic''"
| "tier_name PERSISTENT = ''persistent''"

fun source_name :: "memory_source \<Rightarrow> string" where
  "source_name UNKNOWN = ''unknown''"
| "source_name USER_INPUT = ''user_input''"
| "source_name TOOL_RESULT = ''tool_result''"
| "source_name LLM_INFERENCE = ''llm_inference''"

text \<open>The stop words that can be written in the characters of the model, and the token class there.\<close>

definition stopwords :: "string list" where
  "stopwords = [''the'', ''a'', ''an'', ''and'', ''or'', ''of'', ''to'', ''in'', ''on'', ''for'', ''with'',
     ''is'', ''are'', ''was'', ''were'', ''be'', ''it'', ''its'', ''this'', ''that'',
     [CHR ''v'', CHR 0xE0], [CHR ''l'', CHR 0xE0], ''cho'', ''trong'', [CHR ''c'', CHR 0xE1, CHR ''c'']]"

definition token_char :: "char \<Rightarrow> bool" where
  "token_char c \<longleftrightarrow> (let n = code_of c in (0x30 \<le> n \<and> n \<le> 0x39) \<or> (0x41 \<le> n \<and> n \<le> 0x5A) \<or> (0x61 \<le> n \<and> n \<le> 0x7A)
     \<or> n = 0x5F \<or> 0xC0 \<le> n)"

fun token_runs :: "string \<Rightarrow> string \<Rightarrow> string list" where
  "token_runs run [] = (if run = [] then [] else [rev run])"
| "token_runs run (c # cs) =
     (if token_char c then token_runs (c # run) cs
      else if run = [] then token_runs [] cs
      else rev run # token_runs [] cs)"

definition tokens :: "string \<Rightarrow> string set" where
  "tokens text_in = set (filter (\<lambda>w. w \<notin> set stopwords \<and> length w > 1) (token_runs [] (py_lower text_in)))"

definition relevance :: "string \<Rightarrow> string \<Rightarrow> rat" where
  "relevance query entry_text =
     (let q = tokens query in if q = {} then 0 else of_nat (card (q \<inter> tokens entry_text)) / of_nat (card q))"

record memory_entry =
  me_id :: string
  me_text :: string
  me_metadata :: obj
  me_created_at :: string
  me_tier :: memory_tier
  me_source :: memory_source
  me_expires_at :: "string option"

text \<open>
  What is used of \<open>datetime\<close>: the present instant, its ISO text, the ISO text of an instant a number of seconds
  after another, and the instant an ISO text names (\<open>None\<close> where \<open>fromisoformat\<close> raises \<open>ValueError\<close>; a text without
  an offset is read as UTC, which is what \<open>is_expired\<close> makes of it).
\<close>

record clock =
  cl_now :: rat
  cl_iso :: string
  cl_after :: "string \<Rightarrow> rat \<Rightarrow> string result"
  cl_parse :: "string \<Rightarrow> rat option"

definition memory_error :: "string \<Rightarrow> 'a result" where
  "memory_error m = Inl (Exn ''MemoryError'' m)"

definition expiry_iso :: "clock \<Rightarrow> json \<Rightarrow> string \<Rightarrow> string option result" where
  "expiry_iso cl ttl created = (case ttl of
     JNull \<Rightarrow> Inr None
   | JBool b \<Rightarrow> memory_error ''ttl_seconds must be a non-negative number or None''
   | _ \<Rightarrow> (case num_val ttl of
        None \<Rightarrow> memory_error ''ttl_seconds must be a non-negative number or None''
      | Some x \<Rightarrow> if x < 0 then memory_error ''ttl_seconds must be a non-negative number or None''
                 else bind_res (cl_after cl created x) (\<lambda>t. Inr (Some t))))"

definition replace_z :: "string \<Rightarrow> string" where
  "replace_z s = concat (map (\<lambda>c. if c = CHR ''Z'' then ''+00:00'' else [c]) s)"

definition is_expired :: "clock \<Rightarrow> memory_entry \<Rightarrow> bool" where
  "is_expired cl e = (case me_expires_at e of
     None \<Rightarrow> False
   | Some t \<Rightarrow> (case cl_parse cl (replace_z t) of None \<Rightarrow> True | Some x \<Rightarrow> x \<le> cl_now cl))"

definition matches_scope :: "memory_entry \<Rightarrow> obj option \<Rightarrow> bool" where
  "matches_scope e scope = (case scope of
     None \<Rightarrow> True
   | Some kvs \<Rightarrow> list_all (\<lambda>(k, v). py_eq (jget (me_metadata e) k) v) kvs)"

definition in_tiers :: "memory_entry \<Rightarrow> memory_tier list option \<Rightarrow> bool" where
  "in_tiers e tiers = (case tiers of None \<Rightarrow> True | Some ts \<Rightarrow> me_tier e \<in> set ts)"

section \<open>The process-local store (\<open>memory/inmemory.py\<close>)\<close>

type_synonym memory = "memory_entry list"

definition new_entry :: "clock \<Rightarrow> string \<Rightarrow> string \<Rightarrow> obj \<Rightarrow> memory_tier \<Rightarrow> memory_source \<Rightarrow> json \<Rightarrow> memory_entry result" where
  "new_entry cl uid content meta tier source ttl =
     (if is_blank content then memory_error ''memory text must be a non-empty string''
      else bind_res (expiry_iso cl ttl (cl_iso cl)) (\<lambda>expires.
        Inr \<lparr>me_id = uid, me_text = content, me_metadata = meta, me_created_at = cl_iso cl, me_tier = tier,
             me_source = source, me_expires_at = expires\<rparr>))"

definition memory_add :: "clock \<Rightarrow> string \<Rightarrow> string \<Rightarrow> obj \<Rightarrow> memory_tier \<Rightarrow> memory_source \<Rightarrow> json \<Rightarrow> memory \<Rightarrow> memory_entry result \<times> memory" where
  "memory_add cl uid content meta tier source ttl m =
     (case new_entry cl uid content meta tier source ttl of
        Inl e \<Rightarrow> (Inl e, m)
      | Inr entry \<Rightarrow> (Inr entry, m @ [entry]))"

definition memory_all :: "clock \<Rightarrow> memory_tier list option \<Rightarrow> obj option \<Rightarrow> bool \<Rightarrow> memory \<Rightarrow> memory" where
  "memory_all cl tiers scope include_expired m =
     filter (\<lambda>e. in_tiers e tiers \<and> matches_scope e scope \<and> (include_expired \<or> \<not> is_expired cl e)) m"

text \<open>A stable sort by score and position in descending order, the positive scores of it, the first \<open>limit\<close> of those.\<close>

definition ranked :: "int \<Rightarrow> (rat \<times> nat \<times> 'e) list \<Rightarrow> 'e list" where
  "ranked limit scored =
     take (nat limit) (map (\<lambda>(s, i, e). e) (filter (\<lambda>(s, i, e). s > 0)
       (rev (sort_key (\<lambda>(s, i, e). (s, i)) (rev scored)))))"

definition memory_search :: "clock \<Rightarrow> string \<Rightarrow> int \<Rightarrow> memory_tier list option \<Rightarrow> obj option \<Rightarrow> bool \<Rightarrow> memory \<Rightarrow> memory" where
  "memory_search cl query limit tiers scope include_expired m =
     (if limit \<le> 0 then []
      else ranked limit (map (\<lambda>(i, e). (relevance query (me_text e), i, e))
             (enumerate 0 (memory_all cl tiers scope include_expired m))))"

definition memory_clear :: "obj option \<Rightarrow> memory_tier list option \<Rightarrow> memory \<Rightarrow> memory" where
  "memory_clear scope tiers m = filter (\<lambda>e. \<not> (in_tiers e tiers \<and> matches_scope e scope)) m"

definition memory_delete :: "string \<Rightarrow> memory \<Rightarrow> bool \<times> memory" where
  "memory_delete eid m = (let kept = filter (\<lambda>e. me_id e \<noteq> eid) m in (length kept \<noteq> length m, kept))"

definition memory_purge :: "clock \<Rightarrow> memory \<Rightarrow> nat \<times> memory" where
  "memory_purge cl m = (let kept = filter (\<lambda>e. \<not> is_expired cl e) m in (length m - length kept, kept))"

section \<open>The vector store (\<open>memory/vector.py\<close>)\<close>

text \<open>The two parallel lists of the class are one list of pairs; an embedding that failed is \<open>None\<close>.\<close>

type_synonym vector = "rat list"
type_synonym embedder = "string list \<Rightarrow> vector list result"
type_synonym vector_memory = "(memory_entry \<times> vector option) list"

definition embed_one :: "embedder \<Rightarrow> string \<Rightarrow> vector result" where
  "embed_one emb content = bind_res (emb [content]) (\<lambda>vs. case vs of
     [v] \<Rightarrow> if v = [] then memory_error ''embedding backend returned malformed vector'' else Inr v
   | _ \<Rightarrow> memory_error ''embedding backend returned malformed vector'')"

definition cosine :: "(rat \<Rightarrow> rat) \<Rightarrow> vector \<Rightarrow> vector \<Rightarrow> rat" where
  "cosine sqr l r = (if length l \<noteq> length r then 0 else
     let d = sqr (sum_list (map (\<lambda>v. v * v) l)) * sqr (sum_list (map (\<lambda>v. v * v) r))
     in if d = 0 then 0 else sum_list (map2 (*) l r) / d)"

definition vector_add :: "embedder \<Rightarrow> clock \<Rightarrow> string \<Rightarrow> string \<Rightarrow> obj \<Rightarrow> memory_tier \<Rightarrow> memory_source \<Rightarrow> json \<Rightarrow> vector_memory \<Rightarrow> memory_entry result \<times> vector_memory" where
  "vector_add emb cl uid content meta tier source ttl m =
     (case new_entry cl uid content meta tier source ttl of
        Inl e \<Rightarrow> (Inl e, m)
      | Inr entry \<Rightarrow> (Inr entry, m @ [(entry, case embed_one emb content of Inl e \<Rightarrow> None | Inr v \<Rightarrow> Some v)]))"

definition vector_search :: "(rat \<Rightarrow> rat) \<Rightarrow> embedder \<Rightarrow> clock \<Rightarrow> string \<Rightarrow> int \<Rightarrow> memory_tier list option \<Rightarrow> obj option \<Rightarrow> bool \<Rightarrow> vector_memory \<Rightarrow> memory" where
  "vector_search sqr emb cl query limit tiers scope include_expired m =
     (if limit \<le> 0 then []
      else case embed_one emb query of
          Inl e \<Rightarrow> []
        | Inr q \<Rightarrow> ranked limit (map (\<lambda>(i, e, v). (case v of Some x \<Rightarrow> cosine sqr q x | None \<Rightarrow> 0, i, e))
            (filter (\<lambda>(i, e, v). v \<noteq> None \<and> in_tiers e tiers \<and> matches_scope e scope \<and> (include_expired \<or> \<not> is_expired cl e))
              (enumerate 0 m))))"

definition vector_all :: "clock \<Rightarrow> memory_tier list option \<Rightarrow> obj option \<Rightarrow> bool \<Rightarrow> vector_memory \<Rightarrow> memory" where
  "vector_all cl tiers scope include_expired m =
     filter (\<lambda>e. in_tiers e tiers \<and> matches_scope e scope \<and> (include_expired \<or> \<not> is_expired cl e)) (map fst m)"

definition vector_clear :: "obj option \<Rightarrow> memory_tier list option \<Rightarrow> vector_memory \<Rightarrow> vector_memory" where
  "vector_clear scope tiers m = filter (\<lambda>(e, v). \<not> (in_tiers e tiers \<and> matches_scope e scope)) m"

definition vector_delete :: "string \<Rightarrow> vector_memory \<Rightarrow> bool \<times> vector_memory" where
  "vector_delete eid m = (let kept = filter (\<lambda>(e, v). me_id e \<noteq> eid) m in (length kept \<noteq> length m, kept))"

definition vector_purge :: "clock \<Rightarrow> vector_memory \<Rightarrow> nat \<times> vector_memory" where
  "vector_purge cl m = (let kept = filter (\<lambda>(e, v). \<not> is_expired cl e) m in (length m - length kept, kept))"

section \<open>The JSON file (\<open>memory/json_file.py\<close>)\<close>

definition tier_or_default :: "json \<Rightarrow> memory_tier" where
  "tier_or_default v = (if v = JStr ''working'' then WORKING else if v = JStr ''episodic'' then EPISODIC else PERSISTENT)"

definition source_or_default :: "json \<Rightarrow> memory_source" where
  "source_or_default v = (if v = JStr ''user_input'' then USER_INPUT else if v = JStr ''tool_result'' then TOOL_RESULT
     else if v = JStr ''llm_inference'' then LLM_INFERENCE else UNKNOWN)"

definition entry_dict :: "memory_entry \<Rightarrow> obj" where
  "entry_dict e = [(''id'', JStr (me_id e)), (''text'', JStr (me_text e)), (''metadata'', JObj (me_metadata e)),
     (''created_at'', JStr (me_created_at e)), (''tier'', JStr (tier_name (me_tier e))),
     (''source'', JStr (source_name (me_source e))), (''expires_at'', opt_json JStr (me_expires_at e))]"

definition str_field :: "obj \<Rightarrow> string \<Rightarrow> string" where
  "str_field d k = (case dget d k of None \<Rightarrow> '''' | Some v \<Rightarrow> py_str v)"

definition entry_of_dict :: "obj \<Rightarrow> memory_entry result" where
  "entry_of_dict d =
     bind_res (if truthy (jget d ''metadata'') then py_dict (jget d ''metadata'') else Inr []) (\<lambda>meta.
       Inr \<lparr>me_id = str_field d ''id'', me_text = str_field d ''text'', me_metadata = meta,
            me_created_at = str_field d ''created_at'', me_tier = tier_or_default (jget d ''tier''),
            me_source = source_or_default (jget d ''source''), me_expires_at = str_opt (jget d ''expires_at'')\<rparr>)"

fun entries_of :: "json list \<Rightarrow> memory result" where
  "entries_of [] = Inr []"
| "entries_of (JObj d # xs) = bind_res (entry_of_dict d) (\<lambda>e. bind_res (entries_of xs) (\<lambda>es. Inr (e # es)))"
| "entries_of (_ # xs) = entries_of xs"

definition load_error :: "string \<Rightarrow> string \<Rightarrow> 'a result" where
  "load_error path why = memory_error (''Cannot load memory from '' @ path @ '': '' @ why)"

text \<open>Membership in the set of known versions hashes the value, which fails for a list or a dict.\<close>

definition memory_load :: "float_conv \<Rightarrow> string \<Rightarrow> files \<Rightarrow> memory result" where
  "memory_load fl path fs = (case fs path of
     None \<Rightarrow> Inr []
   | Some content \<Rightarrow>
       (case json_loads fl content of
          None \<Rightarrow> load_error path ''invalid JSON''
        | Some (JObj payload) \<Rightarrow>
            if \<not> dhas payload ''entries'' then load_error path ''not a memory file''
            else let version = jget payload ''schema_version'' in
              if is_list version \<or> is_dict version then type_error ''unhashable type''
              else if \<not> py_in version [JInt 1, JInt 2]
              then load_error path (''schema version '' @ py_repr version @ '' is not supported (expected 1 or 2)'')
              else (case jget payload ''entries'' of
                  JArr items \<Rightarrow> entries_of items
                | _ \<Rightarrow> load_error path ''entries not a list'')
        | Some _ \<Rightarrow> load_error path ''not a memory file''))"

definition memory_payload :: "memory \<Rightarrow> json" where
  "memory_payload m = JObj [(''schema_version'', JInt 2), (''entries'', JArr (map (\<lambda>e. JObj (entry_dict e)) m))]"

definition memory_persist :: "string \<Rightarrow> memory \<times> files \<Rightarrow> memory \<times> files" where
  "memory_persist path s = (fst s, (snd s)(path \<mapsto> json_dumps_utf8 (memory_payload (fst s))))"

definition persist_or_remove_if_empty :: "string \<Rightarrow> memory \<times> files \<Rightarrow> memory \<times> files" where
  "persist_or_remove_if_empty path s = (if fst s \<noteq> [] then memory_persist path s else (fst s, (snd s)(path := None)))"

definition file_memory_open :: "float_conv \<Rightarrow> string \<Rightarrow> files \<Rightarrow> (memory \<times> files) result" where
  "file_memory_open fl path fs = bind_res (memory_load fl path fs) (\<lambda>m. Inr (m, fs))"

definition file_memory_add :: "string \<Rightarrow> clock \<Rightarrow> string \<Rightarrow> string \<Rightarrow> obj \<Rightarrow> memory_tier \<Rightarrow> memory_source \<Rightarrow> json \<Rightarrow> memory \<times> files \<Rightarrow> memory_entry result \<times> memory \<times> files" where
  "file_memory_add path cl uid content meta tier source ttl s =
     (case memory_add cl uid content meta tier source ttl (fst s) of
        (Inl e, m) \<Rightarrow> (Inl e, (m, snd s))
      | (Inr entry, m) \<Rightarrow> (Inr entry, memory_persist path (m, snd s)))"

definition file_memory_clear :: "string \<Rightarrow> obj option \<Rightarrow> memory_tier list option \<Rightarrow> memory \<times> files \<Rightarrow> memory \<times> files" where
  "file_memory_clear path scope tiers s = persist_or_remove_if_empty path (memory_clear scope tiers (fst s), snd s)"

definition file_memory_delete :: "string \<Rightarrow> string \<Rightarrow> memory \<times> files \<Rightarrow> bool \<times> memory \<times> files" where
  "file_memory_delete path eid s = (let (deleted, m) = memory_delete eid (fst s)
     in (deleted, if deleted then persist_or_remove_if_empty path (m, snd s) else (m, snd s)))"

definition file_memory_purge :: "string \<Rightarrow> clock \<Rightarrow> memory \<times> files \<Rightarrow> nat \<times> memory \<times> files" where
  "file_memory_purge path cl s = (let (purged, m) = memory_purge cl (fst s)
     in (purged, if purged \<noteq> 0 then persist_or_remove_if_empty path (m, snd s) else (m, snd s)))"

section \<open>Tools (\<open>memory/tool.py\<close>)\<close>

text \<open>A provider is the record of its operations on a state.\<close>

record 's memory_provider =
  mp_add :: "string \<Rightarrow> memory_source \<Rightarrow> 's \<Rightarrow> memory_entry result \<times> 's"
  mp_search :: "string \<Rightarrow> int \<Rightarrow> 's \<Rightarrow> memory"
  mp_all :: "memory_tier list option \<Rightarrow> obj option \<Rightarrow> bool \<Rightarrow> 's \<Rightarrow> memory"
  mp_clear :: "obj option \<Rightarrow> memory_tier list option \<Rightarrow> 's \<Rightarrow> 's"
  mp_delete :: "string \<Rightarrow> 's \<Rightarrow> bool \<times> 's"

definition memory_listing :: "memory \<Rightarrow> tool_result" where
  "memory_listing es = ok_result (JObj [(''memories'', JArr (map (\<lambda>e. JObj (entry_dict e)) es)), (''count'', JInt (int (length es)))])"

definition memory_tool :: "'s memory_provider \<Rightarrow> int \<Rightarrow> string \<Rightarrow> string \<Rightarrow> string \<Rightarrow> json \<Rightarrow> 's \<Rightarrow> tool_result result \<times> 's" where
  "memory_tool P default_limit action content query limit s =
     (if action = ''store'' then
        (if is_blank content then (Inr (err_result (repr_str ''store'' @ '' requires a non-empty '' @ repr_str ''text'')), s)
         else case mp_add P content LLM_INFERENCE s of
             (Inl e, s') \<Rightarrow> (Inl e, s')
           | (Inr entry, s') \<Rightarrow> (Inr (ok_result (JObj [(''id'', JStr (me_id entry)), (''stored'', JBool True)])), s'))
      else if action = ''search'' then
        (if is_blank query then (Inr (err_result (repr_str ''search'' @ '' requires a non-empty '' @ repr_str ''query'')), s)
         else let cap = (case as_int limit of Some n \<Rightarrow> if n > 0 then n else default_limit | None \<Rightarrow> default_limit)
              in (Inr (memory_listing (mp_search P query (min cap 20) s)), s))
      else if action = ''list'' then (Inr (memory_listing (mp_all P None None False s)), s)
      else if action = ''clear'' then (Inr (ok_result (JObj [(''cleared'', JBool True)])), mp_clear P None None s)
      else (Inr (err_result (''unknown action: '' @ repr_str action)), s))"

fun tier_of_name :: "json \<Rightarrow> memory_tier option" where
  "tier_of_name (JStr s) = (if s = ''working'' then Some WORKING else if s = ''episodic'' then Some EPISODIC
     else if s = ''persistent'' then Some PERSISTENT else None)"
| "tier_of_name _ = None"

fun parse_tier_list :: "json list \<Rightarrow> memory_tier list option" where
  "parse_tier_list [] = Some []"
| "parse_tier_list (x # xs) = (case tier_of_name x of None \<Rightarrow> None
     | Some t \<Rightarrow> (case parse_tier_list xs of None \<Rightarrow> None | Some ts \<Rightarrow> Some (t # ts)))"

text \<open>\<open>tiers\<close> is absent (\<open>None\<close>) or a list of values.\<close>

definition parse_tiers :: "json list option \<Rightarrow> memory_tier list option" where
  "parse_tiers values_in = (case values_in of None \<Rightarrow> None | Some xs \<Rightarrow> parse_tier_list xs)"

definition valid_scope :: "obj \<Rightarrow> bool" where
  "valid_scope scope \<longleftrightarrow> scope \<noteq> [] \<and> list_all (\<lambda>(k, v). is_str v) scope"

definition memory_inspect :: "'s memory_provider \<Rightarrow> json list option \<Rightarrow> obj option \<Rightarrow> bool \<Rightarrow> 's \<Rightarrow> tool_result" where
  "memory_inspect P tiers scope include_expired s =
     (if parse_tiers tiers = None \<and> tiers \<noteq> None then err_result ''tiers must contain valid memory tier names''
      else if (case scope of Some sc \<Rightarrow> \<not> valid_scope sc | None \<Rightarrow> False)
      then err_result ''scope must be an object with string keys and values''
      else memory_listing (mp_all P (parse_tiers tiers) scope include_expired s))"

definition memory_forget :: "'s memory_provider \<Rightarrow> string option \<Rightarrow> obj option \<Rightarrow> json list option \<Rightarrow> 's \<Rightarrow> tool_result \<times> 's" where
  "memory_forget P eid scope tiers s = (case eid of
     Some (c # cs) \<Rightarrow> (let (deleted, s') = mp_delete P (c # cs) s
        in (ok_result (JObj [(''deleted'', JBool deleted), (''id'', JStr (c # cs))]), s'))
   | _ \<Rightarrow>
       (if parse_tiers tiers = None \<and> tiers \<noteq> None then (err_result ''tiers must contain valid memory tier names'', s)
        else case scope of
            None \<Rightarrow> (err_result ''forgetting by scope requires a non-empty string-valued scope'', s)
          | Some sc \<Rightarrow>
              if \<not> valid_scope sc then (err_result ''forgetting by scope requires a non-empty string-valued scope'', s)
              else case parse_tiers tiers of
                  None \<Rightarrow> (err_result ''refusing to delete persistent memory by scope; delete a specific id instead'', s)
                | Some ts \<Rightarrow>
                    if PERSISTENT \<in> set ts
                    then (err_result ''refusing to delete persistent memory by scope; delete a specific id instead'', s)
                    else (ok_result (JObj [(''deleted'', JInt (int (length (mp_all P (Some ts) (Some sc) True s)))), (''scope'', JObj sc)]),
                          mp_clear P (Some sc) (Some ts) s)))"

section \<open>Ranking\<close>

definition rank :: "string \<Rightarrow> memory \<Rightarrow> nat \<Rightarrow> rat \<times> nat" where
  "rank query es i = (relevance query (me_text (es ! i)), i)"

lemma sorted_key_strict:
  assumes "distinct (map f xs)"
  shows "sorted_wrt (\<lambda>x y. f y < (f x :: 'k :: linorder)) (rev (sort_key f (rev xs)))"
proof -
  let ?ys = "sort_key f (rev xs)"
  have "mset ?ys = mset xs" by simp
  then have "mset (map f ?ys) = mset (map f xs)" by (simp only: mset_map)
  then have "distinct (map f ?ys)" using assms by (metis mset_eq_imp_distinct_iff)
  then have "sorted_wrt (<) (map f ?ys)" by (simp add: strict_sorted_iff)
  then show ?thesis by (simp add: sorted_wrt_rev sorted_wrt_map)
qed

text \<open>What a ranking returns: the payloads of the positively scored triples in strictly descending order.\<close>

lemma ranked_exact:
  assumes "distinct (map (\<lambda>(s, i, e). i) scored)"
  shows "\<exists>xs. sorted_wrt (\<lambda>(s, i, e) (s', i', e'). (s', i') < (s, i)) xs \<and> set xs = {(s, i, e) \<in> set scored. s > 0}
    \<and> ranked limit scored = map (\<lambda>(s, i, e). e) (take (nat limit) xs)"
proof -
  let ?k = "\<lambda>(s, i, e). (s, i)"
  let ?xs = "filter (\<lambda>(s, i, e). s > 0) (rev (sort_key ?k (rev scored)))"
  have "map snd (map ?k scored) = map (\<lambda>(s, i, e). i) scored" by (simp add: case_prod_unfold)
  then have "distinct (map snd (map ?k scored))" using assms by (simp only:)
  then have "distinct (map ?k scored)" by (simp only: distinct_map)
  from sorted_key_strict [OF this] have "sorted_wrt (\<lambda>x y. ?k y < ?k x) ?xs" by (rule sorted_wrt_filter)
  then have "sorted_wrt (\<lambda>(s, i, e) (s', i', e'). (s', i') < (s, i)) ?xs" by (simp add: case_prod_unfold)
  moreover have "set ?xs = {(s, i, e) \<in> set scored. s > 0}" by auto
  moreover have "ranked limit scored = map (\<lambda>(s, i, e). e) (take (nat limit) ?xs)" by (simp add: ranked_def take_map)
  ultimately show ?thesis by blast
qed

text \<open>
  A search of the process-local memory returns the first \<open>limit\<close> of the visible entries that share a word
  with the query, in strictly descending order of relevance and, at equal relevance, the newest first.
\<close>
theorem memory_search_exact:
  "\<exists>js. let es = memory_all cl tiers scope include_expired m in
     sorted_wrt (\<lambda>i j. rank query es j < rank query es i) js
     \<and> set js = {i. i < length es \<and> tokens query \<inter> tokens (me_text (es ! i)) \<noteq> {}}
     \<and> memory_search cl query limit tiers scope include_expired m = map ((!) es) (take (nat limit) js)"
proof -
  let ?es = "memory_all cl tiers scope include_expired m"
  let ?sc = "map (\<lambda>(i, e). (relevance query (me_text e), i, e)) (enumerate 0 ?es)"
  have "map (\<lambda>(s, i, e). i) ?sc = map fst (enumerate 0 ?es)" by (simp add: comp_def case_prod_unfold)
  then have "distinct (map (\<lambda>(s, i, e). i) ?sc)" by simp
  from ranked_exact [OF this, of limit] obtain xs where xs:
    "sorted_wrt (\<lambda>(s, i, e) (s', i', e'). (s', i') < (s, i)) xs" "set xs = {(s, i, e) \<in> set ?sc. s > 0}"
    "ranked limit ?sc = map (\<lambda>(s, i, e). e) (take (nat limit) xs)" by blast
  let ?ix = "\<lambda>(s, i, e). i"
  have tr: "x \<in> set ?sc \<longleftrightarrow> (\<exists>i < length ?es. x = (relevance query (me_text (?es ! i)), i, ?es ! i))" for x
  proof -
    have "enumerate 0 ?es = map (\<lambda>i. (i, ?es ! i)) [0..<length ?es]"
      by (rule nth_equalityI) (simp_all add: nth_enumerate_eq)
    then show ?thesis by (simp add: image_iff) (metis atLeastLessThan_iff le0)
  qed
  have elem: "x \<in> set xs \<Longrightarrow> rank query ?es (?ix x) = (case x of (s, i, e) \<Rightarrow> (s, i)) \<and> (case x of (s, i, e) \<Rightarrow> e) = ?es ! ?ix x" for x
    using tr xs(2) by (auto simp: rank_def)
  have pos: "relevance query t > 0 \<longleftrightarrow> tokens query \<inter> tokens t \<noteq> {}" for t
  proof -
    have "finite (tokens query)" by (simp add: tokens_def)
    then show ?thesis by (auto simp: relevance_def Let_def zero_less_divide_iff card_gt_0_iff)
  qed
  have s: "sorted_wrt (\<lambda>x y. rank query ?es (?ix y) < rank query ?es (?ix x)) xs"
    using xs(1) by (rule sorted_wrt_mono_rel [rotated]) (use elem in \<open>auto simp: case_prod_unfold\<close>)
  have "sorted_wrt (\<lambda>i j. rank query ?es j < rank query ?es i) (map ?ix xs)" using s by (simp add: sorted_wrt_map)
  moreover have "set (map ?ix xs) = {i. i < length ?es \<and> tokens query \<inter> tokens (me_text (?es ! i)) \<noteq> {}}"
    unfolding set_map xs(2) using tr by (auto simp: pos[symmetric] image_iff)
  moreover have "map (\<lambda>(s, i, e). e) (take (nat limit) xs) = map ((!) ?es) (take (nat limit) (map ?ix xs))"
    using elem by (auto simp: take_map dest!: in_set_takeD)
  then have "memory_search cl query limit tiers scope include_expired m = map ((!) ?es) (take (nat limit) (map ?ix xs))"
    using xs(3) by (simp add: memory_search_def)
  ultimately show ?thesis by (intro exI [of _ "map ?ix xs"]) (simp add: Let_def)
qed

section \<open>Backends\<close>

text \<open>The operations of a provider and their replies; the process-local store is the reference.\<close>

datatype memory_op =
  AddEntry clock string string obj memory_tier memory_source json
| AllEntries clock "memory_tier list option" "obj option" bool
| ClearEntries "obj option" "memory_tier list option"
| DeleteEntry string
| PurgeExpired clock

datatype memory_reply = Entry "memory_entry result" | Entries memory | Cleared | Deleted bool | Purged nat

fun memory_step :: "memory_op \<Rightarrow> memory \<Rightarrow> memory_reply \<times> memory" where
  "memory_step (AddEntry cl uid t meta tier src ttl) m = map_prod Entry id (memory_add cl uid t meta tier src ttl m)"
| "memory_step (AllEntries cl tiers scope ex) m = (Entries (memory_all cl tiers scope ex m), m)"
| "memory_step (ClearEntries scope tiers) m = (Cleared, memory_clear scope tiers m)"
| "memory_step (DeleteEntry eid) m = map_prod Deleted id (memory_delete eid m)"
| "memory_step (PurgeExpired cl) m = map_prod Purged id (memory_purge cl m)"

fun vector_step :: "embedder \<Rightarrow> memory_op \<Rightarrow> vector_memory \<Rightarrow> memory_reply \<times> vector_memory" where
  "vector_step emb (AddEntry cl uid t meta tier src ttl) m = map_prod Entry id (vector_add emb cl uid t meta tier src ttl m)"
| "vector_step emb (AllEntries cl tiers scope ex) m = (Entries (vector_all cl tiers scope ex m), m)"
| "vector_step emb (ClearEntries scope tiers) m = (Cleared, vector_clear scope tiers m)"
| "vector_step emb (DeleteEntry eid) m = map_prod Deleted id (vector_delete eid m)"
| "vector_step emb (PurgeExpired cl) m = map_prod Purged id (vector_purge cl m)"

fun file_step :: "string \<Rightarrow> memory_op \<Rightarrow> memory \<times> files \<Rightarrow> memory_reply \<times> memory \<times> files" where
  "file_step path (AddEntry cl uid t meta tier src ttl) s = map_prod Entry id (file_memory_add path cl uid t meta tier src ttl s)"
| "file_step path (AllEntries cl tiers scope ex) s = (Entries (memory_all cl tiers scope ex (fst s)), s)"
| "file_step path (ClearEntries scope tiers) s = (Cleared, file_memory_clear path scope tiers s)"
| "file_step path (DeleteEntry eid) s = map_prod Deleted id (file_memory_delete path eid s)"
| "file_step path (PurgeExpired cl) s = map_prod Purged id (file_memory_purge path cl s)"

fun run_ops :: "('op \<Rightarrow> 's \<Rightarrow> 'r \<times> 's) \<Rightarrow> 'op list \<Rightarrow> 's \<Rightarrow> 'r list \<times> 's" where
  "run_ops step [] s = ([], s)"
| "run_ops step (op # ops) s = (let (r, s1) = step op s; (rs, s2) = run_ops step ops s1 in (r # rs, s2))"

locale memory_backend =
  fixes step :: "memory_op \<Rightarrow> 's \<Rightarrow> memory_reply \<times> 's" and entries :: "'s \<Rightarrow> memory"
    and inv :: "'s \<Rightarrow> bool" and op_ok :: "memory_op \<Rightarrow> bool"
  assumes step_inv: "inv s \<Longrightarrow> op_ok op \<Longrightarrow> inv (snd (step op s))"
    and step_entries: "inv s \<Longrightarrow> memory_step op (entries s) = (fst (step op s), entries (snd (step op s)))"
begin

lemma run_refines:
  "inv s \<Longrightarrow> list_all op_ok ops \<Longrightarrow>
    inv (snd (run_ops step ops s)) \<and>
    run_ops memory_step ops (entries s) = (fst (run_ops step ops s), entries (snd (run_ops step ops s)))"
proof (induction ops arbitrary: s)
  case (Cons op ops)
  obtain r s1 where step: "step op s = (r, s1)" by fastforce
  then have s1: "inv s1" "memory_step op (entries s) = (r, entries s1)"
    using step_inv [of s op] step_entries [of s op] Cons.prems by auto
  obtain rs s2 where run: "run_ops step ops s1 = (rs, s2)" by fastforce
  have "inv s2 \<and> run_ops memory_step ops (entries s1) = (rs, entries s2)" using Cons.IH [OF s1(1)] Cons.prems run by simp
  then show ?case using step s1 run by simp
qed simp

end

interpretation vector_backend: memory_backend "vector_step emb" "map fst" "\<lambda>s. True" "\<lambda>op. True"
proof unfold_locales
  fix s :: vector_memory and op
  have f: "map fst (filter (\<lambda>(e, v). P e) s) = filter P (map fst s)" for P
    by (induction s) auto
  have l: "length (filter (\<lambda>(e, v). P e) s) = length (filter P (map fst s))" for P
    unfolding f [symmetric] by simp
  show "memory_step op (map fst s) = (fst (vector_step emb op s), map fst (snd (vector_step emb op s)))"
    by (cases op) (auto simp: memory_add_def vector_add_def vector_all_def memory_all_def vector_clear_def memory_clear_def
        vector_delete_def memory_delete_def vector_purge_def memory_purge_def Let_def f l split: sum.splits)
qed simp

section \<open>The file always holds the entries\<close>

lemma tier_or_default_name [simp]: "tier_or_default (JStr (tier_name x)) = x"
  by (cases x) (simp_all add: tier_or_default_def)

lemma source_or_default_name [simp]: "source_or_default (JStr (source_name x)) = x"
  by (cases x) (simp_all add: source_or_default_def)

lemma entry_roundtrip: "entry_of_dict (entry_dict e) = Inr e"
  by (cases "me_metadata e = []"; cases "me_expires_at e")
    (simp_all add: entry_of_dict_def entry_dict_def str_field_def opt_json_def py_dict_def)

lemma entries_roundtrip: "entries_of (map (\<lambda>e. JObj (entry_dict e)) m) = Inr m"
  by (induction m) (simp_all add: entry_roundtrip)

definition entry_storable :: "float_conv \<Rightarrow> memory_entry \<Rightarrow> bool" where
  "entry_storable fl e = json_wf fl (JObj (me_metadata e))"

definition op_storable :: "float_conv \<Rightarrow> memory_op \<Rightarrow> bool" where
  "op_storable fl op = (case op of AddEntry cl uid t meta tier src ttl \<Rightarrow> json_wf fl (JObj meta) | _ \<Rightarrow> True)"

definition durable :: "float_conv \<Rightarrow> string \<Rightarrow> memory \<times> files \<Rightarrow> bool" where
  "durable fl path s \<longleftrightarrow> memory_load fl path (snd s) = Inr (fst s) \<and> list_all (entry_storable fl) (fst s)"

lemma payload_wf: "list_all (entry_storable fl) m \<Longrightarrow> json_wf fl (memory_payload m)"
  by (auto simp: memory_payload_def entry_dict_def entry_storable_def dwf_def list_all_iff opt_json_def split: option.split)

lemma load_persisted: "list_all (entry_storable fl) m \<Longrightarrow> memory_load fl path (snd (memory_persist path (m, fs))) = Inr m"
proof -
  assume "list_all (entry_storable fl) m"
  then have "json_loads fl (json_dumps_utf8 (memory_payload m)) = Some (memory_payload m)"
    by (intro dumps_utf8_loads payload_wf)
  then show ?thesis
    by (simp add: memory_load_def memory_persist_def memory_payload_def dhas_def py_in_def entries_roundtrip)
qed

lemma durable_persist: "list_all (entry_storable fl) m \<Longrightarrow> durable fl path (memory_persist path (m, fs))"
  by (simp add: durable_def load_persisted) (simp add: memory_persist_def)

lemma durable_persist_or_remove: "list_all (entry_storable fl) m \<Longrightarrow> durable fl path (persist_or_remove_if_empty path (m, fs))"
  by (simp add: persist_or_remove_if_empty_def durable_persist) (simp add: durable_def memory_load_def)

lemma fst_persist [simp]: "fst (memory_persist path s) = fst s" "fst (persist_or_remove_if_empty path s) = fst s"
  by (simp_all add: memory_persist_def persist_or_remove_if_empty_def)

lemma storable_filter: "list_all (entry_storable fl) m \<Longrightarrow> list_all (entry_storable fl) (filter P m)"
  by (simp add: list_all_iff)

lemma new_entry_metadata: "new_entry cl uid t meta tier src ttl = Inr e \<Longrightarrow> me_metadata e = meta"
  by (cases "expiry_iso cl ttl (cl_iso cl)") (auto simp: new_entry_def memory_error_def split: if_splits)

lemma filter_same_length: "length (filter P m) = length m \<Longrightarrow> filter P m = m"
  by (metis filter_id_conv length_filter_less less_irrefl)

interpretation file_backend: memory_backend "file_step path" fst "durable fl path" "op_storable fl"
proof unfold_locales
  fix s op assume inv: "durable fl path s"
  obtain m fs where s: "s = (m, fs)" by fastforce
  have ok: "list_all (entry_storable fl) m" using inv s by (simp add: durable_def)
  note del = memory_delete_def memory_purge_def Let_def
  have unpurged: "\<not> length (filter P m) < length m \<Longrightarrow> filter P m = m" for P
    by (rule filter_same_length) (simp add: le_antisym)
  show "memory_step op (fst s) = (fst (file_step path op s), fst (snd (file_step path op s)))"
    by (cases op) (auto simp: s file_memory_add_def file_memory_clear_def file_memory_delete_def file_memory_purge_def
        prod_eq_iff case_prod_unfold Let_def split: sum.splits)
  show "op_storable fl op \<Longrightarrow> durable fl path (snd (file_step path op s))"
    by (cases op) (use ok inv in \<open>auto simp: s op_storable_def file_memory_add_def memory_add_def entry_storable_def
        file_memory_clear_def memory_clear_def file_memory_delete_def file_memory_purge_def del
        intro!: durable_persist durable_persist_or_remove storable_filter dest!: filter_same_length unpurged dest: new_entry_metadata
        split: sum.splits if_splits\<close>)
qed

definition sample_clock :: clock where
  "sample_clock = \<lparr>cl_now = 100, cl_iso = ''1970-01-01T00:01:40+00:00'', cl_after = (\<lambda>t x. Inr ''1970-01-01T00:02:40+00:00''),
     cl_parse = (\<lambda>t. if t = ''1970-01-01T00:02:40+00:00'' then Some 160 else None)\<rparr>"

definition sample_fact :: memory_op where
  "sample_fact = AddEntry sample_clock ''id1'' ''the deploy key rotates'' [(''user'', JStr ''ann'')] PERSISTENT USER_INPUT (JInt 60)"

text \<open>
  C25: Whatever sequence of operations is run on a JSON-file memory, its replies are those of the process-local
  memory on the same entries, and opening the file again at the end gives exactly the entries that are left.
\<close>
theorem memory_file_refines:
  assumes "file_memory_open fl path fs = Inr s" and "list_all (entry_storable fl) (fst s)" and "list_all (op_storable fl) ops"
  shows "run_ops memory_step ops (fst s) = (fst (run_ops (file_step path) ops s), fst (snd (run_ops (file_step path) ops s)))
    \<and> file_memory_open fl path (snd (snd (run_ops (file_step path) ops s))) = Inr (snd (run_ops (file_step path) ops s))"
proof -
  have "durable fl path s" using assms(1,2) by (cases "memory_load fl path fs") (auto simp: file_memory_open_def durable_def)
  from file_backend.run_refines [OF this assms(3)] show ?thesis by (simp add: file_memory_open_def durable_def)
qed

theorem memory_file_refines_witness:
  "file_memory_open (\<lambda>s. (0, s)) ''m.json'' (snd (snd (run_ops (file_step ''m.json'') [sample_fact, DeleteEntry ''id2''] ([], \<lambda>_. None))))
     = Inr (snd (run_ops (file_step ''m.json'') [sample_fact, DeleteEntry ''id2''] ([], \<lambda>_. None)))
   \<and> map me_id (fst (snd (run_ops (file_step ''m.json'') [sample_fact, DeleteEntry ''id2''] ([], \<lambda>_. None)))) = [''id1'']"
proof -
  have "file_memory_open (\<lambda>s. (0, s)) ''m.json'' (\<lambda>_. None) = Inr ([], \<lambda>_. None)" by (simp add: file_memory_open_def memory_load_def)
  note ref = memory_file_refines [OF this, where ops = "[sample_fact, DeleteEntry ''id2'']"]
  have run: "run_ops memory_step [sample_fact, DeleteEntry ''id2''] [] =
    ([Entry (Inr (the_elem (set (snd (memory_step sample_fact []))))), Deleted False], snd (memory_step sample_fact []))"
    by (simp add: sample_fact_def sample_clock_def memory_add_def new_entry_def expiry_iso_def memory_delete_def is_blank_iff is_space_def
        code_of_def Let_def)
  have ids: "map me_id (snd (memory_step sample_fact [])) = [''id1'']"
    by (simp add: sample_fact_def sample_clock_def memory_add_def new_entry_def expiry_iso_def is_blank_iff is_space_def code_of_def)
  have "list_all (op_storable (\<lambda>s. (0, s))) [sample_fact, DeleteEntry ''id2'']" by (simp add: op_storable_def sample_fact_def dwf_def)
  then show ?thesis using ref run ids by simp
qed

section \<open>Forgetting\<close>

definition file_provider :: "clock \<Rightarrow> string \<Rightarrow> string \<Rightarrow> (memory \<times> files) memory_provider" where
  "file_provider cl uid path = \<lparr>mp_add = (\<lambda>t src. file_memory_add path cl uid t [] PERSISTENT src JNull),
     mp_search = (\<lambda>q n s. memory_search cl q n None None False (fst s)),
     mp_all = (\<lambda>tiers scope ex s. memory_all cl tiers scope ex (fst s)),
     mp_clear = file_memory_clear path, mp_delete = file_memory_delete path\<rparr>"

text \<open>Without an id the tool changes nothing, or it clears a scope of tiers among which is not the persistent one.\<close>

lemma forget_by_scope:
  "eid = None \<or> eid = Some [] \<Longrightarrow> snd (memory_forget P eid scope tiers s) = s
    \<or> (\<exists>sc ts. PERSISTENT \<notin> set ts \<and> snd (memory_forget P eid scope tiers s) = mp_clear P (Some sc) (Some ts) s)"
  by (auto simp: memory_forget_def split: option.split) blast+

lemma forget_by_id: "snd (memory_forget P (Some (c # cs)) scope tiers s) = snd (mp_delete P (c # cs) s)"
  by (simp add: memory_forget_def case_prod_unfold Let_def)

text \<open>
  The forget tool never removes a persistent entry except by its id: after any call on a file memory the
  persistent entries with another id are all still there, in order, and the file holds what is in memory.
\<close>
theorem forget_keeps_persistent:
  assumes "durable fl path s"
  shows "let (r, s') = memory_forget (file_provider cl uid path) eid scope tiers s in
     filter (\<lambda>e. me_tier e = PERSISTENT \<and> Some (me_id e) \<noteq> eid) (fst s')
       = filter (\<lambda>e. me_tier e = PERSISTENT \<and> Some (me_id e) \<noteq> eid) (fst s)
     \<and> durable fl path s'"
proof -
  let ?s' = "snd (memory_forget (file_provider cl uid path) eid scope tiers s)"
  let ?P = "\<lambda>e. me_tier e = PERSISTENT \<and> Some (me_id e) \<noteq> eid"
  have clear: "durable fl path (file_memory_clear path sc ts s)" for sc ts
    using file_backend.step_inv [OF assms, of "ClearEntries sc ts"] by (simp add: op_storable_def)
  have delete: "durable fl path (snd (file_memory_delete path i s))" for i
    using file_backend.step_inv [OF assms, of "DeleteEntry i"] by (simp add: op_storable_def)
  have scoped: "filter ?P (fst (file_memory_clear path sc (Some ts) s)) = filter ?P (fst s)" if "PERSISTENT \<notin> set ts" for ts sc
    using that by (auto simp: file_memory_clear_def memory_clear_def in_tiers_def filter_filter intro!: filter_cong)
  have "filter ?P (fst ?s') = filter ?P (fst s) \<and> durable fl path ?s'"
  proof (cases "eid = None \<or> eid = Some []")
    case True
    from forget_by_scope [OF this, of "file_provider cl uid path" scope tiers s]
    consider "?s' = s" | sc ts where "PERSISTENT \<notin> set ts" "?s' = file_memory_clear path (Some sc) (Some ts) s"
      by (auto simp: file_provider_def)
    then show ?thesis by cases (simp_all only: assms scoped clear simp_thms)
  next
    case False
    then obtain c cs where eid: "eid = Some (c # cs)" by (metis not_Some_eq list.exhaust)
    have "?s' = snd (file_memory_delete path (c # cs) s)" by (simp add: eid forget_by_id file_provider_def)
    then show ?thesis using delete [of "c # cs"]
      by (simp add: eid file_memory_delete_def memory_delete_def Let_def filter_filter conj_commute conj_left_commute)
  qed
  then show ?thesis by (simp add: Let_def case_prod_unfold)
qed

theorem forget_keeps_persistent_witness:
  "durable (\<lambda>s. (0, s)) ''m.json'' ([], \<lambda>_. None)
   \<and> (let (r, s') = memory_forget (file_provider sample_clock ''u'' ''m.json'') None (Some [(''user'', JStr ''ann'')]) (Some [JStr ''working'']) ([], \<lambda>_. None)
      in durable (\<lambda>s. (0, s)) ''m.json'' s')"
proof -
  have d: "durable (\<lambda>s. (0, s)) ''m.json'' ([], \<lambda>_. None)" by (simp add: durable_def memory_load_def)
  show ?thesis using d forget_keeps_persistent [OF d] by (simp add: Let_def case_prod_unfold)
qed

section \<open>A corrupted file\<close>

text \<open>A damaged metadata value surfaces as the exception of \<open>dict\<close>, not as the documented \<open>MemoryError\<close>.\<close>

lemma corrupt_metadata_not_memory_error:
  "entries_of [JObj [(''id'', JStr ''a''), (''metadata'', JInt 3)]] = Inl (Exn ''TypeError'' ''object is not iterable'')"
  by (simp add: entry_of_dict_def py_dict_def)

end
