(* ===== verification/Workspace_Files.thy ===== *)
theory Workspace_Files
  imports Json_Value "HOL-Library.List_Lexorder" "HOL-Library.Char_ord"
begin

text \<open>
  The local workspace (\<open>workspace/manager.py\<close>) over a file system with symbolic links: a file system is a
  finite map from absolute paths, as lists of components, to files, directories and links. \<open>realpath\<close> is the
  non-strict algorithm of \<open>posixpath\<close>, with its cache of links already seen; its recursion into link targets
  is bounded by fuel, and the number of links of the file system is proved to be enough.
\<close>

section \<open>File systems\<close>

datatype node = File string | Dir | Link string

type_synonym path = "string list"
type_synonym fsys = "(path, node) dict"

fun split_slash :: "string \<Rightarrow> string \<Rightarrow> string list" where
  "split_slash acc [] = [rev acc]"
| "split_slash acc (c # cs) = (if c = CHR ''/'' then rev acc # split_slash [] cs else split_slash (c # acc) cs)"

definition is_abs :: "string \<Rightarrow> bool" where
  "is_abs s = startswith ''/'' s"

definition path_str :: "path \<Rightarrow> string" where
  "path_str p = (if p = [] then ''/'' else concat (map (\<lambda>c. CHR ''/'' # c) p))"

definition is_link :: "fsys \<Rightarrow> path \<Rightarrow> bool" where
  "is_link fs p = (case dget fs p of Some (Link t) \<Rightarrow> True | _ \<Rightarrow> False)"

definition is_dir :: "fsys \<Rightarrow> path \<Rightarrow> bool" where
  "is_dir fs p \<longleftrightarrow> p = [] \<or> dget fs p = Some Dir"

text \<open>
  \<open>_joinrealpath\<close>: the resolved prefix, the components still to resolve, the cache. A link met again while it
  is being resolved is a loop: the rest is appended unresolved and the flag is \<open>False\<close>.
\<close>

type_synonym seen = "(path, path option) dict"

fun join_real :: "fsys \<Rightarrow> nat \<Rightarrow> path \<Rightarrow> string list \<Rightarrow> seen \<Rightarrow> (path \<times> bool \<times> seen) option" where
  "join_real fs n p [] seen = Some (p, True, seen)"
| "join_real fs n p (name # rest) seen =
     (if name = '''' \<or> name = ''.'' then join_real fs n p rest seen
      else if name = ''..'' then join_real fs n (butlast p) rest seen
      else let q = p @ [name] in
        case dget fs q of
          Some (Link target) \<Rightarrow>
            (case dget seen q of
               Some (Some r) \<Rightarrow> join_real fs n r rest seen
             | Some None \<Rightarrow> Some (q @ rest, False, seen)
             | None \<Rightarrow>
                (case n of
                   0 \<Rightarrow> None
                 | Suc k \<Rightarrow>
                    (case join_real fs k (if is_abs target then [] else p) (split_slash [] target) (dset seen q None) of
                       None \<Rightarrow> None
                     | Some (r, ok, seen') \<Rightarrow>
                         if \<not> ok then Some (r @ rest, False, seen')
                         else join_real fs n r rest (dset seen' q (Some r)))))
        | _ \<Rightarrow> join_real fs n q rest seen)"

text \<open>\<open>abspath\<close> of the result collapses what a loop left unresolved, textually.\<close>

fun collapse_comps :: "path \<Rightarrow> string list \<Rightarrow> path" where
  "collapse_comps acc [] = acc"
| "collapse_comps acc (c # cs) = (if c = '''' \<or> c = ''.'' then collapse_comps acc cs
     else if c = ''..'' then collapse_comps (butlast acc) cs else collapse_comps (acc @ [c]) cs)"

definition link_fuel :: "fsys \<Rightarrow> nat" where
  "link_fuel fs = length (filter (\<lambda>(q, nd). case nd of Link t \<Rightarrow> True | _ \<Rightarrow> False) fs)"

definition real_comps :: "fsys \<Rightarrow> path \<Rightarrow> string list \<Rightarrow> path \<times> bool" where
  "real_comps fs p cs = (case join_real fs (link_fuel fs) p cs [] of
     Some (r, ok, _) \<Rightarrow> (collapse_comps [] r, ok) | None \<Rightarrow> (p, False))"

section \<open>The workspace (\<open>workspace/manager.py\<close>)\<close>

definition workspace_open :: "fsys \<Rightarrow> string \<Rightarrow> path result" where
  "workspace_open fs root_path = (let base = fst (real_comps fs [] (split_slash [] root_path)) in
     if is_dir fs base then Inr base
     else Inl (Exn ''ValueError'' (''workspace root is not an existing directory: '' @ repr_str root_path)))"

definition resolve :: "fsys \<Rightarrow> path \<Rightarrow> string \<Rightarrow> path result" where
  "resolve fs base relative =
     (let candidate = fst (real_comps fs [] (if is_abs relative then split_slash [] relative else base @ split_slash [] relative)) in
      if take (length base) candidate = base then Inr candidate
      else Inl (Exn ''PathTraversalError''
             (''path '' @ repr_str relative @ '' resolves outside the workspace root '' @ repr_str (path_str base))))"

text \<open>
  The system calls on a path follow the links of it as \<open>realpath\<close> does, and answer \<open>ELOOP\<close> on a loop; every
  directory on the way must exist. Creating the parents stops at a link that does not lead to a directory.
\<close>

definition os_error :: "string \<Rightarrow> path \<Rightarrow> exn" where
  "os_error kind p = Exn kind (path_str p)"

fun parents_ok :: "fsys \<Rightarrow> path \<Rightarrow> string list \<Rightarrow> unit result" where
  "parents_ok fs p [] = Inr ()"
| "parents_ok fs p [c] = Inr ()"
| "parents_ok fs p (c # cs) = (let q = p @ [c] in case dget fs q of
     None \<Rightarrow> Inl (os_error ''FileNotFoundError'' q)
   | Some Dir \<Rightarrow> parents_ok fs q cs
   | Some _ \<Rightarrow> Inl (os_error ''NotADirectoryError'' q))"

definition kernel_path :: "fsys \<Rightarrow> path \<Rightarrow> path result" where
  "kernel_path fs q = (let (r, ok) = real_comps fs [] q in
     if \<not> ok then Inl (os_error ''OSError'' q) else bind_res (parents_ok fs [] r) (\<lambda>_. Inr r))"

definition os_read :: "fsys \<Rightarrow> path \<Rightarrow> string result" where
  "os_read fs q = bind_res (kernel_path fs q) (\<lambda>r. case dget fs r of
       Some (File content) \<Rightarrow> Inr content
     | _ \<Rightarrow> Inl (os_error (if is_dir fs r then ''IsADirectoryError'' else ''FileNotFoundError'') q))"

fun make_dirs :: "fsys \<Rightarrow> path \<Rightarrow> string list \<Rightarrow> unit result \<times> fsys" where
  "make_dirs fs p [] = (Inr (), fs)"
| "make_dirs fs p (c # cs) = (let q = p @ [c] in case dget fs q of
     None \<Rightarrow> make_dirs (dset fs q Dir) q cs
   | Some Dir \<Rightarrow> make_dirs fs q cs
   | Some (File _) \<Rightarrow> (Inl (os_error (if cs = [] then ''FileExistsError'' else ''NotADirectoryError'') q), fs)
   | Some (Link _) \<Rightarrow> (let (r, ok) = real_comps fs [] q in
        if ok \<and> is_dir fs r then make_dirs fs r cs else (Inl (os_error ''FileExistsError'' q), fs)))"

definition os_write :: "fsys \<Rightarrow> path \<Rightarrow> string \<Rightarrow> unit result \<times> fsys" where
  "os_write fs q content = (case make_dirs fs [] (butlast q) of
     (Inl e, fs') \<Rightarrow> (Inl e, fs')
   | (Inr _, fs') \<Rightarrow> (case kernel_path fs' q of
        Inl e \<Rightarrow> (Inl e, fs')
      | Inr r \<Rightarrow> if is_dir fs' r then (Inl (os_error ''IsADirectoryError'' q), fs')
                else (Inr (), dset fs' r (File content))))"

definition os_unlink :: "fsys \<Rightarrow> path \<Rightarrow> unit result \<times> fsys" where
  "os_unlink fs q = (case kernel_path fs (butlast q) of
     Inl e \<Rightarrow> (Inl e, fs)
   | Inr r \<Rightarrow> (let p = r @ [last q] in case dget fs p of
        None \<Rightarrow> (Inl (os_error (if is_dir fs r then ''FileNotFoundError'' else ''NotADirectoryError'') q), fs)
      | Some _ \<Rightarrow> (Inr (), dpop fs p)))"

definition read_text :: "fsys \<Rightarrow> path \<Rightarrow> string \<Rightarrow> string result" where
  "read_text fs base relative = bind_res (resolve fs base relative) (os_read fs)"

definition write_text :: "fsys \<Rightarrow> path \<Rightarrow> string \<Rightarrow> string \<Rightarrow> unit result \<times> fsys" where
  "write_text fs base relative content = (case resolve fs base relative of
     Inl e \<Rightarrow> (Inl e, fs) | Inr q \<Rightarrow> os_write fs q content)"

definition delete_file :: "fsys \<Rightarrow> path \<Rightarrow> string \<Rightarrow> unit result \<times> fsys" where
  "delete_file fs base relative = (case resolve fs base relative of
     Inl e \<Rightarrow> (Inl e, fs)
   | Inr q \<Rightarrow> if is_dir fs (fst (real_comps fs [] q)) then (Inl (Exn ''IsADirectoryError'' relative), fs) else os_unlink fs q)"

text \<open>The walk visits every directory below the base without following links; a link to a directory is no file.\<close>

definition walked :: "fsys \<Rightarrow> path \<Rightarrow> path \<Rightarrow> bool" where
  "walked fs base q \<longleftrightarrow> length base < length q \<and> take (length base) q = base
     \<and> (\<forall>n \<in> set [length base..<length q]. is_dir fs (take n q))"

definition list_files :: "(string \<Rightarrow> string \<Rightarrow> bool) \<Rightarrow> fsys \<Rightarrow> path \<Rightarrow> string option \<Rightarrow> string list" where
  "list_files fnmatch fs base pattern = sort (filter (\<lambda>rel. case pattern of None \<Rightarrow> True | Some g \<Rightarrow> fnmatch rel g)
     (map (\<lambda>(q, _). py_join ''/'' (drop (length base) q))
       (filter (\<lambda>(q, nd). walked fs base q \<and> (case nd of File _ \<Rightarrow> True | Dir \<Rightarrow> False
            | Link t \<Rightarrow> \<not> is_dir fs (fst (real_comps fs [] q)))) fs)))"

definition list_directory :: "fsys \<Rightarrow> path \<Rightarrow> string \<Rightarrow> string list result" where
  "list_directory fs base relative = bind_res (resolve fs base relative) (\<lambda>q.
     let r = fst (real_comps fs [] q) in
     if \<not> is_dir fs r then Inl (Exn ''NotADirectoryError'' relative)
     else Inr (sort (map (\<lambda>(x, _). last x @ (if is_dir fs (fst (real_comps fs [] x)) then ''/'' else ''''))
            (filter (\<lambda>(x, _). x \<noteq> [] \<and> butlast x = r) fs))))"

definition run_command :: "string \<Rightarrow> string result" where
  "run_command command = Inl (Exn ''WorkspaceError'' (''LocalWorkspace does not execute shell commands because it is not a sandbox; ''
     @ ''use DockerWorkspace, KubernetesWorkspace, or RemoteAPIWorkspace''))"

section \<open>The fuel is enough\<close>

definition dot :: "string \<Rightarrow> bool" where
  "dot name \<longleftrightarrow> name = '''' \<or> name = ''.''"

definition proper :: "string \<Rightarrow> bool" where
  "proper name \<longleftrightarrow> name \<noteq> '''' \<and> name \<noteq> ''.'' \<and> name \<noteq> ''..''"

definition link_start :: "path \<Rightarrow> string \<Rightarrow> path" where
  "link_start p t = (if is_abs t then [] else p)"

lemma join_real_dot: "dot name \<Longrightarrow> join_real fs n p (name # rest) seen = join_real fs n p rest seen"
  by (auto simp: dot_def)

lemma join_real_up: "join_real fs n p (''..'' # rest) seen = join_real fs n (butlast p) rest seen"
  by simp

lemma join_real_plain:
  "proper name \<Longrightarrow> \<not> is_link fs (p @ [name]) \<Longrightarrow> join_real fs n p (name # rest) seen = join_real fs n (p @ [name]) rest seen"
  by (auto simp: proper_def is_link_def Let_def split: option.splits node.splits)

lemma join_real_cached:
  "proper name \<Longrightarrow> is_link fs (p @ [name]) \<Longrightarrow> dget seen (p @ [name]) = Some c \<Longrightarrow>
    join_real fs n p (name # rest) seen = (case c of Some r \<Rightarrow> join_real fs n r rest seen | None \<Rightarrow> Some (p @ name # rest, False, seen))"
  by (auto simp: proper_def is_link_def Let_def split: option.splits node.splits)

lemma join_real_link:
  "proper name \<Longrightarrow> dget fs (p @ [name]) = Some (Link t) \<Longrightarrow> dget seen (p @ [name]) = None \<Longrightarrow>
    join_real fs (Suc k) p (name # rest) seen =
      (case join_real fs k (link_start p t) (split_slash [] t) (dset seen (p @ [name]) None) of
         None \<Rightarrow> None
       | Some (r, ok, seen') \<Rightarrow> if ok then join_real fs (Suc k) r rest (dset seen' (p @ [name]) (Some r)) else Some (r @ rest, False, seen'))"
  by (auto simp: proper_def link_start_def Let_def split: option.splits)

lemma join_real_no_fuel:
  "proper name \<Longrightarrow> dget fs (p @ [name]) = Some (Link t) \<Longrightarrow> dget seen (p @ [name]) = None \<Longrightarrow> join_real fs 0 p (name # rest) seen = None"
  by (auto simp: proper_def Let_def)

declare join_real.simps(2) [simp del]

lemma is_linkE: "is_link fs q \<Longrightarrow> (\<And>t. dget fs q = Some (Link t) \<Longrightarrow> P) \<Longrightarrow> P"
  by (cases "dget fs q") (auto simp: is_link_def split: node.splits)

lemma link_cases:
  obtains "dot name" | "name = ''..''" | "proper name" "\<not> is_link fs (p @ [name])"
  | c where "proper name" "is_link fs (p @ [name])" "dget seen (p @ [name]) = Some c"
  | t where "proper name" "dget fs (p @ [name]) = Some (Link t)" "dget seen (p @ [name]) = None"
proof -
  consider "dot name" | "name = ''..''" | "proper name" by (auto simp: dot_def proper_def)
  then show thesis
  proof cases
    case 3
    show thesis
    proof (cases "is_link fs (p @ [name])")
      case True
      then obtain t where t: "dget fs (p @ [name]) = Some (Link t)" by (rule is_linkE)
      show thesis using that(4) [OF 3 True] that(5) [OF 3 t] by (cases "dget seen (p @ [name])") auto
    qed (use 3 that(3) in blast)
  qed (auto intro: that)
qed

definition links :: "fsys \<Rightarrow> path set" where
  "links fs = {q. is_link fs q}"

definition busy :: "seen \<Rightarrow> path set" where
  "busy seen = {q. dget seen q = Some None}"

lemma finite_links: "finite (links fs)" and card_links: "card (links fs) \<le> link_fuel fs"
proof -
  let ?ls = "filter (\<lambda>(q, nd). case nd of Link t \<Rightarrow> True | _ \<Rightarrow> False) fs"
  have sub: "links fs \<subseteq> set (map fst ?ls)"
  proof
    fix q assume "q \<in> links fs"
    then obtain t where "map_of fs q = Some (Link t)" by (auto simp: links_def dget_def elim: is_linkE)
    then show "q \<in> set (map fst ?ls)" by (force dest: map_of_SomeD)
  qed
  then show "finite (links fs)" by (rule finite_subset) simp
  have "card (links fs) \<le> card (set (map fst ?ls))" using sub by (intro card_mono) auto
  also have "\<dots> \<le> length (map fst ?ls)" by (rule card_length)
  finally show "card (links fs) \<le> link_fuel fs" by (simp add: link_fuel_def)
qed

lemma busy_dset [simp]: "busy (dset seen q (Some r)) = busy seen - {q}" "busy (dset seen q None) = insert q (busy seen)"
  by (auto simp: busy_def)

lemma is_link_Some: "dget fs q = Some (Link t) \<Longrightarrow> q \<in> links fs"
  by (simp add: links_def is_link_def)

lemma join_real_returns:
  "card (links fs - busy seen) \<le> n \<Longrightarrow> \<exists>r ok seen'. join_real fs n p cs seen = Some (r, ok, seen') \<and> (ok \<longrightarrow> busy seen' = busy seen)"
proof (induction n arbitrary: p cs seen rule: less_induct)
  case (less n)
  note inner_IH = less.IH
  show ?case using less.prems
  proof (induction cs arbitrary: p seen)
    case (Cons name rest)
    show ?case
    proof (cases rule: link_cases [where name = name and fs = fs and p = p and seen = seen])
      case (4 c)
      then show ?thesis using Cons by (cases "c") (auto simp: join_real_cached)
    next
      case (5 t)
      let ?q = "p @ [name]"
      have q: "?q \<in> links fs" "?q \<notin> busy seen" using 5 by (auto simp: is_link_Some busy_def)
      have "card (links fs - insert ?q (busy seen)) < card (links fs - busy seen)"
        using q finite_links by (intro psubset_card_mono) auto
      then obtain k where n: "n = Suc k" and k: "card (links fs - busy (dset seen ?q None)) \<le> k"
        using Cons.prems by (cases n) auto
      obtain r ok seen' where inner:
        "join_real fs k (link_start p t) (split_slash [] t) (dset seen ?q None) = Some (r, ok, seen')"
        "ok \<longrightarrow> busy seen' = insert ?q (busy seen)"
        using inner_IH [OF _ k] n by fastforce
      have "ok \<Longrightarrow> busy (dset seen' ?q (Some r)) = busy seen" using inner(2) q(2) by simp
      then show ?thesis using Cons.IH [of "dset seen' ?q (Some r)" r] Cons.prems
        by (cases ok) (auto simp: n join_real_link [OF 5] inner(1))
    qed (use Cons in \<open>auto simp: join_real_dot join_real_up join_real_plain\<close>)
  qed auto
qed


lemma real_comps_def': "\<exists>r seen'. join_real fs (link_fuel fs) p cs [] = Some (r, snd (real_comps fs p cs), seen')
    \<and> fst (real_comps fs p cs) = collapse_comps [] r"
proof -
  have "card (links fs - busy []) \<le> link_fuel fs" using card_links by (simp add: busy_def)
  from join_real_returns [OF this, of p cs] show ?thesis by (auto simp: real_comps_def)
qed

section \<open>Resolved paths\<close>

text \<open>A path is plain when no prefix of it is a link and its components are names.\<close>

definition plain :: "fsys \<Rightarrow> path \<Rightarrow> bool" where
  "plain fs p \<longleftrightarrow> list_all proper p \<and> (\<forall>n \<in> {0<..length p}. \<not> is_link fs (take n p))"

lemma plain_Nil [simp]: "plain fs []"
  by (simp add: plain_def)

lemma plain_snoc: "plain fs p \<Longrightarrow> proper c \<Longrightarrow> \<not> is_link fs (p @ [c]) \<Longrightarrow> plain fs (p @ [c])"
  by (auto simp: plain_def le_Suc_eq)

lemma plain_take: "plain fs p \<Longrightarrow> plain fs (take n p)"
  by (auto simp: plain_def list_all_iff dest: in_set_takeD)

lemma plain_butlast: "plain fs p \<Longrightarrow> plain fs (butlast p)"
  by (simp add: butlast_conv_take plain_take)

lemma collapse_comps_proper: "list_all proper cs \<Longrightarrow> collapse_comps acc cs = acc @ cs"
  by (induction cs arbitrary: acc) (auto simp: proper_def)

definition plain_cache :: "fsys \<Rightarrow> seen \<Rightarrow> bool" where
  "plain_cache fs seen \<longleftrightarrow> (\<forall>q r. dget seen q = Some (Some r) \<longrightarrow> plain fs r)"

lemma join_real_is_plain:
  "join_real fs n p cs seen = Some (r, True, seen') \<Longrightarrow> plain fs p \<Longrightarrow> plain_cache fs seen \<Longrightarrow> plain fs r \<and> plain_cache fs seen'"
proof (induction n arbitrary: p cs seen r seen' rule: less_induct)
  case (less n)
  note inner_IH = less.IH
  show ?case using less.prems
  proof (induction cs arbitrary: p seen)
    case (Cons name rest)
    show ?case
    proof (cases rule: link_cases [where name = name and fs = fs and p = p and seen = seen])
      case 1
      then show ?thesis using Cons by (simp add: join_real_dot)
    next
      case 2
      then show ?thesis using Cons by (simp add: join_real_up plain_butlast)
    next
      case 3
      then show ?thesis using Cons by (simp add: join_real_plain plain_snoc)
    next
      case (4 c)
      then obtain x where x: "c = Some x" using Cons.prems(1) by (cases c) (simp_all add: join_real_cached)
      then have "plain fs x" using 4 Cons.prems(3) by (auto simp: plain_cache_def)
      then show ?thesis using Cons.IH [of x seen] Cons.prems x by (simp add: join_real_cached [OF 4])
    next
      case (5 t)
      let ?q = "p @ [name]"
      obtain k where n: "n = Suc k" using Cons.prems(1) 5 by (cases n) (auto simp: join_real_no_fuel)
      obtain r1 ok seen1 where inner:
        "join_real fs k (link_start p t) (split_slash [] t) (dset seen ?q None) = Some (r1, ok, seen1)"
        using Cons.prems(1) by (auto simp: n join_real_link [OF 5] split: option.splits)
      then have ok: ok and rest: "join_real fs n r1 rest (dset seen1 ?q (Some r1)) = Some (r, True, seen')"
        using Cons.prems(1) by (auto simp: n join_real_link [OF 5] split: if_splits)
      have "plain fs (link_start p t)" "plain_cache fs (dset seen ?q None)"
        using Cons.prems by (auto simp: link_start_def plain_cache_def)
      then have "plain fs r1 \<and> plain_cache fs seen1"
        using inner_IH [of k "link_start p t" "split_slash [] t" "dset seen ?q None" r1 seen1] inner ok n by simp
      then have "plain fs r1" "plain_cache fs (dset seen1 ?q (Some r1))" by (auto simp: plain_cache_def)
      then show ?thesis using Cons.IH [OF rest] by blast
    qed
  qed simp
qed

lemma real_comps_plain: "snd (real_comps fs p cs) \<Longrightarrow> plain fs p \<Longrightarrow> plain fs (fst (real_comps fs p cs))"
proof -
  assume ok: "snd (real_comps fs p cs)" and p: "plain fs p"
  obtain r seen' where r: "join_real fs (link_fuel fs) p cs [] = Some (r, True, seen')" "fst (real_comps fs p cs) = collapse_comps [] r"
    using real_comps_def' [of fs p cs] ok by auto
  have "plain fs r" using join_real_is_plain [OF r(1) p] by (simp add: plain_cache_def)
  then show ?thesis using r(2) collapse_comps_proper [of r "[]"] by (simp add: plain_def)
qed

lemma join_real_of_plain: "plain fs (p @ cs) \<Longrightarrow> join_real fs n p cs seen = Some (p @ cs, True, seen)"
proof (induction cs arbitrary: p)
  case (Cons c cs)
  have "proper c" "\<not> is_link fs (p @ [c])"
    using Cons.prems by (auto simp: plain_def dest: bspec [where x = "Suc (length p)"])
  then show ?case using Cons by (simp add: join_real_plain)
qed simp

lemma real_comps_of_plain: "plain fs q \<Longrightarrow> real_comps fs [] q = (q, True)"
  using collapse_comps_proper [of q "[]"] by (simp add: real_comps_def join_real_of_plain plain_def)


section \<open>Confinement\<close>

text \<open>Every entry of a file system has a parent that is a directory.\<close>

definition fs_wf :: "fsys \<Rightarrow> bool" where
  "fs_wf fs \<longleftrightarrow> list_all (\<lambda>(q, _). q \<noteq> [] \<and> is_dir fs (butlast q)) fs"

lemma is_dir_parent: "fs_wf fs \<Longrightarrow> is_dir fs q \<Longrightarrow> is_dir fs (butlast q)"
  by (auto simp: fs_wf_def is_dir_def dget_def list_all_iff dest!: map_of_SomeD)

lemma is_dir_take: "fs_wf fs \<Longrightarrow> is_dir fs q \<Longrightarrow> is_dir fs (take n q)"
proof (induction q rule: rev_induct)
  case (snoc c q)
  then show ?case using is_dir_parent [OF snoc.prems] by (cases "n \<le> length q") auto
qed simp

lemma not_linkD: "\<not> is_link fs q \<Longrightarrow> dget fs q = None \<or> dget fs q = Some Dir \<or> (\<exists>s. dget fs q = Some (File s))"
  by (cases "dget fs q") (auto simp: is_link_def split: node.splits)

lemma make_dirs_plain:
  assumes "plain fs (p @ cs)"
  shows "(\<forall>x. dget (snd (make_dirs fs p cs)) x \<noteq> dget fs x \<longrightarrow> prefix x (p @ cs) \<and> x \<noteq> [] \<and> dget fs x = None)
    \<and> (\<forall>x. is_link (snd (make_dirs fs p cs)) x = is_link fs x)"
  using assms
proof (induction cs arbitrary: fs p)
  case (Cons c cs)
  let ?q = "p @ [c]"
  have nolink: "\<not> is_link fs ?q" using Cons.prems by (auto simp: plain_def dest: bspec [where x = "Suc (length p)"])
  consider "dget fs ?q = None" | "dget fs ?q = Some Dir" | s where "dget fs ?q = Some (File s)"
    using not_linkD [OF nolink] by (elim disjE exE)
  then show ?case
  proof cases
    case 1
    have same: "is_link (dset fs ?q Dir) x = is_link fs x" for x using nolink by (auto simp: is_link_def)
    then have "plain (dset fs ?q Dir) (?q @ cs)" using Cons.prems by (simp add: plain_def)
    note IH = Cons.IH [OF this]
    have "prefix ?q (p @ c # cs)" by (simp add: prefix_def)
    then have "dget (snd (make_dirs (dset fs ?q Dir) ?q cs)) x \<noteq> dget fs x \<Longrightarrow> prefix x (p @ c # cs) \<and> x \<noteq> [] \<and> dget fs x = None" for x
      using spec [OF conjunct1 [OF IH], of x] 1 by (cases "x = ?q") simp_all
    then show ?thesis using IH 1 same by (simp add: Let_def)
  next
    case 2
    then show ?thesis using Cons.IH [of fs ?q] Cons.prems by (simp add: Let_def)
  qed (simp add: Let_def)
qed simp

definition wanted :: "path \<Rightarrow> string \<Rightarrow> string list" where
  "wanted base relative = (if is_abs relative then split_slash [] relative else base @ split_slash [] relative)"

lemma resolve_plain:
  "snd (real_comps fs [] (wanted base relative)) \<Longrightarrow> resolve fs base relative = Inr q \<Longrightarrow> plain fs q \<and> prefix base q"
  using real_comps_plain [of fs "[]" "wanted base relative"]
  by (auto simp: resolve_def wanted_def Let_def split: if_splits) (metis take_is_prefix)+

lemma os_write_frame:
  assumes "plain fs q" "prefix base q" "fs_wf fs" "is_dir fs base" "\<not> prefix base p"
  shows "dget (snd (os_write fs q content)) p = dget fs p"
proof -
  obtain r fs' where md: "make_dirs fs [] (butlast q) = (r, fs')" by fastforce
  have frame: "dget fs' x \<noteq> dget fs x \<Longrightarrow> prefix x (butlast q) \<and> x \<noteq> [] \<and> dget fs x = None" and same: "is_link fs' x = is_link fs x" for x
    using make_dirs_plain [of fs "[]" "butlast q"] plain_butlast [OF assms(1)] md by auto
  have "dget fs' p = dget fs p"
  proof (rule ccontr)
    assume "dget fs' p \<noteq> dget fs p"
    then have p: "prefix p (butlast q)" "p \<noteq> []" "dget fs p = None" using frame by auto
    then have "prefix p q" by (meson prefix_order.trans prefixeq_butlast)
    then have "prefix p base" using assms(2,5) prefix_same_cases by blast
    then have "is_dir fs p" using is_dir_take [OF assms(3,4), of "length p"] by (auto simp: prefix_def)
    then show False using p by (simp add: is_dir_def)
  qed
  moreover have "kernel_path fs' q = Inr s \<Longrightarrow> s = q" for s
  proof -
    have "plain fs' q" using assms(1) same by (simp add: plain_def)
    then show "kernel_path fs' q = Inr s \<Longrightarrow> s = q"
      by (cases "parents_ok fs' [] q") (simp_all add: kernel_path_def real_comps_of_plain)
  qed
  ultimately show ?thesis using assms(2,5) by (auto simp: os_write_def md split: sum.split)
qed

lemma os_unlink_frame:
  assumes "plain fs q" "q \<noteq> []" "p \<noteq> q"
  shows "dget (snd (os_unlink fs q)) p = dget fs p"
proof -
  have "kernel_path fs (butlast q) = Inr s \<Longrightarrow> s = butlast q" for s
    by (cases "parents_ok fs [] (butlast q)") (simp_all add: kernel_path_def real_comps_of_plain [OF plain_butlast [OF assms(1)]])
  then show ?thesis using assms(2,3) by (auto simp: os_unlink_def Let_def split: sum.split option.split)
qed

text \<open>
  C9: As long as the links met do not form a loop, a workspace is confined: what is read is the content of a file
  at or below the root, and neither a write nor a deletion changes anything outside it.
\<close>
theorem workspace_confined:
  assumes "fs_wf fs" and "is_dir fs base" and "snd (real_comps fs [] (wanted base relative))"
  shows "(\<forall>c. read_text fs base relative = Inr c \<longrightarrow> (\<exists>q. prefix base q \<and> dget fs q = Some (File c)))
    \<and> (\<forall>p. \<not> prefix base p \<longrightarrow> dget (snd (write_text fs base relative content)) p = dget fs p
          \<and> dget (snd (delete_file fs base relative)) p = dget fs p)"
proof (cases "resolve fs base relative")
  case (Inl e)
  then show ?thesis by (simp add: read_text_def write_text_def delete_file_def)
next
  case (Inr q)
  then have q: "plain fs q" "prefix base q" using resolve_plain [OF assms(3)] by auto
  have read: "\<exists>q. prefix base q \<and> dget fs q = Some (File c)" if r: "read_text fs base relative = Inr c" for c
  proof -
    have "os_read fs q = Inr c" using r Inr by (simp add: read_text_def)
    then have "dget fs q = Some (File c)"
      by (cases "parents_ok fs [] q") (auto simp: os_read_def kernel_path_def real_comps_of_plain [OF q(1)] split: option.splits node.splits)
    then show ?thesis using q by blast
  qed
  have "dget (snd (delete_file fs base relative)) p = dget fs p" if p: "\<not> prefix base p" for p
  proof -
    have "q \<noteq> [] \<or> is_dir fs q" by (simp add: is_dir_def)
    moreover have "p \<noteq> q" using p q(2) by blast
    ultimately show ?thesis using os_unlink_frame [OF q(1)] by (auto simp: delete_file_def Inr real_comps_of_plain [OF q(1)])
  qed
  then show ?thesis using read os_write_frame [OF q assms(1,2)] by (simp add: write_text_def Inr)
qed

definition sample_fs :: fsys where
  "sample_fs = [([''w''], Dir), ([''w'', ''a.txt''], File ''hello''), ([''w'', ''up''], Link ''../etc''), ([''w'', ''loop''], Link ''loop''),
     ([''etc''], Dir), ([''etc'', ''passwd''], File ''secret'')]"

theorem workspace_confined_witness:
  "read_text sample_fs [''w''] ''x/../a.txt'' = Inr ''hello''
   \<and> (\<exists>q. prefix [''w''] q \<and> dget sample_fs q = Some (File ''hello''))
   \<and> dget (snd (write_text sample_fs [''w''] ''x/../a.txt'' ''new'')) [''etc'', ''passwd''] = Some (File ''secret'')"
proof -
  have "fs_wf sample_fs" "is_dir sample_fs [''w'']" "snd (real_comps sample_fs [] (wanted [''w''] ''x/../a.txt''))" by code_simp+
  note confined = workspace_confined [OF this, where content = "''new''"]
  have read: "read_text sample_fs [''w''] ''x/../a.txt'' = Inr ''hello''" by code_simp
  have out: "\<not> prefix [''w''] [''etc'', ''passwd'']" "dget sample_fs [''etc'', ''passwd''] = Some (File ''secret'')" by (simp, code_simp)
  show ?thesis using confined read out by metis
qed

text \<open>With a loop on the way the rest of the path stays unresolved, and a link in it leads outside after all.\<close>

lemma loop_escapes: "read_text sample_fs [''w''] ''loop/../up/passwd'' = Inr ''secret''"
  by code_simp

end
