(* ===== verification/File_Locks.thy ===== *)
theory File_Locks
  imports Workspace_Files Tool_Model
begin

text \<open>
  The file ownership registry of cooperating sub-agents (\<open>subagent/filelock.py\<close>). The registry is a
  directory of lock files, named by a digest of the protected path, which is an argument; a lock file holds
  a JSON document, and an empty one, just created, is read as nothing. The loop of \<open>acquire\<close> is split at
  its system calls, so that attempts of different agents interleave. The mutex belongs to a registry object:
  what the code does under it is one step for the agents that share the object, and only for those. Releasing, renewing and asking for the owner take the path as given, for the messages, and the
  canonical path it resolves to.
\<close>

section \<open>Records\<close>

record lock_info =
  li_path :: path
  li_owner :: string
  li_acquired :: rat
  li_expires :: "rat option"

type_synonym lock_dir = "(string, json) dict"
type_synonym digest = "path \<Rightarrow> string"

definition lock_payload :: "(rat \<Rightarrow> string) \<Rightarrow> lock_info \<Rightarrow> json" where
  "lock_payload ft i = JObj [(''acquired_at'', JFloat (li_acquired i) (ft (li_acquired i))),
     (''expires_at'', case li_expires i of None \<Rightarrow> JNull | Some x \<Rightarrow> JFloat x (ft x)),
     (''owner_id'', JStr (li_owner i)), (''path'', JStr (path_str (li_path i)))]"

text \<open>A record names its path by its text; a canonical path is its list of components again.\<close>

definition path_of_str :: "string \<Rightarrow> path" where
  "path_of_str s = filter (\<lambda>c. c \<noteq> []) (split_slash [] s)"

definition read_record :: "json \<Rightarrow> lock_info option" where
  "read_record raw = (case raw of
     JObj d \<Rightarrow>
       (case (dget d ''path'', dget d ''owner_id'', dget d ''acquired_at'', dget d ''expires_at'') of
          (Some (JStr p), Some (JStr owner), Some acquired, Some expires) \<Rightarrow>
            (case num_val acquired of
               None \<Rightarrow> None
             | Some a \<Rightarrow>
                 if expires = JNull then Some \<lparr>li_path = path_of_str p, li_owner = owner, li_acquired = a, li_expires = None\<rparr>
                 else (case num_val expires of
                    None \<Rightarrow> None
                  | Some e \<Rightarrow> Some \<lparr>li_path = path_of_str p, li_owner = owner, li_acquired = a, li_expires = Some e\<rparr>))
        | _ \<Rightarrow> None)
   | _ \<Rightarrow> None)"

definition read_info :: "digest \<Rightarrow> path \<Rightarrow> lock_dir \<Rightarrow> lock_info option" where
  "read_info dig c ld = (case dget ld (dig c) of None \<Rightarrow> None | Some raw \<Rightarrow> read_record raw)"

definition lock_expired :: "lock_info \<Rightarrow> rat \<Rightarrow> bool" where
  "lock_expired i now = (case li_expires i of None \<Rightarrow> False | Some x \<Rightarrow> x \<le> now)"

definition remove_if_unchanged :: "digest \<Rightarrow> path \<Rightarrow> lock_info \<Rightarrow> lock_dir \<Rightarrow> lock_dir" where
  "remove_if_unchanged dig c expected ld = (if read_info dig c ld = Some expected then dpop ld (dig c) else ld)"

section \<open>The registry\<close>

definition registry_init :: "rat option \<Rightarrow> rat option result" where
  "registry_init lease = (case lease of
     Some x \<Rightarrow> if x \<le> 0 then Inl (Exn ''ValueError'' ''default_lease_seconds must be positive or None'') else Inr lease
   | None \<Rightarrow> Inr lease)"

definition canonical_path :: "fsys \<Rightarrow> path \<Rightarrow> string \<Rightarrow> path result" where
  "canonical_path fs base p = (if p = '''' then Inl (Exn ''ValueError'' ''path must be a non-empty string'') else resolve fs base p)"

record lock_request =
  lq_path :: path
  lq_owner :: string
  lq_lease :: "rat option"
  lq_deadline :: "rat option"

definition lease_or_default :: "rat option \<Rightarrow> rat option \<Rightarrow> rat option result" where
  "lease_or_default dflt lease = (let l = (case lease of None \<Rightarrow> dflt | Some x \<Rightarrow> Some x) in
     case l of
       Some x \<Rightarrow> if x \<le> 0 then Inl (Exn ''ValueError'' ''lease_seconds must be positive or None'') else Inr l
     | None \<Rightarrow> Inr None)"

definition acquire_args :: "fsys \<Rightarrow> path \<Rightarrow> rat option \<Rightarrow> rat \<Rightarrow> string \<Rightarrow> string \<Rightarrow> rat option \<Rightarrow> rat option \<Rightarrow> lock_request result" where
  "acquire_args fs base dflt clock p owner timeout lease =
     bind_res (canonical_path fs base p) (\<lambda>c.
       if is_blank owner then Inl (Exn ''ValueError'' ''owner_id must be a non-empty string'')
       else if (case timeout of Some t \<Rightarrow> t < 0 | None \<Rightarrow> False)
       then Inl (Exn ''ValueError'' ''timeout must be non-negative or None'')
       else bind_res (lease_or_default dflt lease) (\<lambda>l.
         Inr \<lparr>lq_path = c, lq_owner = owner, lq_lease = l, lq_deadline = map_option (\<lambda>t. clock + t) timeout\<rparr>))"

text \<open>
  An attempt: about to create the record, having created it empty, having found it there (at a time), about
  to remove a stale one, granted a lease, or timed out.
\<close>

datatype attempt =
  Trying
| Created lock_info
| Blocked rat
| Stale lock_info
| Granted "rat option"
| TimedOut "string option"

definition request_info :: "lock_request \<Rightarrow> rat \<Rightarrow> lock_info" where
  "request_info r now = \<lparr>li_path = lq_path r, li_owner = lq_owner r, li_acquired = now, li_expires = map_option (\<lambda>l. now + l) (lq_lease r)\<rparr>"

definition past_deadline :: "lock_request \<Rightarrow> rat \<Rightarrow> bool" where
  "past_deadline r clock = (case lq_deadline r of None \<Rightarrow> False | Some d \<Rightarrow> d \<le> clock)"

fun acquire_step :: "digest \<Rightarrow> (rat \<Rightarrow> string) \<Rightarrow> rat \<Rightarrow> rat \<Rightarrow> lock_request \<Rightarrow> attempt \<Rightarrow> lock_dir \<Rightarrow> attempt \<times> lock_dir" where
  "acquire_step dig ft now clock r Trying ld =
     (case dget ld (dig (lq_path r)) of
        Some _ \<Rightarrow> (Blocked now, ld)
      | None \<Rightarrow> (Created (request_info r now), dset ld (dig (lq_path r)) JNull))"
| "acquire_step dig ft now clock r (Created i) ld = (Granted (li_expires i), dset ld (dig (lq_path r)) (lock_payload ft i))"
| "acquire_step dig ft now clock r (Blocked t) ld =
     (case read_info dig (lq_path r) ld of
        None \<Rightarrow> (if past_deadline r clock then TimedOut None else Trying, ld)
      | Some i \<Rightarrow>
          if li_owner i = lq_owner r then (Granted (li_expires i), ld)
          else if lock_expired i t then (Stale i, ld)
          else (if past_deadline r clock then TimedOut (Some (li_owner i)) else Trying, ld))"
| "acquire_step dig ft now clock r (Stale i) ld = (Trying, remove_if_unchanged dig (lq_path r) i ld)"
| "acquire_step dig ft now clock r (Granted e) ld = (Granted e, ld)"
| "acquire_step dig ft now clock r (TimedOut h) ld = (TimedOut h, ld)"

definition timeout_error :: "string \<Rightarrow> string option \<Rightarrow> exn" where
  "timeout_error p holder = Exn ''FileLockTimeoutError'' (''Timed out acquiring file lock for '' @ repr_str p @ ''; held by ''
     @ repr_str (case holder of Some h \<Rightarrow> h | None \<Rightarrow> ''unknown''))"

definition ownership_error :: "string \<Rightarrow> 'a result" where
  "ownership_error m = Inl (Exn ''FileLockOwnershipError'' m)"

definition release :: "digest \<Rightarrow> string \<Rightarrow> path \<Rightarrow> string \<Rightarrow> lock_dir \<Rightarrow> lock_dir result" where
  "release dig p c owner ld = (case read_info dig c ld of
     None \<Rightarrow> ownership_error (''No file lock is held for '' @ repr_str p)
   | Some i \<Rightarrow>
       if li_owner i \<noteq> owner
       then ownership_error (''File lock for '' @ repr_str p @ '' is owned by '' @ repr_str (li_owner i) @ '', not '' @ repr_str owner)
       else Inr (dpop ld (dig c)))"

definition renew :: "digest \<Rightarrow> (rat \<Rightarrow> string) \<Rightarrow> rat option \<Rightarrow> rat \<Rightarrow> string \<Rightarrow> path \<Rightarrow> string \<Rightarrow> rat option \<Rightarrow> lock_dir \<Rightarrow> (lock_info \<times> lock_dir) result" where
  "renew dig ft dflt now p c owner lease ld = bind_res (lease_or_default dflt lease) (\<lambda>l.
     case read_info dig c ld of
       None \<Rightarrow> ownership_error (''Agent '' @ repr_str owner @ '' does not own '' @ repr_str p)
     | Some i \<Rightarrow>
         if li_owner i \<noteq> owner then ownership_error (''Agent '' @ repr_str owner @ '' does not own '' @ repr_str p)
         else let u = \<lparr>li_path = c, li_owner = owner, li_acquired = li_acquired i, li_expires = map_option (\<lambda>x. now + x) l\<rparr>
              in Inr (u, dset ld (dig c) (lock_payload ft u)))"

definition owner_of :: "digest \<Rightarrow> rat \<Rightarrow> path \<Rightarrow> lock_dir \<Rightarrow> lock_info option \<times> lock_dir" where
  "owner_of dig now c ld = (case read_info dig c ld of
     None \<Rightarrow> (None, ld)
   | Some i \<Rightarrow> if lock_expired i now then (None, remove_if_unchanged dig c i ld) else (Some i, ld))"

fun scan_locks :: "digest \<Rightarrow> rat \<Rightarrow> json list \<Rightarrow> lock_dir \<Rightarrow> lock_info list \<times> lock_dir" where
  "scan_locks dig now [] ld = ([], ld)"
| "scan_locks dig now (raw # raws) ld = (case read_record raw of
     None \<Rightarrow> scan_locks dig now raws ld
   | Some i \<Rightarrow>
       if lock_expired i now then scan_locks dig now raws (remove_if_unchanged dig (li_path i) i ld)
       else (let (live, ld') = scan_locks dig now raws ld in (i # live, ld')))"

definition locked_paths :: "digest \<Rightarrow> rat \<Rightarrow> lock_dir \<Rightarrow> lock_info list \<times> lock_dir" where
  "locked_paths dig now ld = (let (live, ld') = scan_locks dig now (map snd ld) ld in (sort_key (\<lambda>i. path_str (li_path i)) live, ld'))"

fun release_each :: "digest \<Rightarrow> string \<Rightarrow> lock_info list \<Rightarrow> lock_dir \<Rightarrow> nat \<times> lock_dir" where
  "release_each dig owner [] ld = (0, ld)"
| "release_each dig owner (i # is) ld =
     (if li_owner i \<noteq> owner then release_each dig owner is ld
      else case release dig (path_str (li_path i)) (li_path i) owner ld of
          Inl e \<Rightarrow> release_each dig owner is ld
        | Inr ld' \<Rightarrow> (let (n, ld'') = release_each dig owner is ld' in (Suc n, ld'')))"

definition release_all :: "digest \<Rightarrow> rat \<Rightarrow> string \<Rightarrow> lock_dir \<Rightarrow> nat \<times> lock_dir" where
  "release_all dig now owner ld = (let (live, ld') = locked_paths dig now ld in release_each dig owner live ld')"

text \<open>The lease object: releasing it twice is harmless.\<close>

record file_lock =
  fl_path :: path
  fl_owner :: string
  fl_released :: bool

definition lock_release :: "digest \<Rightarrow> file_lock \<Rightarrow> lock_dir \<Rightarrow> (file_lock \<times> lock_dir) result" where
  "lock_release dig l ld = (if fl_released l then Inr (l, ld)
     else bind_res (release dig (path_str (fl_path l)) (fl_path l) (fl_owner l) ld) (\<lambda>ld'. Inr (l\<lparr>fl_released := True\<rparr>, ld')))"

section \<open>Interleaved agents\<close>

record lock_world =
  lw_now :: rat
  lw_dir :: lock_dir
  lw_attempts :: "nat \<Rightarrow> (lock_request \<times> attempt) option"
  lw_leases :: "path \<times> string \<Rightarrow> rat option option"

definition canonical :: "path \<Rightarrow> bool" where
  "canonical c = list_all (\<lambda>x. x \<noteq> [] \<and> CHR ''/'' \<notin> set x) c"

definition granted :: "lock_request \<Rightarrow> attempt \<Rightarrow> (path \<times> string \<Rightarrow> rat option option) \<Rightarrow> path \<times> string \<Rightarrow> rat option option" where
  "granted r a leases = (case a of Granted e \<Rightarrow> leases((lq_path r, lq_owner r) \<mapsto> e) | _ \<Rightarrow> leases)"

text \<open>
  One step of the agents that share one registry object: an attempt begins, makes its next system call or gives up while writing
  its record; a lock is released or renewed; somebody looks at one or at all locks; time passes. The leases are
  a ghost: what each owner has been granted and has not released.
\<close>

inductive lock_step :: "digest \<Rightarrow> (rat \<Rightarrow> string) \<Rightarrow> lock_world \<Rightarrow> lock_world \<Rightarrow> bool" for dig ft where
  Begin: "lw_attempts w n = None \<Longrightarrow> canonical (lq_path r) \<Longrightarrow>
    lock_step dig ft w (w\<lparr>lw_attempts := (lw_attempts w)(n \<mapsto> (r, Trying))\<rparr>)"
| Advance: "lw_attempts w n = Some (r, a) \<Longrightarrow> (\<forall>e. a \<noteq> Granted e) \<Longrightarrow>
    acquire_step dig ft (lw_now w) clock r a (lw_dir w) = (a', ld) \<Longrightarrow>
    lock_step dig ft w (w\<lparr>lw_dir := ld, lw_attempts := (lw_attempts w)(n \<mapsto> (r, a')), lw_leases := granted r a' (lw_leases w)\<rparr>)"
| Abort: "lw_attempts w n = Some (r, Created i) \<Longrightarrow>
    lock_step dig ft w (w\<lparr>lw_dir := dpop (lw_dir w) (dig (lq_path r)), lw_attempts := (lw_attempts w)(n := None)\<rparr>)"
| Release: "canonical c \<Longrightarrow> release dig p c owner (lw_dir w) = Inr ld \<Longrightarrow>
    lock_step dig ft w (w\<lparr>lw_dir := ld, lw_leases := (lw_leases w)((c, owner) := None)\<rparr>)"
| Renew: "canonical c \<Longrightarrow> renew dig ft dflt (lw_now w) p c owner lease (lw_dir w) = Inr (u, ld) \<Longrightarrow>
    lock_step dig ft w (w\<lparr>lw_dir := ld, lw_leases := (lw_leases w)((c, owner) \<mapsto> li_expires u)\<rparr>)"
| Inspect: "lock_step dig ft w (w\<lparr>lw_dir := snd (owner_of dig (lw_now w) c (lw_dir w))\<rparr>)"
| Inventory: "lock_step dig ft w (w\<lparr>lw_dir := snd (locked_paths dig (lw_now w) (lw_dir w))\<rparr>)"
| Tick: "lw_now w \<le> t \<Longrightarrow> lock_step dig ft w (w\<lparr>lw_now := t\<rparr>)"

definition start_world :: lock_world where
  "start_world = \<lparr>lw_now = 0, lw_dir = [], lw_attempts = (\<lambda>_. None), lw_leases = (\<lambda>_. None)\<rparr>"

definition running :: "rat \<Rightarrow> rat option \<Rightarrow> bool" where
  "running now e = (case e of None \<Rightarrow> True | Some x \<Rightarrow> now < x)"

section \<open>Reading back a record\<close>

lemma split_slash_run: "CHR ''/'' \<notin> set x \<Longrightarrow> split_slash acc (x @ s) = split_slash (rev x @ acc) s"
  by (induction x arbitrary: acc) auto

lemma split_concat: "canonical c \<Longrightarrow> filter (\<lambda>x. x \<noteq> []) (split_slash acc (concat (map (\<lambda>x. CHR ''/'' # x) c))) = filter (\<lambda>x. x \<noteq> []) (rev acc # c)"
proof (induction c arbitrary: acc)
  case (Cons x c)
  then have "canonical c" "x \<noteq> []" "CHR ''/'' \<notin> set x" by (auto simp: canonical_def)
  then show ?case using Cons.IH [of "rev x"] by (simp add: split_slash_run)
qed simp

lemma path_of_path_str: "canonical c \<Longrightarrow> path_of_str (path_str c) = c"
proof -
  assume c: "canonical c"
  have "filter (\<lambda>x. x \<noteq> []) c = c" using c by (simp add: canonical_def list_all_iff filter_id_conv)
  then show ?thesis using split_concat [OF c, of "[]"] by (simp add: path_of_str_def path_str_def)
qed

lemma read_payload: "canonical (li_path i) \<Longrightarrow> read_record (lock_payload ft i) = Some i"
  by (cases "li_expires i") (simp_all add: read_record_def lock_payload_def path_of_path_str)

lemma read_record_JNull [simp]: "read_record JNull = None"
  by (simp add: read_record_def)

lemma read_info_dset: "read_info dig c (dset ld k raw) = (if dig c = k then read_record raw else read_info dig c ld)"
  by (simp add: read_info_def)

lemma read_info_dpop: "read_info dig c (dpop ld k) = (if dig c = k then None else read_info dig c ld)"
  by (simp add: read_info_def)


section \<open>Mutual exclusion\<close>

definition held_inv :: "digest \<Rightarrow> rat \<Rightarrow> lock_dir \<Rightarrow> (path \<times> string \<Rightarrow> rat option option) \<Rightarrow> bool" where
  "held_inv dig now ld leases \<longleftrightarrow> (\<forall>c ow e. leases (c, ow) = Some e \<longrightarrow> running now e \<longrightarrow>
     canonical c \<and> (\<exists>i. read_info dig c ld = Some i \<and> li_owner i = ow \<and> li_expires i = e))"

definition creating :: "(nat \<Rightarrow> (lock_request \<times> attempt) option) \<Rightarrow> nat \<Rightarrow> path \<Rightarrow> bool" where
  "creating att n c \<longleftrightarrow> (\<exists>r i. att n = Some (r, Created i) \<and> lq_path r = c)"

definition attempt_ok :: "rat \<Rightarrow> lock_request \<Rightarrow> attempt \<Rightarrow> bool" where
  "attempt_ok now r a \<longleftrightarrow> canonical (lq_path r) \<and> (case a of
     Created i \<Rightarrow> li_path i = lq_path r \<and> li_owner i = lq_owner r
   | Stale i \<Rightarrow> lock_expired i now
   | Blocked t \<Rightarrow> t \<le> now
   | _ \<Rightarrow> True)"

definition attempts_inv :: "digest \<Rightarrow> rat \<Rightarrow> lock_dir \<Rightarrow> (nat \<Rightarrow> (lock_request \<times> attempt) option) \<Rightarrow> bool" where
  "attempts_inv dig now ld att \<longleftrightarrow>
     (\<forall>n r a. att n = Some (r, a) \<longrightarrow> attempt_ok now r a)
   \<and> (\<forall>n c. creating att n c \<longrightarrow> dget ld (dig c) = Some JNull)
   \<and> (\<forall>n m c d. creating att n c \<longrightarrow> creating att m d \<longrightarrow> dig c = dig d \<longrightarrow> n = m)"

definition lock_inv :: "digest \<Rightarrow> lock_world \<Rightarrow> bool" where
  "lock_inv dig w \<longleftrightarrow> held_inv dig (lw_now w) (lw_dir w) (lw_leases w) \<and> attempts_inv dig (lw_now w) (lw_dir w) (lw_attempts w)"

lemma lock_expired_mono: "lock_expired i t \<Longrightarrow> t \<le> t' \<Longrightarrow> lock_expired i t'"
  by (auto simp: lock_expired_def split: option.splits)

lemma expired_not_running: "lock_expired i now \<Longrightarrow> \<not> running now (li_expires i)"
  by (auto simp: lock_expired_def running_def split: option.splits)

lemma read_info_digest: "dig c = dig d \<Longrightarrow> read_info dig c ld = read_info dig d ld"
  by (simp add: read_info_def)

lemma heldI:
  "(\<And>c ow e. leases (c, ow) = Some e \<Longrightarrow> running now e \<Longrightarrow>
     canonical c \<and> (\<exists>i. read_info dig c ld = Some i \<and> li_owner i = ow \<and> li_expires i = e)) \<Longrightarrow> held_inv dig now ld leases"
  by (simp add: held_inv_def)

lemma heldE:
  "held_inv dig now ld leases \<Longrightarrow> leases (c, ow) = Some e \<Longrightarrow> running now e \<Longrightarrow>
    (\<And>i. canonical c \<Longrightarrow> read_info dig c ld = Some i \<Longrightarrow> li_owner i = ow \<Longrightarrow> li_expires i = e \<Longrightarrow> P) \<Longrightarrow> P"
  by (auto simp: held_inv_def)

lemma creatingD: "attempts_inv dig now ld att \<Longrightarrow> creating att n c \<Longrightarrow> dget ld (dig c) = Some JNull"
  by (simp add: attempts_inv_def)

text \<open>Removing an expired record takes no lock away from anybody whose lease runs.\<close>

lemma remove_expired:
  assumes "lock_expired i now"
  shows "held_inv dig now ld leases \<Longrightarrow> held_inv dig now (remove_if_unchanged dig c i ld) leases"
    and "attempts_inv dig now ld att \<Longrightarrow> attempts_inv dig now (remove_if_unchanged dig c i ld) att"
proof -
  show "held_inv dig now (remove_if_unchanged dig c i ld) leases" if inv: "held_inv dig now ld leases"
  proof (rule heldI)
    fix d ow e assume "leases (d, ow) = Some e" "running now e"
    then obtain j where j: "canonical d" "read_info dig d ld = Some j" "li_owner j = ow" "li_expires j = e" using heldE [OF inv] by blast
    have "dig d = dig c \<Longrightarrow> read_info dig c ld \<noteq> Some i"
      using j expired_not_running [OF assms] \<open>running now e\<close> read_info_digest [of dig d c ld] by auto
    then show "canonical d \<and> (\<exists>i'. read_info dig d (remove_if_unchanged dig c i ld) = Some i' \<and> li_owner i' = ow \<and> li_expires i' = e)"
      using j by (auto simp: remove_if_unchanged_def read_info_dpop)
  qed
  have "read_info dig c ld = Some i \<Longrightarrow> dget ld (dig d) = Some JNull \<Longrightarrow> dig d \<noteq> dig c" for d
    by (auto simp: read_info_def)
  then show "attempts_inv dig now ld att \<Longrightarrow> attempts_inv dig now (remove_if_unchanged dig c i ld) att"
    by (auto simp: attempts_inv_def remove_if_unchanged_def)
qed

lemma scan_locks_keeps:
  assumes "\<And>c i ld. lock_expired i now \<Longrightarrow> P ld \<Longrightarrow> P (remove_if_unchanged dig c i ld)"
  shows "P ld \<Longrightarrow> P (snd (scan_locks dig now raws ld))"
  by (induction raws arbitrary: ld) (auto simp: assms Let_def case_prod_unfold split: option.split)

lemma locked_paths_keeps:
  assumes "\<And>c i ld. lock_expired i now \<Longrightarrow> P ld \<Longrightarrow> P (remove_if_unchanged dig c i ld)"
  shows "P ld \<Longrightarrow> P (snd (locked_paths dig now ld))"
  using scan_locks_keeps [where P = P, OF assms] by (simp add: locked_paths_def case_prod_unfold Let_def)

lemma owner_of_keeps:
  assumes "\<And>c i ld. lock_expired i now \<Longrightarrow> P ld \<Longrightarrow> P (remove_if_unchanged dig c i ld)"
  shows "P ld \<Longrightarrow> P (snd (owner_of dig now c ld))"
  by (auto simp: owner_of_def assms split: option.split)

lemma created_cases: "creating (att(n \<mapsto> (r, a))) m c \<longleftrightarrow> (if m = n then (\<exists>i. a = Created i) \<and> lq_path r = c else creating att m c)"
  by (auto simp: creating_def)

lemma attempts_update:
  "attempts_inv dig now ld att \<Longrightarrow> attempt_ok now r a \<Longrightarrow> \<forall>i. a \<noteq> Created i \<Longrightarrow> attempts_inv dig now ld (att(n \<mapsto> (r, a)))"
  unfolding attempts_inv_def by (simp add: created_cases)

lemma attempts_drop: "attempts_inv dig now ld att \<Longrightarrow> attempts_inv dig now ld (att(n := None))"
  by (auto simp: attempts_inv_def creating_def)

text \<open>The file of a lock that is read as something belongs to no attempt in creation.\<close>

lemma not_creating: "attempts_inv dig now ld att \<Longrightarrow> read_info dig c ld = Some i \<Longrightarrow> creating att n d \<Longrightarrow> dig d \<noteq> dig c"
  by (drule (1) creatingD) (auto simp: read_info_def)

lemma attempts_dir:
  "attempts_inv dig now ld att \<Longrightarrow> (\<And>n d. creating att n d \<Longrightarrow> dget ld' (dig d) = dget ld (dig d)) \<Longrightarrow> attempts_inv dig now ld' att"
  by (auto simp: attempts_inv_def)

lemma advance_inv:
  assumes inv: "held_inv dig now ld leases" "attempts_inv dig now ld att" and inj: "inj dig"
    and att: "att n = Some (r, a)" and step: "acquire_step dig ft now clock r a ld = (a', ld')" "\<forall>e. a \<noteq> Granted e"
  shows "held_inv dig now ld' (granted r a' leases) \<and> attempts_inv dig now ld' (att(n \<mapsto> (r, a')))"
proof -
  have ok: "attempt_ok now r a" using inv(2) att by (auto simp: attempts_inv_def)
  then have can: "canonical (lq_path r)" by (simp add: attempt_ok_def)
  show ?thesis
  proof (cases a)
    case Trying
    show ?thesis
    proof (cases "dget ld (dig (lq_path r))")
      case None
      then have free: "read_info dig (lq_path r) ld = None" by (simp add: read_info_def)
      have other: "creating att m c \<Longrightarrow> dig c \<noteq> dig (lq_path r)" for m c using creatingD [OF inv(2)] None by fastforce
      have "held_inv dig now (dset ld (dig (lq_path r)) JNull) leases"
        using inv(1) free inj by (fastforce simp: held_inv_def read_info_dset inj_eq)
      moreover have "attempts_inv dig now (dset ld (dig (lq_path r)) JNull) (att(n \<mapsto> (r, Created (request_info r now))))"
        using inv(2) other can by (auto simp: attempts_inv_def created_cases attempt_ok_def request_info_def) (metis other)
      ultimately show ?thesis using step Trying None by (auto simp: granted_def)
    next
      case (Some x)
      then show ?thesis using step Trying inv can attempts_update [OF inv(2)] by (auto simp: granted_def attempt_ok_def)
    qed
  next
    case (Created i)
    then have i: "li_path i = lq_path r" "li_owner i = lq_owner r" using ok by (auto simp: attempt_ok_def)
    have mine: "creating att n (lq_path r)" using att Created by (auto simp: creating_def)
    then have JNull: "dget ld (dig (lq_path r)) = Some JNull" and alone: "creating att m c \<Longrightarrow> dig c = dig (lq_path r) \<Longrightarrow> m = n" for m c
      using inv(2) by (auto simp: attempts_inv_def)
    then have "read_info dig (lq_path r) ld = None" by (simp add: read_info_def)
    moreover have "read_record (lock_payload ft i) = Some i" using can i(1) by (simp add: read_payload)
    ultimately have "held_inv dig now (dset ld (dig (lq_path r)) (lock_payload ft i)) (leases((lq_path r, lq_owner r) \<mapsto> li_expires i))"
      using inv(1) inj can i(2) by (fastforce simp: held_inv_def read_info_dset inj_eq)
    moreover have "attempts_inv dig now (dset ld (dig (lq_path r)) (lock_payload ft i)) (att(n \<mapsto> (r, Granted (li_expires i))))"
      using inv(2) alone can by (auto simp: attempts_inv_def created_cases attempt_ok_def)
    ultimately show ?thesis using step Created by (auto simp: granted_def)
  next
    case (Blocked t)
    have t: "t \<le> now" using ok Blocked by (simp add: attempt_ok_def)
    show ?thesis
    proof (cases "read_info dig (lq_path r) ld")
      case None
      then show ?thesis using step Blocked inv can attempts_update [OF inv(2)] by (auto simp: granted_def attempt_ok_def)
    next
      case (Some i)
      have "held_inv dig now ld (leases((lq_path r, lq_owner r) \<mapsto> li_expires i))" if "li_owner i = lq_owner r"
        using inv(1) Some that can by (auto simp: held_inv_def)
      then show ?thesis using step Blocked Some inv can t attempts_update [OF inv(2)] lock_expired_mono [of i t now]
        by (auto simp: granted_def attempt_ok_def split: if_splits)
    qed
  next
    case (Stale i)
    have "lock_expired i now" using ok Stale by (simp add: attempt_ok_def)
    from remove_expired [OF this] inv have r: "held_inv dig now (remove_if_unchanged dig (lq_path r) i ld) leases"
      "attempts_inv dig now (remove_if_unchanged dig (lq_path r) i ld) att" by blast+
    then show ?thesis using step Stale can attempts_update [OF r(2)] by (auto simp: granted_def attempt_ok_def)
  next
    case (Granted e)
    then show ?thesis using step(2) by simp
  next
    case (TimedOut h)
    then show ?thesis using step inv can attempts_update [OF inv(2)] by (auto simp: granted_def attempt_ok_def)
  qed
qed


lemma release_inv:
  assumes inv: "held_inv dig now ld leases" "attempts_inv dig now ld att" and inj: "inj dig" and rel: "release dig p c owner ld = Inr ld'"
  shows "held_inv dig now ld' (leases((c, owner) := None)) \<and> attempts_inv dig now ld' att"
proof -
  obtain i where i: "read_info dig c ld = Some i" "li_owner i = owner" "ld' = dpop ld (dig c)"
    using rel by (auto simp: release_def ownership_error_def split: option.splits if_splits)
  have "held_inv dig now ld' (leases((c, owner) := None))"
  proof (rule heldI)
    fix d ow e assume *: "(leases((c, owner) := None)) (d, ow) = Some e" "running now e"
    then have "leases (d, ow) = Some e" "(d, ow) \<noteq> (c, owner)" by (auto split: if_splits)
    then obtain j where j: "canonical d" "read_info dig d ld = Some j" "li_owner j = ow" "li_expires j = e" using heldE [OF inv(1)] *(2) by blast
    then have "d \<noteq> c" using i \<open>(d, ow) \<noteq> (c, owner)\<close> by auto
    then show "canonical d \<and> (\<exists>i. read_info dig d ld' = Some i \<and> li_owner i = ow \<and> li_expires i = e)"
      using j i(3) inj by (simp add: read_info_dpop inj_eq)
  qed
  moreover have "attempts_inv dig now ld' att"
    by (rule attempts_dir [OF inv(2)]) (use not_creating [OF inv(2) i(1)] i(3) in auto)
  ultimately show ?thesis ..
qed

lemma renew_inv:
  assumes inv: "held_inv dig now ld leases" "attempts_inv dig now ld att" and inj: "inj dig" and c: "canonical c"
    and ren: "renew dig ft dflt now p c owner lease ld = Inr (u, ld')"
  shows "held_inv dig now ld' (leases((c, owner) \<mapsto> li_expires u)) \<and> attempts_inv dig now ld' att"
proof -
  obtain i where i: "read_info dig c ld = Some i" "li_owner i = owner" and u: "li_path u = c" "li_owner u = owner"
    and ld': "ld' = dset ld (dig c) (lock_payload ft u)"
    using ren by (cases "lease_or_default dflt lease") (auto simp: renew_def ownership_error_def Let_def split: option.splits if_splits)
  have "held_inv dig now ld' (leases((c, owner) \<mapsto> li_expires u))"
  proof (rule heldI)
    fix d ow e assume *: "(leases((c, owner) \<mapsto> li_expires u)) (d, ow) = Some e" "running now e"
    show "canonical d \<and> (\<exists>i. read_info dig d ld' = Some i \<and> li_owner i = ow \<and> li_expires i = e)"
    proof (cases "(d, ow) = (c, owner)")
      case True
      then show ?thesis using * c u by (auto simp: ld' read_info_dset read_payload)
    next
      case False
      then obtain j where j: "canonical d" "read_info dig d ld = Some j" "li_owner j = ow" "li_expires j = e"
        using heldE [OF inv(1)] * by (metis fun_upd_other)
      then have "d \<noteq> c" using i False by auto
      then show ?thesis using j inj by (simp add: ld' read_info_dset inj_eq)
    qed
  qed
  moreover have "attempts_inv dig now ld' att"
    by (rule attempts_dir [OF inv(2)]) (use not_creating [OF inv(2) i(1)] ld' in auto)
  ultimately show ?thesis ..
qed

lemma lock_step_inv: "lock_step dig ft w w' \<Longrightarrow> inj dig \<Longrightarrow> lock_inv dig w \<Longrightarrow> lock_inv dig w'"
proof (induction rule: lock_step.induct)
  case (Begin w n r)
  then show ?case using attempts_update [of dig "lw_now w" "lw_dir w" "lw_attempts w" r Trying n] by (simp add: lock_inv_def attempt_ok_def)
next
  case (Advance w n r a clock a' ld)
  then show ?case using advance_inv [of dig "lw_now w" "lw_dir w" "lw_leases w" "lw_attempts w" n r a ft clock a' ld] by (simp add: lock_inv_def)
next
  case (Abort w n r i)
  let ?k = "dig (lq_path r)"
  have att: "attempts_inv dig (lw_now w) (lw_dir w) (lw_attempts w)" and held: "held_inv dig (lw_now w) (lw_dir w) (lw_leases w)"
    using Abort by (auto simp: lock_inv_def)
  have mine: "creating (lw_attempts w) n (lq_path r)" using Abort by (auto simp: creating_def)
  then have nul: "read_info dig (lq_path r) (lw_dir w) = None" using creatingD [OF att] by (simp add: read_info_def)
  have "creating (lw_attempts w) m d \<Longrightarrow> m \<noteq> n \<Longrightarrow> dig d \<noteq> ?k" for m d using att mine unfolding attempts_inv_def by metis
  then have "creating ((lw_attempts w)(n := None)) m d \<Longrightarrow> dig d \<noteq> ?k" for m d by (auto simp: creating_def split: if_splits)
  then have "attempts_inv dig (lw_now w) (dpop (lw_dir w) ?k) ((lw_attempts w)(n := None))"
    using attempts_dir [OF attempts_drop [OF att, of n], of "dpop (lw_dir w) ?k"] by simp
  moreover have "held_inv dig (lw_now w) (dpop (lw_dir w) ?k) (lw_leases w)"
  proof (rule heldI)
    fix d ow e assume "lw_leases w (d, ow) = Some e" "running (lw_now w) e"
    then obtain j where j: "canonical d" "read_info dig d (lw_dir w) = Some j" "li_owner j = ow" "li_expires j = e" using heldE [OF held] by blast
    then have "dig d \<noteq> ?k" using nul read_info_digest [of dig d "lq_path r" "lw_dir w"] by auto
    then show "canonical d \<and> (\<exists>i. read_info dig d (dpop (lw_dir w) ?k) = Some i \<and> li_owner i = ow \<and> li_expires i = e)"
      using j by (simp add: read_info_dpop)
  qed
  ultimately show ?case by (simp add: lock_inv_def)
next
  case (Release c p owner w ld)
  then show ?case using release_inv [of dig "lw_now w" "lw_dir w" "lw_leases w" "lw_attempts w" p c owner ld] by (simp add: lock_inv_def)
next
  case (Renew c dflt w p owner lease u ld)
  then show ?case using renew_inv [of dig "lw_now w" "lw_dir w" "lw_leases w" "lw_attempts w" c ft dflt p owner lease u ld]
    by (simp add: lock_inv_def)
next
  case (Inspect w c)
  show ?case
    using Inspect owner_of_keeps [of "lw_now w" "\<lambda>ld. held_inv dig (lw_now w) ld (lw_leases w) \<and> attempts_inv dig (lw_now w) ld (lw_attempts w)"]
    by (simp add: lock_inv_def remove_expired)
next
  case (Inventory w)
  show ?case
    using Inventory locked_paths_keeps [of "lw_now w" "\<lambda>ld. held_inv dig (lw_now w) ld (lw_leases w) \<and> attempts_inv dig (lw_now w) ld (lw_attempts w)"]
    by (simp add: lock_inv_def remove_expired)
next
  case (Tick w t)
  have "running t e \<Longrightarrow> running (lw_now w) e" for e using Tick by (auto simp: running_def split: option.splits)
  moreover have "attempt_ok (lw_now w) r a \<Longrightarrow> attempt_ok t r a" for r a
    using Tick lock_expired_mono by (auto simp: attempt_ok_def split: attempt.splits)
  ultimately show ?case using Tick by (auto simp: lock_inv_def held_inv_def attempts_inv_def)
qed

lemma lock_reachable: "(lock_step dig ft)\<^sup>*\<^sup>* start_world w \<Longrightarrow> inj dig \<Longrightarrow> lock_inv dig w"
proof (induction rule: rtranclp_induct)
  case base
  show ?case by (simp add: lock_inv_def start_world_def held_inv_def attempts_inv_def creating_def)
qed (blast intro: lock_step_inv)

text \<open>
  C8: however the attempts, releases, renewals and inspections of agents that share one registry object interleave,
  and nothing else writes its directory, two owners never hold running leases on the same file, and the record
  on disk names the holder and the end of its lease. The file names of the records are taken to be distinct
  for distinct paths. Agents with registry objects of their own on the same directory are not covered: there
  the reclaiming of a stale record races.
\<close>
theorem lock_mutual_exclusion:
  assumes "(lock_step dig ft)\<^sup>*\<^sup>* start_world w" and "inj dig"
    and "lw_leases w (c, o1) = Some e1" "running (lw_now w) e1" and "lw_leases w (c, o2) = Some e2" "running (lw_now w) e2"
  shows "o1 = o2 \<and> (\<exists>i. read_info dig c (lw_dir w) = Some i \<and> li_owner i = o1 \<and> li_expires i = e1)"
proof -
  have "held_inv dig (lw_now w) (lw_dir w) (lw_leases w)" using lock_reachable [OF assms(1,2)] by (simp add: lock_inv_def)
  from heldE [OF this assms(3,4)] heldE [OF this assms(5,6)] show ?thesis by (metis option.inject)
qed


text \<open>An injective digest.\<close>

fun mark :: "string \<Rightarrow> string" where
  "mark [] = ''/''"
| "mark (x # xs) = CHR ''a'' # x # mark xs"

definition plain_digest :: digest where
  "plain_digest c = concat (map mark c)"

lemma mark_append: "mark s @ u = mark t @ v \<longleftrightarrow> s = t \<and> u = v"
proof (induction s arbitrary: t)
  case Nil
  show ?case by (cases t) auto
next
  case (Cons x s)
  show ?case by (cases t) (auto simp: Cons.IH)
qed

lemma inj_plain_digest: "inj plain_digest"
proof (rule injI)
  show "plain_digest c = plain_digest d \<Longrightarrow> c = d" for c d
  proof (induction c arbitrary: d)
    case Nil
    have "mark s \<noteq> []" for s by (cases s) auto
    then show ?case using Nil by (cases d) (auto simp: plain_digest_def)
  next
    case (Cons s c)
    have "mark s \<noteq> []" by (cases s) auto
    then show ?case using Cons by (cases d) (auto simp: plain_digest_def mark_append)
  qed
qed

definition sample_request :: lock_request where
  "sample_request = \<lparr>lq_path = [''w'', ''a.py''], lq_owner = ''agent-1'', lq_lease = Some 300, lq_deadline = None\<rparr>"

definition sample_world :: lock_world where
  "sample_world = \<lparr>lw_now = 0, lw_dir = [(plain_digest [''w'', ''a.py''], lock_payload (\<lambda>_. '''') (request_info sample_request 0))],
     lw_attempts = (\<lambda>_. None)(0 \<mapsto> (sample_request, Granted (Some 300))), lw_leases = (\<lambda>_. None)(([''w'', ''a.py''], ''agent-1'') \<mapsto> Some 300)\<rparr>"

definition tried_world :: lock_world where
  "tried_world = start_world\<lparr>lw_attempts := (\<lambda>_. None)(0 \<mapsto> (sample_request, Trying))\<rparr>"

definition created_world :: lock_world where
  "created_world = tried_world\<lparr>lw_dir := [(plain_digest [''w'', ''a.py''], JNull)],
     lw_attempts := (\<lambda>_. None)(0 \<mapsto> (sample_request, Created (request_info sample_request 0)))\<rparr>"

lemma sample_world_reached: "(lock_step plain_digest (\<lambda>_. ''''))\<^sup>*\<^sup>* start_world sample_world"
proof -
  let ?s = "lock_step plain_digest (\<lambda>_. '''')"
  have "?s start_world tried_world"
    using lock_step.Begin [of start_world 0 sample_request plain_digest]
    by (simp add: tried_world_def start_world_def sample_request_def canonical_def)
  moreover have "?s tried_world created_world"
    using lock_step.Advance [of tried_world 0 sample_request Trying plain_digest "\<lambda>_. ''''" 0]
    by (simp add: tried_world_def created_world_def start_world_def sample_request_def granted_def)
  moreover have "?s created_world sample_world"
    using lock_step.Advance [of created_world 0 sample_request "Created (request_info sample_request 0)" plain_digest "\<lambda>_. ''''" 0]
    by (simp add: tried_world_def created_world_def sample_world_def start_world_def sample_request_def granted_def request_info_def)
  ultimately show ?thesis by (intro converse_rtranclp_into_rtranclp [of ?s start_world tried_world]
      converse_rtranclp_into_rtranclp [of ?s tried_world created_world] r_into_rtranclp [of ?s created_world])
qed

theorem lock_mutual_exclusion_witness:
  "\<exists>i. read_info plain_digest [''w'', ''a.py''] (lw_dir sample_world) = Some i \<and> li_owner i = ''agent-1'' \<and> li_expires i = Some 300"
proof -
  have l: "lw_leases sample_world ([''w'', ''a.py''], ''agent-1'') = Some (Some 300)" "running (lw_now sample_world) (Some 300)"
    by (simp_all add: sample_world_def running_def)
  show ?thesis using lock_mutual_exclusion [OF sample_world_reached inj_plain_digest l l] by simp
qed

section \<open>Reclaiming\<close>

fun attempt_alone :: "digest \<Rightarrow> (rat \<Rightarrow> string) \<Rightarrow> rat \<Rightarrow> rat \<Rightarrow> lock_request \<Rightarrow> nat \<Rightarrow> attempt \<times> lock_dir \<Rightarrow> attempt \<times> lock_dir" where
  "attempt_alone dig ft now clock r 0 s = s"
| "attempt_alone dig ft now clock r (Suc k) s = attempt_alone dig ft now clock r k (acquire_step dig ft now clock r (fst s) (snd s))"

lemma free_granted:
  "dget ld (dig (lq_path r)) = None \<Longrightarrow> attempt_alone dig ft now clock r (Suc (Suc k)) (Trying, ld) =
    (Granted (map_option (\<lambda>l. now + l) (lq_lease r)), dset (dset ld (dig (lq_path r)) JNull) (dig (lq_path r)) (lock_payload ft (request_info r now)))"
proof -
  have "attempt_alone dig ft now clock r k (Granted e, ld') = (Granted e, ld')" for e ld' by (induction k) auto
  then show "dget ld (dig (lq_path r)) = None \<Longrightarrow> ?thesis" by (simp add: request_info_def)
qed

lemma held_is_there: "read_info dig c ld = Some i \<Longrightarrow> \<exists>x. dget ld (dig c) = Some x"
  by (cases "dget ld (dig c)") (auto simp: read_info_def)

lemma stale_removed:
  "read_info dig (lq_path r) ld = Some i \<Longrightarrow> li_owner i \<noteq> lq_owner r \<Longrightarrow> lock_expired i now \<Longrightarrow>
    attempt_alone dig ft now clock r (Suc (Suc (Suc k))) (Trying, ld) = attempt_alone dig ft now clock r k (Trying, dpop ld (dig (lq_path r)))"
  using held_is_there [of dig "lq_path r" ld i] by (auto simp: remove_if_unchanged_def)

text \<open>
  C35: An attempt that runs undisturbed is granted within five system calls whenever the file is free, its lock has
  run out, or the lock is the agent's own; the record then names the agent.
\<close>
theorem lock_reclaimed:
  assumes "canonical (lq_path r)"
    and "dget ld (dig (lq_path r)) = None \<or> (\<exists>i. read_info dig (lq_path r) ld = Some i \<and> (li_owner i = lq_owner r \<or> lock_expired i now))"
  shows "\<exists>e ld' i. attempt_alone dig ft now clock r 5 (Trying, ld) = (Granted e, ld')
    \<and> read_info dig (lq_path r) ld' = Some i \<and> li_owner i = lq_owner r \<and> li_expires i = e"
proof -
  let ?q = "request_info r now"
  have rec: "read_record (lock_payload ft ?q) = Some ?q" using assms(1) by (intro read_payload) (simp add: request_info_def)
  have own: "li_owner ?q = lq_owner r" "li_expires ?q = map_option (\<lambda>l. now + l) (lq_lease r)" by (simp_all add: request_info_def)
  have five: "5 = Suc (Suc (Suc (Suc (Suc 0))))" by simp
  show ?thesis
  proof (cases "dget ld (dig (lq_path r))")
    case None
    then show ?thesis unfolding five by (simp add: free_granted read_info_dset rec own del: attempt_alone.simps)
  next
    case (Some x)
    then obtain i where i: "read_info dig (lq_path r) ld = Some i" "li_owner i = lq_owner r \<or> lock_expired i now" using assms(2) by auto
    show ?thesis
    proof (cases "li_owner i = lq_owner r")
      case True
      then show ?thesis using i Some by (simp add: five)
    next
      case False
      then show ?thesis using i unfolding five
        by (simp add: stale_removed free_granted read_info_dset rec own del: attempt_alone.simps)
    qed
  qed
qed

definition other_request :: lock_request where
  "other_request = sample_request\<lparr>lq_owner := ''agent-2''\<rparr>"

theorem lock_reclaimed_witness:
  "\<exists>e ld' i. attempt_alone plain_digest (\<lambda>_. '''') 400 0 other_request 5 (Trying, lw_dir sample_world) = (Granted e, ld')
    \<and> read_info plain_digest [''w'', ''a.py''] ld' = Some i \<and> li_owner i = ''agent-2'' \<and> li_expires i = e"
proof -
  have c: "canonical (lq_path other_request)" by (simp add: other_request_def sample_request_def canonical_def)
  have "read_info plain_digest [''w'', ''a.py''] (lw_dir sample_world) = Some (request_info sample_request 0)"
    using read_payload [of "request_info sample_request 0"]
    by (simp add: read_info_def sample_world_def request_info_def sample_request_def canonical_def)
  moreover have "lock_expired (request_info sample_request 0) 400" by (simp add: lock_expired_def request_info_def sample_request_def)
  ultimately show ?thesis using lock_reclaimed [OF c, where dig = plain_digest and ld = "lw_dir sample_world" and now = 400 and ft = "\<lambda>_. ''''" and clock = 0]
    by (simp add: other_request_def sample_request_def)
qed

text \<open>A record left empty by a crash between creating and writing it is never reclaimed: without a timeout nobody gets the file.\<close>

lemma empty_record_blocks:
  "dget ld (dig (lq_path r)) = Some JNull \<Longrightarrow> lq_deadline r = None \<Longrightarrow> a = Trying \<or> (\<exists>t. a = Blocked t) \<Longrightarrow>
    \<exists>a'. attempt_alone dig ft now clock r k (a, ld) = (a', ld) \<and> (a' = Trying \<or> (\<exists>t. a' = Blocked t))"
proof (induction k arbitrary: a)
  case (Suc k)
  have "read_info dig (lq_path r) ld = None" using Suc.prems(1) by (simp add: read_info_def)
  then show ?case using Suc by (auto simp: past_deadline_def)
qed simp

text \<open>
  The mutex belongs to the registry object. When the check and the removal of a stale record through one registry
  straddle those through another on the same directory, the second removal takes the fresh lock of the other away
  and both are granted the file. The first conjuncts are the check that has passed; the removal it leads to is the
  \<open>dpop\<close> in the last one.
\<close>

definition stale_dir :: lock_dir where
  "stale_dir = [(plain_digest [''w'', ''a.py''], lock_payload (\<lambda>_. '''') (request_info sample_request 0))]"

lemma two_registries_both_granted:
  "\<exists>stale ld1 ld2. read_info plain_digest [''w'', ''a.py''] stale_dir = Some stale \<and> lock_expired stale 400
    \<and> attempt_alone plain_digest (\<lambda>_. '''') 400 0 other_request 5 (Trying, stale_dir) = (Granted (Some 700), ld1)
    \<and> attempt_alone plain_digest (\<lambda>_. '''') 400 0 (other_request\<lparr>lq_owner := ''agent-3''\<rparr>) 2 (Trying, dpop ld1 (plain_digest [''w'', ''a.py''])) = (Granted (Some 700), ld2)"
proof -
  let ?c = "[''w'', ''a.py'']"
  have s: "read_info plain_digest ?c stale_dir = Some (request_info sample_request 0)"
    using read_payload [of "request_info sample_request 0"]
    by (simp add: read_info_def stale_dir_def request_info_def sample_request_def canonical_def)
  have e: "lock_expired (request_info sample_request 0) 400" by (simp add: lock_expired_def request_info_def sample_request_def)
  have r: "lq_path other_request = ?c" "lq_owner other_request = ''agent-2''" "lq_lease other_request = Some 300"
    and o: "li_owner (request_info sample_request 0) = ''agent-1''"
    by (simp_all add: other_request_def sample_request_def request_info_def)
  have five: "5 = Suc (Suc (Suc (Suc (Suc 0))))" "2 = Suc (Suc 0)" by simp_all
  show ?thesis unfolding five
    by (simp add: s e r o stale_removed [where i = "request_info sample_request 0"] free_granted del: attempt_alone.simps)
qed

text \<open>An owner that asks again for a lock of its own gets a lease object without a renewal, even when the lease has run out.\<close>

lemma reentrant_not_renewed:
  "read_info dig (lq_path r) ld = Some i \<Longrightarrow> li_owner i = lq_owner r \<Longrightarrow>
    attempt_alone dig ft now clock r 2 (Trying, ld) = (Granted (li_expires i), ld)"
proof -
  assume i: "read_info dig (lq_path r) ld = Some i" "li_owner i = lq_owner r"
  then obtain x where "dget ld (dig (lq_path r)) = Some x" by (auto simp: read_info_def split: option.splits)
  moreover have two: "2 = Suc (Suc 0)" by simp
  ultimately show ?thesis using i by (simp add: two)
qed

end
