(* ===== verification/File_Patch.thy ===== *)
theory File_Patch
  imports File_Locks
begin

text \<open>
  The patch tool (\<open>files/patch.py\<close>): parsing of unified diffs, their application to the lines of a file with
  the search for a shifted context, and the tool with its dry run, its locked writes and its rollback. The tool
  works on any workspace, given by its operations.
\<close>

section \<open>Parsing\<close>

record hunk =
  h_old_start :: nat
  h_old_count :: nat
  h_new_start :: nat
  h_new_count :: nat
  h_lines :: "string list"

record file_patch =
  fp_path :: string
  fp_hunks :: "hunk list"

definition patch_error :: "string \<Rightarrow> 'a result" where
  "patch_error m = Inl (Exn ''PatchApplyError'' m)"

definition is_nl :: "char \<Rightarrow> bool" where
  "is_nl c \<longleftrightarrow> c = LF \<or> c = CR"

definition rstrip_nl :: "string \<Rightarrow> string" where
  "rstrip_nl = rstrip_by is_nl"

definition dec_digit :: "char \<Rightarrow> bool" where
  "dec_digit c \<longleftrightarrow> 48 \<le> code_of c \<and> code_of c \<le> 57"

definition dec_value :: "string \<Rightarrow> nat" where
  "dec_value s = foldl (\<lambda>n c. 10 * n + (code_of c - 48)) 0 s"

text \<open>\<open>(\d+)(?:,(\d+))?\<close> with the second number 1 when absent.\<close>

definition scan_range :: "string \<Rightarrow> (nat \<times> nat \<times> string) option" where
  "scan_range s = (let d = takeWhile dec_digit s; r = dropWhile dec_digit s in
     if d = [] then None
     else let d2 = takeWhile dec_digit (tl r); r2 = dropWhile dec_digit (tl r) in
       if r \<noteq> [] \<and> hd r = CHR '','' \<and> d2 \<noteq> [] then Some (dec_value d, dec_value d2, r2)
       else Some (dec_value d, 1, r))"

definition drop_prefix :: "string \<Rightarrow> string \<Rightarrow> string option" where
  "drop_prefix p s = (if startswith p s then Some (drop (length p) s) else None)"

definition hunk_header :: "string \<Rightarrow> (nat \<times> nat \<times> nat \<times> nat) option" where
  "hunk_header s = Option.bind (drop_prefix ''@@ -'' s) (\<lambda>r1.
     Option.bind (scan_range r1) (\<lambda>(os, oc, r2).
     Option.bind (drop_prefix '' +'' r2) (\<lambda>r3.
     Option.bind (scan_range r3) (\<lambda>(ns, nc, r4).
     Option.bind (drop_prefix '' @@'' r4) (\<lambda>r5. Some (os, oc, ns, nc))))))"

definition parse_path :: "string \<Rightarrow> string \<Rightarrow> string result" where
  "parse_path header pre =
     (let v = py_strip (takeWhile (\<lambda>c. c \<noteq> TAB) (drop (length pre) header));
          v = (if startswith ''a/'' v \<or> startswith ''b/'' v then drop 2 v else v)
      in if v = '''' \<or> v = ''/dev/null'' then patch_error ''patches must modify existing workspace files'' else Inr v)"

text \<open>The lines of one hunk: what was read, the old and new lines seen, the lines left.\<close>

fun hunk_body :: "string list \<Rightarrow> nat \<Rightarrow> nat \<Rightarrow> string list \<Rightarrow> (string list \<times> nat \<times> nat \<times> string list) result" where
  "hunk_body acc old_seen new_seen [] = Inr (acc, old_seen, new_seen, [])"
| "hunk_body acc old_seen new_seen (l # ls) =
     (if startswith ''--- '' l \<or> startswith ''diff --git '' l then Inr (acc, old_seen, new_seen, l # ls)
      else if startswith (BSL # '' No newline at end of file'') l then
        (if acc = [] then patch_error ''newline marker has no preceding hunk line''
         else hunk_body (butlast acc @ [rstrip_nl (last acc)]) old_seen new_seen ls)
      else if startswith '' '' l then hunk_body (acc @ [l]) (Suc old_seen) (Suc new_seen) ls
      else if startswith ''+'' l then hunk_body (acc @ [l]) old_seen (Suc new_seen) ls
      else if startswith ''-'' l then hunk_body (acc @ [l]) (Suc old_seen) new_seen ls
      else Inr (acc, old_seen, new_seen, l # ls))"

lemma hunk_body_length: "hunk_body acc m n ls = Inr (acc', m', n', rest) \<Longrightarrow> length rest \<le> length ls"
  by (induction acc m n ls arbitrary: acc' m' n' rest rule: hunk_body.induct) (fastforce simp: patch_error_def split: if_splits)+

text \<open>The hunks of one file, from a line number on; they end at the next file.\<close>

function parse_hunks :: "nat \<Rightarrow> hunk list \<Rightarrow> string list \<Rightarrow> (hunk list \<times> string list) result" where
  "parse_hunks k acc lines = (case lines of
     [] \<Rightarrow> Inr (acc, [])
   | l # ls \<Rightarrow>
       if startswith ''--- '' l then Inr (acc, l # ls)
       else (case hunk_header (rstrip_nl l) of
          None \<Rightarrow>
            if startswith ''diff --git '' l \<or> startswith ''index '' l then Inr (acc, l # ls)
            else patch_error (''expected @@ hunk header at line '' @ str_of_nat (k - length (l # ls) + 1))
        | Some (os, oc, ns, nc) \<Rightarrow>
            (case hunk_body [] 0 0 ls of
               Inl e \<Rightarrow> Inl e
             | Inr (body, old_seen, new_seen, rest) \<Rightarrow>
                 if old_seen \<noteq> oc \<or> new_seen \<noteq> nc then patch_error ''hunk line counts do not match its header''
                 else parse_hunks k (acc @ [\<lparr>h_old_start = os, h_old_count = oc, h_new_start = ns, h_new_count = nc, h_lines = body\<rparr>]) rest)))"
  by pat_completeness auto
termination
  by (relation "measure (\<lambda>(k, acc, lines). length lines)") (auto dest!: hunk_body_length)

declare parse_hunks.simps [simp del]

lemma parse_hunks_length: "parse_hunks k acc lines = Inr (hs, rest) \<Longrightarrow> length rest \<le> length lines"
proof (induction k acc lines rule: parse_hunks.induct)
  case (1 k acc lines)
  show ?case
    using 1(2) 1(1) by (subst (asm) parse_hunks.simps)
      (fastforce simp: patch_error_def dest!: hunk_body_length split: list.splits if_splits option.splits sum.splits)
qed

text \<open>The number of a line is counted from the number \<open>k\<close> of lines of the whole patch.\<close>

function parse_files :: "nat \<Rightarrow> file_patch list \<Rightarrow> string list \<Rightarrow> file_patch list result" where
  "parse_files k acc lines = (case lines of
     [] \<Rightarrow> Inr acc
   | l # ls \<Rightarrow>
       if startswith ''diff --git '' l \<or> startswith ''index '' l \<or> startswith ''new file mode '' l \<or> startswith ''deleted file mode '' l
       then parse_files k acc ls
       else if \<not> startswith ''--- '' l
       then patch_error (''expected --- file header at line '' @ str_of_nat (k - length (l # ls) + 1))
       else (case parse_path l ''--- '' of
          Inl e \<Rightarrow> Inl e
        | Inr old_path \<Rightarrow>
            (case ls of
               [] \<Rightarrow> patch_error ''missing +++ file header''
             | m # ms \<Rightarrow>
                 if \<not> startswith ''+++ '' m then patch_error ''missing +++ file header''
                 else (case parse_path m ''+++ '' of
                    Inl e \<Rightarrow> Inl e
                  | Inr new_path \<Rightarrow>
                      if old_path \<noteq> new_path then patch_error ''renames are not supported''
                      else (case parse_hunks k [] ms of
                         Inl e \<Rightarrow> Inl e
                       | Inr (hunks, rest) \<Rightarrow>
                           if hunks = [] then patch_error (''no hunks for '' @ new_path)
                           else parse_files k (acc @ [\<lparr>fp_path = new_path, fp_hunks = hunks\<rparr>]) rest)))))"
  by pat_completeness auto
termination
  by (relation "measure (\<lambda>(k, acc, lines). length lines)") (auto dest!: parse_hunks_length)

declare parse_files.simps [simp del]

definition parse_patch :: "string \<Rightarrow> file_patch list result" where
  "parse_patch patch = (if is_blank patch then patch_error ''no patch content''
     else let lines = splitlines_keep patch in parse_files (length lines) [] lines)"

section \<open>Application\<close>

definition file_newline :: "string \<Rightarrow> string \<Rightarrow> string" where
  "file_newline nl l = rstrip_nl l @ (if endswith [LF] l \<or> endswith [CR] l then nl else [])"

definition hunk_old :: "string \<Rightarrow> hunk \<Rightarrow> string list" where
  "hunk_old nl h = map (\<lambda>l. file_newline nl (tl l)) (filter (\<lambda>l. hd l = CHR '' '' \<or> hd l = CHR ''-'') (h_lines h))"

definition hunk_new :: "string \<Rightarrow> hunk \<Rightarrow> string list" where
  "hunk_new nl h = map (\<lambda>l. file_newline nl (tl l)) (filter (\<lambda>l. hd l = CHR '' '' \<or> hd l = CHR ''+'') (h_lines h))"

definition match_at :: "string list \<Rightarrow> string list \<Rightarrow> int \<Rightarrow> bool" where
  "match_at lines expected i = (take (length expected) (drop (nat i) lines) = expected)"

text \<open>One hunk: the lines and the offset so far; the place is searched within twenty lines when the context is not where it should be.\<close>

definition apply_hunk :: "string \<Rightarrow> hunk \<Rightarrow> string list \<times> int \<Rightarrow> (string list \<times> int) result" where
  "apply_hunk nl h st = (let (lines, offset) = st;
       old_index = (if h_old_count h = 0 then int (h_old_start h) else int (h_old_start h) - 1);
       start = old_index + offset; expected = hunk_old nl h; replacement = hunk_new nl h in
     if start < 0 \<or> start > int (length lines) then patch_error ''hunk position is outside the file''
     else let place =
         (if match_at lines expected start then Inr start
          else (let lower = max 0 (start - 20); upper = min (int (length lines) - int (length expected)) (start + 20) in
            case filter (match_at lines expected) [lower..upper] of
              [c] \<Rightarrow> Inr c
            | [] \<Rightarrow> patch_error ''hunk context does not match the file within 20 lines''
            | _ \<Rightarrow> patch_error ''hunk context matches multiple nearby locations''))
       in bind_res place (\<lambda>pos.
         Inr (take (nat pos) lines @ replacement @ drop (nat pos + length expected) lines,
              offset + ((pos - old_index - offset) + int (length replacement) - int (length expected)))))"

fun apply_hunks :: "string \<Rightarrow> hunk list \<Rightarrow> string list \<times> int \<Rightarrow> (string list \<times> int) result" where
  "apply_hunks nl [] st = Inr st"
| "apply_hunks nl (h # hs) st = bind_res (apply_hunk nl h st) (apply_hunks nl hs)"

definition newline_of :: "string \<Rightarrow> string" where
  "newline_of original = (if contains [CR, LF] original then [CR, LF] else [LF])"

definition apply_file_patch :: "string \<Rightarrow> hunk list \<Rightarrow> string result" where
  "apply_file_patch original hunks =
     bind_res (apply_hunks (newline_of original) hunks (splitlines_keep original, 0)) (\<lambda>(lines, _). Inr (concat lines))"

section \<open>The tool\<close>

text \<open>
  A workspace by its operations on a state; with a lock registry, what acquires and releases the lock of a path for
  the bound owner, and the message when none is bound.
\<close>

record 's workspace_ops =
  ws_resolve :: "string \<Rightarrow> 's \<Rightarrow> unit result"
  ws_read :: "string \<Rightarrow> 's \<Rightarrow> string result"
  ws_write :: "string \<Rightarrow> string \<Rightarrow> 's \<Rightarrow> unit result \<times> 's"
  ws_locks :: "((string \<Rightarrow> string \<Rightarrow> 's \<Rightarrow> unit result \<times> 's) \<times> (string \<Rightarrow> string \<Rightarrow> 's \<Rightarrow> unit result \<times> 's)) option"
  ws_owner :: "string option"
  ws_unbound :: string

definition write_locked :: "'s workspace_ops \<Rightarrow> string \<Rightarrow> ('s \<Rightarrow> unit result \<times> 's) \<Rightarrow> 's \<Rightarrow> unit result \<times> 's" where
  "write_locked P path op s = (case ws_locks P of
     None \<Rightarrow> op s
   | Some (acquire, rel) \<Rightarrow>
       (case ws_owner P of
          None \<Rightarrow> (Inl (Exn ''ValueError'' (ws_unbound P)), s)
        | Some owner \<Rightarrow>
            (case acquire path owner s of
               (Inl e, s1) \<Rightarrow> (Inl e, s1)
             | (Inr _, s1) \<Rightarrow>
                 (let (r, s2) = op s1; (q, s3) = rel path owner s2
                  in (case q of Inl e \<Rightarrow> Inl e | Inr _ \<Rightarrow> r, s3)))))"

definition put_text :: "'s workspace_ops \<Rightarrow> string \<Rightarrow> string \<Rightarrow> 's \<Rightarrow> unit result \<times> 's" where
  "put_text P path content = write_locked P path (ws_write P path content)"

type_synonym texts = "(string, string) dict"

definition aborted :: "string \<Rightarrow> exn \<Rightarrow> string" where
  "aborted path e = (if exn_class e = ''FileNotFoundError'' then ''apply_patch aborted: '' @ path @ '' does not exist''
     else ''apply_patch aborted: '' @ path @ '': '' @ exn_msg e)"

text \<open>The dry run: the original texts read and the new texts computed, or the error of the first failure.\<close>

fun dry_run :: "'s workspace_ops \<Rightarrow> 's \<Rightarrow> file_patch list \<Rightarrow> texts \<times> texts \<Rightarrow> string + (texts \<times> texts)" where
  "dry_run P s [] (originals, resolved) = Inr (originals, resolved)"
| "dry_run P s (fp # fps) (originals, resolved) = (let path = fp_path fp in
     case ws_resolve P path s of
       Inl e \<Rightarrow> Inl (aborted path e)
     | Inr _ \<Rightarrow>
         (case (case dget resolved path of
                  Some t \<Rightarrow> Inr (t, originals)
                | None \<Rightarrow> bind_res (ws_read P path s) (\<lambda>t. Inr (t, dset originals path t))) of
            Inl e \<Rightarrow> Inl (aborted path e)
          | Inr (t, originals') \<Rightarrow>
              (case apply_file_patch t (fp_hunks fp) of
                 Inl e \<Rightarrow> Inl (''apply_patch aborted: '' @ path @ '': '' @ exn_msg e)
               | Inr t' \<Rightarrow> dry_run P s fps (originals', dset resolved path t'))))"

fun write_all :: "'s workspace_ops \<Rightarrow> texts \<Rightarrow> string list \<Rightarrow> 's \<Rightarrow> exn option \<times> string list \<times> 's" where
  "write_all P [] written s = (None, written, s)"
| "write_all P ((path, t) # rest) written s = (case put_text P path t s of
     (Inl e, s') \<Rightarrow> (Some e, written, s')
   | (Inr _, s') \<Rightarrow> write_all P rest (written @ [path]) s')"

fun roll_back :: "'s workspace_ops \<Rightarrow> texts \<Rightarrow> string list \<Rightarrow> 's \<Rightarrow> string list \<times> 's" where
  "roll_back P originals [] s = ([], s)"
| "roll_back P originals (path # paths) s =
     (case put_text P path (case dget originals path of Some t \<Rightarrow> t | None \<Rightarrow> '''') s of
        (Inl e, s') \<Rightarrow> (let (errs, s'') = roll_back P originals paths s' in ((path @ '': '' @ exn_msg e) # errs, s''))
      | (Inr _, s') \<Rightarrow> roll_back P originals paths s')"

datatype patch_outcome =
  Rejected string
| RolledBack exn "string list"
| Applied "string list" texts

definition run_patch :: "'s workspace_ops \<Rightarrow> string \<Rightarrow> 's \<Rightarrow> patch_outcome \<times> 's" where
  "run_patch P patch s = (case parse_patch patch of
     Inl e \<Rightarrow> (Rejected (''patch is empty or malformed: '' @ exn_msg e), s)
   | Inr [] \<Rightarrow> (Rejected ''patch is empty or malformed'', s)
   | Inr fps \<Rightarrow>
       (case dry_run P s fps ([], []) of
          Inl m \<Rightarrow> (Rejected m, s)
        | Inr (originals, resolved) \<Rightarrow>
            (case write_all P resolved [] s of
               (None, written, s') \<Rightarrow> (Applied written originals, s')
             | (Some e, written, s') \<Rightarrow>
                 (let (errs, s'') = roll_back P originals (rev written) s' in (RolledBack e errs, s'')))))"

definition apply_patch :: "'s workspace_ops \<Rightarrow> string \<Rightarrow> texts \<times> 's \<Rightarrow> tool_result \<times> texts \<times> 's" where
  "apply_patch P patch st = (let (undo, s) = st in case run_patch P patch s of
     (Rejected m, s') \<Rightarrow> (err_result m, undo, s')
   | (RolledBack e errs, s') \<Rightarrow>
       (err_result (''apply_patch failed mid-write, rolled back: '' @ exn_msg e
          @ (if errs = [] then '''' else '' (rollback errors: '' @ py_join ''; '' errs @ '')'')), undo, s')
   | (Applied written originals, s') \<Rightarrow>
       ((ok_result (JStr (''applied patch to '' @ str_of_nat (length written) @ '' file(s)'')))
          \<lparr>res_metadata := [(''files'', JArr (map JStr written))]\<rparr>, dupdate undo originals, s'))"

section \<open>Applying hunks where they belong\<close>

definition old_index :: "hunk \<Rightarrow> int" where
  "old_index h = (if h_old_count h = 0 then int (h_old_start h) else int (h_old_start h) - 1)"

text \<open>A file as unchanged stretches and the places of its hunks, before and after, and where the headers put the hunks.\<close>

definition before :: "string \<Rightarrow> (string list \<times> hunk) list \<Rightarrow> string list" where
  "before nl segs = concat (map (\<lambda>(gap, h). gap @ hunk_old nl h) segs)"

definition after :: "string \<Rightarrow> (string list \<times> hunk) list \<Rightarrow> string list" where
  "after nl segs = concat (map (\<lambda>(gap, h). gap @ hunk_new nl h) segs)"

fun placed :: "string \<Rightarrow> nat \<Rightarrow> (string list \<times> hunk) list \<Rightarrow> bool" where
  "placed nl k [] = True"
| "placed nl k ((gap, h) # segs) \<longleftrightarrow> old_index h = int (k + length gap) \<and> placed nl (k + length gap + length (hunk_old nl h)) segs"

lemma apply_hunk_in_place:
  "old_index h + offset = int (length pre) \<Longrightarrow>
    apply_hunk nl h (pre @ hunk_old nl h @ post, offset)
      = Inr (pre @ hunk_new nl h @ post, offset + int (length (hunk_new nl h)) - int (length (hunk_old nl h)))"
  by (simp add: apply_hunk_def old_index_def match_at_def Let_def split: if_splits)

lemma apply_hunks_in_place:
  "placed nl k segs \<Longrightarrow> \<exists>off. apply_hunks nl (map snd segs) (pre @ before nl segs @ post, int (length pre) - int k)
    = Inr (pre @ after nl segs @ post, off)"
proof (induction nl k segs arbitrary: pre rule: placed.induct)
  case (2 nl k gap h segs)
  let ?old = "hunk_old nl h" and ?new = "hunk_new nl h"
  let ?k = "k + length gap + length ?old"
  have place: "old_index h + (int (length pre) - int k) = int (length (pre @ gap))" and segs: "placed nl ?k segs"
    using "2.prems" by auto
  from "2.IH" [OF segs, of "pre @ gap @ ?new"] obtain off where
    "apply_hunks nl (map snd segs) ((pre @ gap @ ?new) @ before nl segs @ post, int (length (pre @ gap @ ?new)) - int ?k)
      = Inr ((pre @ gap @ ?new) @ after nl segs @ post, off)" by blast
  moreover have "apply_hunk nl h ((pre @ gap) @ ?old @ before nl segs @ post, int (length pre) - int k)
      = Inr ((pre @ gap) @ ?new @ before nl segs @ post, int (length (pre @ gap @ ?new)) - int ?k)"
    using apply_hunk_in_place [OF place, of nl "before nl segs @ post"] by simp
  ultimately show ?case by (simp add: before_def after_def)
qed (simp add: before_def after_def)


text \<open>
  C34: When the lines of a file are unchanged stretches with the old sides of the hunks between them, at the positions
  the hunk headers give, applying the patch puts the new side of every hunk in the place of its old side and
  changes nothing else, however much the earlier hunks shift the later ones.
\<close>
theorem patch_in_place:
  assumes "splitlines_keep original = before (newline_of original) segs @ post" and "placed (newline_of original) 0 segs"
  shows "apply_file_patch original (map snd segs) = Inr (concat (after (newline_of original) segs @ post))"
  using apply_hunks_in_place [OF assms(2), of "[]" post] by (auto simp: apply_file_patch_def assms(1))

definition sample_hunks :: "hunk list" where
  "sample_hunks = [\<lparr>h_old_start = 1, h_old_count = 1, h_new_start = 1, h_new_count = 2, h_lines = [''-a'' @ [LF], ''+b'' @ [LF], ''+c'' @ [LF]]\<rparr>,
     \<lparr>h_old_start = 3, h_old_count = 1, h_new_start = 4, h_new_count = 1, h_lines = [''-y'' @ [LF], ''+z'' @ [LF]]\<rparr>]"

definition sample_text :: string where
  "sample_text = ''a'' @ [LF] @ ''x'' @ [LF] @ ''y'' @ [LF]"

theorem patch_in_place_witness:
  "apply_file_patch sample_text sample_hunks = Inr (''b'' @ [LF] @ ''c'' @ [LF] @ ''x'' @ [LF] @ ''z'' @ [LF])"
proof -
  let ?segs = "[([], sample_hunks ! 0), ([''x'' @ [LF]], sample_hunks ! 1)]"
  have "splitlines_keep sample_text = before (newline_of sample_text) ?segs @ []" "placed (newline_of sample_text) 0 ?segs" by code_simp+
  from patch_in_place [OF this] show ?thesis
    by (simp add: sample_hunks_def) code_simp
qed

section \<open>All or nothing\<close>

text \<open>
  What the tool relies on: a state has texts at locations, reading a path gives the text at its location, a write
  that succeeds changes the text there, one that fails changes at most the text there, and that only when it may
  break off after the file was opened (\<open>torn\<close>), and no write moves a location.
\<close>

fun texts_put :: "(string \<Rightarrow> 'l) \<Rightarrow> texts \<Rightarrow> ('l \<Rightarrow> string option) \<Rightarrow> 'l \<Rightarrow> string option" where
  "texts_put f [] v = v"
| "texts_put f ((p, t) # ws) v = texts_put f ws (v(f p \<mapsto> t))"

locale text_store =
  fixes P :: "'s workspace_ops" and view :: "'s \<Rightarrow> 'l \<Rightarrow> string option" and loc :: "'s \<Rightarrow> string \<Rightarrow> 'l"
    and torn :: "'s \<Rightarrow> string \<Rightarrow> string \<Rightarrow> bool"
  assumes read_view: "ws_read P p s = Inr c \<Longrightarrow> view s (loc s p) = Some c"
    and put_ok: "put_text P p c s = (Inr u, s') \<Longrightarrow> view s' = (view s)(loc s p \<mapsto> c)"
    and put_err: "put_text P p c s = (Inl e, s') \<Longrightarrow> \<not> torn s p c \<Longrightarrow> view s' = view s"
    and put_torn: "put_text P p c s = (Inl e, s') \<Longrightarrow> l \<noteq> loc s p \<Longrightarrow> view s' l = view s l"
    and put_loc: "put_text P p c s = (r, s') \<Longrightarrow> loc s' = loc s"
begin

definition restorable :: "'s \<Rightarrow> texts \<Rightarrow> texts \<Rightarrow> bool" where
  "restorable s originals resolved \<longleftrightarrow> (\<forall>p t. dget originals p = Some t \<longrightarrow> view s (loc s p) = Some t)
     \<and> (\<forall>p. dhas resolved p \<longrightarrow> dhas originals p)"

lemma dry_run_restorable:
  "dry_run P s fps (originals, resolved) = Inr (originals', resolved') \<Longrightarrow> restorable s originals resolved \<Longrightarrow> restorable s originals' resolved'"
proof (induction fps arbitrary: originals resolved)
  case (Cons fp fps)
  let ?p = "fp_path fp"
  obtain t o1 t' where step: "dget resolved ?p = Some t \<and> o1 = originals \<or> ws_read P ?p s = Inr t \<and> o1 = dset originals ?p t"
    "dry_run P s fps (o1, dset resolved ?p t') = Inr (originals', resolved')"
    using Cons.prems(1) by (cases "dget resolved ?p"; cases "ws_read P ?p s") (auto simp: Let_def split: sum.splits)
  have "restorable s o1 (dset resolved ?p t')"
    using step(1) Cons.prems(2) read_view [of ?p s t] by (auto simp: restorable_def dhas_dget split: if_splits)
  then show ?case using Cons.IH step(2) by blast
qed simp

text \<open>The texts a failed write may have damaged: at most its own.\<close>

definition damage :: "'s \<Rightarrow> texts \<Rightarrow> 'l set \<Rightarrow> bool" where
  "damage s rs X \<longleftrightarrow> X = {} \<or> (\<exists>p c u. (p, c) \<in> set rs \<and> torn u p c \<and> X = {loc s p})"

lemma write_all_view:
  "write_all P rs written s = (x, written', s') \<Longrightarrow>
    \<exists>k X. written' = written @ map fst (take k rs) \<and> damage s rs X
      \<and> (\<forall>l. l \<notin> X \<longrightarrow> view s' l = texts_put (loc s) (take k rs) (view s) l)
      \<and> loc s' = loc s \<and> (x = None \<longrightarrow> k = length rs \<and> X = {})"
proof (induction rs arbitrary: written s)
  case (Cons pt rs)
  obtain p t where pt: "pt = (p, t)" by fastforce
  obtain r s1 where put: "put_text P p t s = (r, s1)" by fastforce
  have loc1: "loc s1 = loc s" using put_loc [OF put] .
  show ?case
  proof (cases r)
    case (Inl e)
    note put = put [unfolded Inl]
    have failed: "x = Some e" "written' = written" "s' = s1" using Cons.prems put by (simp_all add: pt)
    show ?thesis
    proof (cases "torn s p t")
      case True
      then have "damage s (pt # rs) {loc s p}" by (auto simp: damage_def pt)
      then show ?thesis using failed put_torn [OF put] loc1 by (intro exI [of _ 0] exI [of _ "{loc s p}"]) auto
    next
      case False
      then show ?thesis using failed put_err [OF put] loc1 by (intro exI [of _ 0] exI [of _ "{}"]) (auto simp: damage_def)
    qed
  next
    case (Inr u)
    then have "write_all P rs (written @ [p]) s1 = (x, written', s')" using Cons.prems put by (simp add: pt)
    from Cons.IH [OF this] obtain k X where k: "written' = (written @ [p]) @ map fst (take k rs)" "damage s1 rs X"
      "\<forall>l. l \<notin> X \<longrightarrow> view s' l = texts_put (loc s1) (take k rs) (view s1) l" "loc s' = loc s1" "x = None \<longrightarrow> k = length rs \<and> X = {}" by blast
    have "view s1 = (view s)(loc s p \<mapsto> t)" using put_ok put Inr by blast
    moreover have "damage s (pt # rs) X" using k(2) loc1 by (auto simp: damage_def)
    ultimately show ?thesis using k loc1 by (intro exI [of _ "Suc k"] exI [of _ X]) (simp add: pt)
  qed
qed (auto simp: damage_def)

lemma roll_back_view:
  "roll_back P originals ps s = ([], s') \<Longrightarrow> \<forall>p \<in> set ps. v (loc s p) = dget originals p \<and> dget originals p \<noteq> None \<Longrightarrow>
    \<forall>l. l \<notin> loc s ` set ps \<longrightarrow> l \<notin> X \<longrightarrow> view s l = v l \<Longrightarrow> l \<notin> X \<Longrightarrow> view s' l = v l"
proof (induction ps arbitrary: s)
  case (Cons p ps)
  obtain t where t: "dget originals p = Some t" "v (loc s p) = Some t" using Cons.prems(2) by auto
  obtain r s1 where put: "put_text P p t s = (r, s1)" by fastforce
  then obtain u where r: "r = Inr u" using Cons.prems(1) t by (cases r) (auto split: prod.splits)
  have "view s1 = (view s)(loc s p \<mapsto> t)" "loc s1 = loc s" using put_ok put_loc put r by blast+
  then have "\<forall>l. l \<notin> loc s1 ` set ps \<longrightarrow> l \<notin> X \<longrightarrow> view s1 l = v l" using Cons.prems(3) t by auto
  moreover have "\<forall>q \<in> set ps. v (loc s1 q) = dget originals q \<and> dget originals q \<noteq> None"
    using Cons.prems(2) \<open>loc s1 = loc s\<close> by auto
  moreover have "roll_back P originals ps s1 = ([], s')" using Cons.prems(1) put r t by simp
  ultimately show ?case using Cons.IH Cons.prems(4) by blast
qed auto

lemma writes_outside: "l \<notin> f ` set (map fst ws) \<Longrightarrow> texts_put f ws v l = v l"
  by (induction ws arbitrary: v) auto

lemma all_or_nothing:
  assumes "run_patch P patch s = (out, s')"
  shows "case out of
      Rejected m \<Rightarrow> s' = s
    | RolledBack e errs \<Rightarrow> errs = [] \<longrightarrow> (\<exists>fps originals resolved X. parse_patch patch = Inr fps
        \<and> dry_run P s fps ([], []) = Inr (originals, resolved) \<and> damage s resolved X \<and> (\<forall>l. l \<notin> X \<longrightarrow> view s' l = view s l))
    | Applied written originals \<Rightarrow> \<exists>fps resolved. parse_patch patch = Inr fps \<and> dry_run P s fps ([], []) = Inr (originals, resolved)
        \<and> written = map fst resolved \<and> view s' = texts_put (loc s) resolved (view s)"
proof (cases "\<exists>fps originals resolved. parse_patch patch = Inr fps \<and> fps \<noteq> [] \<and> dry_run P s fps ([], []) = Inr (originals, resolved)")
  case False
  then show ?thesis using assms by (auto simp: run_patch_def split: sum.splits list.splits)
next
  case True
  then obtain fps originals resolved where fps: "parse_patch patch = Inr fps" "fps \<noteq> []" "dry_run P s fps ([], []) = Inr (originals, resolved)"
    by blast
  have res: "restorable s originals resolved" using dry_run_restorable [OF fps(3)] by (simp add: restorable_def dhas_def)
  obtain x written s1 where wr: "write_all P resolved [] s = (x, written, s1)" by (metis prod_cases3)
  from write_all_view [OF wr] obtain k X where k: "written = map fst (take k resolved)" "damage s resolved X"
    "\<forall>l. l \<notin> X \<longrightarrow> view s1 l = texts_put (loc s) (take k resolved) (view s) l" "loc s1 = loc s" "x = None \<longrightarrow> k = length resolved \<and> X = {}" by auto
  show ?thesis
  proof (cases x)
    case None
    then have "out = Applied written originals" "s' = s1" using assms fps wr by (auto simp: run_patch_def split: list.splits)
    then show ?thesis using fps k None by (auto simp: fun_eq_iff)
  next
    case (Some e)
    obtain errs s2 where rb: "roll_back P originals (rev written) s1 = (errs, s2)" by fastforce
    have out: "out = RolledBack e errs" "s' = s2" using assms fps wr rb Some by (auto simp: run_patch_def split: list.splits)
    have "dget originals p \<noteq> None \<and> view s (loc s p) = dget originals p" if "p \<in> set written" for p
    proof -
      have "dhas resolved p" using that k(1) by (auto simp: dhas_def dest: in_set_takeD)
      then show ?thesis using res by (auto simp: restorable_def dhas_dget)
    qed
    moreover have "view s1 l = view s l" if "l \<notin> loc s ` set written" "l \<notin> X" for l
      using writes_outside [of l "loc s" "take k resolved" "view s"] that k(1,3) by simp
    ultimately have "view s2 l = view s l" if "errs = []" "l \<notin> X" for l
      using roll_back_view [of originals "rev written" s1 s2 "view s" X l] rb k(4) that by auto
    then show ?thesis using out fps k(2) by auto
  qed
qed

end


section \<open>The local workspace keeps that contract\<close>

definition local_ops :: "path \<Rightarrow> fsys workspace_ops" where
  "local_ops base = \<lparr>ws_resolve = (\<lambda>p fs. bind_res (resolve fs base p) (\<lambda>_. Inr ())), ws_read = (\<lambda>p fs. read_text fs base p),
     ws_write = (\<lambda>p c fs. write_text fs base p c), ws_locks = None, ws_owner = None,
     ws_unbound = ''ApplyPatchTool with lock_registry is not bound to an agent; set an owner before applying patches''\<rparr>"

definition file_view :: "fsys \<Rightarrow> path \<Rightarrow> string option" where
  "file_view fs q = (case dget fs q of Some (File c) \<Rightarrow> Some c | _ \<Rightarrow> None)"

definition file_loc :: "path \<Rightarrow> fsys \<Rightarrow> string \<Rightarrow> path" where
  "file_loc base fs p = (case resolve fs base p of Inr q \<Rightarrow> fst (real_comps fs [] q) | Inl e \<Rightarrow> [])"

definition same_links :: "fsys \<Rightarrow> fsys \<Rightarrow> bool" where
  "same_links fs fs' \<longleftrightarrow> (\<forall>q t. (dget fs q = Some (Link t)) = (dget fs' q = Some (Link t))) \<and> link_fuel fs = link_fuel fs'"

lemma same_links_trans: "same_links f g \<Longrightarrow> same_links g h \<Longrightarrow> same_links f h"
  by (simp add: same_links_def)

definition link_node :: "node \<Rightarrow> bool" where
  "link_node nd \<longleftrightarrow> (\<exists>t. nd = Link t)"

lemma is_link_node: "is_link fs q \<longleftrightarrow> (\<exists>nd. dget fs q = Some nd \<and> link_node nd)"
  by (auto simp: link_node_def elim: is_linkE) (simp add: is_link_def)

lemma same_links_is_link: "same_links fs fs' \<Longrightarrow> is_link fs q = is_link fs' q"
  by (auto simp: same_links_def is_link_node link_node_def)

lemma join_real_links: "same_links fs fs' \<Longrightarrow> join_real fs n p cs seen = join_real fs' n p cs seen"
proof (induction n arbitrary: p cs seen rule: less_induct)
  case (less n)
  note inner = less.IH and links = less.prems
  show ?case
  proof (induction cs arbitrary: p seen)
    case (Cons name rest)
    note same = same_links_is_link [OF links]
    show ?case
    proof (cases rule: link_cases [where name = name and fs = fs and p = p and seen = seen])
      case (4 c)
      then show ?thesis using Cons same by (cases c) (simp_all add: join_real_cached)
    next
      case (5 t)
      then have t: "dget fs' (p @ [name]) = Some (Link t)" using links by (simp add: same_links_def)
      show ?thesis
      proof (cases n)
        case 0
        then show ?thesis using 5 t by (simp add: join_real_no_fuel)
      next
        case (Suc k)
        have "join_real fs k q ds sn = join_real fs' k q ds sn" for q ds sn using inner [OF _ links] Suc by simp
        then show ?thesis using Cons.IH Suc
          by (simp add: join_real_link [OF 5] join_real_link [OF 5(1) t 5(3)] split: option.split)
      qed
    qed (use Cons same in \<open>simp_all add: join_real_dot join_real_up join_real_plain\<close>)
  qed simp
qed

lemma real_comps_links: "same_links fs fs' \<Longrightarrow> real_comps fs p cs = real_comps fs' p cs"
  using join_real_links [of fs fs'] by (simp add: real_comps_def same_links_def)

lemma link_fuel_nodes: "link_fuel fs = length (filter (\<lambda>(q, nd). link_node nd) fs)"
  unfolding link_fuel_def by (rule arg_cong [where f = length], rule filter_cong) (auto simp: link_node_def split: node.splits)

lemma dset_links: "\<not> is_link fs q \<Longrightarrow> \<not> link_node nd \<Longrightarrow> same_links fs (dset fs q nd)"
proof -
  assume q: "\<not> is_link fs q" and nd: "\<not> link_node nd"
  have "\<not> is_link fs q \<Longrightarrow> link_fuel (dset fs q nd) = link_fuel fs"
    using nd by (induction fs q nd rule: dset.induct) (auto simp: link_fuel_nodes is_link_node split: if_splits)
  then show ?thesis using q nd by (auto simp: same_links_def is_link_def link_node_def split: if_splits)
qed

text \<open>Creating the parents of a path adds directories only.\<close>

lemma make_dirs_view: "same_links fs (snd (make_dirs fs p cs)) \<and> file_view (snd (make_dirs fs p cs)) = file_view fs"
proof (induction cs arbitrary: fs p)
  case (Cons c cs)
  let ?q = "p @ [c]"
  have refl: "same_links fs fs" by (simp add: same_links_def)
  show ?case
  proof (cases "dget fs ?q")
    case None
    then have "same_links fs (dset fs ?q Dir)" "file_view (dset fs ?q Dir) = file_view fs"
      by (auto intro!: dset_links simp: is_link_node link_node_def file_view_def fun_eq_iff)
    then show ?thesis using Cons.IH [of "dset fs ?q Dir" ?q] None same_links_trans by (simp add: Let_def)
  next
    case (Some nd)
    then show ?thesis using Cons.IH [of fs] refl by (cases nd) (simp_all add: Let_def case_prod_unfold)
  qed
qed (simp add: same_links_def)

lemma resolve_links: "same_links fs fs' \<Longrightarrow> resolve fs base p = resolve fs' base p"
  using real_comps_links by (simp add: resolve_def)

lemma kernel_path_real: "kernel_path fs q = Inr r \<Longrightarrow> r = fst (real_comps fs [] q) \<and> snd (real_comps fs [] q)"
  by (cases "parents_ok fs [] (fst (real_comps fs [] q))") (auto simp: kernel_path_def case_prod_unfold Let_def split: if_splits)

lemma write_text_view:
  "write_text fs base p c = (r, fs') \<Longrightarrow> same_links fs fs' \<and>
    file_view fs' = (case r of Inl e \<Rightarrow> file_view fs | Inr u \<Rightarrow> (file_view fs)(file_loc base fs p \<mapsto> c))"
proof (cases "resolve fs base p")
  case (Inr q)
  assume wr: "write_text fs base p c = (r, fs')"
  obtain m fs1 where md: "make_dirs fs [] (butlast q) = (m, fs1)" by fastforce
  have same: "same_links fs fs1" "file_view fs1 = file_view fs" using make_dirs_view [of fs "[]" "butlast q"] md by auto
  have wr: "os_write fs q c = (r, fs')" using wr Inr by (simp add: write_text_def)
  have fail: ?thesis if "r = Inl e" "fs' = fs1" for e using same that by simp
  show ?thesis
  proof (cases "\<exists>x. m = Inr () \<and> kernel_path fs1 q = Inr x \<and> \<not> is_dir fs1 x")
    case False
    then show ?thesis using wr fail md by (cases m; cases "kernel_path fs1 q") (auto simp: os_write_def)
  next
    case True
    then obtain x where 2: "m = Inr ()" "kernel_path fs1 q = Inr x" "\<not> is_dir fs1 x" by blast
    then have rf: "r = Inr ()" "fs' = dset fs1 x (File c)" using wr md by (auto simp: os_write_def)
    have x: "x = fst (real_comps fs [] q)" "snd (real_comps fs1 [] q)" "x = fst (real_comps fs1 [] q)"
      using kernel_path_real [OF 2(2)] real_comps_links [OF same(1)] by auto
    have "plain fs1 x" using real_comps_plain [of fs1 "[]" q] x by simp
    then have "\<not> is_link fs1 x" using 2(3) by (auto simp: plain_def is_dir_def dest: bspec [where x = "length x"])
    then have "same_links fs1 fs'" using dset_links rf(2) by (simp add: link_node_def)
    then have "same_links fs fs'" using same(1) same_links_trans by blast
    moreover have "file_view fs' = (file_view fs)(x \<mapsto> c)" using rf(2) same(2) by (auto simp: file_view_def fun_eq_iff)
    ultimately show ?thesis using rf(1) x Inr by (simp add: file_loc_def)
  qed
qed (auto simp: write_text_def same_links_def)

text \<open>
  \<open>write_text\<close> opens the file, which empties it, and then writes: a write may break off on the way, say when the
  disk is full. A fault tells after how many characters it does, if at all; \<open>local_ops\<close> is the disk without faults.
\<close>

type_synonym disk_fault = "fsys \<Rightarrow> string \<Rightarrow> string \<Rightarrow> nat option"

definition disk_write :: "disk_fault \<Rightarrow> path \<Rightarrow> string \<Rightarrow> string \<Rightarrow> fsys \<Rightarrow> unit result \<times> fsys" where
  "disk_write fault base p c fs = (case fault fs p c of
     None \<Rightarrow> write_text fs base p c
   | Some n \<Rightarrow> (case write_text fs base p (take n c) of
        (Inl e, fs') \<Rightarrow> (Inl e, fs')
      | (Inr _, fs') \<Rightarrow> (Inl (Exn ''OSError'' ''[Errno 28] No space left on device''), fs')))"

definition disk_ops :: "disk_fault \<Rightarrow> path \<Rightarrow> fsys workspace_ops" where
  "disk_ops fault base = (local_ops base)\<lparr>ws_write := disk_write fault base\<rparr>"

lemma faultless_disk: "disk_ops (\<lambda>_ _ _. None) base = local_ops base"
  by (simp add: disk_ops_def local_ops_def disk_write_def fun_eq_iff)

lemma local_read_view: "ws_read (local_ops base) p s = Inr c \<Longrightarrow> file_view s (file_loc base s p) = Some c"
proof -
  assume "ws_read (local_ops base) p s = Inr c"
  then obtain q where q: "resolve s base p = Inr q" "os_read s q = Inr c"
    by (cases "resolve s base p") (auto simp: local_ops_def read_text_def)
  then obtain r where "kernel_path s q = Inr r" "dget s r = Some (File c)"
    by (cases "kernel_path s q") (auto simp: os_read_def split: option.splits node.splits)
  then show "file_view s (file_loc base s p) = Some c" using q kernel_path_real by (auto simp: file_view_def file_loc_def)
qed

lemma disk_write_view:
  assumes "disk_write fault base p c fs = (r, fs')"
  shows "same_links fs fs'" and "r = Inr u \<Longrightarrow> file_view fs' = (file_view fs)(file_loc base fs p \<mapsto> c)"
    and "r = Inl e \<Longrightarrow> fault fs p c = None \<Longrightarrow> file_view fs' = file_view fs"
    and "r = Inl e \<Longrightarrow> q \<noteq> file_loc base fs p \<Longrightarrow> file_view fs' q = file_view fs q"
proof -
  obtain r1 fs1 where wr: "write_text fs base p (case fault fs p c of None \<Rightarrow> c | Some n \<Rightarrow> take n c) = (r1, fs1)" by force
  then have fs1: "fs' = fs1" "fault fs p c = None \<Longrightarrow> r = r1" "\<And>n. fault fs p c = Some n \<Longrightarrow> \<exists>e. r = Inl e"
    using assms by (auto simp: disk_write_def split: option.splits sum.splits)
  note view = write_text_view [OF wr]
  show "same_links fs fs'" using view fs1(1) by simp
  show "r = Inr u \<Longrightarrow> file_view fs' = (file_view fs)(file_loc base fs p \<mapsto> c)"
    using view fs1 by (cases "fault fs p c") auto
  show "r = Inl e \<Longrightarrow> fault fs p c = None \<Longrightarrow> file_view fs' = file_view fs" using view fs1 by simp
  show "r = Inl e \<Longrightarrow> q \<noteq> file_loc base fs p \<Longrightarrow> file_view fs' q = file_view fs q" using view fs1(1) by (cases r1) auto
qed

interpretation disk_store: text_store "disk_ops fault base" file_view "file_loc base" "\<lambda>s p c. fault s p c \<noteq> None"
proof unfold_locales
  show "ws_read (disk_ops fault base) p s = Inr c \<Longrightarrow> file_view s (file_loc base s p) = Some c" for p s c
    using local_read_view by (simp add: disk_ops_def)
  have put: "put_text (disk_ops fault base) p c s = disk_write fault base p c s" for p c s
    by (simp add: put_text_def write_locked_def disk_ops_def local_ops_def)
  show "put_text (disk_ops fault base) p c s = (Inr u, s') \<Longrightarrow> file_view s' = (file_view s)(file_loc base s p \<mapsto> c)" for p c s u s'
    using disk_write_view(2) by (simp add: put)
  show "put_text (disk_ops fault base) p c s = (Inl e, s') \<Longrightarrow> \<not> fault s p c \<noteq> None \<Longrightarrow> file_view s' = file_view s" for p c s e s'
    using disk_write_view(3) by (simp add: put)
  show "put_text (disk_ops fault base) p c s = (Inl e, s') \<Longrightarrow> l \<noteq> file_loc base s p \<Longrightarrow> file_view s' l = file_view s l" for p c s e s' l
    using disk_write_view(4) by (simp add: put)
  show "put_text (disk_ops fault base) p c s = (r, s') \<Longrightarrow> file_loc base s' = file_loc base s" for p c s r s'
  proof -
    assume "put_text (disk_ops fault base) p c s = (r, s')"
    then have "same_links s s'" using disk_write_view(1) by (simp add: put)
    then show ?thesis by (auto simp: file_loc_def fun_eq_iff resolve_links [symmetric] real_comps_links [symmetric] split: sum.split)
  qed
qed

text \<open>
  C12: the patch tool without a lock registry on a local workspace whose writes may break off, each after however
  many characters. A rejected patch leaves the file system as it was. When a write fails and no write of the
  rollback does, every text is as it was before, except at most the text of one file of the patch whose own
  write broke off after the file was opened; it is not rolled back. An applied patch writes exactly the texts
  the dry run has computed, to their files.
\<close>
theorem patch_all_or_nothing:
  "run_patch (disk_ops fault base) patch fs = (out, fs') \<Longrightarrow> (case out of
      Rejected m \<Rightarrow> fs' = fs
    | RolledBack e errs \<Rightarrow> errs = [] \<longrightarrow> file_view fs' = file_view fs
        \<or> (\<exists>fps originals resolved p c u. parse_patch patch = Inr fps \<and> dry_run (disk_ops fault base) fs fps ([], []) = Inr (originals, resolved)
             \<and> (p, c) \<in> set resolved \<and> fault u p c \<noteq> None \<and> (\<forall>q. q \<noteq> file_loc base fs p \<longrightarrow> file_view fs' q = file_view fs q))
    | Applied written originals \<Rightarrow> \<exists>fps resolved. parse_patch patch = Inr fps
        \<and> dry_run (disk_ops fault base) fs fps ([], []) = Inr (originals, resolved) \<and> written = map fst resolved
        \<and> file_view fs' = texts_put (file_loc base fs) resolved (file_view fs))"
proof -
  assume run: "run_patch (disk_ops fault base) patch fs = (out, fs')"
  note all = disk_store.all_or_nothing [OF run, unfolded disk_store.damage_def]
  show ?thesis
  proof (cases out)
    case (RolledBack e errs)
    have "file_view fs' = file_view fs" if "\<forall>l. l \<notin> {} \<longrightarrow> file_view fs' l = file_view fs l" using that by auto
    then show ?thesis using all unfolding RolledBack patch_outcome.case by (metis singletonD)
  qed (use all in simp_all)
qed

definition sample_patch :: string where
  "sample_patch = ''--- a/f'' @ [LF] @ ''+++ b/f'' @ [LF] @ ''@@ -1 +1 @@'' @ [LF] @ ''-a'' @ [LF] @ ''+b'' @ [LF]"

definition patch_fs :: fsys where
  "patch_fs = [([''w''], Dir), ([''w'', ''f''], File (''a'' @ [LF]))]"

theorem patch_all_or_nothing_witness:
  "\<exists>fps resolved. parse_patch sample_patch = Inr fps \<and> dry_run (local_ops [''w'']) patch_fs fps ([], []) = Inr ([(''f'', ''a'' @ [LF])], resolved)
    \<and> [''f''] = map fst resolved
    \<and> file_view (snd (run_patch (local_ops [''w'']) sample_patch patch_fs)) = texts_put (file_loc [''w''] patch_fs) resolved (file_view patch_fs)"
proof -
  note local = faultless_disk [of "[''w'']", symmetric]
  have "fst (run_patch (local_ops [''w'']) sample_patch patch_fs) = Applied [''f''] [(''f'', ''a'' @ [LF])]" by code_simp
  then obtain fs' where run: "run_patch (local_ops [''w'']) sample_patch patch_fs = (Applied [''f''] [(''f'', ''a'' @ [LF])], fs')"
    by (cases "run_patch (local_ops [''w'']) sample_patch patch_fs") simp
  show ?thesis using patch_all_or_nothing [OF run [unfolded local]] unfolding run faultless_disk by simp
qed

section \<open>Limits\<close>

text \<open>
  The file whose write breaks off stays cut short although the tool reports that it has rolled back: here the disk
  is full when \<open>f\<close> is written.
\<close>

lemma broken_write_not_rolled_back:
  "fst (run_patch (disk_ops (\<lambda>_ _ _. Some 0) [''w'']) sample_patch patch_fs)
     = RolledBack (Exn ''OSError'' ''[Errno 28] No space left on device'') []"
  "file_view (snd (run_patch (disk_ops (\<lambda>_ _ _. Some 0) [''w'']) sample_patch patch_fs)) [''w'', ''f''] = Some ''''"
  by code_simp+

text \<open>Removing a line that starts with two dashes and a space reads as a file header, and the patch is refused.\<close>

lemma dashes_line_refused:
  "parse_patch (''--- a/f'' @ [LF] @ ''+++ b/f'' @ [LF] @ ''@@ -1 +1 @@'' @ [LF] @ ''--- x'' @ [LF] @ ''+b'' @ [LF])
    = patch_error ''hunk line counts do not match its header''"
  by code_simp

text \<open>Two spellings of a path are two files to the dry run: the second text replaces the first and its hunks are lost.\<close>

definition twice_patch :: string where
  "twice_patch = ''--- a/f'' @ [LF] @ ''+++ b/f'' @ [LF] @ ''@@ -1 +1 @@'' @ [LF] @ ''-a'' @ [LF] @ ''+b'' @ [LF]
     @ ''--- a/./f'' @ [LF] @ ''+++ b/./f'' @ [LF] @ ''@@ -2 +2 @@'' @ [LF] @ ''-x'' @ [LF] @ ''+y'' @ [LF]"

definition twice_fs :: fsys where
  "twice_fs = [([''w''], Dir), ([''w'', ''f''], File (''a'' @ [LF] @ ''x'' @ [LF]))]"

lemma aliased_update_lost:
  "fst (run_patch (local_ops [''w'']) twice_patch twice_fs) = Applied [''f'', ''./f''] [(''f'', ''a'' @ [LF] @ ''x'' @ [LF]), (''./f'', ''a'' @ [LF] @ ''x'' @ [LF])]"
  "file_view (snd (run_patch (local_ops [''w'']) twice_patch twice_fs)) [''w'', ''f''] = Some (''a'' @ [LF] @ ''y'' @ [LF])"
  by code_simp+

text \<open>When the lock of a file is lost while it is written, the write counts as failed and is not rolled back.\<close>

lemma lost_lock_not_rolled_back:
  "ws_locks P = Some (\<lambda>p ow s. (Inr (), s), \<lambda>p ow s. (Inl e, s)) \<Longrightarrow> ws_owner P = Some me \<Longrightarrow> ws_write P p t s = (Inr (), s') \<Longrightarrow>
    write_all P [(p, t)] [] s = (Some e, [], s')"
  by (simp add: put_text_def write_locked_def)

end
