(* ===== verification/File_Editor.thy ===== *)
theory File_Editor
  imports File_Patch
begin

text \<open>
  The file editor (\<open>files/tool.py\<close>): view, create, replace with its exact and fuzzy matching, insert and undo, over any
  workspace given by its operations. The similarity ratio of \<open>difflib\<close> and the notice of a truncated view, which is
  not in the characters of the model, are arguments.
\<close>

section \<open>Text\<close>

text \<open>\<open>str.count\<close> and \<open>str.replace\<close> with a count, for a pattern that is not empty, from left to right without overlap.\<close>

function (sequential) count_in :: "string \<Rightarrow> string \<Rightarrow> nat" where
  "count_in p [] = 0"
| "count_in p (c # cs) = (if p \<noteq> [] \<and> startswith p (c # cs) then Suc (count_in p (drop (length p) (c # cs))) else count_in p cs)"
  by pat_completeness auto
termination by (relation "measure (\<lambda>(p, s). length s)") auto

function (sequential) replace_in :: "string \<Rightarrow> string \<Rightarrow> nat \<Rightarrow> string \<Rightarrow> string" where
  "replace_in p r n [] = []"
| "replace_in p r 0 s = s"
| "replace_in p r (Suc n) (c # cs) = (if p \<noteq> [] \<and> startswith p (c # cs) then r @ replace_in p r n (drop (length p) (c # cs))
     else c # replace_in p r (Suc n) cs)"
  by pat_completeness auto
termination by (relation "measure (\<lambda>(p, r, n, s). length s)") auto

fun interleave :: "string \<Rightarrow> nat \<Rightarrow> string \<Rightarrow> string" where
  "interleave r 0 s = s"
| "interleave r (Suc n) [] = r"
| "interleave r (Suc n) (c # cs) = r @ c # interleave r n cs"

definition str_count :: "string \<Rightarrow> string \<Rightarrow> nat" where
  "str_count p s = (if p = [] then length s + 1 else count_in p s)"

definition str_replace :: "string \<Rightarrow> string \<Rightarrow> nat \<Rightarrow> string \<Rightarrow> string" where
  "str_replace p r n s = (if p = [] then interleave r n s else replace_in p r n s)"

section \<open>Fuzzy matching\<close>

text \<open>The body of a line with its start, the end of the body and the end of the line in the text.\<close>

fun spans_from :: "nat \<Rightarrow> string list \<Rightarrow> (string \<times> nat \<times> nat \<times> nat) list" where
  "spans_from k [] = []"
| "spans_from k (l # ls) = (rstrip_nl l, k, k + length (rstrip_nl l), k + length l) # spans_from (k + length l) ls"

definition line_spans :: "string \<Rightarrow> (string \<times> nat \<times> nat \<times> nat) list" where
  "line_spans s = spans_from 0 (splitlines_keep s)"

definition is_blank_char :: "char \<Rightarrow> bool" where
  "is_blank_char c \<longleftrightarrow> c = CHR '' '' \<or> c = TAB"

definition normalise_indentation :: "string \<Rightarrow> string" where
  "normalise_indentation l = (if takeWhile is_blank_char l \<noteq> [] then '' '' else '''') @ dropWhile is_blank_char l"

fun replace_crlf :: "string \<Rightarrow> string" where
  "replace_crlf (c # d # cs) = (if c = CR \<and> d = LF then LF # replace_crlf cs else c # replace_crlf (d # cs))"
| "replace_crlf cs = cs"

definition preserve_newline_style :: "string \<Rightarrow> string \<Rightarrow> string" where
  "preserve_newline_style v reference = (if \<not> contains [CR, LF] reference then v
     else concat (map (\<lambda>c. if c = LF then [CR, LF] else [c]) (map (\<lambda>c. if c = CR then LF else c) (replace_crlf v))))"

definition ends_nl :: "string \<Rightarrow> bool" where
  "ends_nl s \<longleftrightarrow> endswith [LF] s \<or> endswith [CR] s"

definition span_end :: "bool \<Rightarrow> string \<times> nat \<times> nat \<times> nat \<Rightarrow> nat" where
  "span_end with_newline sp = (case sp of (body, start, body_end, full_end) \<Rightarrow> if with_newline then full_end else body_end)"

definition contiguous_matches :: "(string \<Rightarrow> string) \<Rightarrow> (string \<times> nat \<times> nat \<times> nat) list \<Rightarrow> string list \<Rightarrow> bool \<Rightarrow> (nat \<times> nat) list" where
  "contiguous_matches f content bodies with_newline =
     (if length bodies > length content then []
      else map (\<lambda>i. (fst (snd (content ! i)), span_end with_newline (content ! (i + length bodies - 1))))
        (filter (\<lambda>i. map (\<lambda>sp. f (fst sp)) (take (length bodies) (drop i content)) = map f bodies) [0..<length content - length bodies + 1]))"

definition strip_blanks :: "string \<Rightarrow> string" where
  "strip_blanks l = rstrip_by (\<lambda>c. c = CHR '' '') (lstrip_by (\<lambda>c. c = CHR '' '') l)"

definition block_pairs :: "(string \<times> nat \<times> nat \<times> nat) list \<Rightarrow> string list \<Rightarrow> (nat \<times> nat) list" where
  "block_pairs content bodies = concat (map (\<lambda>i. if fst (content ! i) \<noteq> hd bodies then []
     else map (Pair i) (filter (\<lambda>j. fst (content ! j) = last bodies) [i + 1..<length content])) [0..<length content])"

definition block_ok :: "(string \<Rightarrow> string \<Rightarrow> rat) \<Rightarrow> (string \<times> nat \<times> nat \<times> nat) list \<Rightarrow> string list \<Rightarrow> nat \<times> nat \<Rightarrow> bool" where
  "block_ok ratio content bodies ij = (let cand = map fst (take (snd ij + 1 - fst ij) (drop (fst ij) content)) in
     \<bar>int (length cand) - int (length bodies)\<bar> \<le> max 2 (int (length bodies) div 5)
     \<and> ratio (py_join [LF] bodies) (py_join [LF] cand) \<ge> 6 / 10)"

definition fuzzy_find_details :: "(string \<Rightarrow> string \<Rightarrow> rat) \<Rightarrow> string \<Rightarrow> string \<Rightarrow> string option \<times> (nat \<times> nat) list" where
  "fuzzy_find_details ratio content old_str =
     (let cl = line_spans content; ol = line_spans old_str in
      if cl = [] \<or> ol = [] then (None, [])
      else let bodies = map fst ol; nl = ends_nl old_str;
               trimmed = contiguous_matches strip_blanks cl bodies nl;
               indented = contiguous_matches normalise_indentation cl bodies nl in
        if length trimmed = 1 then (Some ''line_whitespace_trimmed'', trimmed)
        else if length indented = 1 then (Some ''indentation_normalized'', indented)
        else if length bodies \<ge> 3 then
          (let pairs = block_pairs cl bodies; good = filter (block_ok ratio cl bodies) pairs;
               matches = map (\<lambda>(i, j). (fst (snd (cl ! i)), span_end nl (cl ! j))) good in
           if length matches = 1 then (Some ''anchored_block'', matches)
           else if length good < length pairs \<and> matches = [] then (Some ''anchored_block_rejected'', [])
           else (None, matches))
        else (None, []))"

section \<open>Indentation of a fuzzy replacement\<close>

definition indent_of :: "string \<Rightarrow> string" where
  "indent_of l = takeWhile is_blank_char l"

text \<open>The width of blanks with tab stops every four columns.\<close>

fun expanded_width :: "nat \<Rightarrow> string \<Rightarrow> nat" where
  "expanded_width k [] = k"
| "expanded_width k (c # cs) = expanded_width (if c = TAB then k + (4 - k mod 4) else Suc k) cs"

fun reindent_lines :: "bool \<Rightarrow> nat option \<Rightarrow> string list \<Rightarrow> string list \<Rightarrow> string list \<Rightarrow> string list option" where
  "reindent_lines tabs width (o1 # os) (n1 # ns) (t1 # ts) =
     (let oi = indent_of o1; ni = indent_of n1; body = drop (length ni) n1 in
      Option.bind
        (if ni = [] then Some n1
         else if ni = oi then Some (t1 @ body)
         else if tabs then Some (replicate (expanded_width 0 ni div 4) TAB @ body)
         else (case width of None \<Rightarrow> None | Some w \<Rightarrow> if w = 0 then None else Some (replicate (w * (length ni div 4)) (CHR '' '') @ body)))
        (\<lambda>l. map_option (\<lambda>ls. l # ls) (reindent_lines tabs width os ns ts)))"
| "reindent_lines tabs width _ _ _ = Some []"

definition reindent_fuzzy_replacement :: "string \<Rightarrow> string \<Rightarrow> string \<Rightarrow> string option" where
  "reindent_fuzzy_replacement old_str new_str matched =
     (let ols = splitlines_keep old_str; nls = splitlines_keep new_str; mls = splitlines_keep matched; targets = map indent_of mls in
      if nls = [] then Some new_str
      else if list_all (\<lambda>t. t = []) targets then (if list_all (\<lambda>l. indent_of l = []) nls then Some new_str else None)
      else let tabs = list_ex (\<lambda>t. TAB \<in> set t) targets in
        if tabs \<and> list_ex (\<lambda>t. CHR '' '' \<in> set t) targets then None
        else if length nls \<noteq> length ols \<or> length mls \<noteq> length ols then None
        else (let widths = map length (filter (\<lambda>t. t \<noteq> []) targets);
                  width = (if widths = [] then None else Some (Min (set widths)))
              in map_option concat (reindent_lines tabs width ols nls targets)))"

section \<open>The editor\<close>

text \<open>
  The workspace with its directory listing and deletion, the snapshot store if there is one, the cap on the lines of a view
  and the notice of a cut one (the lines left, the next line, the last).
\<close>

record 's editor =
  ed_ws :: "'s workspace_ops"
  ed_list :: "string \<Rightarrow> 's \<Rightarrow> string list result"
  ed_delete :: "string \<Rightarrow> 's \<Rightarrow> unit result \<times> 's"
  ed_snapshot :: "(string \<Rightarrow> string \<Rightarrow> 's \<Rightarrow> unit result \<times> 's) option"
  ed_max_view_lines :: int
  ed_notice :: "nat \<Rightarrow> int \<Rightarrow> int \<Rightarrow> string"
  ed_ratio :: "string \<Rightarrow> string \<Rightarrow> rat"

type_synonym undo = "(string, string option) dict"
type_synonym 's edit = "undo \<times> 's \<Rightarrow> tool_result result \<times> undo \<times> 's"

definition editor_args_ok :: "int \<Rightarrow> rat \<Rightarrow> unit result" where
  "editor_args_ok max_view_lines lock_timeout =
     (if max_view_lines < 10 then value_error ''max_view_lines must be >= 10''
      else if lock_timeout < 0 then value_error ''lock_timeout must be non-negative'' else Inr ())"

definition is_internal_snapshot_path :: "string \<Rightarrow> bool" where
  "is_internal_snapshot_path p = (''.kinetic'' \<in> set (split_slash [] p))"

definition truncate_view_line :: "string \<Rightarrow> string" where
  "truncate_view_line l = (if length l \<le> 500 then l else take 500 l @ ''...(cut)'')"

definition view_directory :: "'s editor \<Rightarrow> string \<Rightarrow> 's \<Rightarrow> tool_result result" where
  "view_directory E path s = (case ed_list E path s of
     Inl e \<Rightarrow> if exn_class e = ''FileNotFoundError'' \<or> exn_class e = ''NotADirectoryError''
             then Inr (err_result (''no such file or directory: '' @ path)) else Inl e
   | Inr entries \<Rightarrow>
       (let es = filter (\<lambda>x. rstrip_by (\<lambda>c. c = CHR ''/'') x \<noteq> ''.kinetic'') entries; out = py_join [LF] es
        in Inr (ok_result (JStr (if out = '''' then ''(empty directory)'' else out)))))"

definition number_lines :: "int \<Rightarrow> string list \<Rightarrow> string" where
  "number_lines start ls = py_join [LF] (map (\<lambda>(i, l). str_of_int (start + int i) @ [TAB] @ truncate_view_line l) (enumerate 0 ls))"

definition view_lines :: "'s editor \<Rightarrow> string list \<Rightarrow> int \<Rightarrow> int \<Rightarrow> tool_result" where
  "view_lines E lines start stop =
     (let sliced = take (nat stop - nat (start - 1)) (drop (nat (start - 1)) lines);
          truncated = (int (length sliced) > ed_max_view_lines E);
          shown = (if truncated then take (nat (ed_max_view_lines E)) sliced else sliced);
          numbered = number_lines start shown
      in (ok_result (JStr (if truncated
            then numbered @ ed_notice E (length sliced - length shown) (start + int (length shown)) stop else numbered)))
          \<lparr>res_metadata := [(''total_lines'', JInt (int (length lines))), (''truncated'', JBool truncated)]\<rparr>)"

definition edit_view :: "'s editor \<Rightarrow> string \<Rightarrow> int list option \<Rightarrow> 's edit" where
  "edit_view E path view_range st = (case ws_read (ed_ws E) path (snd st) of
     Inl e \<Rightarrow> (if exn_class e = ''FileNotFoundError'' \<or> exn_class e = ''IsADirectoryError'' then view_directory E path (snd st) else Inl e, st)
   | Inr content \<Rightarrow> (let lines = splitlines content; n = int (length lines) in
       (Inr (case view_range of
          None \<Rightarrow> view_lines E lines 1 n
        | Some [start, stop] \<Rightarrow> (let stop' = (if stop = -1 then n else stop) in
            if start < 1 \<or> stop' < start then err_result (''invalid view_range '' @ py_repr (JArr [JInt start, JInt stop]))
            else view_lines E lines start stop')
        | Some _ \<Rightarrow> err_result ''view_range must be [start, end]''), st)))"

text \<open>A locked operation on the workspace; what raises leaves the undo record alone.\<close>

definition edit_locked :: "'s editor \<Rightarrow> string \<Rightarrow> ('s \<Rightarrow> unit result \<times> 's) \<Rightarrow> (undo \<Rightarrow> undo) \<Rightarrow> tool_result \<Rightarrow> 's edit" where
  "edit_locked E path op keep res st = (case write_locked (ed_ws E) path op (snd st) of
     (Inl e, s') \<Rightarrow> (Inl e, fst st, s')
   | (Inr _, s') \<Rightarrow> (Inr res, keep (fst st), s'))"

definition edit_create :: "'s editor \<Rightarrow> string \<Rightarrow> string option \<Rightarrow> 's edit" where
  "edit_create E path file_text st = (case file_text of
     None \<Rightarrow> (Inr (err_result ''create requires file_text''), st)
   | Some t \<Rightarrow> (case ws_read (ed_ws E) path (snd st) of
        Inr _ \<Rightarrow> (Inr (err_result (''file already exists: '' @ path @ '' (use str_replace to edit)'')), st)
      | Inl e \<Rightarrow>
          if exn_class e \<noteq> ''FileNotFoundError'' then (Inl e, st)
          else edit_locked E path (ws_write (ed_ws E) path t) (\<lambda>u. dset u path None)
                 ((ok_result (JStr (''created '' @ path)))\<lparr>res_metadata := [(''path'', JStr path)]\<rparr>) st))"

definition snapshot_and_write :: "'s editor \<Rightarrow> string \<Rightarrow> string \<Rightarrow> string \<Rightarrow> 's \<Rightarrow> unit result \<times> 's" where
  "snapshot_and_write E path previous updated s = (case ed_snapshot E of
     None \<Rightarrow> ws_write (ed_ws E) path updated s
   | Some snap \<Rightarrow> (case snap path previous s of
        (Inl e, s') \<Rightarrow> (Inl e, s')
      | (Inr _, s') \<Rightarrow> ws_write (ed_ws E) path updated s'))"

text \<open>What replaces what: the new text, the number of replacements and, for a fuzzy match, the strategy and the lines.\<close>

definition plan_replace :: "'s editor \<Rightarrow> string \<Rightarrow> string \<Rightarrow> string \<Rightarrow> bool \<Rightarrow> string + (string \<times> nat \<times> (string \<times> string) option)" where
  "plan_replace E content old_str new_str replace_all =
     (let n = str_count old_str content; fresh = preserve_newline_style new_str content in
      if n > 1 \<and> \<not> replace_all then Inl (''old_str matches '' @ str_of_nat n
          @ '' times; pass replace_all=True to replace all of them, or narrow old_str to match exactly once'')
      else if n \<noteq> 0 then (let k = (if replace_all then n else 1) in Inr (str_replace old_str fresh k content, k, None))
      else (case fuzzy_find_details (ed_ratio E) content old_str of (strategy, matches) \<Rightarrow>
        if strategy = Some ''anchored_block_rejected'' then Inl (''anchored_block fuzzy match rejected because the matched block ''
             @ ''is too different in size or middle content; use a more exact old_str'')
        else (case matches of
            [] \<Rightarrow> Inl ''old_str not found in the file''
          | [(b, e)] \<Rightarrow>
              if replace_all then Inl (''replace_all=True only supports exact matches; narrow old_str ''
                  @ ''or disable replace_all to use fuzzy matching'')
              else (case (if strategy = Some ''indentation_normalized''
                          then reindent_fuzzy_replacement old_str fresh (take (e - b) (drop b content)) else Some fresh) of
                  None \<Rightarrow> Inl (''indentation_normalized fuzzy match rejected because replacement ''
                       @ ''indentation could not be inferred safely'')
                | Some r \<Rightarrow>
                    (let start_line = length (filter (\<lambda>c. c = LF) (take b content)) + 1;
                         end_line = length (filter (\<lambda>c. c = LF) (take e content)) + (if e > b \<and> content ! (e - 1) = LF then 0 else 1)
                     in Inr (take b content @ r @ drop e content, 1,
                          Some (case strategy of Some x \<Rightarrow> x | None \<Rightarrow> '''', str_of_nat start_line @ ''-'' @ str_of_nat end_line))))
          | _ \<Rightarrow> Inl (''old_str fuzzy-matches '' @ str_of_nat (length matches) @ '' times; it must match exactly once''))))"

definition edit_str_replace :: "'s editor \<Rightarrow> string \<Rightarrow> string option \<Rightarrow> string option \<Rightarrow> bool \<Rightarrow> 's edit" where
  "edit_str_replace E path old_str new_str replace_all st = (case (old_str, new_str) of
     (Some old, Some fresh) \<Rightarrow> (case ws_read (ed_ws E) path (snd st) of
        Inl e \<Rightarrow> (if exn_class e = ''FileNotFoundError'' then Inr (err_result (''no such file: '' @ path)) else Inl e, st)
      | Inr content \<Rightarrow> (case plan_replace E content old fresh replace_all of
           Inl m \<Rightarrow> (Inr (err_result m), st)
         | Inr (updated, count, fuzzy) \<Rightarrow>
             edit_locked E path (snapshot_and_write E path content updated) (\<lambda>u. dset u path (Some content))
               (case fuzzy of
                  None \<Rightarrow> (ok_result (JStr (''edited '' @ path @ '' ('' @ str_of_nat count @ '' replacement(s))'')))
                     \<lparr>res_metadata := [(''path'', JStr path), (''count'', JInt (int count))]\<rparr>
                | Some (strategy, lines) \<Rightarrow>
                    (ok_result (JStr (''edited '' @ path @ '' ('' @ str_of_nat count @ '' replacement, fuzzy='' @ strategy
                       @ '', lines '' @ lines @ '')'')))
                     \<lparr>res_metadata := [(''path'', JStr path), (''count'', JInt (int count)), (''match_strategy'', JStr strategy),
                        (''lines'', JStr lines)]\<rparr>) st))
   | _ \<Rightarrow> (Inr (err_result ''str_replace requires old_str and new_str''), st))"

definition inserted :: "string \<Rightarrow> nat \<Rightarrow> string \<Rightarrow> string" where
  "inserted content k new_str =
     (let lines = splitlines_keep content; fresh = preserve_newline_style new_str content; news = splitlines_keep fresh;
          news' = (if fresh \<noteq> [] \<and> \<not> ends_nl fresh then butlast news @ [last news @ [LF]] else news)
      in concat (take k lines @ news' @ drop k lines))"

definition edit_insert :: "'s editor \<Rightarrow> string \<Rightarrow> int option \<Rightarrow> string option \<Rightarrow> 's edit" where
  "edit_insert E path insert_line new_str st = (case (insert_line, new_str) of
     (Some k, Some fresh) \<Rightarrow> (case ws_read (ed_ws E) path (snd st) of
        Inl e \<Rightarrow> (if exn_class e = ''FileNotFoundError'' then Inr (err_result (''no such file: '' @ path)) else Inl e, st)
      | Inr content \<Rightarrow> (let n = int (length (splitlines_keep content)) in
          if k < 0 \<or> k > n then (Inr (err_result (''insert_line '' @ str_of_int k @ '' out of range 0..'' @ str_of_int n)), st)
          else edit_locked E path (snapshot_and_write E path content (inserted content (nat k) fresh)) (\<lambda>u. dset u path (Some content))
                 ((ok_result (JStr (''inserted into '' @ path @ '' after line '' @ str_of_int k)))\<lparr>res_metadata := [(''path'', JStr path)]\<rparr>) st))
   | _ \<Rightarrow> (Inr (err_result ''insert requires insert_line and new_str''), st))"

definition edit_undo :: "'s editor \<Rightarrow> string \<Rightarrow> 's edit" where
  "edit_undo E path st = (case dget (fst st) path of
     None \<Rightarrow> (Inr (err_result (''nothing to undo for '' @ path)), st)
   | Some None \<Rightarrow> edit_locked E path (ed_delete E path) (\<lambda>u. dpop u path) (ok_result (JStr (''undid create of '' @ path))) st
   | Some (Some previous) \<Rightarrow>
       (case (case ws_read (ed_ws E) path (snd st) of
                Inr c \<Rightarrow> Inr c | Inl e \<Rightarrow> if exn_class e = ''FileNotFoundError'' then Inr '''' else Inl e) of
          Inl e \<Rightarrow> (Inl e, st)
        | Inr current \<Rightarrow> edit_locked E path (ws_write (ed_ws E) path previous) (\<lambda>u. dset u path (Some current))
            (ok_result (JStr (''reverted '' @ path @ '' to its previous content''))) st))"

datatype edit_action =
  View "int list option" | Create "string option" | StrReplace "string option" "string option" bool
| Insert "int option" "string option" | UndoEdit | UnknownAction string

fun run_action :: "'s editor \<Rightarrow> string \<Rightarrow> edit_action \<Rightarrow> 's edit" where
  "run_action E path (View r) = edit_view E path r"
| "run_action E path (Create t) = edit_create E path t"
| "run_action E path (StrReplace a b all) = edit_str_replace E path a b all"
| "run_action E path (Insert k t) = edit_insert E path k t"
| "run_action E path UndoEdit = edit_undo E path"
| "run_action E path (UnknownAction a) = (\<lambda>st. (Inr (err_result (''unknown action '' @ repr_str a
     @ '' (expected view/create/str_replace/insert/undo_edit)'')), st))"

definition is_value_error :: "exn \<Rightarrow> bool" where
  "is_value_error e = (exn_class e \<in> {''ValueError'', ''PathTraversalError'', ''UnicodeDecodeError'', ''UnicodeEncodeError''})"

definition is_os_error :: "exn \<Rightarrow> bool" where
  "is_os_error e = (exn_class e \<in> {''OSError'', ''FileNotFoundError'', ''IsADirectoryError'', ''NotADirectoryError'',
     ''FileExistsError'', ''PermissionError'', ''TimeoutError''})"

definition edit_execute :: "'s editor \<Rightarrow> edit_action \<Rightarrow> string \<Rightarrow> 's edit" where
  "edit_execute E a path st =
     (if (case a of UnknownAction x \<Rightarrow> False | _ \<Rightarrow> True) \<and> is_internal_snapshot_path path
      then (Inr (err_result ''path is reserved for internal snapshot storage''), st)
      else case run_action E path a st of
          (Inr r, st') \<Rightarrow> (Inr r, st')
        | (Inl e, st') \<Rightarrow>
            (if exn_class e = ''FileLockTimeoutError'' then Inr (err_result (''file is locked for writing: '' @ exn_msg e))
             else if is_value_error e then Inr (err_result (''path rejected: '' @ exn_msg e))
             else if is_os_error e \<or> exn_class e = ''WorkspaceError'' \<or> exn_class e = ''SnapshotStoreError''
             then Inr (err_result (''filesystem error: '' @ exn_msg e))
             else Inl e, st'))"


section \<open>Exact replacement\<close>

lemma count_in_split:
  "count_in p s \<noteq> 0 \<Longrightarrow> p \<noteq> [] \<Longrightarrow> \<exists>a b. s = a @ p @ b \<and> (\<forall>r n. replace_in p r (Suc n) s = a @ r @ replace_in p r n b) \<and> count_in p b = count_in p s - 1"
proof (induction p s rule: count_in.induct)
  case (2 p c cs)
  show ?case
  proof (cases "startswith p (c # cs)")
    case True
    then have "c # cs = p @ drop (length p) (c # cs)" by (simp add: startswith_def) (metis append_take_drop_id)
    then show ?thesis using True 2(4) by (intro exI [of _ "[]"] exI [of _ "drop (length p) (c # cs)"]) auto
  next
    case False
    then obtain a b where ab: "cs = a @ p @ b" "\<forall>r n. replace_in p r (Suc n) cs = a @ r @ replace_in p r n b" "count_in p b = count_in p cs - 1"
      using 2 by auto
    then show ?thesis using False by (intro exI [of _ "c # a"] exI [of _ b]) auto
  qed
qed simp

lemma replace_in_none [simp]: "replace_in p r 0 s = s"
  by (cases s) auto

text \<open>
  An exact replacement without \<open>replace_all\<close> is made only where the old text occurs once: what stands before and after
  that one occurrence is kept, and the new text, in the line ends of the file, stands in its place.
\<close>
theorem replace_unique_exact:
  assumes "plan_replace E content old_str new_str False = Inr (updated, k, None)" and "old_str \<noteq> []"
  shows "k = 1 \<and> str_count old_str content = 1
    \<and> (\<exists>a b. content = a @ old_str @ b \<and> updated = a @ preserve_newline_style new_str content @ b \<and> str_count old_str b = 0)"
proof -
  have one: "str_count old_str content = 1" "k = 1" "updated = str_replace old_str (preserve_newline_style new_str content) 1 content"
    using assms(1) by (auto simp: plan_replace_def Let_def split: if_splits prod.splits list.splits option.splits)
  obtain a b where ab: "content = a @ old_str @ b" "\<forall>r n. replace_in old_str r (Suc n) content = a @ r @ replace_in old_str r n b"
    "count_in old_str b = 0"
    using count_in_split [of old_str content] one(1) assms(2) by (auto simp: str_count_def)
  have "updated = a @ preserve_newline_style new_str content @ b" using ab(2) one(3) assms(2) by (simp add: str_replace_def)
  then show ?thesis using one ab assms(2) by (auto simp: str_count_def)
qed

definition sample_editor :: "unit editor" where
  "sample_editor = \<lparr>ed_ws = \<lparr>ws_resolve = (\<lambda>p s. Inr ()), ws_read = (\<lambda>p s. Inr ''''), ws_write = (\<lambda>p c s. (Inr (), s)), ws_locks = None,
       ws_owner = None, ws_unbound = ''''\<rparr>, ed_list = (\<lambda>p s. Inr []), ed_delete = (\<lambda>p s. (Inr (), s)), ed_snapshot = None,
     ed_max_view_lines = 2000, ed_notice = (\<lambda>a b c. ''''), ed_ratio = (\<lambda>a b. 1)\<rparr>"

theorem replace_unique_exact_witness:
  "plan_replace sample_editor ''x = 1; y = 2'' ''y = 2'' ''y = 3'' False = Inr (''x = 1; y = 3'', 1, None)
   \<and> (\<exists>a b. ''x = 1; y = 2'' = a @ ''y = 2'' @ b \<and> ''x = 1; y = 3'' = a @ ''y = 3'' @ b)"
proof -
  have p: "plan_replace sample_editor ''x = 1; y = 2'' ''y = 2'' ''y = 3'' False = Inr (''x = 1; y = 3'', 1, None)" by code_simp
  have n: "preserve_newline_style ''y = 3'' ''x = 1; y = 2'' = ''y = 3''" by code_simp
  show ?thesis using p replace_unique_exact [OF p] n by auto
qed

section \<open>Undo\<close>

definition edits :: "edit_action \<Rightarrow> bool" where
  "edits a = (case a of Create t \<Rightarrow> True | StrReplace x y b \<Rightarrow> True | Insert k t \<Rightarrow> True | _ \<Rightarrow> False)"

definition creates :: "edit_action \<Rightarrow> bool" where
  "creates a = (case a of Create t \<Rightarrow> True | _ \<Rightarrow> False)"

text \<open>
  What undo relies on beyond the contract of the patch tool: a locked operation is the operation between steps that change no text,
  a snapshot changes none, and deleting a path whose links are sound takes its text away.
\<close>

locale editor_store =
  fixes E :: "'s editor" and view :: "'s \<Rightarrow> 'l \<Rightarrow> string option" and loc :: "'s \<Rightarrow> string \<Rightarrow> 'l" and sound :: "'s \<Rightarrow> string \<Rightarrow> bool"
  assumes read_view: "ws_read (ed_ws E) p s = Inr c \<Longrightarrow> view s (loc s p) = Some c"
    and write_view: "ws_write (ed_ws E) p c s = (Inr u, s') \<Longrightarrow> view s' = (view s)(loc s p \<mapsto> c) \<and> loc s' = loc s \<and> sound s' = sound s"
    and delete_view: "sound s p \<Longrightarrow> ed_delete E p s = (Inr u, s') \<Longrightarrow> view s' = (view s)(loc s p := None)"
    and locked: "write_locked (ed_ws E) p op s = (Inr u, s') \<Longrightarrow>
      \<exists>s1 s2. view s1 = view s \<and> loc s1 = loc s \<and> sound s1 = sound s \<and> op s1 = (Inr u, s2) \<and> view s' = view s2 \<and> loc s' = loc s2 \<and> sound s' = sound s2"
    and snapshot_view: "ed_snapshot E = Some f \<Longrightarrow> f p c s = (r, s') \<Longrightarrow> view s' = view s \<and> loc s' = loc s \<and> sound s' = sound s"
begin

lemma snapshot_and_write_view:
  "snapshot_and_write E p c d s = (Inr u, s') \<Longrightarrow> view s' = (view s)(loc s p \<mapsto> d) \<and> loc s' = loc s \<and> sound s' = sound s"
  using write_view snapshot_view by (fastforce simp: snapshot_and_write_def split: option.splits prod.splits sum.splits)

lemma edit_lockedD:
  assumes "edit_locked E p op keep r st = (Inr r', u', s')"
  shows "\<exists>s1 s2. view s1 = view (snd st) \<and> loc s1 = loc (snd st) \<and> sound s1 = sound (snd st) \<and> op s1 = (Inr (), s2) \<and> view s' = view s2 \<and> loc s' = loc s2
    \<and> sound s' = sound s2 \<and> r' = r \<and> u' = keep (fst st)"
  using assms locked [of p op "snd st" "()"] by (auto simp: edit_locked_def split: prod.splits sum.splits)

definition changed :: "string \<Rightarrow> undo \<times> 's \<Rightarrow> undo \<times> 's \<Rightarrow> string option \<Rightarrow> bool" where
  "changed p st st' prev \<longleftrightarrow> fst st' = dset (fst st) p prev \<and> loc (snd st') = loc (snd st) \<and> sound (snd st') = sound (snd st)
     \<and> (\<exists>t. view (snd st') = (view (snd st))(loc (snd st) p \<mapsto> t)) \<and> (\<forall>c. prev = Some c \<longrightarrow> view (snd st) (loc (snd st) p) = Some c)"

lemma writing_changed:
  assumes "edit_locked E p op (\<lambda>u. dset u p prev) r st = (Inr r', st')" "\<forall>c. prev = Some c \<longrightarrow> view (snd st) (loc (snd st) p) = Some c"
    and "\<And>s s'. op s = (Inr (), s') \<Longrightarrow> (\<exists>t. view s' = (view s)(loc s p \<mapsto> t)) \<and> loc s' = loc s \<and> sound s' = sound s"
  shows "changed p st st' prev"
proof -
  obtain u' s' where st': "st' = (u', s')" by fastforce
  from edit_lockedD [of p op "\<lambda>u. dset u p prev" r st r' u' s'] assms(1) st' obtain s1 s2 where
    s: "view s1 = view (snd st)" "loc s1 = loc (snd st)" "sound s1 = sound (snd st)" "op s1 = (Inr (), s2)" "view s' = view s2"
    "loc s' = loc s2" "sound s' = sound s2" "u' = dset (fst st) p prev" by auto
  from assms(3) [OF s(4)] show ?thesis using s st' assms(2) by (auto simp: changed_def)
qed

lemma edit_changed:
  assumes "run_action E p a st = (Inr r, st')" "edits a" "\<not> is_error r"
  shows "changed p st st' (if creates a then None else view (snd st) (loc (snd st) p))"
proof (cases a)
  case (Create t)
  then obtain x r0 where "edit_locked E p (ws_write (ed_ws E) p x) (\<lambda>u. dset u p None) r0 st = (Inr r, st')"
    using assms by (auto simp: edit_create_def is_error_def err_result_def split: option.splits sum.splits if_splits)
  then show ?thesis using writing_changed [of p "ws_write (ed_ws E) p x" None r0 st r st'] write_view Create by (auto simp: creates_def)
next
  case (StrReplace x y b)
  then obtain c d r0 where "ws_read (ed_ws E) p (snd st) = Inr c"
    "edit_locked E p (snapshot_and_write E p c d) (\<lambda>u. dset u p (Some c)) r0 st = (Inr r, st')"
    using assms by (auto simp: edit_str_replace_def is_error_def err_result_def plan_replace_def Let_def split: option.splits sum.splits if_splits prod.splits list.splits)
  then show ?thesis
    using writing_changed [of p "snapshot_and_write E p c d" "Some c" r0 st r st'] snapshot_and_write_view read_view StrReplace by (auto simp: creates_def)
next
  case (Insert k t)
  then obtain c d r0 where "ws_read (ed_ws E) p (snd st) = Inr c"
    "edit_locked E p (snapshot_and_write E p c d) (\<lambda>u. dset u p (Some c)) r0 st = (Inr r, st')"
    using assms by (auto simp: edit_insert_def is_error_def err_result_def Let_def split: option.splits sum.splits if_splits)
  then show ?thesis
    using writing_changed [of p "snapshot_and_write E p c d" "Some c" r0 st r st'] snapshot_and_write_view read_view Insert by (auto simp: creates_def)
qed (use assms(2) in \<open>auto simp: edits_def\<close>)

lemma undo_changed:
  assumes "changed p st st' prev" and "edit_undo E p st' = (Inr r, st'')" and "sound (snd st) p"
  shows "view (snd st'') = (view (snd st))(loc (snd st) p := prev) \<and> \<not> is_error r"
proof -
  obtain t where t: "view (snd st') = (view (snd st))(loc (snd st) p \<mapsto> t)" and l: "loc (snd st') = loc (snd st)" "sound (snd st') = sound (snd st)"
    and u: "dget (fst st') p = Some prev" using assms(1) by (auto simp: changed_def)
  obtain u'' s'' where st'': "st'' = (u'', s'')" by fastforce
  have ok: "\<not> is_error (ok_result x)" for x by (simp add: is_error_def ok_result_def)
  show ?thesis
  proof (cases prev)
    case None
    then obtain x keep where "edit_locked E p (ed_delete E p) keep (ok_result x) st' = (Inr r, u'', s'')"
      using assms(2) u st'' by (auto simp: edit_undo_def)
    from edit_lockedD [OF this] obtain s1 s2 where "view s1 = view (snd st')" "loc s1 = loc (snd st')" "sound s1 = sound (snd st')"
      "ed_delete E p s1 = (Inr (), s2)" "view s'' = view s2" "r = ok_result x" by auto
    then show ?thesis using delete_view [of s1 p "()" s2] t l None assms(3) st'' ok by auto
  next
    case (Some c)
    then obtain x keep where "edit_locked E p (ws_write (ed_ws E) p c) keep (ok_result x) st' = (Inr r, u'', s'')"
      using assms(2) u st'' by (auto simp: edit_undo_def split: sum.splits if_splits)
    from edit_lockedD [OF this] obtain s1 s2 where "view s1 = view (snd st')" "loc s1 = loc (snd st')"
      "ws_write (ed_ws E) p c s1 = (Inr (), s2)" "view s'' = view s2" "r = ok_result x" by auto
    then show ?thesis using write_view [of p c s1 "()" s2] t l Some st'' ok by auto
  qed
qed

lemma undo_restores:
  assumes "run_action E p a st = (Inr r, st')" "edits a" "\<not> is_error r" "edit_undo E p st' = (Inr r', st'')" "sound (snd st) p"
  shows "view (snd st'') = (view (snd st))(loc (snd st) p := (if creates a then None else view (snd st) (loc (snd st) p))) \<and> \<not> is_error r'"
  using undo_changed [OF edit_changed [OF assms(1-3)] assms(4,5)] .

end

definition local_editor :: "(nat \<Rightarrow> int \<Rightarrow> int \<Rightarrow> string) \<Rightarrow> (string \<Rightarrow> string \<Rightarrow> rat) \<Rightarrow> path \<Rightarrow> fsys editor" where
  "local_editor notice ratio base = \<lparr>ed_ws = (local_ops base)\<lparr>ws_unbound :=
       ''FileTool with lock_registry is not bound to an agent; call file_tool.bind(agent) after constructing the agent''\<rparr>,
     ed_list = (\<lambda>p fs. list_directory fs base p), ed_delete = (\<lambda>p fs. delete_file fs base p), ed_snapshot = None,
     ed_max_view_lines = 2000, ed_notice = notice, ed_ratio = ratio\<rparr>"

definition links_sound :: "path \<Rightarrow> fsys \<Rightarrow> string \<Rightarrow> bool" where
  "links_sound base fs p = snd (real_comps fs [] (wanted base p))"

lemma delete_file_view:
  assumes "links_sound base fs p" "delete_file fs base p = (Inr u, fs')"
  shows "file_view fs' = (file_view fs)(file_loc base fs p := None)"
proof -
  obtain q where q: "resolve fs base p = Inr q" "os_unlink fs q = (Inr u, fs')" "\<not> is_dir fs (fst (real_comps fs [] q))"
    using assms(2) by (auto simp: delete_file_def split: sum.splits if_splits)
  have plain: "plain fs q" using resolve_plain assms(1) q(1) by (auto simp: links_sound_def)
  then have real: "real_comps fs [] q = (q, True)" "q \<noteq> []" using q(3) by (auto simp: real_comps_of_plain is_dir_def)
  obtain x where "kernel_path fs (butlast q) = Inr x" "fs' = dpop fs (x @ [last q])"
    using q(2) by (auto simp: os_unlink_def Let_def split: sum.splits option.splits)
  moreover from this have "x = butlast q" using kernel_path_real [of fs "butlast q" x] real_comps_of_plain [OF plain_butlast [OF plain]] by simp
  ultimately have "fs' = dpop fs q" using real(2) by simp
  then show ?thesis using q(1) real(1) by (auto simp: file_view_def file_loc_def fun_eq_iff)
qed

interpretation local_editor: editor_store "local_editor notice ratio base" file_view "file_loc base" "links_sound base"
proof unfold_locales
  have ws: "ws_read (ed_ws (local_editor notice ratio base)) = ws_read (local_ops base)"
    "ws_write (ed_ws (local_editor notice ratio base)) p c s = write_text s base p c"
    "ws_locks (ed_ws (local_editor notice ratio base)) = None" for p c s
    by (simp_all add: local_editor_def local_ops_def)
  show "ws_read (ed_ws (local_editor notice ratio base)) p s = Inr c \<Longrightarrow> file_view s (file_loc base s p) = Some c" for p s c
    unfolding ws by (rule local_read_view)
  show "ws_write (ed_ws (local_editor notice ratio base)) p c s = (Inr u, s') \<Longrightarrow>
    file_view s' = (file_view s)(file_loc base s p \<mapsto> c) \<and> file_loc base s' = file_loc base s \<and> links_sound base s' = links_sound base s" for p c s u s'
  proof -
    assume "ws_write (ed_ws (local_editor notice ratio base)) p c s = (Inr u, s')"
    then have v: "same_links s s'" "file_view s' = (file_view s)(file_loc base s p \<mapsto> c)" using write_text_view [of s base p c "Inr u" s'] by (auto simp: ws)
    then show ?thesis
      by (auto simp: file_loc_def links_sound_def fun_eq_iff resolve_links [symmetric] real_comps_links [symmetric] split: sum.split)
  qed
  show "links_sound base s p \<Longrightarrow> ed_delete (local_editor notice ratio base) p s = (Inr u, s') \<Longrightarrow>
    file_view s' = (file_view s)(file_loc base s p := None)" for s p u s'
    using delete_file_view by (simp add: local_editor_def)
  show "write_locked (ed_ws (local_editor notice ratio base)) p op s = (Inr u, s') \<Longrightarrow>
    \<exists>s1 s2. file_view s1 = file_view s \<and> file_loc base s1 = file_loc base s \<and> links_sound base s1 = links_sound base s \<and> op s1 = (Inr u, s2)
      \<and> file_view s' = file_view s2 \<and> file_loc base s' = file_loc base s2 \<and> links_sound base s' = links_sound base s2" for p op s u s'
    by (auto simp: write_locked_def ws)
qed (simp add: local_editor_def)

text \<open>
  C28: Undoing the last edit of a file of a local workspace brings the text it had before back and touches no other file; undoing
  a creation deletes the file. Whenever it is not stopped by an exception, undo succeeds.
\<close>
theorem undo_restores_text:
  assumes "run_action (local_editor notice ratio base) p a (u, fs) = (Inr r, st')" and "edits a" and "\<not> is_error r"
    and "edit_undo (local_editor notice ratio base) p st' = (Inr r', st'')" and "links_sound base fs p"
  shows "file_view (snd st'') = (file_view fs)(file_loc base fs p := (if creates a then None else file_view fs (file_loc base fs p))) \<and> \<not> is_error r'"
  using local_editor.undo_restores [OF assms(1-4)] assms(5) by simp

definition edited_fs :: fsys where
  "edited_fs = [([''w''], Dir), ([''w'', ''f''], File ''one two'')]"

theorem undo_restores_text_witness:
  "let E = local_editor (\<lambda>a b c. '''') (\<lambda>a b. 1) [''w'']; (r, st) = run_action E ''f'' (StrReplace (Some ''two'') (Some ''three'') False) ([], edited_fs);
       (r', st') = edit_undo E ''f'' st
   in file_view (snd st) [''w'', ''f''] = Some ''one three'' \<and> file_view (snd st') = (file_view edited_fs)([''w'', ''f''] := Some ''one two'')"
proof -
  let ?E = "local_editor (\<lambda>a b c. '''') (\<lambda>a b. 1) [''w'']" and ?a = "StrReplace (Some ''two'') (Some ''three'') False"
  let ?run = "run_action ?E ''f'' ?a ([], edited_fs)"
  have r: "case fst ?run of Inl e \<Rightarrow> False | Inr x \<Rightarrow> \<not> is_error x" by code_simp
  then obtain x where run: "?run = (Inr x, snd ?run)" "\<not> is_error x" by (cases ?run) (auto split: sum.splits)
  have "case fst (edit_undo ?E ''f'' (snd ?run)) of Inl e \<Rightarrow> False | Inr x \<Rightarrow> True" by code_simp
  then obtain y where undo: "edit_undo ?E ''f'' (snd ?run) = (Inr y, snd (edit_undo ?E ''f'' (snd ?run)))"
    by (cases "edit_undo ?E ''f'' (snd ?run)") (auto split: sum.splits)
  have "edits ?a" "links_sound [''w''] edited_fs ''f''" "file_view (snd (snd ?run)) [''w'', ''f''] = Some ''one three''"
    "file_loc [''w''] edited_fs ''f'' = [''w'', ''f'']" "file_view edited_fs [''w'', ''f''] = Some ''one two''" "\<not> creates ?a" by code_simp+
  then show ?thesis using undo_restores_text [OF run(1) _ run(2) undo] by (simp add: Let_def case_prod_unfold)
qed

section \<open>Limits\<close>

text \<open>Inserting after a last line without a line end joins the new text to it, and an inserted line without a line end gets a
  bare line feed even in a file with carriage returns.\<close>

lemma insert_joins_last_line: "inserted ''a'' 1 ''b'' = ''ab'' @ [LF]"
  by code_simp

lemma insert_mixes_line_ends: "inserted (''a'' @ [CR, LF]) 1 ''b'' = ''a'' @ [CR, LF] @ ''b'' @ [LF]"
  by code_simp

end
