(* ===== verification/Mcp_Protocol.thy ===== *)
theory Mcp_Protocol
  imports Audit_Log
begin

text \<open>
  The Model Context Protocol as the program speaks it: the messages and their lines (\<open>mcp/protocol.py\<close>), the line
  transport (\<open>mcp/transport.py\<close>, standard streams). The server, the client and the adapter are in \<open>Mcp_Peers\<close>.
\<close>

section \<open>Messages (\<open>mcp/protocol.py\<close>)\<close>

datatype rpc =
  Request (rpc_id: json) (rpc_method: string) (rpc_params: json)
| Notification (rpc_method: string) (rpc_params: json)
| Response (rpc_id: json) (rpc_result: json) (rpc_error: "obj option")

definition with_params :: "json \<Rightarrow> obj" where
  "with_params p = (if p = JNull then [] else [(''params'', p)])"

fun rpc_to_dict :: "rpc \<Rightarrow> obj" where
  "rpc_to_dict (Request i m p) = [(''jsonrpc'', JStr ''2.0''), (''id'', i), (''method'', JStr m)] @ with_params p"
| "rpc_to_dict (Notification m p) = [(''jsonrpc'', JStr ''2.0''), (''method'', JStr m)] @ with_params p"
| "rpc_to_dict (Response i r e) = [(''jsonrpc'', JStr ''2.0''), (''id'', i)]
     @ (case e of Some x \<Rightarrow> [(''error'', JObj x)] | None \<Rightarrow> [(''result'', r)])"

definition protocol_error :: "string \<Rightarrow> 'a result" where
  "protocol_error m = Inl (Exn ''MCPProtocolError'' m)"

definition make_response :: "json \<Rightarrow> json \<Rightarrow> obj option \<Rightarrow> rpc result" where
  "make_response i r e = (if r \<noteq> JNull \<and> e \<noteq> None
     then protocol_error (''JsonRpcResponse cannot carry both '' @ repr_str ''result'' @ '' and '' @ repr_str ''error'') else Inr (Response i r e))"

definition make_error :: "json \<Rightarrow> int \<Rightarrow> string \<Rightarrow> json \<Rightarrow> rpc" where
  "make_error i code message data = Response i JNull
     (Some ([(''code'', JInt code), (''message'', JStr message)] @ (if data = JNull then [] else [(''data'', data)])))"

definition encode :: "rpc \<Rightarrow> string" where
  "encode m = json_dumps_utf8 (JObj (rpc_to_dict m)) @ [LF]"

definition malformed :: "string \<Rightarrow> 'a result" where
  "malformed detail = protocol_error (''Malformed JSON-RPC message: '' @ detail)"

fun py_type_name :: "json \<Rightarrow> string" where
  "py_type_name JNull = ''NoneType''"
| "py_type_name (JBool _) = ''bool''"
| "py_type_name (JInt _) = ''int''"
| "py_type_name (JFloat _ _) = ''float''"
| "py_type_name (JStr _) = ''str''"
| "py_type_name (JArr _) = ''list''"
| "py_type_name (JObj _) = ''dict''"

fun valid_id :: "json \<Rightarrow> bool" where
  "valid_id JNull = True"
| "valid_id (JInt _) = True"
| "valid_id (JStr _) = True"
| "valid_id _ = False"

definition validate_id :: "json \<Rightarrow> 'a result \<Rightarrow> 'a result" where
  "validate_id v k = (if valid_id v then k else malformed (repr_str ''id'' @ '' must be an int, str or null, got '' @ py_type_name v))"

definition decode_response :: "obj \<Rightarrow> rpc result" where
  "decode_response d =
     (if \<not> dhas d ''id'' then malformed (''neither '' @ repr_str ''method'' @ '' nor '' @ repr_str ''id''
          @ '' present - not request, response or notification'')
      else validate_id (jget d ''id'')
        (if dhas d ''result'' = dhas d ''error'' then malformed (''a response must carry exactly one of '' @ repr_str ''result'' @ '' or '' @ repr_str ''error'')
         else if dhas d ''error'' then
           (case jget d ''error'' of
              JObj e \<Rightarrow> if as_int (jget e ''code'') \<noteq> None \<and> is_str (jget e ''message'') then Inr (Response (jget d ''id'') JNull (Some e))
                       else malformed (repr_str ''error'' @ '' must contain int '' @ repr_str ''code'' @ '' and str '' @ repr_str ''message'')
            | _ \<Rightarrow> malformed (repr_str ''error'' @ '' must be an object''))
         else Inr (Response (jget d ''id'') (jget d ''result'') None)))"

definition decode_object :: "obj \<Rightarrow> rpc result" where
  "decode_object d =
     (if \<not> py_eq (jget d ''jsonrpc'') (JStr ''2.0'')
      then malformed (repr_str ''jsonrpc'' @ '' must be '' @ repr_str ''2.0'' @ '', got '' @ py_repr (jget d ''jsonrpc''))
      else if dhas d ''method'' then
        (case jget d ''method'' of
           JStr m \<Rightarrow>
             if m = '''' then malformed (repr_str ''method'' @ '' must be a non-empty string'')
             else if dhas d ''id'' then validate_id (jget d ''id'') (Inr (Request (jget d ''id'') m (jget d ''params'')))
             else Inr (Notification m (jget d ''params''))
         | _ \<Rightarrow> malformed (repr_str ''method'' @ '' must be a non-empty string''))
      else decode_response d)"

definition decode :: "float_conv \<Rightarrow> string \<Rightarrow> rpc result" where
  "decode fl line =
     (if is_blank line then protocol_error ''Empty line is not a JSON-RPC message''
      else case json_loads fl (py_strip line) of
          None \<Rightarrow> protocol_error ''Invalid JSON''
        | Some (JObj d) \<Rightarrow> decode_object d
        | Some v \<Rightarrow> malformed (''top-level value must be an object, got '' @ py_type_name v))"

section \<open>Round trip\<close>

definition rpc_wf :: "float_conv \<Rightarrow> rpc \<Rightarrow> bool" where
  "rpc_wf fl m \<longleftrightarrow> (case m of
     Request i me p \<Rightarrow> valid_id i \<and> me \<noteq> '''' \<and> json_wf fl p
   | Notification me p \<Rightarrow> me \<noteq> '''' \<and> json_wf fl p
   | Response i r None \<Rightarrow> valid_id i \<and> json_wf fl r
   | Response i r (Some e) \<Rightarrow> valid_id i \<and> r = JNull \<and> json_wf fl (JObj e) \<and> as_int (jget e ''code'') \<noteq> None \<and> is_str (jget e ''message''))"

lemma valid_id_wf: "valid_id i \<Longrightarrow> json_wf fl i"
  by (cases i) auto

lemma rpc_dict_wf: "rpc_wf fl m \<Longrightarrow> json_wf fl (JObj (rpc_to_dict m))"
  by (cases m) (auto simp: rpc_wf_def with_params_def dwf_def valid_id_wf split: option.splits)

lemma decode_object_dict: "rpc_wf fl m \<Longrightarrow> decode_object (rpc_to_dict m) = Inr m"
  by (cases m) (auto simp: rpc_wf_def with_params_def decode_object_def decode_response_def validate_id_def dhas_def jget_def
      split: option.splits)

lemma py_strip_object: "py_strip ((CHR ''{'' # s @ ''}'') @ [LF]) = CHR ''{'' # s @ ''}''"
  by (simp add: py_strip_def lstrip_by_def rstrip_by_def is_space_def code_of_def)

lemma dumps_object: "\<exists>s. json_dumps_utf8 (JObj d) = CHR ''{'' # s @ ''}''"
  by (simp add: json_dumps_utf8_def)

lemma decode_encode: "rpc_wf fl m \<Longrightarrow> decode fl (encode m) = Inr m"
proof -
  assume wf: "rpc_wf fl m"
  obtain s where s: "json_dumps_utf8 (JObj (rpc_to_dict m)) = CHR ''{'' # s @ ''}''" using dumps_object by blast
  have strip: "py_strip (encode m) = json_dumps_utf8 (JObj (rpc_to_dict m))"
    unfolding encode_def s using py_strip_object [of s] by simp
  then have "\<not> is_blank (encode m)" by (simp add: is_blank_def s)
  then show ?thesis using dumps_utf8_loads [OF rpc_dict_wf [OF wf]] decode_object_dict [OF wf] by (simp add: decode_def strip)
qed

section \<open>The line transport\<close>

text \<open>\<open>readline\<close> cuts the stream after every line feed; a last line without one is delivered at the end of the stream.\<close>

fun read_lines :: "string \<Rightarrow> string \<Rightarrow> string list" where
  "read_lines acc [] = (if acc = [] then [] else [rev acc])"
| "read_lines acc (c # cs) = (if c = LF then rev (c # acc) # read_lines [] cs else read_lines (c # acc) cs)"

definition stream_end :: "'a result" where
  "stream_end = Inl (Exn ''MCPTransportError'' ''MCP subprocess stream ended (EOF on stdout)'')"

text \<open>What \<open>receive\<close> gives for the lines of a stream that then ends: a message or an error per line, then only errors.\<close>

fun received :: "float_conv \<Rightarrow> string list \<Rightarrow> nat \<Rightarrow> rpc result" where
  "received fl [] n = stream_end"
| "received fl (l # ls) 0 = decode fl l"
| "received fl (l # ls) (Suc n) = received fl ls n"

lemma read_lines_encoded: "LF \<notin> set s \<Longrightarrow> read_lines acc (s @ LF # rest) = (rev acc @ s @ [LF]) # read_lines [] rest"
  by (induction s arbitrary: acc) auto

lemma read_lines_messages: "list_all (rpc_wf fl) ms \<Longrightarrow> read_lines [] (concat (map encode ms)) = map encode ms"
proof (induction ms)
  case (Cons m ms)
  then have "LF \<notin> set (json_dumps_utf8 (JObj (rpc_to_dict m)))" using dumps_utf8_line [OF rpc_dict_wf [of fl m]] by simp
  then show ?case using Cons by (simp add: encode_def read_lines_encoded)
qed simp

text \<open>
  Messages written to a stream come out at the other end one by one, unchanged and in order: the \<open>n\<close>-th message
  received is the \<open>n\<close>-th sent, whatever the messages hold, and after the last one the stream reports its end.
\<close>
theorem stream_roundtrip:
  assumes "list_all (rpc_wf fl) ms"
  shows "received fl (read_lines [] (concat (map encode ms))) n = (if n < length ms then Inr (ms ! n) else stream_end)"
proof -
  have "list_all (rpc_wf fl) ms \<Longrightarrow> received fl (map encode ms) n = (if n < length ms then Inr (ms ! n) else stream_end)" for ms n
  proof (induction ms arbitrary: n)
    case (Cons m ms)
    then show ?case by (cases n) (auto simp: decode_encode)
  qed simp
  then show ?thesis using assms by (simp add: read_lines_messages)
qed

definition sample_messages :: "rpc list" where
  "sample_messages = [Request (JInt 1) ''tools/list'' (JObj []), Notification ''notifications/initialized'' JNull,
     Response (JStr ''a'') JNull (Some [(''code'', JInt (- 32601)), (''message'', JStr (''two'' @ [LF] @ ''lines''))])]"

theorem stream_roundtrip_witness:
  "received (\<lambda>s. (0, s)) (read_lines [] (concat (map encode sample_messages))) 2 = Inr (sample_messages ! 2)"
proof -
  have "list_all (rpc_wf (\<lambda>s. (0, s))) sample_messages" by (simp add: sample_messages_def rpc_wf_def dwf_def)
  from stream_roundtrip [OF this, of 2] show ?thesis by (simp add: sample_messages_def)
qed

end
