(* ===== verification/Mcp_Peers.thy ===== *)
theory Mcp_Peers
  imports Mcp_Protocol
begin

text \<open>
  The two ends of the Model Context Protocol: the server that exposes tools behind the permission policy
  (\<open>mcp/server.py\<close>), the client (\<open>mcp/client.py\<close>), the adapter that makes a remote tool a local one
  (\<open>mcp/adapter.py\<close>) and the registry of servers (\<open>mcp/registry.py\<close>). A tool is a function on the world;
  the policy, the redaction, the identifiers and timestamps of audit entries are arguments.
\<close>

section \<open>The server (\<open>mcp/server.py\<close>)\<close>

datatype server_state = AwaitingInitialize | AwaitingInitialized | Ready

record 'w server_config =
  sc_tools :: "(string, tool) dict"
  sc_policy :: "string \<Rightarrow> obj \<Rightarrow> permission_decision"
  sc_execute :: "string \<Rightarrow> obj \<Rightarrow> 'w \<Rightarrow> tool_result result \<times> 'w"
  sc_scrub :: "string \<Rightarrow> string"
  sc_stamp :: "nat \<Rightarrow> string \<times> string"
  sc_name :: string
  sc_version :: string

record 'w server =
  sv_state :: server_state
  sv_client_version :: "string option"
  sv_client_info :: "obj option"
  sv_audit :: "audit_entry list"
  sv_executed :: "(string \<times> obj) list"
  sv_world :: 'w

definition mcp_version :: string where
  "mcp_version = ''2025-03-26''"

fun add_server_tools :: "tool list \<Rightarrow> (string, tool) dict \<Rightarrow> (string, tool) dict result" where
  "add_server_tools [] d = Inr d"
| "add_server_tools (t # ts) d = (if dhas d (tool_name t)
     then value_error (''Duplicate tool name exposed to MCP server: '' @ repr_str (tool_name t))
     else add_server_tools ts (dset d (tool_name t) t))"

definition server_init :: "'w \<Rightarrow> 'w server" where
  "server_init w = \<lparr>sv_state = AwaitingInitialize, sv_client_version = None, sv_client_info = None, sv_audit = [], sv_executed = [], sv_world = w\<rparr>"

definition server_audit :: "'w server_config \<Rightarrow> (string \<Rightarrow> string \<Rightarrow> audit_entry) \<Rightarrow> 'w server \<Rightarrow> 'w server" where
  "server_audit c entry s = s\<lparr>sv_audit := record_in_memory (case sc_stamp c (length (sv_audit s)) of (uid, ts) \<Rightarrow> entry uid ts) (sv_audit s)\<rparr>"

definition params_dict :: "json \<Rightarrow> obj" where
  "params_dict p = (case p of JObj d \<Rightarrow> d | _ \<Rightarrow> [])"

definition on_initialize :: "'w server_config \<Rightarrow> json \<Rightarrow> json \<Rightarrow> 'w server \<Rightarrow> rpc \<times> 'w server" where
  "on_initialize c i params s = (let d = params_dict params in
     case jget d ''protocolVersion'' of
       JStr v \<Rightarrow>
         (Response i (JObj [(''protocolVersion'', JStr mcp_version), (''capabilities'', JObj [(''tools'', JObj [(''listChanged'', JBool False)])]),
             (''serverInfo'', JObj [(''name'', JStr (sc_name c)), (''version'', JStr (sc_version c))])]) None,
          s\<lparr>sv_client_version := Some v, sv_client_info := (case jget d ''clientInfo'' of JObj ci \<Rightarrow> Some ci | _ \<Rightarrow> None),
            sv_state := AwaitingInitialized\<rparr>)
     | _ \<Rightarrow> (make_error i (- 32602) (''initialize params miss '' @ repr_str ''protocolVersion'') JNull, s))"

definition not_ready :: "json \<Rightarrow> rpc" where
  "not_ready i = make_error i (- 32002)
     ''Server not initialized: complete the initialize + notifications/initialized handshake first'' JNull"

definition on_tools_list :: "'w server_config \<Rightarrow> json \<Rightarrow> 'w server \<Rightarrow> rpc \<times> 'w server" where
  "on_tools_list c i s = (if sv_state s \<noteq> Ready then (not_ready i, s)
     else (Response i (JObj [(''tools'', JArr (map (\<lambda>(n, t). JObj [(''name'', JStr (tool_name t)), (''description'', JStr (tool_description t)),
             (''inputSchema'', tool_parameters t)]) (sc_tools c)))]) None, s))"

definition call_reply :: "json \<Rightarrow> string \<Rightarrow> bool \<Rightarrow> rpc" where
  "call_reply i txt err = Response i (JObj [(''content'', JArr [JObj [(''type'', JStr ''text''), (''text'', JStr txt)]]), (''isError'', JBool err)]) None"

definition reply_text :: "tool_result \<Rightarrow> string" where
  "reply_text r = (let v = (if is_error r then (case res_error r of Some e \<Rightarrow> JStr e | None \<Rightarrow> JNull) else res_output r) in
     case v of JNull \<Rightarrow> '''' | JStr s \<Rightarrow> s | _ \<Rightarrow> json_dumps_utf8 v)"

definition redact_result :: "(string \<Rightarrow> string) \<Rightarrow> tool_result \<Rightarrow> tool_result" where
  "redact_result scrub r = (ok_result (redact_value scrub (res_output r)))
     \<lparr>res_error := map_option scrub (res_error r), res_metadata := res_metadata r\<rparr>"

definition served_tool :: "'w server_config \<Rightarrow> string \<Rightarrow> obj \<Rightarrow> 'w server \<Rightarrow> tool_result \<times> 'w server" where
  "served_tool c name args s = (case sc_execute c name args (sv_world s) of
     (r, w) \<Rightarrow> (redact_result (sc_scrub c) (case r of Inl e \<Rightarrow> err_result (exn_text e) | Inr x \<Rightarrow> x),
               s\<lparr>sv_world := w, sv_executed := sv_executed s @ [(name, args)]\<rparr>))"

definition on_tools_call :: "'w server_config \<Rightarrow> json \<Rightarrow> json \<Rightarrow> 'w server \<Rightarrow> rpc \<times> 'w server" where
  "on_tools_call c i params s = (if sv_state s \<noteq> Ready then (not_ready i, s)
     else let d = params_dict params in
       case (jget d ''name'', jget d ''arguments'') of
         (JStr name, JObj args) \<Rightarrow>
           (case dget (sc_tools c) name of
              None \<Rightarrow> (make_error i (- 32602) (''Unknown tool: '' @ repr_str name) JNull, s)
            | Some t \<Rightarrow>
                (let dec = sc_policy c name args;
                     s1 = server_audit c (\<lambda>uid ts. log_tool_call (sc_scrub c) uid ts name args dec) s in
                 if \<not> allowed dec then
                   (let why = ''Permission denied: '' @ reason dec
                    in (call_reply i why True, server_audit c (\<lambda>uid ts. log_permission_denied (sc_scrub c) uid ts name args why) s1))
                 else if requires_confirmation dec then
                   (let why = ''requires manual confirmation, not yet supported in automated mode ('' @ reason dec @ '')''
                    in (call_reply i why True, server_audit c (\<lambda>uid ts. log_permission_denied (sc_scrub c) uid ts name args why) s1))
                 else (let (r, s2) = served_tool c name args s1
                       in (call_reply i (reply_text r) (is_error r), server_audit c (\<lambda>uid ts. log_tool_result (sc_scrub c) uid ts name r) s2))))
       | _ \<Rightarrow> (make_error i (- 32602) (''tools/call params must contain str '' @ repr_str ''name'' @ '' and object '' @ repr_str ''arguments'') JNull, s))"

fun handle_message :: "'w server_config \<Rightarrow> rpc \<Rightarrow> 'w server \<Rightarrow> rpc option \<times> 'w server" where
  "handle_message c (Notification m p) s =
     (None, if m = ''notifications/initialized'' \<and> sv_state s = AwaitingInitialized then s\<lparr>sv_state := Ready\<rparr> else s)"
| "handle_message c (Response i r e) s = (None, s)"
| "handle_message c (Request i m p) s =
     (let (r, s') = (if m = ''initialize'' then on_initialize c i p s
          else if m = ''ping'' then (Response i (JObj []) None, s)
          else if m = ''tools/list'' then on_tools_list c i s
          else if m = ''tools/call'' then on_tools_call c i p s
          else (make_error i (- 32601) (''Method not found: '' @ repr_str m) JNull, s))
      in (Some r, s'))"

text \<open>The serving loop over the lines of a stream: a malformed line is answered, the end of the stream ends it.\<close>

fun serve :: "'w server_config \<Rightarrow> float_conv \<Rightarrow> string list \<Rightarrow> 'w server \<Rightarrow> string list \<times> 'w server" where
  "serve c fl [] s = ([], s)"
| "serve c fl (l # ls) s = (case decode fl l of
     Inl e \<Rightarrow> (let (out, s') = serve c fl ls s in (encode (make_error JNull (- 32700) (exn_msg e) JNull) # out, s'))
   | Inr m \<Rightarrow> (case handle_message c m s of
        (None, s1) \<Rightarrow> serve c fl ls s1
      | (Some r, s1) \<Rightarrow> (let (out, s') = serve c fl ls s1 in (encode r # out, s'))))"

section \<open>The client (\<open>mcp/client.py\<close>)\<close>

text \<open>A transport is its send and receive operations; the number of messages that arrive before the deadline bounds the wait.\<close>

record 't transport =
  tr_send :: "rpc \<Rightarrow> 't \<Rightarrow> unit result \<times> 't"
  tr_receive :: "'t \<Rightarrow> rpc result \<times> 't"

record client =
  cl_next :: int
  cl_initialized :: bool
  cl_version :: "string option"
  cl_server_info :: "obj option"

definition client_init :: client where
  "client_init = \<lparr>cl_next = 1, cl_initialized = False, cl_version = None, cl_server_info = None\<rparr>"

definition client_error :: "string \<Rightarrow> 'a result" where
  "client_error m = Inl (Exn ''MCPClientError'' m)"

fun await_response :: "'t transport \<Rightarrow> string \<Rightarrow> int \<Rightarrow> nat \<Rightarrow> 't \<Rightarrow> json result \<times> 't" where
  "await_response T m rid 0 t = (Inl (Exn ''MCPTimeoutError'' (''MCP server did not answer '' @ repr_str m @ '' (id='' @ str_of_int rid @ '')'')), t)"
| "await_response T m rid (Suc n) t = (case tr_receive T t of
     (Inl e, t') \<Rightarrow> (Inl e, t')
   | (Inr (Notification _ _), t') \<Rightarrow> await_response T m rid n t'
   | (Inr (Request _ _ _), t') \<Rightarrow> await_response T m rid n t'
   | (Inr (Response i r e), t') \<Rightarrow>
       (if \<not> py_eq i (JInt rid) then client_error (''Response id mismatch for '' @ repr_str m @ '': got id='' @ py_repr i
            @ '', expected id='' @ str_of_int rid)
        else case e of
            Some err \<Rightarrow> Inl (Exn ''MCPServerError'' (''MCP server error '' @ py_str (jget err ''code'') @ '': '' @ py_str (jget err ''message'')))
          | None \<Rightarrow> Inr r, t'))"

definition client_request :: "'t transport \<Rightarrow> string \<Rightarrow> obj \<Rightarrow> nat \<Rightarrow> client \<times> 't \<Rightarrow> json result \<times> client \<times> 't" where
  "client_request T m params n st = (let (c, t) = st; rid = cl_next c; c' = c\<lparr>cl_next := rid + 1\<rparr> in
     case tr_send T (Request (JInt rid) m (JObj params)) t of
       (Inl e, t') \<Rightarrow> (Inl e, c', t')
     | (Inr _, t') \<Rightarrow> (case await_response T m rid n t' of (r, t'') \<Rightarrow> (r, c', t'')))"

definition client_initialize :: "'t transport \<Rightarrow> obj \<Rightarrow> nat \<Rightarrow> client \<times> 't \<Rightarrow> json result \<times> client \<times> 't" where
  "client_initialize T info n st = (if cl_initialized (fst st) then (Inr (JObj (the (cl_server_info (fst st)))), st)
     else case client_request T ''initialize'' [(''protocolVersion'', JStr mcp_version), (''capabilities'', JObj []), (''clientInfo'', JObj info)] n st of
         (Inl e, st') \<Rightarrow> (Inl e, st')
       | (Inr v, c, t) \<Rightarrow>
           (case v of
              JObj d \<Rightarrow>
                (case jget d ''protocolVersion'' of
                   JStr pv \<Rightarrow>
                     (let c' = c\<lparr>cl_version := Some pv, cl_server_info := Some d\<rparr> in
                      case tr_send T (Notification ''notifications/initialized'' JNull) t of
                        (Inl e, t') \<Rightarrow> (Inl e, c', t')
                      | (Inr _, t') \<Rightarrow> (Inr v, c'\<lparr>cl_initialized := True\<rparr>, t'))
                 | _ \<Rightarrow> (Inl (Exn ''MCPHandshakeError'' (''Server response misses a string protocolVersion: '' @ py_repr v)), c, t))
            | _ \<Rightarrow> (Inl (Exn ''MCPHandshakeError'' (''Server response misses a string protocolVersion: '' @ py_repr v)), c, t)))"

definition require_initialized :: "string \<Rightarrow> client \<times> 't \<Rightarrow> (client \<times> 't \<Rightarrow> 'a result \<times> client \<times> 't) \<Rightarrow> 'a result \<times> client \<times> 't" where
  "require_initialized op st k = (if cl_initialized (fst st) then k st
     else (client_error (''Cannot call '' @ op @ ''() before initialize() completed''), st))"

definition list_tools :: "'t transport \<Rightarrow> nat \<Rightarrow> client \<times> 't \<Rightarrow> json list result \<times> client \<times> 't" where
  "list_tools T n st = require_initialized ''list_tools'' st (\<lambda>st.
     case client_request T ''tools/list'' [] n st of
       (Inl e, st') \<Rightarrow> (Inl e, st')
     | (Inr v, st') \<Rightarrow>
         (case v of
            JObj d \<Rightarrow> (case jget d ''tools'' of JArr ts \<Rightarrow> Inr ts
              | _ \<Rightarrow> client_error (''Malformed tools/list response: expected a '' @ repr_str ''tools'' @ '' list, got '' @ py_repr v))
          | _ \<Rightarrow> client_error (''Malformed tools/list response: expected a '' @ repr_str ''tools'' @ '' list, got '' @ py_repr v), st'))"

definition call_tool :: "'t transport \<Rightarrow> string \<Rightarrow> obj \<Rightarrow> nat \<Rightarrow> client \<times> 't \<Rightarrow> json result \<times> client \<times> 't" where
  "call_tool T name args n st = require_initialized ''call_tool'' st
     (client_request T ''tools/call'' [(''name'', JStr name), (''arguments'', JObj args)] n)"

section \<open>The adapter (\<open>mcp/adapter.py\<close>)\<close>

definition adapter_name :: "string \<Rightarrow> string \<Rightarrow> string" where
  "adapter_name server_name remote = server_name @ ''.'' @ remote"

definition adapter_of :: "string \<Rightarrow> obj \<Rightarrow> tool result" where
  "adapter_of server_name schema = (case jget schema ''name'' of
     JStr (x # xs) \<Rightarrow>
       if server_name = '''' then value_error ''server_name must be non-empty''
       else Inr \<lparr>tool_name = adapter_name server_name (x # xs),
          tool_description = (case jget schema ''description'' of JStr (y # ys) \<Rightarrow> y # ys
             | _ \<Rightarrow> ''MCP tool '' @ repr_str (x # xs) @ '' from server '' @ repr_str server_name),
          tool_parameters = (if truthy (jget schema ''inputSchema'') then jget schema ''inputSchema''
             else JObj [(''type'', JStr ''object''), (''properties'', JObj [])]),
          tool_risk_level = None, tool_execution_policy = None, tool_takes_idempotency_key = False\<rparr>
   | _ \<Rightarrow> value_error (''MCP tool schema misses a string '' @ repr_str ''name'' @ '': '' @ py_repr (JObj schema)))"

definition extract_output :: "json \<Rightarrow> json" where
  "extract_output content = (case content of
     JArr [] \<Rightarrow> JStr ''''
   | JArr [JObj b] \<Rightarrow> if py_eq (jget b ''type'') (JStr ''text'') then (case dget b ''text'' of Some t \<Rightarrow> t | None \<Rightarrow> JStr '''') else content
   | JArr _ \<Rightarrow> content
   | _ \<Rightarrow> JStr '''')"

definition as_text :: "json \<Rightarrow> string" where
  "as_text v = (case v of JStr s \<Rightarrow> s | _ \<Rightarrow> json_dumps_utf8 v)"

definition adapter_execute :: "'t transport \<Rightarrow> (string \<Rightarrow> string) \<Rightarrow> string \<Rightarrow> string \<Rightarrow> nat \<Rightarrow> obj \<Rightarrow> client \<times> 't \<Rightarrow> tool_result result \<times> client \<times> 't" where
  "adapter_execute T scrub server_name remote n args st =
     (let meta = [(''mcp_server'', JStr server_name), (''mcp_tool'', JStr remote)]; full = adapter_name server_name remote;
          fail = (\<lambda>m. Inr ((err_result m)\<lparr>res_metadata := meta\<rparr>)) in
      case call_tool T remote args n st of
        (Inl e, st') \<Rightarrow>
          (if exn_class e \<in> {''MCPClientError'', ''MCPHandshakeError'', ''MCPServerError'', ''MCPTransportError'', ''MCPTimeoutError''}
           then fail (''MCP tool '' @ repr_str full @ '' call failed: '' @ exn_msg e) else Inl e, st')
      | (Inr (JObj d), st') \<Rightarrow>
          (let out = redact_value scrub (extract_output (jget d ''content'')) in
           if truthy (jget d ''isError'')
           then (fail (if as_text out = '''' then ''MCP server reported a tool error'' else as_text out), st')
           else (Inr ((ok_result out)\<lparr>res_metadata := meta\<rparr>), st'))
      | (Inr v, st') \<Rightarrow> (fail (''MCP tool '' @ repr_str full @ '' returned a malformed result: '' @ py_repr v), st'))"

section \<open>The registry (\<open>mcp/registry.py\<close>)\<close>

datatype config_value = Plain string | Secret string

record mcp_config =
  mc_command :: "string option"
  mc_args :: "string list"
  mc_env :: "(string, config_value) dict option"
  mc_url :: "string option"
  mc_headers :: "(string, config_value) dict option"

definition config_ok :: "mcp_config \<Rightarrow> mcp_config result" where
  "config_ok k = (if (mc_command k = None) = (mc_url k = None)
     then value_error (''MCPServerConfig needs exactly one transport flavour: '' @ repr_str ''command'' @ '' (stdio) XOR '' @ repr_str ''url'' @ '' (SSE)'')
     else Inr k)"

definition stdio_config :: "string \<Rightarrow> string list \<Rightarrow> (string, config_value) dict option \<Rightarrow> mcp_config result" where
  "stdio_config command args env = config_ok \<lparr>mc_command = Some command, mc_args = args, mc_env = env, mc_url = None, mc_headers = None\<rparr>"

definition sse_config :: "string \<Rightarrow> (string, config_value) dict option \<Rightarrow> mcp_config result" where
  "sse_config url headers = config_ok \<lparr>mc_command = None, mc_args = [], mc_env = None, mc_url = Some url, mc_headers = headers\<rparr>"

definition transport_kind :: "mcp_config \<Rightarrow> string" where
  "transport_kind k = (if mc_command k \<noteq> None then ''stdio'' else ''sse'')"

definition reveal_map :: "(string, config_value) dict option \<Rightarrow> (string, string) dict option" where
  "reveal_map m = map_option (map (\<lambda>(k, v). (k, case v of Plain s \<Rightarrow> s | Secret s \<Rightarrow> s))) m"

text \<open>What a transport is built from, with the secrets revealed, and the operations on a client built on one.\<close>

datatype transport_spec =
  Stdio string "string list" "(string, string) dict option"
| Sse string "(string, string) dict option"

definition build_transport :: "mcp_config \<Rightarrow> transport_spec" where
  "build_transport k = (case mc_command k of
     Some command \<Rightarrow> Stdio command (mc_args k) (reveal_map (mc_env k))
   | None \<Rightarrow> Sse (the (mc_url k)) (reveal_map (mc_headers k)))"

record ('c, 'w) client_ops =
  co_build :: "transport_spec \<Rightarrow> 'w \<Rightarrow> 'c result \<times> 'w"
  co_initialize :: "'c \<Rightarrow> 'w \<Rightarrow> unit result \<times> 'w"
  co_list :: "'c \<Rightarrow> 'w \<Rightarrow> json list result \<times> 'w"
  co_close :: "'c \<Rightarrow> 'w \<Rightarrow> 'w"

record 'c mcp_registry =
  mr_configs :: "(string, mcp_config) dict"
  mr_clients :: "(string, 'c) dict"

definition registry_empty :: "'c mcp_registry" where
  "registry_empty = \<lparr>mr_configs = [], mr_clients = []\<rparr>"

definition mcp_register :: "string \<Rightarrow> mcp_config \<Rightarrow> 'c mcp_registry \<Rightarrow> 'c mcp_registry result" where
  "mcp_register name k r =
     (if name = '''' then value_error ''Server name must be non-empty''
      else if dhas (mr_configs r) name
      then value_error (''MCP server '' @ repr_str name @ '' is already registered - close() and re-register to replace it'')
      else Inr (r\<lparr>mr_configs := dset (mr_configs r) name k\<rparr>))"

definition registered_names :: "'c mcp_registry \<Rightarrow> string list" where
  "registered_names r = sort (map fst (mr_configs r))"

definition is_connected :: "string \<Rightarrow> 'c mcp_registry \<Rightarrow> bool" where
  "is_connected name r = dhas (mr_clients r) name"

definition mcp_connect :: "('c, 'w) client_ops \<Rightarrow> string \<Rightarrow> 'c mcp_registry \<times> 'w \<Rightarrow> 'c result \<times> 'c mcp_registry \<times> 'w" where
  "mcp_connect ops name st = (let (r, w) = st in
     case dget (mr_clients r) name of
       Some c \<Rightarrow> (Inr c, r, w)
     | None \<Rightarrow>
         (case dget (mr_configs r) name of
            None \<Rightarrow> (Inl (Exn ''KeyError'' (''No MCP server named '' @ repr_str name @ '' registered (known: ''
                @ (if registered_names r = [] then ''none'' else py_repr (JArr (map JStr (registered_names r)))) @ '')'')), r, w)
          | Some k \<Rightarrow>
              (case co_build ops (build_transport k) w of
                 (Inl e, w1) \<Rightarrow> (Inl e, r, w1)
               | (Inr c, w1) \<Rightarrow>
                   (case co_initialize ops c w1 of
                      (Inl e, w2) \<Rightarrow> (Inl e, r, co_close ops c w2)
                    | (Inr _, w2) \<Rightarrow> (Inr c, r\<lparr>mr_clients := dset (mr_clients r) name c\<rparr>, w2)))))"

definition mcp_close :: "('c, 'w) client_ops \<Rightarrow> string \<Rightarrow> 'c mcp_registry \<times> 'w \<Rightarrow> 'c mcp_registry \<times> 'w" where
  "mcp_close ops name st = (let (r, w) = st in case dget (mr_clients r) name of
     None \<Rightarrow> (r, w)
   | Some c \<Rightarrow> (r\<lparr>mr_clients := dpop (mr_clients r) name\<rparr>, co_close ops c w))"

definition mcp_close_all :: "('c, 'w) client_ops \<Rightarrow> 'c mcp_registry \<times> 'w \<Rightarrow> 'c mcp_registry \<times> 'w" where
  "mcp_close_all ops st = foldl (\<lambda>s name. mcp_close ops name s) st (map fst (mr_clients (fst st)))"

definition mcp_reconnect :: "('c, 'w) client_ops \<Rightarrow> string \<Rightarrow> 'c mcp_registry \<times> 'w \<Rightarrow> 'c result \<times> 'c mcp_registry \<times> 'w" where
  "mcp_reconnect ops name st = mcp_connect ops name (mcp_close ops name st)"

fun adapters_of :: "string \<Rightarrow> json list \<Rightarrow> tool list result" where
  "adapters_of name [] = Inr []"
| "adapters_of name (JObj d # ds) = bind_res (adapter_of name d) (\<lambda>t. bind_res (adapters_of name ds) (\<lambda>ts. Inr (t # ts)))"
| "adapters_of name (_ # ds) = Inl (Exn ''AttributeError'' ''object has no attribute get'')"

definition get_tools :: "('c, 'w) client_ops \<Rightarrow> string \<Rightarrow> 'c mcp_registry \<times> 'w \<Rightarrow> tool list result \<times> 'c mcp_registry \<times> 'w" where
  "get_tools ops name st = (case mcp_connect ops name st of
     (Inl e, st') \<Rightarrow> (Inl e, st')
   | (Inr c, r, w) \<Rightarrow> (case co_list ops c w of
        (Inl e, w') \<Rightarrow> (Inl e, r, w')
      | (Inr schemas, w') \<Rightarrow> (adapters_of name schemas, r, w')))"

text \<open>A connection that fails is closed and not kept; closing all leaves none open.\<close>

lemma connect_failed: "mcp_connect ops name (r, w) = (Inl e, r', w') \<Longrightarrow> r' = r"
  by (auto simp: mcp_connect_def Let_def split: option.splits sum.splits prod.splits)

lemma connect_cached: "mcp_connect ops name (r, w) = (Inr c, r', w') \<Longrightarrow> mcp_connect ops name (r', w'') = (Inr c, r', w'')"
  by (auto simp: mcp_connect_def Let_def split: option.splits sum.splits prod.splits)

lemma close_clients: "mr_clients (fst (mcp_close ops name st)) = dpop (mr_clients (fst st)) name"
proof (cases "dget (mr_clients (fst st)) name")
  case None
  then have "dpop (mr_clients (fst st)) name = mr_clients (fst st)"
    by (force simp: dget_def dpop_def map_of_eq_None_iff filter_id_conv)
  then show ?thesis using None by (simp add: mcp_close_def case_prod_unfold Let_def)
qed (simp add: mcp_close_def case_prod_unfold Let_def)

lemma close_all_empty: "mr_clients (fst (mcp_close_all ops st)) = []"
proof -
  have "mr_clients (fst (foldl (\<lambda>s name. mcp_close ops name s) st names)) = filter (\<lambda>(k, c). k \<notin> set names) (mr_clients (fst st))" for names
    by (induction names arbitrary: st) (auto simp: close_clients dpop_def filter_filter conj_commute case_prod_unfold intro!: filter_cong)
  then show ?thesis by (force simp: mcp_close_all_def filter_empty_conv)
qed

section \<open>The server's gate\<close>

definition served_ok :: "'w server_config \<Rightarrow> string \<times> obj \<Rightarrow> bool" where
  "served_ok c na = (case na of (name, args) \<Rightarrow> dhas (sc_tools c) name \<and> allowed (sc_policy c name args) \<and> \<not> requires_confirmation (sc_policy c name args))"

lemma audit_keeps [simp]: "sv_executed (server_audit c f s) = sv_executed s" "sv_state (server_audit c f s) = sv_state s" "sv_world (server_audit c f s) = sv_world s"
  by (simp_all add: server_audit_def)

definition effects :: "'w server_config \<Rightarrow> (string \<times> obj) list \<Rightarrow> 'w \<Rightarrow> 'w" where
  "effects c calls w = foldl (\<lambda>w (name, args). snd (sc_execute c name args w)) w calls"

definition served_gate :: "'w server_config \<Rightarrow> 'w server \<Rightarrow> 'w server \<Rightarrow> bool" where
  "served_gate c s s' \<longleftrightarrow> (\<exists>calls. sv_executed s' = sv_executed s @ calls \<and> list_all (served_ok c) calls \<and> sv_world s' = effects c calls (sv_world s)
     \<and> (calls \<noteq> [] \<longrightarrow> sv_state s = Ready))"

lemma gated_same: "sv_executed s' = sv_executed s \<Longrightarrow> sv_world s' = sv_world s \<Longrightarrow> served_gate c s s'"
  by (auto simp: served_gate_def effects_def)

lemma gated_call: "served_gate c s (snd (on_tools_call c i p s))"
proof (cases "sv_state s = Ready \<and> (\<exists>name args t. jget (params_dict p) ''name'' = JStr name \<and> jget (params_dict p) ''arguments'' = JObj args
    \<and> dget (sc_tools c) name = Some t \<and> allowed (sc_policy c name args) \<and> \<not> requires_confirmation (sc_policy c name args))")
  case True
  then obtain name args t where call: "sv_state s = Ready" "jget (params_dict p) ''name'' = JStr name" "jget (params_dict p) ''arguments'' = JObj args"
    "dget (sc_tools c) name = Some t" "allowed (sc_policy c name args)" "\<not> requires_confirmation (sc_policy c name args)" by blast
  have "sv_executed (snd (on_tools_call c i p s)) = sv_executed s @ [(name, args)]"
    "sv_world (snd (on_tools_call c i p s)) = snd (sc_execute c name args (sv_world s))"
    using call by (auto simp: on_tools_call_def served_tool_def Let_def case_prod_unfold)
  then show ?thesis using call unfolding served_gate_def by (intro exI [of _ "[(name, args)]"]) (auto simp: effects_def served_ok_def dhas_dget)
next
  case False
  then show ?thesis by (intro gated_same) (auto simp: on_tools_call_def Let_def split: json.split option.split)
qed

lemma gated_handle: "served_gate c s (snd (handle_message c m s))"
proof (cases m)
  case (Request i me p)
  have "served_gate c s (snd (on_initialize c i p s))" by (rule gated_same) (auto simp: on_initialize_def Let_def split: json.split)
  moreover have "served_gate c s (snd (on_tools_list c i s))" by (rule gated_same) (auto simp: on_tools_list_def)
  ultimately show ?thesis using Request gated_call [of c s i p] by (auto simp: case_prod_unfold Let_def intro: gated_same)
qed (auto intro: gated_same)

text \<open>
  C13: Whatever lines a peer sends, in whatever order, the calls the server executes are calls of exposed tools that the policy
  allows without confirmation, and the world changes by those executions and by nothing else.
\<close>
theorem server_executes_only_authorised:
  "list_all (served_ok c) (sv_executed (snd (serve c fl lines (server_init w))))
    \<and> sv_world (snd (serve c fl lines (server_init w))) = effects c (sv_executed (snd (serve c fl lines (server_init w)))) w"
proof -
  let ?ok = "\<lambda>s. list_all (served_ok c) (sv_executed s) \<and> sv_world s = effects c (sv_executed s) w"
  have step: "?ok s \<Longrightarrow> served_gate c s s' \<Longrightarrow> ?ok s'" for s s' by (auto simp: served_gate_def effects_def)
  have "?ok s \<Longrightarrow> ?ok (snd (serve c fl lines s))" for s
  proof (induction lines arbitrary: s)
    case (Cons l ls)
    show ?case
    proof (cases "decode fl l")
      case (Inl e)
      then show ?thesis using Cons by (simp add: case_prod_unfold Let_def)
    next
      case (Inr m)
      have "?ok (snd (handle_message c m s))" using step [OF Cons.prems gated_handle] .
      from Cons.IH [OF this] show ?thesis using Inr by (cases "handle_message c m s"; cases "fst (handle_message c m s)") (simp_all add: case_prod_unfold Let_def)
    qed
  qed simp
  then show ?thesis by (simp add: server_init_def effects_def)
qed

text \<open>Before the handshake is complete no tool runs and no tool is listed.\<close>

lemma not_ready_refused:
  "sv_state s \<noteq> Ready \<Longrightarrow> m = ''tools/call'' \<or> m = ''tools/list'' \<Longrightarrow> handle_message c (Request i m p) s = (Some (not_ready i), s)"
  by (auto simp: on_tools_call_def on_tools_list_def)

section \<open>Client and server together\<close>

text \<open>The transport between a client and a server in lock step: what is sent is served, the answers wait to be received.\<close>

definition loopback :: "'w server_config \<Rightarrow> float_conv \<Rightarrow> ('w server \<times> string list) transport" where
  "loopback c fl = \<lparr>
     tr_send = (\<lambda>m (s, q). case serve c fl (read_lines [] (encode m)) s of (out, s') \<Rightarrow> (Inr (), s', q @ out)),
     tr_receive = (\<lambda>(s, q). case q of [] \<Rightarrow> (Inl (Exn ''MCPTimeoutError'' ''No message from subprocess''), s, []) | l # q' \<Rightarrow> (decode fl l, s, q'))\<rparr>"

lemma loopback_send:
  assumes "rpc_wf fl m"
  shows "tr_send (loopback c fl) m (s, q) =
    (Inr (), snd (handle_message c m s), q @ (case fst (handle_message c m s) of None \<Rightarrow> [] | Some r \<Rightarrow> [encode r]))"
proof -
  have "read_lines [] (encode m) = [encode m]" using read_lines_messages [of fl "[m]"] assms by simp
  then show ?thesis by (cases "handle_message c m s") (auto simp: loopback_def decode_encode [OF assms] split: option.split)
qed

lemma loopback_request:
  assumes "rpc_wf fl (Request (JInt (cl_next k)) m (JObj params))" and "rpc_wf fl (Response (JInt (cl_next k)) r None)"
    and "handle_message c (Request (JInt (cl_next k)) m (JObj params)) s = (Some (Response (JInt (cl_next k)) r None), s')"
  shows "client_request (loopback c fl) m params (Suc n) (k, s, []) = (Inr r, k\<lparr>cl_next := cl_next k + 1\<rparr>, s', [])"
proof -
  have "tr_receive (loopback c fl) (s', [encode (Response (JInt (cl_next k)) r None)]) = (Inr (Response (JInt (cl_next k)) r None), s', [])"
    by (simp add: loopback_def decode_encode [OF assms(2)])
  then show ?thesis using loopback_send [OF assms(1), of c s "[]"] assms(3) by (simp add: client_request_def Let_def)
qed

definition handshaken :: "'w server_config \<Rightarrow> obj \<Rightarrow> 'w \<Rightarrow> client \<times> 'w server \<times> string list" where
  "handshaken c info w = (let v = [(''protocolVersion'', JStr mcp_version), (''capabilities'', JObj [(''tools'', JObj [(''listChanged'', JBool False)])]),
             (''serverInfo'', JObj [(''name'', JStr (sc_name c)), (''version'', JStr (sc_version c))])] in
     (\<lparr>cl_next = 2, cl_initialized = True, cl_version = Some mcp_version, cl_server_info = Some v\<rparr>,
      (server_init w)\<lparr>sv_state := Ready, sv_client_version := Some mcp_version, sv_client_info := Some info\<rparr>, []))"

lemma handshake_done:
  assumes "json_wf fl (JObj info)"
  shows "\<exists>v. client_initialize (loopback c fl) info (Suc n) (client_init, server_init w, []) = (Inr v, handshaken c info w)"
proof -
  let ?v = "JObj [(''protocolVersion'', JStr mcp_version), (''capabilities'', JObj [(''tools'', JObj [(''listChanged'', JBool False)])]),
             (''serverInfo'', JObj [(''name'', JStr (sc_name c)), (''version'', JStr (sc_version c))])]"
  let ?p = "[(''protocolVersion'', JStr mcp_version), (''capabilities'', JObj []), (''clientInfo'', JObj info)]"
  let ?s = "(server_init w)\<lparr>sv_client_version := Some mcp_version, sv_client_info := Some info, sv_state := AwaitingInitialized\<rparr>"
  have "client_request (loopback c fl) ''initialize'' ?p (Suc n) (client_init, server_init w, []) = (Inr ?v, client_init\<lparr>cl_next := 2\<rparr>, ?s, [])"
    using loopback_request [of fl client_init "''initialize''" ?p ?v c "server_init w" ?s n] assms
    by (simp add: client_init_def rpc_wf_def dwf_def on_initialize_def params_dict_def)
  moreover have "tr_send (loopback c fl) (Notification ''notifications/initialized'' JNull) (?s, []) = (Inr (), ?s\<lparr>sv_state := Ready\<rparr>, [])"
    using loopback_send [of fl "Notification ''notifications/initialized'' JNull" c ?s "[]"] by (simp add: rpc_wf_def)
  ultimately show ?thesis by (simp add: client_initialize_def handshaken_def client_init_def server_init_def Let_def)
qed


lemma remote_call:
  assumes "json_wf fl (JObj args)" and "dget (sc_tools c) name = Some t"
    and "on_tools_call c (JInt 2) (JObj [(''name'', JStr name), (''arguments'', JObj args)]) s = (call_reply (JInt 2) txt err, s')"
    and "cl_next k = 2" "cl_initialized k"
  shows "call_tool (loopback c fl) name args (Suc n) (k, s, []) =
    (Inr (JObj [(''content'', JArr [JObj [(''type'', JStr ''text''), (''text'', JStr txt)]]), (''isError'', JBool err)]), k\<lparr>cl_next := 3\<rparr>, s', [])"
proof -
  let ?p = "[(''name'', JStr name), (''arguments'', JObj args)]"
  let ?r = "JObj [(''content'', JArr [JObj [(''type'', JStr ''text''), (''text'', JStr txt)]]), (''isError'', JBool err)]"
  have "handle_message c (Request (JInt 2) ''tools/call'' (JObj ?p)) s = (Some (Response (JInt 2) ?r None), s')"
    using assms(3) by (simp add: call_reply_def)
  then show ?thesis using loopback_request [of fl k "''tools/call''" ?p ?r c s s' n] assms
    by (simp add: call_tool_def require_initialized_def rpc_wf_def dwf_def)
qed

definition local_answer :: "(string \<Rightarrow> string) \<Rightarrow> string \<Rightarrow> bool \<Rightarrow> string \<Rightarrow> string \<Rightarrow> tool_result" where
  "local_answer scrub tx err server_name remote = (if err
     then err_result (if scrub tx = '''' then ''MCP server reported a tool error'' else scrub tx) else ok_result (JStr (scrub tx)))
     \<lparr>res_metadata := [(''mcp_server'', JStr server_name), (''mcp_tool'', JStr remote)]\<rparr>"

text \<open>
  C24: A remote tool behind the adapter is the tool itself behind the server's policy: after the handshake, a call that the policy allows
  without confirmation is executed once, with the arguments of the caller, and answered with the text of its redacted
  result; any other call is answered with an error and leaves the world as it was.
\<close>
theorem remote_tool_end_to_end:
  assumes "json_wf fl (JObj info)" and "json_wf fl (JObj args)" and "dget (sc_tools c) name = Some t"
  shows "\<exists>v k s st. client_initialize (loopback c fl) info (Suc n) (client_init, server_init w, []) = (Inr v, k, s, [])
    \<and> adapter_execute (loopback c fl) scrub srv name (Suc n) args (k, s, []) = st
    \<and> (if served_ok c (name, args)
       then let r = redact_result (sc_scrub c) (case fst (sc_execute c name args w) of Inl e \<Rightarrow> err_result (exn_text e) | Inr x \<Rightarrow> x) in
         fst st = Inr (local_answer scrub (reply_text r) (is_error r) srv name)
         \<and> sv_executed (fst (snd (snd st))) = [(name, args)] \<and> sv_world (fst (snd (snd st))) = snd (sc_execute c name args w)
       else (\<exists>r. fst st = Inr r \<and> res_error r \<noteq> None) \<and> sv_executed (fst (snd (snd st))) = [] \<and> sv_world (fst (snd (snd st))) = w)"
proof -
  obtain k s where ks: "handshaken c info w = (k, s, [])" by (auto simp: handshaken_def Let_def)
  then have k: "cl_next k = 2" "cl_initialized k" and s: "sv_state s = Ready" "sv_world s = w" "sv_executed s = []"
    by (auto simp: handshaken_def Let_def server_init_def)
  obtain v where init: "client_initialize (loopback c fl) info (Suc n) (client_init, server_init w, []) = (Inr v, k, s, [])"
    using handshake_done [OF assms(1), of c n w] ks by auto
  let ?p = "JObj [(''name'', JStr name), (''arguments'', JObj args)]"
  have "\<exists>tx err s'. on_tools_call c (JInt 2) ?p s = (call_reply (JInt 2) tx err, s')"
    using assms(3) s by (simp add: on_tools_call_def params_dict_def Let_def case_prod_unfold) blast
  then obtain tx err s' where call: "on_tools_call c (JInt 2) ?p s = (call_reply (JInt 2) tx err, s')"
    by blast
  have ad: "adapter_execute (loopback c fl) scrub srv name (Suc n) args (k, s, []) = (Inr (local_answer scrub tx err srv name), k\<lparr>cl_next := 3\<rparr>, s', [])"
    using remote_call [OF assms(2,3) call k] by (simp add: adapter_execute_def local_answer_def extract_output_def as_text_def Let_def)
  have yes: "served_ok c (name, args) \<Longrightarrow> (let r = redact_result (sc_scrub c) (case fst (sc_execute c name args w) of Inl e \<Rightarrow> err_result (exn_text e) | Inr x \<Rightarrow> x) in
      tx = reply_text r \<and> err = is_error r) \<and> sv_executed s' = [(name, args)] \<and> sv_world s' = snd (sc_execute c name args w)"
    using call assms(3) s
    by (auto simp: on_tools_call_def params_dict_def served_ok_def call_reply_def served_tool_def Let_def case_prod_unfold)
  have no: "\<not> served_ok c (name, args) \<Longrightarrow> err \<and> sv_executed s' = [] \<and> sv_world s' = w"
    using call assms(3) s by (auto simp: on_tools_call_def params_dict_def served_ok_def dhas_dget call_reply_def Let_def split: if_splits)
  show ?thesis using init ad yes no by (cases "served_ok c (name, args)") (auto simp: Let_def local_answer_def err_result_def)
qed

definition sample_server :: "nat server_config" where
  "sample_server = \<lparr>sc_tools = [(''add'', \<lparr>tool_name = ''add'', tool_description = '''', tool_parameters = JObj [], tool_risk_level = None,
       tool_execution_policy = None, tool_takes_idempotency_key = False\<rparr>)],
     sc_policy = (\<lambda>n a. \<lparr>allowed = True, reason = '''', requires_confirmation = False\<rparr>),
     sc_execute = (\<lambda>n a w. (Inr (ok_result (JStr ''done'')), w + 1)), sc_scrub = (\<lambda>s. s), sc_stamp = (\<lambda>n. (''i'', ''t'')),
     sc_name = ''kinetic-agent-sdk'', sc_version = ''0.1.0''\<rparr>"

theorem remote_tool_end_to_end_witness:
  "\<exists>v k s st. client_initialize (loopback sample_server (\<lambda>s. (0, s))) [] 1 (client_init, server_init 5, []) = (Inr v, k, s, [])
    \<and> adapter_execute (loopback sample_server (\<lambda>s. (0, s))) (\<lambda>s. s) ''peer'' ''add'' 1 [(''x'', JInt 1)] (k, s, []) = st
    \<and> fst st = Inr (local_answer (\<lambda>s. s) ''done'' False ''peer'' ''add'') \<and> sv_executed (fst (snd (snd st))) = [(''add'', [(''x'', JInt 1)])]
    \<and> sv_world (fst (snd (snd st))) = 6"
proof -
  let ?fl = "\<lambda>s :: string. (0 :: rat, s)"
  have wf: "json_wf ?fl (JObj [])" "json_wf ?fl (JObj [(''x'', JInt 1)])" by (simp_all add: dwf_def)
  have t: "\<exists>t. dget (sc_tools sample_server) ''add'' = Some t" by (simp add: sample_server_def)
  have a: "served_ok sample_server (''add'', [(''x'', JInt 1)])" by (simp add: served_ok_def sample_server_def dhas_def)
  have r: "reply_text (redact_result (\<lambda>s. s) (ok_result (JStr ''done''))) = ''done''" "\<not> is_error (redact_result (\<lambda>s. s) (ok_result (JStr ''done'')))"
    by (simp_all add: reply_text_def redact_result_def ok_result_def is_error_def Let_def)
  obtain t where "dget (sc_tools sample_server) ''add'' = Some t" using t by blast
  from remote_tool_end_to_end [OF wf this, of 0 5 "\<lambda>s. s" "''peer''"] show ?thesis
    using a r by (simp add: Let_def sample_server_def [THEN arg_cong [where f = sc_execute]] sample_server_def [THEN arg_cong [where f = sc_scrub]])
qed

section \<open>Limits\<close>

text \<open>The prefix keeps the tools of two servers apart when the names of the servers have no dot, and not otherwise.\<close>

lemma adapter_name_inj:
  "CHR ''.'' \<notin> set a \<Longrightarrow> CHR ''.'' \<notin> set b \<Longrightarrow> adapter_name a x = adapter_name b y \<Longrightarrow> a = b \<and> x = y"
proof (induction a arbitrary: b)
  case Nil
  then show ?case by (cases b) (auto simp: adapter_name_def)
next
  case (Cons c a)
  then show ?case by (cases b) (auto simp: adapter_name_def)
qed

lemma adapter_name_collision: "adapter_name ''a.b'' ''c'' = adapter_name ''a'' ''b.c''"
  by (simp add: adapter_name_def)

text \<open>The answer to a request that timed out is taken for the answer to the next one, which fails on its identifier.\<close>

lemma late_response_breaks_next:
  assumes "rpc_wf fl (Response (JInt 2) r None)" "rpc_wf fl (Request (JInt 3) m (JObj params))" "cl_next k = 3"
  shows "\<exists>msg st. client_request (loopback c fl) m params (Suc n) (k, s, [encode (Response (JInt 2) r None)]) = (Inl (Exn ''MCPClientError'' msg), st)"
proof -
  let ?q = "case fst (handle_message c (Request (JInt 3) m (JObj params)) s) of None \<Rightarrow> [] | Some r \<Rightarrow> [encode r]"
  have "tr_receive (loopback c fl) (s', encode (Response (JInt 2) r None) # ?q) = (Inr (Response (JInt 2) r None), s', ?q)" for s'
    by (simp add: loopback_def decode_encode [OF assms(1)])
  then show ?thesis using loopback_send [OF assms(2), of c s "[encode (Response (JInt 2) r None)]"] assms(3)
    by (simp add: client_request_def client_error_def Let_def)
qed

text \<open>A line that is no message raises out of the adapter, which promises to report such failures as results.\<close>

lemma garbage_raises_from_adapter:
  assumes "tr_send T = (\<lambda>m t. (Inr (), t))" "tr_receive T = (\<lambda>t. (protocol_error ''Invalid JSON'', t))" "cl_initialized k"
  shows "fst (adapter_execute T scrub srv name (Suc n) args (k, t)) = protocol_error ''Invalid JSON''"
  by (simp add: adapter_execute_def call_tool_def require_initialized_def client_request_def assms protocol_error_def Let_def)

end
