(* ===== verification/Agent_Worlds.thy ===== *)
theory Agent_Worlds
  imports Agent_Run
begin

text \<open>
  What a run does to the world of its collaborators. If every collaborator of an agent respects a preorder on
  worlds, every run respects it; and a tool is executed only on behalf of a response that asked for it, so for tools it
  is enough that they respect the preorder once such a response has been given. The locale \<open>tool_worlds\<close> is the part
  of the argument for the execution of tools, \<open>run_worlds\<close> the part for a run.
\<close>

section \<open>Collaborators that respect a relation\<close>

definition bus_keeps :: "('w \<Rightarrow> 'w \<Rightarrow> bool) \<Rightarrow> 'w event_bus \<Rightarrow> bool" where
  "bus_keeps V bus = (\<forall>(k, subs) \<in> set bus. \<forall>x \<in> set subs. \<forall>e w. V w (snd (sub_call x e w)))"

definition hooks_keep :: "('w \<Rightarrow> 'w \<Rightarrow> bool) \<Rightarrow> 'w hook_registry option \<Rightarrow> bool" where
  "hooks_keep V h = (case h of None \<Rightarrow> True
     | Some reg \<Rightarrow> \<forall>(p, hs) \<in> set reg. \<forall>x \<in> set hs. \<forall>ctx w. V w (snd (hook_call x ctx w)))"

definition config_keeps :: "('w \<Rightarrow> 'w \<Rightarrow> bool) \<Rightarrow> 'w config \<Rightarrow> bool" where
  "config_keeps V c = (bus_keeps V (c_bus c) \<and> hooks_keep V (c_hooks c) \<and> (\<forall>d w. V w (c_sleep c d w)) \<and> (\<forall>w. V w (snd (c_stamp c w)))
     \<and> (\<forall>e w. V w (snd (c_audit c e w))) \<and> (\<forall>f st rid rt w. c_checkpoint c = Some f \<longrightarrow> V w (snd (f st rid rt w))))"

definition tools_keep :: "('w \<Rightarrow> 'w \<Rightarrow> bool) \<Rightarrow> 'w config \<Rightarrow> bool" where
  "tools_keep V c = (\<forall>t args w. V w (snd (c_execute c t args w)))"

definition memory_keeps :: "('w \<Rightarrow> 'w \<Rightarrow> bool) \<Rightarrow> 'w memory_ops \<Rightarrow> bool" where
  "memory_keeps V m = ((\<forall>q w. V w (snd (mem_search m q w))) \<and> (\<forall>x r w. V w (snd (mem_add m x r w))) \<and> (\<forall>r w. V w (snd (mem_clear m r w))))"

definition services_keep :: "('w \<Rightarrow> 'w \<Rightarrow> bool) \<Rightarrow> 'w services \<Rightarrow> bool" where
  "services_keep V v = ((\<forall>task w. V w (snd (v_classify v task w)))
     \<and> (\<forall>f task ts w. v_planner v = Some f \<longrightarrow> V w (snd (f task ts w)))
     \<and> (\<forall>f task a p w. v_verifier v = Some f \<longrightarrow> V w (snd (f task a p w)))
     \<and> (\<forall>m. v_memory v = Some m \<longrightarrow> memory_keeps V m)
     \<and> (\<forall>st w. V w (snd (v_compact v st w)))
     \<and> (\<forall>f st w. v_save v = Some f \<longrightarrow> V w (snd (f st w)))
     \<and> (\<forall>f st r w. v_snapshot v = Some f \<longrightarrow> V w (snd (f st r w)))
     \<and> (\<forall>w. V w (snd (v_uuid v w))) \<and> (\<forall>w. V w (v_clear_cancel v w)) \<and> (\<forall>w. V w (snd (v_inbox v w))) \<and> (\<forall>w. V w (v_await v w)))"

text \<open>The model keeps \<open>W\<close>, and whenever it asks for a tool in a world of \<open>P\<close>, \<open>Q\<close> holds of the world it leaves.\<close>

definition model_keeps :: "('w \<Rightarrow> 'w \<Rightarrow> bool) \<Rightarrow> ('w \<Rightarrow> bool) \<Rightarrow> ('w \<Rightarrow> bool) \<Rightarrow> 'w services \<Rightarrow> bool" where
  "model_keeps W P Q v =
     ((\<forall>ms ts sys w. W w (snd (v_chat v ms ts sys w))
         \<and> (\<forall>r. P w \<longrightarrow> fst (v_chat v ms ts sys w) = Inr r \<longrightarrow> resp_tool_calls r \<noteq> [] \<longrightarrow> Q (snd (v_chat v ms ts sys w))))
    \<and> (\<forall>ms ts sys w. W w (snd (v_chat_stream v ms ts sys w))
         \<and> (\<forall>r. P w \<longrightarrow> StreamDone r \<in> set (fst (fst (v_chat_stream v ms ts sys w))) \<longrightarrow> resp_tool_calls r \<noteq> []
              \<longrightarrow> Q (snd (v_chat_stream v ms ts sys w)))))"

definition world_act :: "('w \<Rightarrow> 'w \<Rightarrow> bool) \<Rightarrow> ('w, 'a) act \<Rightarrow> bool" where
  "world_act V m = (\<forall>s. V (a_world s) (a_world (snd (m s))))"

lemma world_act_trivial:
  assumes "\<And>s. a_world (snd (m s)) = a_world s" "\<And>w. V w w"
  shows "world_act V m"
  using assms by (simp add: world_act_def)

lemma dget_in_set: "dget d k = Some x \<Longrightarrow> (k, x) \<in> set d"
  by (simp add: dget_def map_of_SomeD)

lemma a_world_log [simp]: "a_world (log_effect x s) = a_world s"
  by (simp add: log_effect_def)

section \<open>Executing tools\<close>

locale tool_worlds =
  fixes c :: "'w config" and V :: "'w \<Rightarrow> 'w \<Rightarrow> bool"
  assumes V_refl: "V w w"
    and V_trans: "V w x \<Longrightarrow> V x y \<Longrightarrow> V w y"
    and V_config: "config_keeps V c"
begin

lemma deliver_keeps: "\<forall>x \<in> set subs. \<forall>e w. V w (snd (sub_call x e w)) \<Longrightarrow> V w (deliver subs e w)"
  by (induction subs arbitrary: w) (auto intro: V_refl V_trans)

lemma publish_keeps: "V w (publish (c_bus c) e w)"
proof -
  have all: "\<forall>(k, subs) \<in> set (c_bus c). \<forall>x \<in> set subs. \<forall>e w. V w (snd (sub_call x e w))"
    using V_config unfolding config_keeps_def bus_keeps_def by (rule conjunct1)
  have "\<forall>x \<in> set (listed (c_bus c) k). \<forall>e w. V w (snd (sub_call x e w))" for k
    using bspec [OF all dget_in_set [of "c_bus c" k]] by (cases "dget (c_bus c) k") (simp_all add: listed_def)
  then show ?thesis unfolding publish_def by (intro deliver_keeps) (auto simp: gather_def)
qed

lemma trigger_all_keeps: "\<forall>x \<in> set hs. \<forall>ctx w. V w (snd (hook_call x ctx w)) \<Longrightarrow> V w (snd (trigger_all (publish (c_bus c)) red p hs ctx w))"
proof (induction hs arbitrary: w)
  case (Cons h hs)
  obtain out w1 where h: "hook_call h ctx w = (out, w1)" by fastforce
  then have "V w w1" using Cons.prems by (metis list.set_intros(1) snd_conv)
  moreover have rest: "V x (snd (trigger_all (publish (c_bus c)) red p hs ctx x))" for x using Cons by simp
  ultimately show ?case
    using publish_keeps V_trans h by (cases out) (auto simp: case_prod_unfold, metis+)
qed (simp add: V_refl)

lemma trigger_keeps: "V (a_world s) (a_world (snd (trigger_hooks c p ctx s)))"
proof (cases "c_hooks c")
  case (Some reg)
  then have all: "\<forall>(p, hs) \<in> set reg. \<forall>x \<in> set hs. \<forall>ctx w. V w (snd (hook_call x ctx w))"
    using V_config by (simp add: config_keeps_def hooks_keep_def)
  have "\<forall>x \<in> set (listed reg p). \<forall>ctx w. V w (snd (hook_call x ctx w))"
    using bspec [OF all dget_in_set [of reg p]] by (cases "dget reg p") (simp_all add: listed_def)
  then show ?thesis using Some by (simp add: trigger_hooks_def trigger_def case_prod_unfold trigger_all_keeps)
qed (simp add: trigger_hooks_def V_refl)

lemma emit_keeps: "V w (a_world s) \<Longrightarrow> V w (a_world (emit c ty p s))"
  using publish_keeps V_trans by (auto simp: emit_def Let_def)

lemma audit_preserves: "world_act V (audit c mk)"
proof -
  have "V w (snd (c_audit c e (snd (c_stamp c w))))" for w e
    using V_config V_trans by (fastforce simp: config_keeps_def)
  then show ?thesis by (simp add: world_act_def audit_def case_prod_unfold)
qed

lemma ret_keeps: "world_act V (ret x)" and throw_keeps: "world_act V (throw e)"
  by (simp_all add: world_act_def ret_def throw_def V_refl)

lemma bnd_keeps: "world_act V m \<Longrightarrow> (\<And>x. world_act V (f x)) \<Longrightarrow> world_act V (bnd m f)"
  by (auto simp: world_act_def bnd_def case_prod_unfold split: sum.split) (metis V_trans)

lemma if_keeps: "world_act V m \<Longrightarrow> world_act V m' \<Longrightarrow> world_act V (if b then m else m')"
  by simp

lemma modify_keeps: "(\<And>s. V (a_world s) (a_world (f s))) \<Longrightarrow> world_act V (modify f)"
  by (simp add: world_act_def modify_def)

lemma pure_keeps: "(\<And>s. V (a_world s) (a_world (snd (f s)))) \<Longrightarrow> world_act V (pure_step f)"
  by (simp add: world_act_def pure_step_def case_prod_unfold)

lemma after_act: "world_act V m \<Longrightarrow> V w (a_world s) \<Longrightarrow> V w (a_world (snd (m s)))"
  using V_trans unfolding world_act_def by blast

lemmas act_keeps = bnd_keeps if_keeps ret_keeps throw_keeps modify_keeps pure_keeps audit_preserves emit_keeps [OF V_refl] trigger_keeps

lemma checkpoint_keeps: "world_act V (save_checkpoint c)"
  using V_config by (auto simp: world_act_def save_checkpoint_def config_keeps_def V_refl case_prod_unfold split: option.split)

lemma deny_keeps: "world_act V (deny_call c call why inp)"
  unfolding deny_call_def by (intro act_keeps)

lemma confirmation_keeps: "V (a_world s) (a_world (snd (confirmation_status c call args d s)))"
  using trigger_keeps by (auto simp: confirmation_status_def V_refl case_prod_unfold Let_def)

lemma policy_keeps: "world_act V (check_policy c n a)"
  by (rule world_act_trivial) (auto simp: check_policy_def V_refl split: sum.split)

lemma circuit_open_world: "a_world (snd (circuit_is_open c t s)) = a_world s"
  by (auto simp: circuit_is_open_def split: option.split)

lemma gate_tool_keeps: "world_act V (gate_tool c call args)"
proof -
  have "V (a_world s) (a_world (snd (gate_tool c call args s)))" for s
  proof (cases "dget (a_tools s) (call_name call)")
    case (Some t)
    obtain b s' where ci: "circuit_is_open c t s = (b, s')" by fastforce
    then have w: "a_world s' = a_world s" using circuit_open_world [of t s] by simp
    moreover have "V (a_world u) (a_world (snd (bnd (audit c mk) (\<lambda>_. ret x) u)))" for u mk and x :: "tool option \<times> obj \<times> tool_result option"
      using bnd_keeps [OF audit_preserves ret_keeps, of mk "\<lambda>_. x"] by (simp add: world_act_def)
    ultimately have "V (a_world s) (a_world (snd (bnd (audit c mk) (\<lambda>_. ret x) s')))" for mk and x :: "tool option \<times> obj \<times> tool_result option"
      by metis
    then show ?thesis using Some ci w
      by (auto simp: gate_tool_def V_refl Let_def split: bool.split sum.split list.split)
  qed (simp add: gate_tool_def V_refl)
  then show ?thesis by (simp add: world_act_def)
qed

lemma gate_decided_keeps: "world_act V (gate_decided c call args d)"
  unfolding gate_decided_def
  by (intro act_keeps deny_keeps checkpoint_keeps gate_tool_keeps confirmation_keeps) (simp add: V_refl)

lemma prepare_keeps: "world_act V (prepare_call c call)"
  unfolding prepare_call_def Let_def
  by (intro act_keeps policy_keeps gate_decided_keeps)

lemma finished_keeps: "V w (a_world s) \<Longrightarrow> V w (a_world (emit_tool_call_finished c call r s))"
  by (auto simp: emit_tool_call_finished_def Let_def emit_keeps split: option.split prod.split)

lemma started_keeps: "V (a_world s) (a_world (emit_started c call s))"
  by (simp add: emit_started_def emit_keeps V_refl)

lemma circuit_result_world: "a_world (record_circuit_result c n t r s) = a_world s"
  by (auto simp: record_circuit_result_def Let_def split: option.split)

lemma answer_world [simp]: "a_world (answer_call c call r e s) = a_world s"
  by (simp add: answer_call_def)

lemma finalize_keeps: "world_act V (finalize_call c call t args r)"
  unfolding finalize_call_def by (intro act_keeps) (simp add: circuit_result_world V_refl)

lemma pause_keeps: "world_act V (pause_batch c rest e)"
  unfolding pause_batch_def by (intro act_keeps checkpoint_keeps) (simp add: V_refl)

lemma retry_wait_keeps: "V (a_world s) (a_world (retry_wait c call n s))"
proof -
  have "V w (c_sleep c d w)" for d w using V_config by (simp add: config_keeps_def)
  then have "V (a_world s) (c_sleep c d (a_world (emit c ty p s)))" for d ty p
    by (rule V_trans [OF emit_keeps [OF V_refl]])
  then show ?thesis by (simp add: retry_wait_def Let_def emit_keeps V_refl)
qed

end

locale executing_worlds = tool_worlds c V for c :: "'w config" and V :: "'w \<Rightarrow> 'w \<Rightarrow> bool" +
  assumes V_tools: "tools_keep V c"
begin

lemma invoke_keeps: "V (a_world s) (a_world (snd (invoke_tool c t args s)))"
  using V_tools by (simp add: invoke_tool_def tools_keep_def Let_def case_prod_unfold)

lemma run_tool_keeps: "V (a_world s) (a_world (snd (run_tool c t args s)))"
  using invoke_keeps by (auto simp: run_tool_def V_refl case_prod_unfold split: option.split)

lemma retry_keeps: "V (a_world s) (a_world (snd (retry_from c call t args n r s)))"
proof (induction "nat (max_transient_retries c t - int n)" arbitrary: n r s rule: less_induct)
  case less
  show ?case
  proof (cases "is_transient r \<and> int n < max_transient_retries c t \<and> \<not> cancelled c s")
    case True
    obtain r' s' where again: "run_tool c t args (retry_wait c call (n + 1) s) = (r', s')" by fastforce
    have "V (a_world s) (a_world s')"
      using V_trans [OF retry_wait_keeps [of s call "n + 1"] run_tool_keeps [of "retry_wait c call (n + 1) s" t args]] again by simp
    moreover have "V (a_world s') (a_world (snd (retry_from c call t args (n + 1) r' s')))"
      using less [of "n + 1"] True by simp
    moreover have "retry_from c call t args n r s = retry_from c call t args (n + 1) r' s'"
      using True again by (subst retry_from.simps) simp
    ultimately show ?thesis using V_trans by simp
  next
    case False
    then show ?thesis by (subst retry_from.simps) (auto simp: V_refl)
  qed
qed

lemma retry_transient_keeps: "V (a_world s) (a_world (snd (retry_transient_tool c call t args r s)))"
  by (simp add: retry_transient_tool_def retry_keeps)

lemma execute_one_keeps: "world_act V (execute_one c call)"
proof -
  have "world_act V (bnd (pure_step (run_tool c t args)) (\<lambda>r.
      bnd (pure_step (retry_transient_tool c call t args r)) (\<lambda>r'. bnd (finalize_call c call t args r') (\<lambda>_. ret r'))))" for t args
    by (intro act_keeps run_tool_keeps retry_transient_keeps finalize_keeps)
  then have "world_act V (case x of (t, args, early) \<Rightarrow> case early of Some r \<Rightarrow> ret r | None \<Rightarrow> (case t of
        None \<Rightarrow> throw (Exn ''AssertionError'' [])
      | Some u \<Rightarrow> bnd (pure_step (run_tool c u args)) (\<lambda>r.
          bnd (pure_step (retry_transient_tool c call u args r)) (\<lambda>r'. bnd (finalize_call c call u args r') (\<lambda>_. ret r')))))" for x
    by (auto simp: ret_keeps throw_keeps split: prod.split option.split)
  then show ?thesis unfolding execute_one_def by (intro bnd_keeps prepare_keeps)
qed

lemma sequential_keeps: "V (a_world s) (a_world (snd (execute_sequential c calls e s)))"
proof (induction calls arbitrary: e s)
  case (Cons call calls)
  let ?s = "emit_started c call s"
  obtain r s' where one: "execute_one c call ?s = (r, s')" by fastforce
  then have s': "V (a_world s) (a_world s')"
    using started_keeps V_trans execute_one_keeps by (metis snd_conv world_act_def)
  have pause: "V (a_world s) (a_world (snd (pause_batch c (call # calls) x s')))" for x
    by (rule after_act [OF pause_keeps s'])
  have "V (a_world s) (a_world (emit_tool_call_finished c call x s'))" for x
    by (rule finished_keeps [OF s'])
  then have "V (a_world s) (a_world (snd (execute_sequential c calls f (answer_call c call x (is_error x) (emit_tool_call_finished c call x s')))))" for f x
    using Cons.IH [of "answer_call c call x (is_error x) (emit_tool_call_finished c call x s')" f] by (metis V_trans answer_world)
  moreover have "V (a_world s) (a_world (snd (execute_sequential c calls True (answer_call c call skipped_result True s))))"
    using Cons.IH [of "answer_call c call skipped_result True s" True] by simp
  ultimately show ?case using one s' pause by (auto split: sum.split)
qed (simp add: V_refl)

lemma run_batch_keeps: "V (a_world s) (a_world (snd (run_batch c jobs d s)))"
proof (induction jobs arbitrary: d s)
  case (Cons job jobs)
  obtain i call t args where job: "job = (i, call, t, args)" by (cases job) auto
  obtain r rep s' where inv: "invoke_tool c t args s = ((r, rep), s')" by (metis prod.exhaust)
  then have "V (a_world s) (a_world s')" using invoke_keeps [of s t args] by simp
  then have "V (a_world s) (a_world (snd (run_batch c jobs x s')))" for x by (rule V_trans) (rule Cons.IH)
  then show ?case using Cons.IH job inv by simp
qed (simp add: V_refl)

lemma record_batch_keeps: "V (a_world s) (a_world (snd (record_batch c gs i d e s)))"
proof (induction gs arbitrary: i e s)
  case (Cons g gs)
  obtain call x where g: "g = (call, x)" by fastforce
  have after: "V (a_world s) (a_world u) \<Longrightarrow> V (a_world s) (a_world (snd (record_batch c gs j d f u)))" for u j f
    using Cons.IH V_trans by blast
  show ?case
  proof (cases x)
    case (Admitted t args)
    show ?thesis
    proof (cases "dget d i")
      case (Some r0)
      obtain r s1 where r: "retry_transient_tool c call t args r0 s = (r, s1)" by fastforce
      obtain q s2 where q: "finalize_call c call t args r s1 = (q, s2)" by fastforce
      have "V (a_world s) (a_world s1)" using retry_transient_keeps [of s call t args r0] r by simp
      moreover have "V (a_world s1) (a_world s2)" using finalize_keeps [of call t args r] q unfolding world_act_def by (metis snd_conv)
      ultimately have "V (a_world s) (a_world s2)" by (rule V_trans)
      then show ?thesis using g Admitted Some r q after [OF _, of "answer_call c call r (is_error r) (emit_tool_call_finished c call r s2)"]
        by (auto simp: finished_keeps split: sum.split)
    qed (simp add: g Admitted V_refl)
  qed (auto simp: g intro!: after finished_keeps V_refl)
qed (simp add: V_refl)

lemma dispatch_keeps: "V (a_world s) (a_world (snd (dispatch_and_record c gs s)))"
  using V_trans [OF run_batch_keeps record_batch_keeps] by (simp add: dispatch_and_record_def case_prod_unfold)

lemma gate_batch_keeps: "V (a_world s) (a_world (snd (gate_batch c gs calls s)))"
proof (induction calls arbitrary: gs s)
  case (Cons call calls)
  obtain r s1 where p: "prepare_call c call (emit_started c call s) = (r, s1)" by fastforce
  have s1: "V (a_world s) (a_world s1)"
    using V_trans [OF started_keeps [of s call]] prepare_keeps p unfolding world_act_def by (metis snd_conv)
  obtain q s2 where q: "dispatch_and_record c gs s1 = (q, s2)" by fastforce
  then have s2: "V (a_world s) (a_world s2)" using V_trans [OF s1] dispatch_keeps by (metis snd_conv)
  have "V (a_world s) (a_world (snd (pause_batch c (call # calls) e s2)))" for e
    by (rule after_act [OF pause_keeps s2])
  moreover have "V (a_world s) (a_world (snd (gate_batch c hs calls s1)))" for hs using V_trans [OF s1] Cons.IH by blast
  ultimately show ?case using p q s1 s2 Cons.IH
    by (auto split: sum.split prod.split option.split)
qed (simp add: dispatch_keeps)

lemma execute_calls_keep: "world_act V (execute_tool_calls c calls)"
  using gate_batch_keeps sequential_keeps by (simp add: world_act_def execute_tool_calls_def)

end

section \<open>A run\<close>

lemma config_keeps_mono: "config_keeps V c \<Longrightarrow> (\<And>w x. V w x \<Longrightarrow> U w x) \<Longrightarrow> config_keeps U c"
  unfolding config_keeps_def bus_keeps_def hooks_keep_def by (auto split: option.splits)

locale run_worlds =
  fixes c :: "'w config" and v :: "'w services" and W :: "'w \<Rightarrow> 'w \<Rightarrow> bool" and P Q :: "'w \<Rightarrow> bool"
  assumes W_refl: "W w w"
    and W_trans: "W w x \<Longrightarrow> W x y \<Longrightarrow> W w y"
    and W_config: "config_keeps W c"
    and W_services: "services_keep W v"
    and W_model: "model_keeps W P Q v"
    and P_kept: "P w \<Longrightarrow> W w x \<Longrightarrow> P x"
    and W_outside: "\<not> P w \<Longrightarrow> W w x"
    and Q_kept: "Q w \<Longrightarrow> W w x \<Longrightarrow> Q x"
    and W_tools: "tools_keep (\<lambda>w x. Q w \<longrightarrow> W w x) c"
begin

sublocale calm: tool_worlds c W
  by unfold_locales (rule W_refl, erule W_trans, assumption, rule W_config)

sublocale busy: executing_worlds c "\<lambda>w x. Q w \<longrightarrow> W w x"
proof unfold_locales
  show "Q w \<longrightarrow> W w w" for w by (simp add: W_refl)
  show "Q w \<longrightarrow> W w x \<Longrightarrow> Q x \<longrightarrow> W x y \<Longrightarrow> Q w \<longrightarrow> W w y" for w x y using Q_kept W_trans by blast
  show "config_keeps (\<lambda>w x. Q w \<longrightarrow> W w x) c" using W_config by (rule config_keeps_mono) simp
  show "tools_keep (\<lambda>w x. Q w \<longrightarrow> W w x) c" by (rule W_tools)
qed

text \<open>Steps without tools, as functions on the agent.\<close>

lemma service_worlds:
  shows classify_keeps: "W w (snd (v_classify v task w))"
    and planner_keeps: "v_planner v = Some planner \<Longrightarrow> W w (snd (planner task ts w))"
    and verifier_keeps: "v_verifier v = Some verifier \<Longrightarrow> W w (snd (verifier task a p w))"
    and search_keeps: "v_memory v = Some mem \<Longrightarrow> W w (snd (mem_search mem q w))"
    and add_keeps: "v_memory v = Some mem \<Longrightarrow> W w (snd (mem_add mem x rid w))"
    and clear_keeps: "v_memory v = Some mem \<Longrightarrow> W w (snd (mem_clear mem x w))"
    and compact_keeps: "W w (snd (v_compact v st w))"
    and save_keeps: "v_save v = Some save \<Longrightarrow> W w (snd (save st w))"
    and snapshot_keeps: "v_snapshot v = Some snap \<Longrightarrow> W w (snd (snap st rid w))"
    and uuid_keeps: "W w (snd (v_uuid v w))"
    and clear_cancel_keeps: "W w (v_clear_cancel v w)"
    and inbox_keeps: "W w (snd (v_inbox v w))"
    and await_keeps: "W w (v_await v w)"
  using W_services unfolding services_keep_def memory_keeps_def by simp_all

lemma escalate_world: "W (a_world s) (a_world (snd (escalate c s)))"
  by (auto simp: escalate_def Let_def W_refl split: option.split intro!: calm.emit_keeps)

lemma maybe_escalate_world: "W (a_world s) (a_world (snd (maybe_escalate c i e a s)))"
  by (simp add: maybe_escalate_def escalate_world W_refl)

lemma classify_world: "W (a_world s) (a_world (classify_and_route c v msg s))"
  by (auto simp: classify_and_route_def Let_def apply_mode_def case_prod_unfold classify_keeps split: sum.split intro!: calm.emit_keeps)

lemma compact_world: "world_act W (maybe_compact_context c v)"
  by (auto simp: world_act_def maybe_compact_context_def W_refl Let_def case_prod_unfold compact_keeps split: sum.split intro!: calm.emit_keeps)

lemma plan_world: "W (a_world s) (a_world (snd (create_plan c v msg s)))"
  by (auto simp: create_plan_def W_refl Let_def case_prod_unfold planner_keeps split: option.split sum.split intro!: calm.emit_keeps)

lemma add_user_world [simp]: "a_world (add_user m s) = a_world s"
  by (simp add: add_user_def)

lemma verify_world: "v_verifier v = Some f \<Longrightarrow> W (a_world s) (a_world (snd (verify_final_answer c f a s)))"
  by (auto simp: verify_final_answer_def Let_def case_prod_unfold verifier_keeps split: sum.split verdict.split intro!: calm.emit_keeps)

lemma structured_world: "world_act W (check_structured c v sch a n)"
  by (auto simp: world_act_def check_structured_def Let_def W_refl split: sum.split intro!: calm.emit_keeps)

lemma best_effort_world: "(\<And>w. W w (snd (f w))) \<Longrightarrow> W x (a_world s) \<Longrightarrow> W x (a_world (best_effort c ty f s))"
  using W_trans by (auto simp: best_effort_def case_prod_unfold split: sum.split intro!: calm.emit_keeps)

lemma persist_world: "W (a_world s) (a_world (persist_state c v s))"
  by (auto simp: persist_state_def Let_def W_refl save_keeps snapshot_keeps split: option.split intro!: best_effort_world)

lemma inject_world: "W x (a_world s) \<Longrightarrow> W x (a_world (inject_messages c ms s))"
  by (induction ms arbitrary: s) (simp_all add: calm.emit_keeps)

lemma drain_world: "W (a_world s) (a_world (drain_inbox c v s))"
  by (simp add: drain_inbox_def case_prod_unfold inject_world inbox_keeps)

lemma recall_world: "v_memory v = Some mem \<Longrightarrow> W (a_world s) (a_world (recall_memory c mem q s))"
  by (auto simp: recall_memory_def case_prod_unfold search_keeps split: sum.split list.split intro!: calm.emit_keeps)

lemma store_world: "v_memory v = Some mem \<Longrightarrow> W x (a_world s) \<Longrightarrow> W x (a_world (store_memory c mem m f s))"
  using W_trans [OF _ add_keeps] by (auto simp: store_memory_def case_prod_unfold split: sum.split intro!: calm.emit_keeps)

lemma clear_world: "v_memory v = Some mem \<Longrightarrow> W x (a_world s) \<Longrightarrow> W x (a_world (clear_working_memory c mem s))"
  by (auto simp: clear_working_memory_def clear_keeps split: option.split intro!: best_effort_world)

text \<open>The answer of the model, and what may be done once it asks for tools.\<close>

lemma chat_keeps: "W w (snd (v_chat v ms ts sys w))"
  and chat_asks: "P w \<Longrightarrow> fst (v_chat v ms ts sys w) = Inr r \<Longrightarrow> resp_tool_calls r \<noteq> [] \<Longrightarrow> Q (snd (v_chat v ms ts sys w))"
  and stream_keeps: "W w (snd (v_chat_stream v ms ts sys w))"
  and stream_asks: "P w \<Longrightarrow> StreamDone r \<in> set (fst (fst (v_chat_stream v ms ts sys w))) \<Longrightarrow> resp_tool_calls r \<noteq> []
    \<Longrightarrow> Q (snd (v_chat_stream v ms ts sys w))"
  using W_model unfolding model_keeps_def by simp_all

lemma usage_world: "W x (a_world s) \<Longrightarrow> W x (a_world (record_usage c r s))"
  by (auto simp: record_usage_def Let_def intro!: calm.emit_keeps)

lemma chat_once_world: "W (a_world s) (a_world (snd (chat_once c v sys s)))"
  by (auto simp: chat_once_def case_prod_unfold chat_keeps split: sum.split intro!: usage_world)

lemma usage_asked: "Q (a_world s) \<Longrightarrow> Q (a_world (record_usage c r s))"
  using usage_world [OF W_refl] Q_kept by blast

lemma chat_once_asks:
  assumes "chat_once c v sys s = (Inr r, s')" and "resp_tool_calls r \<noteq> []" and "P (a_world s)"
  shows "Q (a_world s')"
proof -
  let ?q = "v_chat v (messages (a_state s)) (if tool_schemas s = [] then None else Some (tool_schemas s)) sys (a_world s)"
  have "fst ?q = Inr r" "s' = record_usage c r (log_effect ModelCalled (s\<lparr>a_world := snd ?q\<rparr>))"
    using assms(1) by (auto simp: chat_once_def case_prod_unfold split: sum.splits)
  then show ?thesis using chat_asks assms(2,3) by (auto intro!: usage_asked)
qed

lemma replay_world: "W x (a_world s) \<Longrightarrow> W x (a_world (snd (replay_stream c items f s)))"
proof (induction items arbitrary: f s)
  case (Cons i items)
  then show ?case by (cases i) (simp_all add: calm.emit_keeps)
qed simp

lemma replayed_final: "fst (replay_stream c items f s) = Some r \<Longrightarrow> f = Some r \<or> StreamDone r \<in> set items"
  by (induction c items f s rule: replay_stream.induct) auto

lemma call_llm_world: "world_act W (call_llm c v stream app)"
proof -
  have "W (a_world s) (a_world (snd (replay_stream c items f (s\<lparr>a_world := snd (v_chat_stream v ms ts sys (a_world s))\<rparr>))))" for s items f ms ts sys
    by (rule replay_world) (simp add: stream_keeps)
  then show ?thesis using W_trans chat_once_world
    by (auto simp: world_act_def call_llm_def Let_def case_prod_unfold split: option.split intro!: usage_world) blast+
qed

lemma call_llm_asks:
  assumes "call_llm c v stream app s = (Inr r, s')" and "resp_tool_calls r \<noteq> []" and "P (a_world s)"
  shows "Q (a_world s')"
proof (cases stream)
  case False
  then show ?thesis using chat_once_asks assms by (simp add: call_llm_def Let_def)
next
  case True
  let ?sys = "effective_system (system_prompt (a_state s)) app"
  let ?q = "v_chat_stream v (messages (a_state s)) (if tool_schemas s = [] then None else Some (tool_schemas s)) ?sys (a_world s)"
  obtain items ending w where q: "?q = ((items, ending), w)" by (metis prod.exhaust)
  obtain final s1 where rep: "replay_stream c items None (s\<lparr>a_world := w\<rparr>) = (final, s1)" by fastforce
  have "W (a_world s) w" using stream_keeps q by (metis snd_conv)
  then have "P (a_world s1)" using P_kept [OF assms(3)] replay_world [of "a_world s" "s\<lparr>a_world := w\<rparr>" items None] rep by simp
  show ?thesis
  proof (cases ending)
    case None
    then have r: "r = (case final of None \<Rightarrow> empty_response | Some r \<Rightarrow> r)" "s' = record_usage c r (log_effect ModelCalled s1)"
      using assms(1) True q rep by (auto simp: call_llm_def Let_def)
    then have "final = Some r" using assms(2) by (auto simp: empty_response_def split: option.splits)
    then have "StreamDone r \<in> set items" using replayed_final [of items None "s\<lparr>a_world := w\<rparr>" r] rep by simp
    then have "Q w" using stream_asks [OF assms(3), of r _ _ ?sys] q assms(2) by (metis fst_conv snd_conv)
    then have "Q (a_world s1)" using replay_world [of w "s\<lparr>a_world := w\<rparr>" items None] rep W_refl Q_kept by simp
    then show ?thesis using r(2) by (simp add: usage_asked)
  next
    case (Some e)
    then show ?thesis using assms True q rep chat_once_asks [OF _ _ \<open>P (a_world s1)\<close>] by (auto simp: call_llm_def Let_def split: if_splits)
  qed
qed

lemma after_response_world: "W (a_world s) (a_world (after_response c i r s))"
  using calm.trigger_keeps by (auto simp: after_response_def Let_def split: option.split list.split intro!: calm.emit_keeps)

lemma reject_world: "world_act W (reject_answer c lv a f)"
proof -
  have "W (a_world s) (a_world (snd (maybe_escalate c i True e (emit c ty p (add_user m s)))))" for s i e ty p m
    using W_trans [OF calm.emit_keeps [of "a_world s" "add_user m s"] maybe_escalate_world] by (simp add: W_refl)
  then show ?thesis
    by (auto simp: world_act_def reject_answer_def raise_answer_not_verified_def Let_def case_prod_unfold W_refl split: nat.split intro!: calm.emit_keeps)
qed

lemma judge_world: "world_act W (judge_answer c v lv a)"
proof -
  have "W x (a_world s) \<Longrightarrow> W x (a_world (snd (accept_answer c v a s)))" for x s
    using W_trans [OF _ persist_world] by (simp add: accept_answer_def)
  then show ?thesis using verify_world calm.after_act [OF reject_world] W_refl
    by (auto simp: world_act_def judge_answer_def case_prod_unfold split: option.split bool.split)
qed

lemma answer_turn_world: "world_act W (answer_turn c v schema lv a)"
  by (auto simp: answer_turn_def judge_world structured_world calm.ret_keeps intro!: calm.bnd_keeps split: option.split)

lemma cancel_turn_world: "world_act W (cancel_turn c lv)"
  by (simp add: world_act_def cancel_turn_def calm.emit_keeps W_refl)

lemma gate_world: "W (a_world s) (a_world (pause_gate v s))"
  by (simp add: pause_gate_def await_keeps)

lemma gated_world: "W (a_world s) (a_world (pause_gate v (drain_inbox c v s)))"
  by (rule W_trans [OF drain_world gate_world])

lemma tools_turn_world: "Q (a_world s) \<Longrightarrow> W (a_world s) (a_world (snd (tools_turn c v lv calls s)))"
proof -
  let ?rest = "\<lambda>any_error s. case a_stop_reason s of
         Some why \<Rightarrow> (Inr (Stop (lv_final lv)), emit c ''agent.error''
            [(''reason'', JStr why), (''iteration'', JInt (int (lv_iteration lv)))] s)
       | None \<Rightarrow>
           (let s1 = pause_gate v (drain_inbox c v s) in
            if cancelled c s1 then cancel_turn c lv s1
            else case maybe_escalate c (lv_iteration lv) any_error (lv_escalated lv) s1 of
              (esc, s2) \<Rightarrow> (Inr (Next (lv\<lparr>lv_iteration := lv_iteration lv + 1, lv_escalated := esc\<rparr>)), s2))"
  have "W (a_world u) (a_world (snd (?rest e u)))" for e u
    using calm.after_act [OF cancel_turn_world gated_world] W_trans [OF gated_world maybe_escalate_world]
    by (auto simp: Let_def case_prod_unfold W_refl split: option.split intro!: calm.emit_keeps)
  then have rest: "world_act W (bnd (modify (persist_state c v)) (\<lambda>_. ?rest e))" for e
    using persist_world by (intro calm.bnd_keeps calm.modify_keeps) (simp_all add: world_act_def)
  assume asked: "Q (a_world s)"
  obtain r s' where ex: "execute_tool_calls c calls s = (r, s')" by fastforce
  then have "W (a_world s) (a_world s')"
    using busy.execute_calls_keep [of calls] asked unfolding world_act_def by (metis snd_conv)
  then show ?thesis using ex calm.after_act [OF rest] by (auto simp: tools_turn_def bnd_def [of "execute_tool_calls c calls"] split: sum.split)
qed

lemma model_turn_world: "world_act W (model_turn c v stream schema lv hs)"
proof -
  have "W (a_world s) (a_world (snd (model_turn c v stream schema lv hs s)))" for s
  proof (cases "P (a_world s)")
    case False
    then show ?thesis by (rule W_outside)
  next
    case True
    obtain q s1 where call: "call_llm c v stream (system_prompt_append s hs) s = (q, s1)" by fastforce
    then have s1: "W (a_world s) (a_world s1)" using call_llm_world unfolding world_act_def by (metis snd_conv)
    show ?thesis
    proof (cases q)
      case (Inr r)
      let ?s = "after_response c (lv_iteration lv) r s1"
      have s2: "W (a_world s) (a_world ?s)" by (rule W_trans [OF s1 after_response_world])
      have "resp_tool_calls r \<noteq> [] \<Longrightarrow> Q (a_world ?s)" using call_llm_asks [OF _ _ True] call Inr after_response_world Q_kept by blast
      then have "resp_tool_calls r \<noteq> [] \<Longrightarrow> W (a_world s) (a_world (snd (tools_turn c v lv (resp_tool_calls r) ?s)))"
        using W_trans [OF s2 tools_turn_world] by blast
      moreover have "W (a_world s) (a_world (snd (answer_turn c v schema lv (resp_content r) ?s)))"
        by (rule calm.after_act [OF answer_turn_world s2])
      ultimately show ?thesis using call Inr by (simp add: model_turn_def bnd_def [of "call_llm c v stream _"] bnd_def [of "modify _"] modify_def)
    qed (use call s1 in \<open>simp add: model_turn_def bnd_def\<close>)
  qed
  then show ?thesis by (simp add: world_act_def)
qed

lemma budgeted_turn_world: "world_act W (budgeted_turn c v stream schema lv hs)"
proof -
  have "W (a_world s) (a_world (snd (budget_stop_message c s)))" for s
    by (auto simp: budget_stop_message_def W_refl split: option.split sum.split intro!: calm.emit_keeps)
  then have "W (a_world s) (a_world (snd (model_turn c v stream schema lv hs (snd (budget_stop_message c s)))))"
    "W (a_world s) (a_world (snd (budget_stop_message c s)))" for s
    using calm.after_act [OF model_turn_world] by blast+
  moreover have "W (a_world s) (a_world (snd (cancel_turn c lv s)))" for s using cancel_turn_world by (simp add: world_act_def)
  ultimately show ?thesis by (auto simp: world_act_def budgeted_turn_def case_prod_unfold split: option.split)
qed

lemma begun_turn_world: "world_act W (begun_turn c v stream schema lv)"
proof -
  have "world_act W (bnd (modify (emit c ty p)) (\<lambda>_. bnd (maybe_compact_context c v) (\<lambda>_.
      bnd (pure_step (\<lambda>s. trigger_hooks c BEFORE_LLM_CALL (ctx s) s)) (budgeted_turn c v stream schema lv))))" for ty p ctx
    by (intro calm.act_keeps compact_world budgeted_turn_world)
  then show ?thesis using cancel_turn_world by (simp add: world_act_def begun_turn_def)
qed

lemma loop_turn_world: "world_act W (loop_turn c v stream schema lv)"
  using calm.after_act [OF begun_turn_world gate_world] by (simp add: world_act_def loop_turn_def)

lemma run_loop_world: "W (a_world s) (a_world (snd (run_loop n c v stream schema lv s)))"
proof (induction n arbitrary: lv s)
  case (Suc n)
  obtain q s' where turn: "loop_turn c v stream schema lv s = (q, s')" by fastforce
  then have "W (a_world s) (a_world s')" using loop_turn_world unfolding world_act_def by (metis snd_conv)
  then have "W (a_world s) (a_world (snd (run_loop n c v stream schema lv' s')))" "W (a_world s) (a_world s')" for lv'
    using W_trans Suc by blast+
  moreover have "W (a_world s) (a_world (snd (loop_exhausted c lv s)))"
    by (auto simp: loop_exhausted_def raise_answer_not_verified_def W_refl split: option.split intro!: calm.emit_keeps)
  ultimately show ?case using turn by (auto split: sum.split turn.split)
qed (simp add: W_refl)

lemma run_start_world: "W (a_world s) (a_world (start_run c v msg s))"
proof -
  let ?w = "snd (v_uuid v (v_clear_cancel v (a_world s)))"
  have w: "W (a_world s) ?w" by (rule W_trans [OF clear_cancel_keeps uuid_keeps])
  have "W (a_world s) (a_world (snd (trigger_hooks c BEFORE_RUN ctx u)))" if "a_world u = ?w" for u ctx
    using W_trans [OF w] calm.trigger_keeps [of u] that by simp
  then have "W (a_world s) (a_world (snd (create_plan c v msg (classify_and_route c v msg (snd (trigger_hooks c BEFORE_RUN ctx u))))))"
    if "a_world u = ?w" for u ctx
    using W_trans [OF W_trans [OF _ classify_world] plan_world] that by blast
  then show ?thesis by (auto simp: start_run_def Let_def case_prod_unfold intro!: calm.emit_keeps)
qed

lemma fail_world: "W x (a_world s) \<Longrightarrow> W x (a_world (fail_run c v e s))"
  using W_trans [OF _ calm.trigger_keeps]
  by (auto simp: fail_run_def Let_def split: option.split intro!: calm.emit_keeps clear_world)

lemma finish_world: "W x (a_world s) \<Longrightarrow> W x (a_world (finish_run c v msg final s))"
proof -
  assume "W x (a_world s)"
  then have "W x (a_world (snd (trigger_hooks c p ctx (s\<lparr>a_resuming := False\<rparr>))))" for p ctx
    using W_trans [OF _ calm.trigger_keeps [of "s\<lparr>a_resuming := False\<rparr>"]] by simp
  then show ?thesis
    by (auto simp: finish_run_def Let_def split: option.split intro!: calm.emit_keeps clear_world store_world)
qed

lemma before_loop_world: "W (a_world s) (a_world (before_loop c v msg sch (cleared v verify s)))"
proof -
  let ?s = "cleared v verify s"
  have "a_world ?s = a_world s" by (simp add: cleared_def)
  moreover have "W (a_world ?s) (a_world (case (msg, v_memory v) of (Some m, Some mem) \<Rightarrow> recall_memory c mem m ?s | _ \<Rightarrow> ?s))"
    by (auto simp: W_refl recall_world split: option.split)
  ultimately show ?thesis by (auto simp: before_loop_def Let_def split: option.splits)
qed

lemma run_keeps: "world_act W (run c v msg stream schema n verify)"
proof -
  have "W (a_world s) (a_world s')" if "run c v msg stream schema n verify s = (r, s')" for s r s'
    using that
  proof (cases rule: run_parts)
    case refused
    then show ?thesis by (simp add: cleared_def W_refl)
  next
    case (resumed q s4)
    then have "W (a_world s) (a_world s4)" using W_trans [OF before_loop_world run_loop_world] by (metis snd_conv)
    then show ?thesis using resumed(5) fail_world finish_world by blast
  next
    case (fresh q s3 s4)
    then have "W (a_world s) (a_world s4)"
      using W_trans [OF W_trans [OF before_loop_world run_start_world] run_loop_world] by (metis snd_conv)
    then show ?thesis using fresh(4) fail_world finish_world by blast
  qed
  then show ?thesis unfolding world_act_def by (metis surj_pair snd_conv)
qed

end

end
