(* ===== verification/Skill_Package.thy ===== *)
theory Skill_Package
  imports Workspace_Files Audit_Log Events_Hooks
begin

text \<open>
  Skills (\<open>skills/skill.py\<close>, \<open>loader.py\<close>, \<open>registry.py\<close>, \<open>activation.py\<close>, \<open>vet.py\<close>): the frontmatter of a skill file, the skill
  with its lazy accessors over the file system of the workspace, discovery, the registry with its gate for
  skills from outside, vetting by patterns and by a reviewing model, and activation by triggers. The
  patterns, the size of a file in bytes, the code point of a character and the answer of the reviewer are arguments.
\<close>

section \<open>Frontmatter\<close>

text \<open>\<open>\\w\<close> on the Latin-1 range.\<close>

definition is_word :: "char \<Rightarrow> bool" where
  "is_word c = (let n = code_of c in (48 \<le> n \<and> n \<le> 57) \<or> (65 \<le> n \<and> n \<le> 90) \<or> n = 95 \<or> (97 \<le> n \<and> n \<le> 122)
     \<or> n \<in> {170, 178, 179, 181, 185, 186, 188, 189, 190} \<or> (192 \<le> n \<and> n \<noteq> 215 \<and> n \<noteq> 247))"

definition key_start :: "char \<Rightarrow> bool" where
  "key_start c = (let n = code_of c in (65 \<le> n \<and> n \<le> 90) \<or> n = 95 \<or> (97 \<le> n \<and> n \<le> 122))"

definition key_char :: "char \<Rightarrow> bool" where
  "key_char c = (is_word c \<or> c = CHR ''-'')"

definition frontmatter_key :: "string \<Rightarrow> (string \<times> string) option" where
  "frontmatter_key line = (case line of
     [] \<Rightarrow> None
   | c # cs \<Rightarrow> if \<not> key_start c then None
       else case lstrip_by is_space (dropWhile key_char cs) of
         d # v \<Rightarrow> if d = CHR '':'' then Some (c # takeWhile key_char cs, lstrip_by is_space v) else None
       | [] \<Rightarrow> None)"

definition unquote :: "string \<Rightarrow> string" where
  "unquote v = (if length v \<ge> 2 \<and> hd v = last v \<and> hd v \<in> {SQ, DQ} then butlast (tl v) else v)"

definition parse_error :: "string \<Rightarrow> 'a result" where
  "parse_error m = Inl (Exn ''SkillParseError'' m)"

fun frontmatter_lines :: "string \<Rightarrow> string list \<Rightarrow> (string, string) dict \<Rightarrow> ((string, string) dict \<times> string list) result" where
  "frontmatter_lines file [] fm = parse_error (file @ '': frontmatter block is never closed ('' @ repr_str ''---'' @ '' missing)'')"
| "frontmatter_lines file (line # lines) fm =
     (if py_strip line = ''---'' then Inr (fm, lines)
      else if is_blank line then frontmatter_lines file lines fm
      else case frontmatter_key line of
        None \<Rightarrow> parse_error (file @ '': unsupported frontmatter line '' @ repr_str line @ '' (only flat '' @ repr_str ''key: value'' @ '' entries are supported)'')
      | Some (key, v) \<Rightarrow> frontmatter_lines file lines (dset fm key (unquote (py_strip v))))"

definition split_frontmatter :: "string \<Rightarrow> string \<Rightarrow> ((string, string) dict \<times> string) result" where
  "split_frontmatter content file = (case splitlines content of
     line # lines \<Rightarrow>
       if py_strip line \<noteq> ''---''
       then parse_error (file @ '': missing required frontmatter block (file must start with a '' @ repr_str ''---'' @ '' line)'')
       else bind_res (frontmatter_lines file lines []) (\<lambda>(fm, rest). Inr (fm, py_join [LF] rest))
   | [] \<Rightarrow> parse_error (file @ '': missing required frontmatter block (file must start with a '' @ repr_str ''---'' @ '' line)''))"

section \<open>Skills\<close>

text \<open>
  \<open>^[a-z0-9]+(-[a-z0-9]+)*$\<close>; the flag says whether the last character was part of a word. As everywhere in Python,
  the dollar sign also matches before a final line feed.
\<close>

definition name_char :: "char \<Rightarrow> bool" where
  "name_char c = (let n = code_of c in (48 \<le> n \<and> n \<le> 57) \<or> (97 \<le> n \<and> n \<le> 122))"

fun name_match :: "bool \<Rightarrow> string \<Rightarrow> bool" where
  "name_match word [] = word"
| "name_match word (c # cs) = (if name_char c then name_match True cs
     else if c = CHR ''-'' \<and> word then name_match False cs else c = LF \<and> cs = [] \<and> word)"

definition skill_name_ok :: "string \<Rightarrow> bool" where
  "skill_name_ok s = (length s \<le> 64 \<and> name_match False s)"

record skill =
  sk_name :: string
  sk_description :: string
  sk_source :: string
  sk_root :: path
  sk_version :: "string option"
  sk_type :: string
  sk_triggers :: "string list"

definition truncation_notice :: "string \<Rightarrow> string" where
  "truncation_notice source = ''...[truncated, see full text at '' @ source @ '']''"

text \<open>\<open>description[: 1024 - len(notice)]\<close>, which counts from the end when the notice alone is longer.\<close>

definition short_description :: "string \<Rightarrow> string \<Rightarrow> string" where
  "short_description source d = (if length d \<le> 1024 then d
     else let notice = truncation_notice source in
       (if length notice \<le> 1024 then take (1024 - length notice) d else take (length d - (length notice - 1024)) d) @ notice)"

definition make_skill :: "fsys \<Rightarrow> skill \<Rightarrow> skill result" where
  "make_skill fs sk =
     (if \<not> skill_name_ok (sk_name sk)
      then parse_error (''invalid skill name '' @ repr_str (sk_name sk) @ '': must match '' @ repr_str ''^[a-z0-9]+(-[a-z0-9]+)*$'' @ '' and be <= 64 chars'')
      else if is_blank (sk_description sk) then parse_error (''skill '' @ repr_str (sk_name sk) @ '': description must be non-empty'')
      else if sk_type sk \<notin> {''repo'', ''knowledge''}
      then parse_error (''skill '' @ repr_str (sk_name sk) @ '': type must be '' @ repr_str ''repo'' @ '' or '' @ repr_str ''knowledge'')
      else Inr (sk\<lparr>sk_description := short_description (sk_source sk) (sk_description sk), sk_root := fst (real_comps fs [] (sk_root sk))\<rparr>))"

fun split_comma :: "string \<Rightarrow> string \<Rightarrow> string list" where
  "split_comma acc [] = [rev acc]"
| "split_comma acc (c # cs) = (if c = CHR '','' then rev acc # split_comma [] cs else split_comma (c # acc) cs)"

definition field :: "(string, string) dict \<Rightarrow> string \<Rightarrow> string" where
  "field fm k = (case dget fm k of Some v \<Rightarrow> v | None \<Rightarrow> [])"

definition is_file :: "fsys \<Rightarrow> path \<Rightarrow> bool" where
  "is_file fs q = (case dget fs (fst (real_comps fs [] q)) of Some (File _) \<Rightarrow> snd (real_comps fs [] q) | _ \<Rightarrow> False)"

definition is_folder :: "fsys \<Rightarrow> path \<Rightarrow> bool" where
  "is_folder fs q = (snd (real_comps fs [] q) \<and> is_dir fs (fst (real_comps fs [] q)))"

definition basename :: "path \<Rightarrow> string" where
  "basename q = (if q = [] then [] else last q)"

definition from_directory :: "fsys \<Rightarrow> path \<Rightarrow> string \<Rightarrow> skill result" where
  "from_directory fs folder source =
     (let directory = fst (real_comps fs [] folder); main = directory @ [''SKILL.md''] in
      if \<not> is_file fs main then parse_error (path_str directory @ '': missing required SKILL.md'')
      else bind_res (os_read fs main) (\<lambda>content.
        bind_res (split_frontmatter content (path_str main)) (\<lambda>(fm, body).
          let name = field fm ''name'' in
          if name \<noteq> basename directory
          then parse_error (path_str main @ '': frontmatter name '' @ repr_str name @ '' does not match directory name '' @ repr_str (basename directory))
          else make_skill fs \<lparr>sk_name = name, sk_description = field fm ''description'', sk_source = source, sk_root = directory,
             sk_version = (if field fm ''version'' = [] then None else Some (field fm ''version'')),
             sk_type = (case dget fm ''type'' of None \<Rightarrow> ''repo'' | Some t \<Rightarrow> t),
             sk_triggers = filter (\<lambda>t. t \<noteq> []) (map py_strip (split_comma [] (field fm ''triggers'')))\<rparr>)))"

definition read_main :: "fsys \<Rightarrow> skill \<Rightarrow> string result" where
  "read_main fs sk = (let main = sk_root sk @ [''SKILL.md''] in
     if \<not> is_file fs main
     then parse_error (''skill '' @ repr_str (sk_name sk) @ '': SKILL.md is not readable at '' @ repr_str (path_str main))
     else bind_res (os_read fs main) (\<lambda>content. bind_res (split_frontmatter content (path_str main)) (\<lambda>(fm, body). Inr (py_strip body))))"

definition resource_dirs :: "string list" where
  "resource_dirs = [''scripts'', ''references'', ''assets'']"

definition in_resources :: "string list \<Rightarrow> string \<Rightarrow> bool" where
  "in_resources ds rel = list_ex (\<lambda>d. startswith (d @ ''/'') rel) ds"

text \<open>The workspace of a skill, opened at its root.\<close>

definition open_root :: "fsys \<Rightarrow> path \<Rightarrow> path result" where
  "open_root fs p = (let base = fst (real_comps fs [] p) in
     if is_dir fs base then Inr base
     else Inl (Exn ''ValueError'' (''workspace root is not an existing directory: '' @ repr_str (path_str p))))"

definition list_resources :: "(string \<Rightarrow> string \<Rightarrow> bool) \<Rightarrow> fsys \<Rightarrow> skill \<Rightarrow> string option \<Rightarrow> string option \<Rightarrow> string list result" where
  "list_resources fnmatch fs sk pattern kind = bind_res (open_root fs (sk_root sk)) (\<lambda>base.
     Inr (filter (in_resources (case kind of Some (c # cs) \<Rightarrow> [c # cs] | _ \<Rightarrow> resource_dirs)) (list_files fnmatch fs base pattern)))"

text \<open>\<open>os.path.relpath\<close> of canonical paths.\<close>

fun strip_common :: "path \<Rightarrow> path \<Rightarrow> path \<times> path" where
  "strip_common (x # xs) (y # ys) = (if x = y then strip_common xs ys else (x # xs, y # ys))"
| "strip_common xs ys = (xs, ys)"

definition relpath :: "path \<Rightarrow> path \<Rightarrow> string" where
  "relpath q start = (case strip_common start q of (up, down) \<Rightarrow>
     if up = [] \<and> down = [] then ''.'' else py_join ''/'' (map (\<lambda>_. ''..'') up @ down))"

definition read_resource :: "fsys \<Rightarrow> skill \<Rightarrow> string \<Rightarrow> string result" where
  "read_resource fs sk relative =
     bind_res (open_root fs (sk_root sk)) (\<lambda>base.
     bind_res (resolve fs base relative) (\<lambda>resolved.
       if \<not> in_resources resource_dirs (relpath resolved (sk_root sk))
       then Inl (Exn ''PathTraversalError'' (''resource path '' @ repr_str relative @ '' is outside the resource directories of skill '' @ repr_str (sk_name sk)))
       else if \<not> is_file fs resolved
       then Inl (Exn ''FileNotFoundError'' (''resource '' @ repr_str relative @ '' not found in skill '' @ repr_str (sk_name sk)))
       else os_read fs resolved))"

section \<open>Discovery\<close>

definition loader_init :: "fsys \<Rightarrow> path \<Rightarrow> path result" where
  "loader_init fs folder = (let base = fst (real_comps fs [] folder) in
     if is_folder fs folder then Inr base
     else Inl (Exn ''ValueError'' (''skill root is not an existing directory: '' @ repr_str (path_str folder))))"

definition entries :: "fsys \<Rightarrow> path \<Rightarrow> string list" where
  "entries fs base = sort (map (\<lambda>(q, _). last q) (filter (\<lambda>(q, _). q \<noteq> [] \<and> butlast q = base) fs))"

fun discover_entries :: "fsys \<Rightarrow> string \<Rightarrow> path \<Rightarrow> string list \<Rightarrow> path list \<Rightarrow> skill list result" where
  "discover_entries fs label base [] seen = Inr []"
| "discover_entries fs label base (e # es) seen =
     (let folder = base @ [e]; real = fst (real_comps fs [] folder) in
      if \<not> is_folder fs folder \<or> \<not> is_file fs (folder @ [''SKILL.md'']) \<or> real \<in> set seen
      then discover_entries fs label base es seen
      else case from_directory fs folder label of
        Inr sk \<Rightarrow> bind_res (discover_entries fs label base es (real # seen)) (\<lambda>sks. Inr (sk # sks))
      | Inl x \<Rightarrow> if exn_class x = ''SkillParseError'' then discover_entries fs label base es seen else Inl x)"

definition discover :: "fsys \<Rightarrow> string \<Rightarrow> path \<Rightarrow> skill list result" where
  "discover fs label base = discover_entries fs label base (entries fs base) []"

section \<open>Vetting\<close>

datatype severity = Warning | Critical

record vet_flag =
  vf_severity :: severity
  vf_category :: string
  vf_message :: string
  vf_location :: string

record vet_result =
  vr_clean :: bool
  vr_flags :: "vet_flag list"
  vr_reviewed :: bool

type_synonym vet_pattern = "(string \<Rightarrow> string option) \<times> string \<times> severity"

definition has_critical :: "vet_flag list \<Rightarrow> bool" where
  "has_critical fs = list_ex (\<lambda>f. vf_severity f = Critical) fs"

definition hidden_code :: "int \<Rightarrow> bool" where
  "hidden_code n = (n \<in> {8203, 8204, 8205, 65279} \<or> (917504 \<le> n \<and> n \<le> 917631) \<or> (n < 32 \<and> n \<notin> {9, 10, 13}) \<or> n = 127)"

definition find_hidden_chars :: "(char \<Rightarrow> int) \<Rightarrow> string \<Rightarrow> int option" where
  "find_hidden_chars ord s = List.find hidden_code (map ord s)"

definition upper_digit :: "nat \<Rightarrow> char" where
  "upper_digit d = ''0123456789ABCDEF'' ! (d mod 16)"

fun upper_hex :: "nat \<Rightarrow> string" where
  "upper_hex n = (if n < 16 then [upper_digit n] else upper_hex (n div 16) @ [upper_digit n])"

definition hex_code :: "nat \<Rightarrow> string" where
  "hex_code n = replicate (4 - length (upper_hex n)) (CHR ''0'') @ upper_hex n"

definition scan_text :: "vet_pattern list \<Rightarrow> (char \<Rightarrow> int) \<Rightarrow> string \<Rightarrow> string \<Rightarrow> vet_flag list" where
  "scan_text patterns ord location s =
     List.map_filter (\<lambda>(search, category, sev). case search s of
         None \<Rightarrow> None
       | Some m \<Rightarrow> Some \<lparr>vf_severity = sev, vf_category = category,
           vf_message = ''matched '' @ category @ '' pattern '' @ repr_str (take 40 m), vf_location = location\<rparr>) patterns
     @ (case find_hidden_chars ord s of
          None \<Rightarrow> []
        | Some n \<Rightarrow> [\<lparr>vf_severity = Critical, vf_category = ''hidden_unicode'',
            vf_message = ''hidden Unicode character U+'' @ hex_code (nat n) @ '' (possible invisible instruction)'', vf_location = location\<rparr>])"

definition read_resource_capped :: "(string \<Rightarrow> int) \<Rightarrow> fsys \<Rightarrow> skill \<Rightarrow> string \<Rightarrow> string option result" where
  "read_resource_capped bytes fs sk resource = bind_res (os_read fs (sk_root sk @ split_slash [] resource)) (\<lambda>content.
     if bytes content > 1048576 then Inr None else bind_res (read_resource fs sk resource) (\<lambda>s. Inr (Some s)))"

fun scan_resources :: "vet_pattern list \<Rightarrow> (char \<Rightarrow> int) \<Rightarrow> (string \<Rightarrow> int) \<Rightarrow> fsys \<Rightarrow> skill \<Rightarrow> string list \<Rightarrow> vet_flag list result" where
  "scan_resources patterns ord bytes fs sk [] = Inr []"
| "scan_resources patterns ord bytes fs sk (r # rs) = bind_res (read_resource_capped bytes fs sk r) (\<lambda>s.
     bind_res (scan_resources patterns ord bytes fs sk rs) (\<lambda>flags. Inr ((case s of
         None \<Rightarrow> [\<lparr>vf_severity = Warning, vf_category = ''resource_skipped'',
            vf_message = ''resource exceeds the scan size limit and was not scanned'', vf_location = r\<rparr>]
       | Some x \<Rightarrow> scan_text patterns ord r x) @ flags)))"

definition scan :: "vet_pattern list \<Rightarrow> (char \<Rightarrow> int) \<Rightarrow> (string \<Rightarrow> int) \<Rightarrow> fsys \<Rightarrow> skill \<Rightarrow> vet_result result" where
  "scan patterns ord bytes fs sk =
     bind_res (read_main fs sk) (\<lambda>body.
     bind_res (list_resources (\<lambda>_ _. True) fs sk None None) (\<lambda>rs.
     bind_res (scan_resources patterns ord bytes fs sk rs) (\<lambda>flags.
       let fs = scan_text patterns ord ''SKILL.md'' body @ flags
       in Inr \<lparr>vr_clean = \<not> has_critical fs, vr_flags = fs, vr_reviewed = False\<rparr>)))"

definition valid_categories :: "string list" where
  "valid_categories = [''none'', ''prompt_injection'', ''credential_exfil'', ''auto_exec'', ''permission_bypass'', ''other'']"

definition need :: "obj \<Rightarrow> string \<Rightarrow> json result" where
  "need d k = (case dget d k of Some x \<Rightarrow> Inr x | None \<Rightarrow> Inl (Exn ''KeyError'' (repr_str k)))"

text \<open>Membership of a value in a set of strings: a list or an object cannot be hashed.\<close>

definition one_of :: "string list \<Rightarrow> string \<Rightarrow> json \<Rightarrow> string result" where
  "one_of xs what x = (case x of
     JStr s \<Rightarrow> if s \<in> set xs then Inr s else Inl (Exn ''ValueError'' (''invalid '' @ what @ '' '' @ py_repr x))
   | JArr _ \<Rightarrow> Inl (Exn ''TypeError'' ''unhashable type'')
   | JObj _ \<Rightarrow> Inl (Exn ''TypeError'' ''unhashable type'')
   | _ \<Rightarrow> Inl (Exn ''ValueError'' (''invalid '' @ what @ '' '' @ py_repr x)))"

definition verdict_to_result :: "json \<Rightarrow> vet_result result" where
  "verdict_to_result v = (case v of
     JObj d \<Rightarrow>
       bind_res (need d ''severity'') (\<lambda>sv. bind_res (need d ''category'') (\<lambda>cv. bind_res (need d ''reason'') (\<lambda>rv.
       bind_res (one_of [''none'', ''warning'', ''critical''] ''severity'' sv) (\<lambda>sev.
       bind_res (one_of valid_categories ''category'' cv) (\<lambda>cat.
         case rv of
           JStr why \<Rightarrow> Inr \<lparr>
             vr_clean = (if sev = ''critical'' then False else if sev = ''none'' then True
                else case dget d ''clean'' of None \<Rightarrow> True | Some x \<Rightarrow> truthy x),
             vr_flags = (if sev = ''none'' then []
                else [\<lparr>vf_severity = (if sev = ''critical'' then Critical else Warning), vf_category = (if cat \<noteq> ''none'' then cat else ''other''),
                       vf_message = take 200 why, vf_location = ''SKILL.md''\<rparr>]),
             vr_reviewed = True\<rparr>
         | _ \<Rightarrow> Inl (Exn ''ValueError'' ''reason must be a string''))))))
   | _ \<Rightarrow> Inl (Exn ''ValueError'' ''verdict is not a JSON object''))"

fun resource_parts :: "(string \<Rightarrow> int) \<Rightarrow> fsys \<Rightarrow> skill \<Rightarrow> string list \<Rightarrow> string list result" where
  "resource_parts bytes fs sk [] = Inr []"
| "resource_parts bytes fs sk (r # rs) = bind_res (read_resource_capped bytes fs sk r) (\<lambda>s.
     bind_res (resource_parts bytes fs sk rs) (\<lambda>ps. Inr (case s of None \<Rightarrow> ps | Some x \<Rightarrow> (''--- '' @ r @ '' ---'' @ [LF] @ x) # ps)))"

definition build_user_message :: "(string \<Rightarrow> int) \<Rightarrow> (string \<Rightarrow> string) \<Rightarrow> fsys \<Rightarrow> skill \<Rightarrow> string result" where
  "build_user_message bytes scrub fs sk = bind_res (read_main fs sk) (\<lambda>body.
     bind_res (list_resources (\<lambda>_ _. True) fs sk None None) (\<lambda>rs. bind_res (resource_parts bytes fs sk rs) (\<lambda>ps.
       Inr (scrub (py_join [LF, LF] ([''Skill name: '' @ sk_name sk, ''SKILL.md body:'', body] @ ps))))))"

definition review_failed :: "exn \<Rightarrow> vet_result" where
  "review_failed e = \<lparr>vr_clean = True, vr_flags = [\<lparr>vf_severity = Warning, vf_category = ''review_failed'',
     vf_message = ''LLM review could not complete ('' @ exn_class e @ '')'', vf_location = ''SKILL.md''\<rparr>], vr_reviewed = False\<rparr>"

definition review :: "(string \<Rightarrow> string result) \<Rightarrow> float_conv \<Rightarrow> (string \<Rightarrow> int) \<Rightarrow> (string \<Rightarrow> string) \<Rightarrow> fsys \<Rightarrow> skill \<Rightarrow> vet_result" where
  "review chat fl bytes scrub fs sk =
     (case bind_res (build_user_message bytes scrub fs sk) (\<lambda>m. bind_res (chat m) (\<lambda>answer.
        case json_loads fl (py_strip answer) of None \<Rightarrow> Inl (Exn ''JSONDecodeError'' []) | Some v \<Rightarrow> verdict_to_result v)) of
        Inl e \<Rightarrow> review_failed e | Inr r \<Rightarrow> r)"

definition critical_categories :: "vet_flag list \<Rightarrow> json" where
  "critical_categories fs = JArr (map JStr (sort (remdups (map vf_category (filter (\<lambda>f. vf_severity f = Critical) fs)))))"

definition vet_skill :: "vet_pattern list \<Rightarrow> (char \<Rightarrow> int) \<Rightarrow> (string \<Rightarrow> int) \<Rightarrow> (skill \<Rightarrow> vet_result) option \<Rightarrow> bool \<Rightarrow> fsys \<Rightarrow> skill \<Rightarrow> vet_result result" where
  "vet_skill patterns ord bytes reviewer raise_on_critical fs sk =
     bind_res (scan patterns ord bytes fs sk) (\<lambda>static.
       let reviewed = (case reviewer of
             Some f \<Rightarrow> if vr_clean static then Some (f sk) else None | None \<Rightarrow> None);
           flags = vr_flags static @ (case reviewed of Some r \<Rightarrow> vr_flags r | None \<Rightarrow> []);
           clean = (\<not> has_critical flags)
       in if raise_on_critical \<and> \<not> clean
          then Inl (Exn ''SkillVetError'' (''skill '' @ repr_str (sk_name sk) @ '' failed vetting: critical findings in categories ''
                 @ py_repr (critical_categories flags)))
          else Inr \<lparr>vr_clean = clean, vr_flags = flags, vr_reviewed = (case reviewed of Some r \<Rightarrow> vr_reviewed r | None \<Rightarrow> False)\<rparr>)"

section \<open>The registry\<close>

type_synonym skill_registry = "(string, skill) dict"

definition vet_error :: "string \<Rightarrow> exn" where
  "vet_error m = Exn ''SkillVetError'' m"

definition registry_add :: "skill \<Rightarrow> vet_result option \<Rightarrow> skill_registry \<Rightarrow> unit result \<times> skill_registry" where
  "registry_add sk vet reg =
     (let who = ''skill '' @ repr_str (sk_name sk) @ '' (source='' @ repr_str (sk_source sk) @ '') '' in
      if sk_source sk \<noteq> ''local'' \<and> vet = None
      then (Inl (vet_error (who @ ''cannot be accepted without a VetResult'')), reg)
      else if sk_source sk \<noteq> ''local'' \<and> \<not> vr_clean (the vet)
      then (Inl (vet_error (who @ ''failed vetting (flags: '' @ py_repr (JArr (map JStr (sort (remdups (map vf_category (vr_flags (the vet)))))))
              @ '') and cannot be accepted'')), reg)
      else if dhas reg (sk_name sk) then (Inr (), reg)
      else (Inr (), dset reg (sk_name sk) sk))"

fun add_many :: "skill list \<Rightarrow> vet_result option \<Rightarrow> skill_registry \<Rightarrow> unit result \<times> skill_registry" where
  "add_many [] vet reg = (Inr (), reg)"
| "add_many (sk # sks) vet reg = (case registry_add sk vet reg of (Inl e, r) \<Rightarrow> (Inl e, r) | (Inr _, r) \<Rightarrow> add_many sks vet r)"

definition load_from :: "fsys \<Rightarrow> string \<Rightarrow> path \<Rightarrow> vet_result option \<Rightarrow> skill_registry \<Rightarrow> skill list result \<times> skill_registry" where
  "load_from fs label base vet reg = (case discover fs label base of
     Inl e \<Rightarrow> (Inl e, reg)
   | Inr sks \<Rightarrow> (case add_many sks vet reg of (Inl e, r) \<Rightarrow> (Inl e, r) | (Inr _, r) \<Rightarrow> (Inr sks, r)))"

definition registry_get :: "skill_registry \<Rightarrow> string \<Rightarrow> skill result" where
  "registry_get reg name = (case dget reg name of
     Some sk \<Rightarrow> Inr sk | None \<Rightarrow> Inl (Exn ''SkillNotFoundError'' (''no skill named '' @ repr_str name @ '' is registered'')))"

definition registry_load :: "fsys \<Rightarrow> skill_registry \<Rightarrow> string \<Rightarrow> string result" where
  "registry_load fs reg name = bind_res (registry_get reg name) (read_main fs)"

definition catalog :: "skill list \<Rightarrow> string" where
  "catalog sks = py_join [LF] (map (\<lambda>sk. ''- '' @ sk_name sk @ '': '' @ sk_description sk) (sort_key sk_name sks))"

definition to_prompt_catalog :: "skill_registry \<Rightarrow> string" where
  "to_prompt_catalog reg = catalog (map snd reg)"

section \<open>Activation\<close>

definition select_active_skills :: "skill list \<Rightarrow> string \<Rightarrow> skill list" where
  "select_active_skills sks msg = filter (\<lambda>sk. sk_type sk = ''repo''
     \<or> (sk_type sk = ''knowledge'' \<and> list_ex (\<lambda>t. contains (py_lower t) (py_lower msg)) (sk_triggers sk))) sks"

definition activation_hook :: "skill list \<Rightarrow> hook_context \<Rightarrow> hook_result option" where
  "activation_hook sks ctx =
     (if ctx_point ctx \<noteq> BEFORE_LLM_CALL then None
      else let active = select_active_skills sks (case ctx_user_message ctx of Some m \<Rightarrow> m | None \<Rightarrow> []) in
        if active = [] then None
        else Some \<lparr>should_continue = True, modified_context = Some [(''system_prompt'', JStr (catalog active))]\<rparr>)"

section \<open>The gate of the registry\<close>

definition acceptable :: "skill \<Rightarrow> vet_result option \<Rightarrow> bool" where
  "acceptable sk vet = (sk_source sk = ''local'' \<or> (case vet of Some r \<Rightarrow> vr_clean r | None \<Rightarrow> False))"

fun registry_run :: "(skill \<times> vet_result option) list \<Rightarrow> skill_registry \<Rightarrow> skill_registry" where
  "registry_run [] reg = reg"
| "registry_run ((sk, vet) # ops) reg = registry_run ops (snd (registry_add sk vet reg))"

lemma registry_add_state: "snd (registry_add sk vet reg) = (if acceptable sk vet \<and> \<not> dhas reg (sk_name sk) then dset reg (sk_name sk) sk else reg)"
  by (auto simp: registry_add_def acceptable_def Let_def split: option.split)

lemma registry_add_raises: "(\<exists>e. fst (registry_add sk vet reg) = Inl e) \<longleftrightarrow> \<not> acceptable sk vet"
  by (auto simp: registry_add_def acceptable_def Let_def split: option.split)

lemma registry_run_first:
  "dget (registry_run ops reg) n = (case dget reg n of Some sk \<Rightarrow> Some sk
     | None \<Rightarrow> map_option fst (List.find (\<lambda>(sk, vet). sk_name sk = n \<and> acceptable sk vet) ops))"
proof (induction ops arbitrary: reg)
  case (Cons op ops)
  obtain sk vet where op: "op = (sk, vet)" by fastforce
  show ?case using Cons.IH [of "snd (registry_add sk vet reg)"]
    by (auto simp: op registry_add_state dhas_dget split: option.splits)
qed (simp split: option.split)

text \<open>
  C11: The registry holds under a name the first skill offered under it that is local or comes with a clean vetting
  result, whatever was offered before, in between and after, and nothing if there was none; an offer raises exactly
  when it is neither.
\<close>
theorem registry_holds_first_vetted:
  "dget (registry_run ops []) n = map_option fst (List.find (\<lambda>(sk, vet). sk_name sk = n \<and> acceptable sk vet) ops)
   \<and> ((\<exists>e. fst (registry_add sk vet (registry_run ops [])) = Inl e) \<longleftrightarrow> \<not> acceptable sk vet)"
  by (simp add: registry_run_first registry_add_raises)

section \<open>What a clean result means\<close>

definition text_clean :: "vet_pattern list \<Rightarrow> (char \<Rightarrow> int) \<Rightarrow> string \<Rightarrow> bool" where
  "text_clean patterns ord s = (list_all (\<lambda>(search, category, sev). sev = Critical \<longrightarrow> search s = None) patterns
     \<and> list_all (\<lambda>c. \<not> hidden_code (ord c)) s)"

lemma scan_text_clean: "\<not> has_critical (scan_text patterns ord loc s) \<longleftrightarrow> text_clean patterns ord s"
proof -
  have "\<not> has_critical (List.map_filter (\<lambda>(search, category, sev). case search s of
         None \<Rightarrow> None
       | Some m \<Rightarrow> Some \<lparr>vf_severity = sev, vf_category = category,
           vf_message = ''matched '' @ category @ '' pattern '' @ repr_str (take 40 m), vf_location = loc\<rparr>) patterns)
    \<longleftrightarrow> list_all (\<lambda>(search, category, sev). sev = Critical \<longrightarrow> search s = None) patterns"
    by (induction patterns) (auto simp: has_critical_def List.map_filter_simps split: option.splits)
  moreover have "find_hidden_chars ord s = None \<longleftrightarrow> list_all (\<lambda>c. \<not> hidden_code (ord c)) s"
    by (auto simp: find_hidden_chars_def find_None_iff list_all_iff)
  ultimately show ?thesis
    by (auto simp: scan_text_def has_critical_def text_clean_def split: option.split)
qed

lemma scan_resources_clean:
  assumes "scan_resources patterns ord bytes fs sk rs = Inr flags" and "\<not> has_critical flags"
    and "r \<in> set rs" and "read_resource_capped bytes fs sk r = Inr (Some s)"
  shows "text_clean patterns ord s"
  using assms
proof (induction rs arbitrary: flags)
  case (Cons x rs)
  then show ?case
    by (auto simp: scan_text_clean [symmetric, where loc = r] has_critical_def bind_res_Inr_iff split: sum.splits option.splits)
qed simp

lemma vet_clean_static:
  assumes "vet_skill patterns ord bytes reviewer strict fs sk = Inr r" and "vr_clean r"
  shows "\<exists>static. scan patterns ord bytes fs sk = Inr static \<and> \<not> has_critical (vr_flags static)"
  using assms by (auto simp: vet_skill_def bind_res_Inr_iff Let_def has_critical_def split: sum.splits if_splits)

text \<open>
  C20: A skill that vetting finds clean, with any reviewer and whether or not findings raise, has no critical pattern
  and no hidden character in the body of its main file nor in any resource it lists that is not over the size limit.
\<close>
theorem clean_skill_has_clean_texts:
  assumes "vet_skill patterns ord bytes reviewer strict fs sk = Inr r" and "vr_clean r"
  shows "\<exists>body rs. read_main fs sk = Inr body \<and> text_clean patterns ord body
    \<and> list_resources (\<lambda>_ _. True) fs sk None None = Inr rs
    \<and> (\<forall>x s. x \<in> set rs \<and> read_resource_capped bytes fs sk x = Inr (Some s) \<longrightarrow> text_clean patterns ord s)"
proof -
  obtain static where st: "scan patterns ord bytes fs sk = Inr static" "\<not> has_critical (vr_flags static)"
    using vet_clean_static [OF assms] by blast
  then obtain body rs flags where parts: "read_main fs sk = Inr body" "list_resources (\<lambda>_ _. True) fs sk None None = Inr rs"
      "scan_resources patterns ord bytes fs sk rs = Inr flags" "vr_flags static = scan_text patterns ord ''SKILL.md'' body @ flags"
    by (auto simp: scan_def bind_res_Inr_iff Let_def split: sum.splits)
  then have "\<not> has_critical (scan_text patterns ord ''SKILL.md'' body)" "\<not> has_critical flags"
    using st(2) by (simp_all add: has_critical_def)
  then show ?thesis using parts scan_resources_clean [OF parts(3)] by (auto simp: scan_text_clean)
qed

section \<open>Resources stay inside the skill\<close>

lemma strip_common_prefix: "strip_common p (p @ q) = ([], q)"
proof (induction p)
  case Nil
  then show ?case by (cases q) simp_all
qed simp

lemma os_read_plain: "plain fs q \<Longrightarrow> os_read fs q = Inr c \<Longrightarrow> dget fs q = Some (File c)"
  by (cases "parents_ok fs [] q") (auto simp: os_read_def kernel_path_def real_comps_of_plain bind_res_Inr_iff split: option.splits node.splits)

text \<open>
  Reading a resource of a skill never leaves the skill: as long as the links met do not form a loop, what is read is
  the content of a file below the root of the skill, in one of the three resource directories.
\<close>
theorem resource_confined:
  assumes "plain fs (sk_root sk)" and "snd (real_comps fs [] (wanted (sk_root sk) relative))" and "read_resource fs sk relative = Inr c"
  shows "\<exists>rel. dget fs (sk_root sk @ rel) = Some (File c) \<and> in_resources resource_dirs (py_join ''/'' rel)"
proof -
  let ?p = "sk_root sk"
  obtain q where q: "resolve fs ?p relative = Inr q" "in_resources resource_dirs (relpath q ?p)" "os_read fs q = Inr c"
    using assms(3) by (auto simp: read_resource_def open_root_def real_comps_of_plain [OF assms(1)] bind_res_Inr_iff Let_def split: if_splits)
  then obtain rel where rel: "plain fs q" "q = ?p @ rel" using resolve_plain [OF assms(2)] by (auto simp: prefix_def)
  have "rel \<noteq> []" using q(2) rel(2) by (auto simp: relpath_def strip_common_prefix [of _ "[]", simplified] in_resources_def resource_dirs_def startswith_def)
  then show ?thesis using q rel os_read_plain by (auto simp: relpath_def strip_common_prefix)
qed

definition skill_fs :: fsys where
  "skill_fs = [([''s''], Dir), ([''s'', ''fmt''], Dir),
     ([''s'', ''fmt'', ''SKILL.md''], File (''---'' @ [LF] @ ''name: fmt'' @ [LF] @ ''description: Format code'' @ [LF] @ ''---'' @ [LF] @ ''Use it.'')),
     ([''s'', ''fmt'', ''scripts''], Dir), ([''s'', ''fmt'', ''scripts'', ''run.sh''], File ''black .'')]"

definition fmt_skill :: skill where
  "fmt_skill = \<lparr>sk_name = ''fmt'', sk_description = ''Format code'', sk_source = ''zip'', sk_root = [''s'', ''fmt''],
     sk_version = None, sk_type = ''repo'', sk_triggers = []\<rparr>"

definition sample_ord :: "char \<Rightarrow> int" where
  "sample_ord c = int (code_of c)"

definition sample_bytes :: "string \<Rightarrow> int" where
  "sample_bytes s = int (length s)"

theorem resource_confined_witness:
  "\<exists>rel. dget skill_fs ([''s'', ''fmt''] @ rel) = Some (File ''black .'') \<and> in_resources resource_dirs (py_join ''/'' rel)"
proof -
  have "plain skill_fs ([] @ [''s''] @ [''fmt''])"
    unfolding append_assoc [symmetric] by (intro plain_snoc plain_Nil) (simp_all add: proper_def is_link_def skill_fs_def)
  then have "plain skill_fs (sk_root fmt_skill)" by (simp add: fmt_skill_def)
  moreover have "snd (real_comps skill_fs [] (wanted (sk_root fmt_skill) ''scripts/../scripts/run.sh''))" by code_simp
  moreover have "read_resource skill_fs fmt_skill ''scripts/../scripts/run.sh'' = Inr ''black .''" by code_simp
  ultimately have "\<exists>rel. dget skill_fs (sk_root fmt_skill @ rel) = Some (File ''black .'') \<and> in_resources resource_dirs (py_join ''/'' rel)"
    by (rule resource_confined)
  then show ?thesis by (simp add: fmt_skill_def)
qed

theorem clean_skill_has_clean_texts_witness:
  "\<exists>body rs. read_main skill_fs fmt_skill = Inr body \<and> text_clean [] sample_ord body
    \<and> list_resources (\<lambda>_ _. True) skill_fs fmt_skill None None = Inr rs
    \<and> (\<forall>x s. x \<in> set rs \<and> read_resource_capped sample_bytes skill_fs fmt_skill x = Inr (Some s) \<longrightarrow> text_clean [] sample_ord s)"
proof -
  have "vet_skill [] sample_ord sample_bytes None True skill_fs fmt_skill = Inr \<lparr>vr_clean = True, vr_flags = [], vr_reviewed = False\<rparr>" by code_simp
  from clean_skill_has_clean_texts [OF this] show ?thesis by simp
qed

section \<open>Discovered skills are well formed\<close>

definition skill_wf :: "skill \<Rightarrow> bool" where
  "skill_wf sk = (skill_name_ok (sk_name sk) \<and> \<not> is_blank (sk_description sk) \<and> sk_type sk \<in> {''repo'', ''knowledge''}
     \<and> (length (truncation_notice (sk_source sk)) \<le> 1024 \<longrightarrow> length (sk_description sk) \<le> 1024))"

lemma short_description_ok:
  assumes "\<not> is_blank d"
  shows "\<not> is_blank (short_description source d) \<and> (length (truncation_notice source) \<le> 1024 \<longrightarrow> length (short_description source d) \<le> 1024)"
proof -
  have "CHR ''.'' \<in> set (truncation_notice source)" "\<not> is_space (CHR ''.'')" by (simp add: truncation_notice_def, code_simp)
  then have "\<not> is_blank (x @ truncation_notice source)" for x by (auto simp: is_blank_iff)
  then show ?thesis using assms by (simp add: short_description_def Let_def)
qed

lemma make_skill_wf: "make_skill fs sk = Inr sk' \<Longrightarrow> skill_wf sk' \<and> sk_source sk' = sk_source sk \<and> sk_name sk' = sk_name sk
    \<and> sk_root sk' = fst (real_comps fs [] (sk_root sk))"
  using short_description_ok [of "sk_description sk" "sk_source sk"] by (auto simp: make_skill_def skill_wf_def parse_error_def split: if_splits)

lemma real_comps_idem: "snd (real_comps fs [] p) \<Longrightarrow> real_comps fs [] (fst (real_comps fs [] p)) = (fst (real_comps fs [] p), True)"
  using real_comps_plain [of fs "[]" p] by (simp add: real_comps_of_plain)

lemma from_directory_wf:
  assumes "from_directory fs folder label = Inr sk" and "is_folder fs folder"
  shows "skill_wf sk \<and> sk_source sk = label \<and> sk_name sk = basename (sk_root sk) \<and> sk_root sk = fst (real_comps fs [] folder) \<and> is_dir fs (sk_root sk)"
proof -
  have "snd (real_comps fs [] folder)" "is_dir fs (fst (real_comps fs [] folder))" using assms(2) by (simp_all add: is_folder_def)
  then show ?thesis using assms(1) real_comps_idem [of fs folder]
    by (auto simp: from_directory_def Let_def bind_res_Inr_iff parse_error_def split: if_splits dest!: make_skill_wf)
qed

lemma discover_entries_wf:
  assumes "discover_entries fs label base es seen = Inr sks"
  shows "(\<forall>sk \<in> set sks. skill_wf sk \<and> sk_source sk = label \<and> sk_name sk = basename (sk_root sk) \<and> is_dir fs (sk_root sk) \<and> sk_root sk \<notin> set seen)
    \<and> distinct (map sk_root sks)"
  using assms
proof (induction es arbitrary: seen sks)
  case (Cons e es)
  let ?folder = "base @ [e]"
  show ?case
  proof (cases "\<not> is_folder fs ?folder \<or> \<not> is_file fs (?folder @ [''SKILL.md'']) \<or> fst (real_comps fs [] ?folder) \<in> set seen")
    case True
    then show ?thesis using Cons by (simp add: Let_def)
  next
    case False
    show ?thesis
    proof (cases "from_directory fs ?folder label")
      case (Inl x)
      then show ?thesis using False Cons by (auto simp: Let_def split: if_splits)
    next
      case (Inr sk)
      then obtain rest where rest: "discover_entries fs label base es (fst (real_comps fs [] ?folder) # seen) = Inr rest" "sks = sk # rest"
        using False Cons.prems by (auto simp: Let_def bind_res_Inr_iff)
      then show ?thesis using Cons.IH [OF rest(1)] from_directory_wf [OF Inr] False by auto
    qed
  qed
qed simp

text \<open>
  A label whose truncation notice alone is longer than the limit makes the slice bound negative, and a long description
  then stays too long.
\<close>

lemma long_label_exceeds_limit:
  "length d > 1024 \<Longrightarrow> length (truncation_notice source) > 1024 \<Longrightarrow> length (short_description source d) > 1024"
  by (simp add: short_description_def Let_def)

text \<open>
  C22: every skill that discovery returns is well formed: its name has the form of a skill name and is the name of its
  directory, its description is not blank and, if the truncation notice with the loader's label is itself at most 1024
  characters long, at most 1024 characters long, its type is one of the two, its source is the label of the loader and
  its root an existing directory; no directory is returned twice, through links or not.
\<close>
theorem discovered_skills_wf:
  assumes "discover fs label base = Inr sks"
  shows "(\<forall>sk \<in> set sks. skill_wf sk \<and> sk_source sk = label \<and> sk_name sk = basename (sk_root sk) \<and> is_dir fs (sk_root sk)) \<and> distinct (map sk_root sks)"
  using discover_entries_wf [OF assms [unfolded discover_def]] by simp

theorem discovered_skills_wf_witness:
  "discover skill_fs ''zip'' [''s''] = Inr [fmt_skill] \<and> skill_wf fmt_skill \<and> is_dir skill_fs [''s'', ''fmt'']"
proof -
  have "discover skill_fs ''zip'' [''s''] = Inr [fmt_skill]" by code_simp
  from this discovered_skills_wf [OF this] show ?thesis by (simp add: fmt_skill_def)
qed

section \<open>Limits\<close>

text \<open>A name may end in a line feed.\<close>

lemma name_newline_accepted: "skill_name_ok (''fmt'' @ [LF])"
  by code_simp

text \<open>The description, which the catalogue shows to the model, is not vetted.\<close>

lemma description_not_vetted:
  "vet_skill patterns ord bytes None strict fs (sk\<lparr>sk_description := d\<rparr>) = vet_skill patterns ord bytes None strict fs sk"
proof -
  have res: "read_resource_capped bytes fs (sk\<lparr>sk_description := d\<rparr>) r = read_resource_capped bytes fs sk r" for r
    by (simp add: read_resource_capped_def read_resource_def cong: if_cong)
  have "scan_resources patterns ord bytes fs (sk\<lparr>sk_description := d\<rparr>) rs = scan_resources patterns ord bytes fs sk rs" for rs
    by (induction rs) (simp_all add: res)
  then show ?thesis by (simp add: vet_skill_def scan_def read_main_def list_resources_def Let_def cong: if_cong)
qed

end
