(* ===== verification/Delegation.thy ===== *)
theory Delegation
  imports Agent_Worlds Skill_Package
begin

text \<open>
  Sub-agents (\<open>subagent/manifest.py\<close>, \<open>delegation.py\<close>, \<open>tool.py\<close>, \<open>pool.py\<close>). A delegating tool call spawns an agent from the
  specification it names, runs it on the task and answers with its final message; the agent inherits the tools, the
  delegating tool among them, so delegation nests. The whole tree shares one budget and every agent has its own
  breaker; both are part of the world, and the guard around the model charges them. Delegation is indexed by the
  depth that is left: at depth zero it only marks the world, and \<open>delegation_depth_bounded\<close> shows that the mark is never
  reached. Other tools, the model, hooks and the rest of the world are arbitrary.
\<close>

section \<open>Specifications\<close>

record subagent_spec =
  sp_name :: string
  sp_prompt :: string
  sp_description :: string
  sp_model :: "string option"

definition spec_error :: "string \<Rightarrow> 'a result" where
  "spec_error m = Inl (Exn ''SubagentSpecError'' m)"

definition make_spec :: "subagent_spec \<Rightarrow> subagent_spec result" where
  "make_spec sp =
     (if \<not> skill_name_ok (sp_name sp)
      then spec_error (''Invalid sub-agent name '' @ repr_str (sp_name sp) @ '': must match '' @ repr_str ''^[a-z0-9]+(-[a-z0-9]+)*$'' @ '' and be <= 64 chars'')
      else if is_blank (sp_prompt sp)
      then spec_error (''Sub-agent '' @ repr_str (sp_name sp) @ '' must declare a non-empty system_prompt (sub-agents never inherit the parent's system message)'')
      else Inr sp)"

definition load_subagent_spec :: "fsys \<Rightarrow> path \<Rightarrow> subagent_spec result" where
  "load_subagent_spec fs file = (case bind_res (os_read fs file) (\<lambda>content. split_frontmatter content (path_str file)) of
     Inl e \<Rightarrow> spec_error (exn_msg e)
   | Inr (fm, body) \<Rightarrow> make_spec \<lparr>sp_name = field fm ''name'', sp_prompt = body, sp_description = field fm ''description'',
        sp_model = (if field fm ''model'' = [] then None else Some (field fm ''model''))\<rparr>)"

section \<open>The tree and its guard\<close>

record 'x tree =
  tr_world :: 'x
  tr_budget :: spawn_budget
  tr_breakers :: "(string, breaker) dict"
  tr_root :: "string option"
  tr_deep :: bool

record 'w llm_client =
  lc_model :: "string option"
  lc_chat :: "message list \<Rightarrow> json list option \<Rightarrow> string option \<Rightarrow> 'w \<Rightarrow> llm_response result \<times> 'w"
  lc_stream :: "message list \<Rightarrow> json list option \<Rightarrow> string option \<Rightarrow> 'w \<Rightarrow> (stream_item list \<times> exn option) \<times> 'w"

text \<open>A client need not have a model; its guard names it ``unknown'' then. The breaker of an agent is created when the agent is.\<close>

definition guard_model :: "'w llm_client \<Rightarrow> string" where
  "guard_model cl = (case lc_model cl of Some m \<Rightarrow> m | None \<Rightarrow> ''unknown'')"

definition breaker_of :: "string \<Rightarrow> 'x tree \<Rightarrow> breaker" where
  "breaker_of agent_id w = (case dget (tr_breakers w) agent_id of Some b \<Rightarrow> b | None \<Rightarrow> \<lparr>br_max = 0, br_last_key = None, br_count = 0\<rparr>)"

fun charge_calls :: "string \<Rightarrow> tool_call list \<Rightarrow> 'x tree \<Rightarrow> unit result \<times> 'x tree" where
  "charge_calls agent_id [] w = (Inr (), w)"
| "charge_calls agent_id (call # calls) w =
     (case record_tool_call agent_id (call_name call) (tr_budget w) of
        Inl e \<Rightarrow> (Inl e, w)
      | Inr b \<Rightarrow> (case breaker_record (call_name call) (JObj (call_arguments call)) (breaker_of agent_id w) of
           (br, trip) \<Rightarrow>
             (let w1 = w\<lparr>tr_budget := b, tr_breakers := dset (tr_breakers w) agent_id br\<rparr>
              in case trip of Some e \<Rightarrow> (Inl e, w1) | None \<Rightarrow> charge_calls agent_id calls w1)))"

definition guarded_chat :: "string \<Rightarrow> 'x tree llm_client \<Rightarrow> message list \<Rightarrow> json list option \<Rightarrow> string option \<Rightarrow> 'x tree \<Rightarrow> llm_response result \<times> 'x tree" where
  "guarded_chat agent_id cl ms ts sys w = (case lc_chat cl ms ts sys w of
     (Inl e, w1) \<Rightarrow> (Inl e, w1)
   | (Inr r, w1) \<Rightarrow> (case charge_calls agent_id (resp_tool_calls r) w1 of (Inl e, w2) \<Rightarrow> (Inl e, w2) | (Inr _, w2) \<Rightarrow> (Inr r, w2)))"

fun guard_items :: "string \<Rightarrow> stream_item list \<Rightarrow> exn option \<Rightarrow> 'x tree \<Rightarrow> (stream_item list \<times> exn option) \<times> 'x tree" where
  "guard_items agent_id [] ending w = (([], ending), w)"
| "guard_items agent_id (StreamDone r # items) ending w = (case charge_calls agent_id (resp_tool_calls r) w of
     (Inl e, w1) \<Rightarrow> (([], Some e), w1)
   | (Inr _, w1) \<Rightarrow> (case guard_items agent_id items ending w1 of ((out, en), w2) \<Rightarrow> ((StreamDone r # out, en), w2)))"
| "guard_items agent_id (i # items) ending w = (case guard_items agent_id items ending w of ((out, en), w2) \<Rightarrow> ((i # out, en), w2))"

definition guarded_stream :: "string \<Rightarrow> 'x tree llm_client \<Rightarrow> message list \<Rightarrow> json list option \<Rightarrow> string option \<Rightarrow> 'x tree
    \<Rightarrow> (stream_item list \<times> exn option) \<times> 'x tree" where
  "guarded_stream agent_id cl ms ts sys w = (case lc_stream cl ms ts sys w of ((items, ending), w1) \<Rightarrow> guard_items agent_id items ending w1)"

section \<open>Spawning\<close>

record 'x delegation =
  dg_bound :: bool
  dg_specs :: "(string, subagent_spec) dict"
  dg_repeats :: json
  dg_factory :: "(string \<Rightarrow> 'x tree \<Rightarrow> 'x tree llm_client result \<times> 'x tree) option"
  dg_execute :: "string \<Rightarrow> tool \<Rightarrow> obj \<Rightarrow> 'x tree \<Rightarrow> exec_report \<times> 'x tree"

fun check_specs :: "(string \<times> subagent_spec) list \<Rightarrow> unit result" where
  "check_specs [] = Inr ()"
| "check_specs ((key, sp) # rest) = (if key \<noteq> sp_name sp
     then Inl (Exn ''ValueError'' (''Registry key '' @ repr_str key @ '' does not match spec name '' @ repr_str (sp_name sp))) else check_specs rest)"

definition subagent_error :: "string \<Rightarrow> 'a result" where
  "subagent_error m = Inl (Exn ''SubagentError'' m)"

definition or_else :: "string option \<Rightarrow> string option \<Rightarrow> string option" where
  "or_else a b = (case a of Some (x # xs) \<Rightarrow> a | _ \<Rightarrow> b)"

definition choose_client :: "'x delegation \<Rightarrow> 'x tree llm_client \<Rightarrow> subagent_spec \<Rightarrow> 'x tree \<Rightarrow> 'x tree llm_client result \<times> 'x tree" where
  "choose_client D cl sp w = (case dg_factory D of
     Some factory \<Rightarrow> (case or_else (sp_model sp) (lc_model cl) of
        None \<Rightarrow> (subagent_error (''Sub-agent '' @ repr_str (sp_name sp) @ '' cannot use llm_factory because the parent client has no model name''), w)
      | Some m \<Rightarrow> factory m w)
   | None \<Rightarrow> if sp_model sp \<noteq> None \<and> sp_model sp \<noteq> lc_model cl
       then (subagent_error (''Sub-agent '' @ repr_str (sp_name sp) @ '' requests model '' @ repr_str (the (sp_model sp))
               @ '', which differs from the parent's model; pass llm_factory to build a client for it (or leave spec.model=None to inherit)''), w)
       else (Inr cl, w))"

text \<open>What a sub-agent takes from its parent, and the defaults of the constructor for everything else.\<close>

definition child_config :: "'w config \<Rightarrow> (tool \<Rightarrow> obj \<Rightarrow> 'w \<Rightarrow> exec_report \<times> 'w) \<Rightarrow> 'w config" where
  "child_config c ex = c\<lparr>c_execute := ex, c_cancelled := (\<lambda>_. False), c_checkpoint := None, c_tool_timeout := None,
     c_validate := True, c_parallel := False, c_max_transient_retries := 2, c_backoff := 1 / 4, c_guard := True\<rparr>"

definition child_services :: "'x tree services \<Rightarrow> string \<Rightarrow> 'x tree llm_client \<Rightarrow> 'x tree services" where
  "child_services v agent_id cl = v\<lparr>v_chat := guarded_chat agent_id cl, v_chat_stream := guarded_stream agent_id cl, v_planner := None,
     v_verifier := None, v_memory := None, v_save := None, v_snapshot := None, v_clear_cancel := (\<lambda>w. w), v_inbox := (\<lambda>w. ([], w)), v_await := (\<lambda>w. w),
     v_max_verification_retries := 1, v_verification_required := False\<rparr>"

definition agent_id_for :: "'x tree services \<Rightarrow> string option \<Rightarrow> 'x tree \<Rightarrow> string \<times> 'x tree" where
  "agent_id_for v me w = (case me of
     Some i \<Rightarrow> (i, w)
   | None \<Rightarrow> (case tr_root w of Some i \<Rightarrow> (i, w) | None \<Rightarrow> (case v_uuid v w of (i, w1) \<Rightarrow> (i, w1\<lparr>tr_root := Some i\<rparr>))))"

definition audit_event :: "'x tree config \<Rightarrow> string \<Rightarrow> string \<Rightarrow> obj \<Rightarrow> 'x tree \<Rightarrow> unit result \<times> 'x tree" where
  "audit_event c ev subject extra w = (case c_stamp c w of ((uid, ts), w1) \<Rightarrow> c_audit c (log_event (c_redact c) uid ts ev subject extra) w1)"

definition audit_spawn :: "'x tree config \<Rightarrow> 'x tree services \<Rightarrow> string option \<Rightarrow> subagent_spec \<Rightarrow> string \<Rightarrow> string \<Rightarrow> 'x tree \<Rightarrow> unit result \<times> 'x tree" where
  "audit_spawn c v me sp agent_id model w = (case agent_id_for v me w of (parent_id, w1) \<Rightarrow>
     audit_event c ''subagent_spawn'' (sp_name sp) [(''parent_agent_id'', JStr parent_id), (''agent_id'', JStr agent_id),
       (''spec_name'', JStr (sp_name sp)), (''model'', JStr model), (''budget_used'', JInt (int (sb_used (tr_budget w1)))),
       (''budget_max'', JInt (int (sb_max (tr_budget w1))))] w1)"

definition audit_finish :: "'x tree config \<Rightarrow> subagent_spec \<Rightarrow> string \<Rightarrow> string \<Rightarrow> string \<Rightarrow> 'x tree \<Rightarrow> unit result \<times> 'x tree" where
  "audit_finish c sp agent_id outcome detail w = audit_event c ''subagent_finished'' (sp_name sp)
     [(''agent_id'', JStr agent_id), (''spec_name'', JStr (sp_name sp)), (''outcome'', JStr outcome), (''detail'', JStr detail)] w"

definition announce_spawn :: "'x tree config \<Rightarrow> 'x tree services \<Rightarrow> string option \<Rightarrow> subagent_spec \<Rightarrow> string \<Rightarrow> 'x tree \<Rightarrow> 'x tree" where
  "announce_spawn c v me sp agent_id w = (case agent_id_for v me w of (parent_id, w1) \<Rightarrow>
     publish (c_bus c) \<lparr>event_type = ''subagent.spawned'', event_payload = [(''spec_name'', JStr (sp_name sp)), (''agent_id'', JStr agent_id),
       (''parent_agent_id'', JStr parent_id)], event_source = Some ''subagent''\<rparr> w1)"

definition fresh_child :: "'x tree config \<Rightarrow> (string, tool) dict \<Rightarrow> int option \<Rightarrow> subagent_spec \<Rightarrow> 'x tree \<Rightarrow> 'x tree agent result" where
  "fresh_child c tools cap sp w = init_agent c 1 (map snd tools) w (Some (empty_state\<lparr>system_prompt := Some (sp_prompt sp)\<rparr>)) None cap None None"

text \<open>The identifier, the client and the agent; \<open>ex\<close> executes the tools of the agent with the given identifier and client.\<close>

definition spawn_subagent :: "'x delegation \<Rightarrow> 'x tree config \<Rightarrow> 'x tree services \<Rightarrow> 'x tree llm_client \<Rightarrow> string option \<Rightarrow> (string, tool) dict \<Rightarrow> int option
    \<Rightarrow> (string \<Rightarrow> 'x tree llm_client \<Rightarrow> tool \<Rightarrow> obj \<Rightarrow> 'x tree \<Rightarrow> exec_report \<times> 'x tree) \<Rightarrow> subagent_spec \<Rightarrow> 'x tree
    \<Rightarrow> (string \<times> 'x tree llm_client \<times> 'x tree agent) result \<times> 'x tree" where
  "spawn_subagent D c v cl me tools cap ex sp w = (case choose_client D cl sp w of
     (Inl e, w1) \<Rightarrow> (Inl e, w1)
   | (Inr cl', w1) \<Rightarrow> (case v_uuid v w1 of (agent_id, w2) \<Rightarrow> (case breaker_init (dg_repeats D) of
        Inl e \<Rightarrow> (Inl e, w2)
      | Inr br \<Rightarrow>
          (let w3 = w2\<lparr>tr_breakers := dset (tr_breakers w2) agent_id br\<rparr> in
           case fresh_child (child_config c (ex agent_id cl')) tools cap sp w3 of
             Inl e \<Rightarrow> (Inl e, w3)
           | Inr child \<Rightarrow> (case audit_spawn c v me sp agent_id (guard_model cl') w3 of
                (Inl e, w4) \<Rightarrow> (Inl e, w4)
              | (Inr _, w4) \<Rightarrow> (let w5 = announce_spawn c v me sp agent_id w4 in (Inr (agent_id, cl', child\<lparr>a_world := w5\<rparr>), w5)))))))"

definition finish_outcome :: "exn \<Rightarrow> string \<times> string" where
  "finish_outcome e = (if exn_class e = ''BudgetExceededError'' then (''budget_exceeded'', exn_msg e)
     else if exn_class e = ''RepetitionLimitError'' then (''repetition_limit'', exn_msg e) else (''error'', exn_text e))"

definition run_subagent :: "'x delegation \<Rightarrow> 'x tree config \<Rightarrow> 'x tree services \<Rightarrow> 'x tree llm_client \<Rightarrow> string option \<Rightarrow> (string, tool) dict \<Rightarrow> int option
    \<Rightarrow> (string \<Rightarrow> 'x tree llm_client \<Rightarrow> tool \<Rightarrow> obj \<Rightarrow> 'x tree \<Rightarrow> exec_report \<times> 'x tree) \<Rightarrow> subagent_spec \<Rightarrow> string \<Rightarrow> 'x tree
    \<Rightarrow> (string \<times> string) result \<times> 'x tree" where
  "run_subagent D c v cl me tools cap ex sp task w = (case spawn_subagent D c v cl me tools cap ex sp w of
     (Inl e, w1) \<Rightarrow> (Inl e, w1)
   | (Inr (agent_id, cl', child), w1) \<Rightarrow>
       (case run (child_config c (ex agent_id cl')) (child_services v agent_id cl') (Some task) False None None None child of
          (Inl e, s) \<Rightarrow> (case audit_finish c sp agent_id (fst (finish_outcome e)) (snd (finish_outcome e)) (a_world s) of
             (Inl e', w2) \<Rightarrow> (Inl e', w2) | (Inr _, w2) \<Rightarrow> (Inl e, w2))
        | (Inr final, s) \<Rightarrow> (case audit_finish c sp agent_id ''completed'' final (a_world s) of
             (Inl e', w2) \<Rightarrow> (Inl e', w2) | (Inr _, w2) \<Rightarrow> (Inr (final, agent_id), w2))))"

section \<open>The delegating tool\<close>

definition delegate_name :: string where
  "delegate_name = ''delegate''"

definition delegate_args :: "obj \<Rightarrow> (string \<times> string) result" where
  "delegate_args args = (case (dget args ''subagent_name'', dget args ''task_prompt'') of
     (Some (JStr name), Some (JStr task)) \<Rightarrow>
       if length args = 2 then Inr (name, task) else Inl (Exn ''TypeError'' ''execute() got an unexpected keyword argument'')
   | (None, _) \<Rightarrow> Inl (Exn ''TypeError'' ''execute() missing a required positional argument'')
   | (_, None) \<Rightarrow> Inl (Exn ''TypeError'' ''execute() missing a required positional argument'')
   | _ \<Rightarrow> Inl (Exn ''Unmodelled'' ''arguments that are no strings''))"

definition unknown_subagent :: "(string, subagent_spec) dict \<Rightarrow> string \<Rightarrow> tool_result" where
  "unknown_subagent specs name = err_result (''Unknown sub-agent '' @ repr_str name @ ''. Registered: ''
     @ (if specs = [] then ''(none)'' else py_join '', '' (sort (map fst specs))))"

definition delegated :: "'w config \<Rightarrow> subagent_spec \<Rightarrow> (string \<times> string) result \<Rightarrow> tool_result" where
  "delegated c sp out = (case out of
     Inl e \<Rightarrow> err_result (exn_text e)
   | Inr (final, agent_id) \<Rightarrow> ok_result (JObj [(''subagent'', JStr (sp_name sp)), (''agent_id'', JStr agent_id), (''final_message'', JStr (c_redact c final))]))"

definition timed :: "'w config \<Rightarrow> rat option \<Rightarrow> 'w \<Rightarrow> exec_outcome \<times> 'w \<Rightarrow> exec_report \<times> 'w" where
  "timed c limit w r = (let d = c_clock c (snd r) - c_clock c w in
     (\<lparr>rep_outcome = fst r, rep_duration = d, rep_late = (case limit of None \<Rightarrow> False | Some l \<Rightarrow> d > l)\<rparr>, snd r))"

text \<open>An agent of the tree executes its delegating tool at the depth that is left, and every other tool as itself.\<close>

fun delegate :: "nat \<Rightarrow> 'x delegation \<Rightarrow> 'x tree config \<Rightarrow> 'x tree services \<Rightarrow> 'x tree llm_client \<Rightarrow> string option \<Rightarrow> (string, tool) dict \<Rightarrow> int option
    \<Rightarrow> obj \<Rightarrow> 'x tree \<Rightarrow> exec_outcome \<times> 'x tree" where
  "delegate 0 D c v cl me tools cap args w = (ExecRaised (Exn ''RecursionError'' []), w\<lparr>tr_deep := True\<rparr>)"
| "delegate (Suc n) D c v cl me tools cap args w = (case delegate_args args of
     Inl e \<Rightarrow> (ExecRaised e, w)
   | Inr (name, task) \<Rightarrow>
       if \<not> dg_bound D
       then (ExecResult (err_result ''DelegateTool is not bound to an agent; call delegate_tool.bind(agent) after constructing the agent''), w)
       else (case dget (dg_specs D) name of
          None \<Rightarrow> (ExecResult (unknown_subagent (dg_specs D) name), w)
        | Some sp \<Rightarrow> (case run_subagent D c v cl me tools cap
              (\<lambda>i cl' t a x. if tool_name t = delegate_name then timed c None x (delegate n D c v cl' (Some i) tools cap a x) else dg_execute D i t a x)
              sp task w of
             (out, w1) \<Rightarrow> (ExecResult (delegated c sp out), w1))))"

text \<open>The root agent, with a depth for delegation; \<open>charged\<close> is \<open>charge_root_tool_calls\<close>.\<close>

definition root_config :: "nat \<Rightarrow> 'x delegation \<Rightarrow> 'x tree config \<Rightarrow> 'x tree services \<Rightarrow> 'x tree llm_client \<Rightarrow> 'x tree agent \<Rightarrow> 'x tree config" where
  "root_config n D c v cl s = c\<lparr>c_execute := (\<lambda>t a x. if tool_name t = delegate_name
     then timed c (c_tool_timeout c) x (delegate n D c v cl None (a_tools s) (a_override s) a x) else c_execute c t a x)\<rparr>"

definition root_services :: "bool \<Rightarrow> 'x tree services \<Rightarrow> 'x tree llm_client \<Rightarrow> 'x tree services" where
  "root_services charged v cl = (if charged then v\<lparr>v_chat := guarded_chat ''root'' cl, v_chat_stream := guarded_stream ''root'' cl\<rparr>
     else v\<lparr>v_chat := lc_chat cl, v_chat_stream := lc_stream cl\<rparr>)"

text \<open>Binding the tool to the root agent.\<close>

definition bind_root :: "bool \<Rightarrow> 'x delegation \<Rightarrow> 'x tree \<Rightarrow> ('x delegation \<times> 'x tree) result" where
  "bind_root charged D w = (if charged
     then bind_res (breaker_init (dg_repeats D)) (\<lambda>br. Inr (D\<lparr>dg_bound := True\<rparr>, w\<lparr>tr_breakers := dset (tr_breakers w) ''root'' br\<rparr>))
     else Inr (D\<lparr>dg_bound := True\<rparr>, w))"

section \<open>The depth of delegation\<close>

text \<open>A step of the tree: the budget only grows, within its limit, and the depth is not exhausted.\<close>

definition tree_step :: "'x tree \<Rightarrow> 'x tree \<Rightarrow> bool" where
  "tree_step w x = (sb_max (tr_budget x) = sb_max (tr_budget w) \<and> sb_used (tr_budget w) \<le> sb_used (tr_budget x)
     \<and> (sb_used (tr_budget w) \<le> sb_max (tr_budget w) \<longrightarrow> sb_used (tr_budget x) \<le> sb_max (tr_budget x)) \<and> (tr_deep x \<longrightarrow> tr_deep w))"

definition left :: "'x tree \<Rightarrow> nat" where
  "left w = sb_max (tr_budget w) - sb_used (tr_budget w)"

definition client_keeps :: "'x tree llm_client \<Rightarrow> bool" where
  "client_keeps cl = ((\<forall>ms ts sys w. tree_step w (snd (lc_chat cl ms ts sys w))) \<and> (\<forall>ms ts sys w. tree_step w (snd (lc_stream cl ms ts sys w))))"

text \<open>The collaborators of a tree other than its agents: none of them touches the budget or delegates.\<close>

definition tree_keeps :: "'x delegation \<Rightarrow> 'x tree config \<Rightarrow> 'x tree services \<Rightarrow> bool" where
  "tree_keeps D c v = (config_keeps tree_step c \<and> services_keep tree_step v \<and> tools_keep tree_step c
     \<and> (\<forall>i t a w. tree_step w (snd (dg_execute D i t a w)))
     \<and> (\<forall>f m w. dg_factory D = Some f \<longrightarrow> tree_step w (snd (f m w)) \<and> (\<forall>cl. fst (f m w) = Inr cl \<longrightarrow> client_keeps cl)))"

lemma tree_step_refl [simp]: "tree_step w w"
  by (simp add: tree_step_def)

lemma tree_step_trans: "tree_step w x \<Longrightarrow> tree_step x y \<Longrightarrow> tree_step w y"
  by (auto simp: tree_step_def)

lemma tree_step_left: "tree_step w x \<Longrightarrow> left x \<le> left w"
  by (auto simp: tree_step_def left_def)

lemma tree_step_within: "tree_step w x \<Longrightarrow> left w \<le> n \<Longrightarrow> left x \<le> n" "tree_step w x \<Longrightarrow> left w < n \<Longrightarrow> left x < n"
  using tree_step_left [of w x] by simp_all

lemma tree_step_breakers [simp]: "tree_step w (x\<lparr>tr_breakers := d\<rparr>) = tree_step w x" "tree_step w (x\<lparr>tr_root := i\<rparr>) = tree_step w x"
  by (simp_all add: tree_step_def)

lemma services_keep_mono: "services_keep V v \<Longrightarrow> (\<And>w x. V w x \<Longrightarrow> U w x) \<Longrightarrow> services_keep U v"
  unfolding services_keep_def memory_keeps_def by simp

text \<open>Charging a response that asks for tools uses some of the budget.\<close>

lemma charge_calls_step: "charge_calls i calls w = (r, w') \<Longrightarrow> tree_step w w' \<and> (r = Inr () \<longrightarrow> calls \<noteq> [] \<longrightarrow> left w' < left w)"
proof (induction i calls w arbitrary: r w' rule: charge_calls.induct)
  case (2 i call calls w)
  show ?case
  proof (cases "record_tool_call i (call_name call) (tr_budget w)")
    case (Inr b)
    let ?w = "\<lambda>d. w\<lparr>tr_budget := b, tr_breakers := d\<rparr>"
    have b: "sb_used b = Suc (sb_used (tr_budget w))" "sb_max b = sb_max (tr_budget w)" "sb_used (tr_budget w) < sb_max (tr_budget w)"
      using Inr by (auto simp: record_tool_call_def split: if_splits)
    then have w: "tree_step w (?w d)" "left (?w d) < left w" for d by (auto simp: tree_step_def left_def)
    obtain br trip where br: "breaker_record (call_name call) (JObj (call_arguments call)) (breaker_of i w) = (br, trip)" by fastforce
    let ?d = "dset (tr_breakers w) i br"
    show ?thesis
    proof (cases trip)
      case None
      then have "charge_calls i calls (?w ?d) = (r, w')" using 2(2) Inr br by (simp add: Let_def)
      then have "tree_step (?w ?d) w'" using 2(1) [OF Inr br [symmetric] refl None] by blast
      then show ?thesis using w tree_step_trans tree_step_left by (metis le_less_trans)
    qed (use 2(2) Inr br w in \<open>auto simp: Let_def\<close>)
  qed (use 2(2) in auto)
qed simp

lemma guarded_chat_step:
  assumes "client_keeps cl" "guarded_chat i cl ms ts sys w = (q, w')"
  shows "tree_step w w' \<and> (\<forall>r. q = Inr r \<longrightarrow> resp_tool_calls r \<noteq> [] \<longrightarrow> left w' < left w)"
proof -
  obtain q1 w1 where chat: "lc_chat cl ms ts sys w = (q1, w1)" by fastforce
  then have w1: "tree_step w w1" using assms(1) unfolding client_keeps_def by (metis snd_conv)
  show ?thesis
  proof (cases q1)
    case (Inr r)
    obtain u w2 where u: "charge_calls i (resp_tool_calls r) w1 = (u, w2)" by fastforce
    then show ?thesis using assms(2) chat Inr charge_calls_step [OF u] tree_step_trans [OF w1] tree_step_left [OF w1]
      by (auto simp: guarded_chat_def split: sum.splits)
  qed (use assms(2) chat w1 in \<open>auto simp: guarded_chat_def\<close>)
qed

lemma guard_items_step:
  "guard_items i items en w = ((out, e), w') \<Longrightarrow> tree_step w w' \<and> (\<forall>r. StreamDone r \<in> set out \<longrightarrow> resp_tool_calls r \<noteq> [] \<longrightarrow> left w' < left w)"
proof (induction items arbitrary: out e w w')
  case (Cons x items)
  show ?case
  proof (cases x)
    case (StreamDone r)
    obtain u w1 where u: "charge_calls i (resp_tool_calls r) w = (u, w1)" by fastforce
    obtain out2 e2 w2 where rest: "guard_items i items en w1 = ((out2, e2), w2)" by (metis prod.exhaust)
    note w1 = charge_calls_step [OF u] and w2 = Cons.IH [OF rest]
    have le: "left w1 \<le> left w" "left w2 \<le> left w1" "tree_step w w2" using w1 w2 tree_step_left tree_step_trans by blast+
    show ?thesis
    proof (cases u)
      case (Inr y)
      then have "out = StreamDone r # out2" "w' = w2" using Cons.prems StreamDone u rest by auto
      then show ?thesis using Inr w1 w2 le by (auto dest: le_less_trans less_le_trans)
    qed (use Cons.prems StreamDone u w1 in auto)
  qed (use Cons in \<open>auto split: prod.splits\<close>)
qed simp

lemma guarded_stream_step:
  assumes "client_keeps cl" "guarded_stream i cl ms ts sys w = ((out, e), w')"
  shows "tree_step w w' \<and> (\<forall>r. StreamDone r \<in> set out \<longrightarrow> resp_tool_calls r \<noteq> [] \<longrightarrow> left w' < left w)"
proof -
  obtain items en w1 where s: "lc_stream cl ms ts sys w = ((items, en), w1)" by (metis prod.exhaust)
  then have w1: "tree_step w w1" using assms(1) unfolding client_keeps_def by (metis snd_conv)
  have "guard_items i items en w1 = ((out, e), w')" using assms(2) s by (simp add: guarded_stream_def)
  from guard_items_step [OF this] show ?thesis using tree_step_trans [OF w1] tree_step_left [OF w1] by fastforce
qed

lemma guarded_model:
  assumes "client_keeps cl"
  shows "model_keeps (\<lambda>x y. left x \<le> m \<longrightarrow> tree_step x y) (\<lambda>x. left x \<le> m) (\<lambda>x. left x < m) (child_services v i cl)"
proof -
  have "tree_step w (snd (guarded_chat i cl ms ts sys w))
      \<and> (\<forall>r. fst (guarded_chat i cl ms ts sys w) = Inr r \<longrightarrow> resp_tool_calls r \<noteq> [] \<longrightarrow> left (snd (guarded_chat i cl ms ts sys w)) < left w)" for ms ts sys w
    using guarded_chat_step [OF assms] by (metis prod.collapse)
  moreover have "tree_step w (snd (guarded_stream i cl ms ts sys w))
      \<and> (\<forall>r. StreamDone r \<in> set (fst (fst (guarded_stream i cl ms ts sys w))) \<longrightarrow> resp_tool_calls r \<noteq> []
           \<longrightarrow> left (snd (guarded_stream i cl ms ts sys w)) < left w)" for ms ts sys w
    using guarded_stream_step [OF assms] by (metis prod.collapse)
  ultimately show ?thesis
    unfolding model_keeps_def child_services_def by (simp, meson less_le_trans)
qed

text \<open>What an agent of the tree does with its tools, and when delegating at a depth is safe.\<close>

definition child_tools :: "nat \<Rightarrow> 'x delegation \<Rightarrow> 'x tree config \<Rightarrow> 'x tree services \<Rightarrow> (string, tool) dict \<Rightarrow> int option \<Rightarrow> string \<Rightarrow> 'x tree llm_client
    \<Rightarrow> tool \<Rightarrow> obj \<Rightarrow> 'x tree \<Rightarrow> exec_report \<times> 'x tree" where
  "child_tools n D c v tools cap = (\<lambda>i cl t a x. if tool_name t = delegate_name
     then timed c None x (delegate n D c v cl (Some i) tools cap a x) else dg_execute D i t a x)"

definition depth_safe :: "nat \<Rightarrow> 'x delegation \<Rightarrow> 'x tree config \<Rightarrow> 'x tree services \<Rightarrow> (string, tool) dict \<Rightarrow> int option \<Rightarrow> bool" where
  "depth_safe n D c v tools cap = (tree_keeps D c v \<and> (\<forall>cl me a w. client_keeps cl \<longrightarrow> left w < n \<longrightarrow> tree_step w (snd (delegate n D c v cl me tools cap a w))))"

lemma snd_timed [simp]: "snd (timed c l w r) = snd r"
  by (simp add: timed_def Let_def)

lemma child_config_keeps: "config_keeps V c \<Longrightarrow> config_keeps V (child_config c ex)"
  by (simp add: config_keeps_def child_config_def)

lemma child_services_keep: "services_keep V v \<Longrightarrow> (\<And>w. V w w) \<Longrightarrow> services_keep V (child_services v i cl)"
  by (simp add: services_keep_def child_services_def)

interpretation child_run: run_worlds "child_config c (child_tools n D c v tools cap i cl)" "child_services v i cl"
    "\<lambda>x y. depth_safe n D c v tools cap \<longrightarrow> client_keeps cl \<longrightarrow> left x \<le> n \<longrightarrow> tree_step x y"
    "\<lambda>x. depth_safe n D c v tools cap \<and> client_keeps cl \<and> left x \<le> n" "\<lambda>x. depth_safe n D c v tools cap \<and> client_keeps cl \<and> left x < n"
  for n :: nat and D :: "'x delegation" and c v tools cap i cl
proof -
  let ?ok = "depth_safe n D c v tools cap \<and> client_keeps cl"
  let ?c = "child_config c (child_tools n D c v tools cap i cl)" and ?v = "child_services v i cl"
  let ?W = "\<lambda>x y. depth_safe n D c v tools cap \<longrightarrow> client_keeps cl \<longrightarrow> left x \<le> n \<longrightarrow> tree_step x y"
  have keeps: "tree_keeps D c v" if ?ok using that by (simp add: depth_safe_def)
  have mono: "tree_step x y \<Longrightarrow> ?W x y" for x y by simp
  have c: "config_keeps ?W ?c"
  proof (cases ?ok)
    case True
    then have "config_keeps tree_step ?c" using keeps by (simp add: tree_keeps_def child_config_keeps)
    then show ?thesis by (rule config_keeps_mono) (rule mono)
  qed (auto simp: config_keeps_def bus_keeps_def hooks_keep_def split: option.split)
  have v: "services_keep ?W ?v"
  proof (cases ?ok)
    case True
    then have "services_keep tree_step ?v" using keeps by (simp add: tree_keeps_def child_services_keep)
    then show ?thesis by (rule services_keep_mono) (rule mono)
  qed (auto simp: services_keep_def memory_keeps_def)
  have m: "model_keeps ?W (\<lambda>x. depth_safe n D c v tools cap \<and> client_keeps cl \<and> left x \<le> n)
      (\<lambda>x. depth_safe n D c v tools cap \<and> client_keeps cl \<and> left x < n) ?v"
  proof (cases ?ok)
    case True
    then show ?thesis using guarded_model [of cl n v i] by simp
  qed (auto simp: model_keeps_def)
  have t: "tools_keep (\<lambda>w x. depth_safe n D c v tools cap \<and> client_keeps cl \<and> left w < n \<longrightarrow> ?W w x) ?c"
    by (auto simp: tools_keep_def child_config_def child_tools_def depth_safe_def tree_keeps_def)
  show "run_worlds ?c ?v ?W (\<lambda>x. depth_safe n D c v tools cap \<and> client_keeps cl \<and> left x \<le> n)
      (\<lambda>x. depth_safe n D c v tools cap \<and> client_keeps cl \<and> left x < n)"
    by unfold_locales (rule c v m t | (auto intro: tree_step_trans dest: tree_step_within)[1])+
qed

text \<open>Spawning and running an agent at a depth that is safe.\<close>

interpretation tree_bus: tool_worlds c "\<lambda>x y. config_keeps tree_step c \<longrightarrow> tree_step x y" for c :: "'x tree config"
proof unfold_locales
  show "config_keeps (\<lambda>x y. config_keeps tree_step c \<longrightarrow> tree_step x y) c"
    by (cases "config_keeps tree_step c") (auto simp: config_keeps_def [of "\<lambda>_ _. True"] bus_keeps_def hooks_keep_def split: option.split)
qed (auto intro: tree_step_trans)

lemma choose_client_step:
  assumes "tree_keeps D c v" "client_keeps cl" "choose_client D cl sp w = (q, w')"
  shows "tree_step w w' \<and> (\<forall>cl'. q = Inr cl' \<longrightarrow> client_keeps cl')"
proof (cases "dg_factory D")
  case (Some f)
  then have "tree_step w (snd (f m w)) \<and> (\<forall>cl'. fst (f m w) = Inr cl' \<longrightarrow> client_keeps cl')" for m
    using assms(1) by (simp add: tree_keeps_def)
  then show ?thesis using Some assms(3)
    by (auto simp: choose_client_def subagent_error_def split: option.splits) (metis fst_conv snd_conv)+
qed (use assms(2,3) in \<open>auto simp: choose_client_def subagent_error_def split: if_splits\<close>)

lemma uuid_step: "tree_keeps D c v \<Longrightarrow> v_uuid v w = (i, w') \<Longrightarrow> tree_step w w'"
  unfolding tree_keeps_def services_keep_def by (metis snd_conv)

lemma agent_id_step: "tree_keeps D c v \<Longrightarrow> agent_id_for v me w = (i, w') \<Longrightarrow> tree_step w w'"
  using uuid_step by (fastforce simp: agent_id_for_def split: option.splits prod.splits)

lemma audit_event_step: "tree_keeps D c v \<Longrightarrow> tree_step w (snd (audit_event c ev subject extra w))"
proof -
  assume "tree_keeps D c v"
  then have "tree_step x (snd (c_stamp c x))" "tree_step x (snd (c_audit c e x))" for x e
    by (simp_all add: tree_keeps_def config_keeps_def)
  then show ?thesis using tree_step_trans by (simp add: audit_event_def case_prod_unfold) blast
qed

lemma announce_step: "tree_keeps D c v \<Longrightarrow> tree_step w (announce_spawn c v me sp i w)"
proof -
  assume keeps: "tree_keeps D c v"
  obtain j w1 where j: "agent_id_for v me w = (j, w1)" by fastforce
  have "config_keeps tree_step c" using keeps by (simp add: tree_keeps_def)
  then show ?thesis using tree_step_trans [OF agent_id_step [OF keeps j]] tree_bus.publish_keeps [of c] j by (simp add: announce_spawn_def)
qed

lemma audit_spawn_step: "tree_keeps D c v \<Longrightarrow> tree_step w (snd (audit_spawn c v me sp i model w))"
proof -
  assume keeps: "tree_keeps D c v"
  obtain j w1 where j: "agent_id_for v me w = (j, w1)" by fastforce
  then show ?thesis using tree_step_trans [OF agent_id_step [OF keeps j] audit_event_step [OF keeps]] by (simp add: audit_spawn_def)
qed

lemma spawn_step:
  assumes keeps: "tree_keeps D c v" and cl: "client_keeps cl" and spawn: "spawn_subagent D c v cl me tools cap ex sp w = (q, w')"
  shows "tree_step w w' \<and> (\<forall>i cl' child. q = Inr (i, cl', child) \<longrightarrow> client_keeps cl' \<and> a_world child = w')"
proof -
  obtain q1 w1 where c1: "choose_client D cl sp w = (q1, w1)" by fastforce
  note w1 = choose_client_step [OF keeps cl c1]
  show ?thesis
  proof (cases q1)
    case (Inr cl')
    obtain i w2 where c2: "v_uuid v w1 = (i, w2)" by fastforce
    have w2: "tree_step w w2" using tree_step_trans w1 uuid_step [OF keeps c2] by blast
    have "tree_step w (snd (audit_spawn c v me sp i m (w2\<lparr>tr_breakers := d\<rparr>)))" for m d
      using tree_step_trans [OF _ audit_spawn_step [OF keeps]] w2 by simp
    then have w4: "audit_spawn c v me sp i m (w2\<lparr>tr_breakers := d\<rparr>) = (u, w4) \<Longrightarrow> tree_step w w4" for m d u w4 by (metis snd_conv)
    have w5: "tree_step w x \<Longrightarrow> tree_step w (announce_spawn c v me sp i x)" for x
      by (rule tree_step_trans [OF _ announce_step [OF keeps]])
    show ?thesis using spawn c1 Inr c2 w1 w2
      by (auto simp: spawn_subagent_def Let_def split: sum.splits prod.splits dest: w4 intro: w5)
  qed (use spawn c1 w1 in \<open>auto simp: spawn_subagent_def\<close>)
qed

lemma audited_step:
  assumes "tree_keeps D c v" "tree_step w x"
  shows "tree_step w (snd (case audit_finish c sp i a b x of (Inl e, y) \<Rightarrow> (Inl e, y) | (Inr u, y) \<Rightarrow> (out, y)))"
  using tree_step_trans [OF assms(2) audit_event_step [OF assms(1)]] by (auto simp: audit_finish_def case_prod_unfold split: sum.split)

lemma run_subagent_step:
  assumes safe: "depth_safe n D c v tools cap" and cl: "client_keeps cl" and w: "left w \<le> n"
  shows "tree_step w (snd (run_subagent D c v cl me tools cap (child_tools n D c v tools cap) sp task w))"
proof -
  have keeps: "tree_keeps D c v" using safe by (simp add: depth_safe_def)
  let ?ex = "child_tools n D c v tools cap"
  obtain q w1 where spawn: "spawn_subagent D c v cl me tools cap ?ex sp w = (q, w1)" by fastforce
  note w1 = spawn_step [OF keeps cl spawn]
  show ?thesis
  proof (cases q)
    case (Inr y)
    obtain i cl' child where y: "y = (i, cl', child)" by (cases y) auto
    let ?run = "run (child_config c (?ex i cl')) (child_services v i cl') (Some task) False None None None child"
    have child: "client_keeps cl'" "a_world child = w1" "left w1 \<le> n" using w1 Inr y tree_step_within(1) [OF _ w] by blast+
    then have "tree_step w1 (a_world (snd ?run))"
      using child_run.run_keeps [of n D c v tools cap cl' i "Some task" False None None None] safe unfolding world_act_def by metis
    then have after: "tree_step w (a_world (snd ?run))" using w1 tree_step_trans by blast
    obtain out s where "?run = (out, s)" by fastforce
    then show ?thesis using audited_step [OF keeps after] spawn Inr y by (cases out) (simp_all add: run_subagent_def)
  qed (use spawn w1 in \<open>simp add: run_subagent_def\<close>)
qed

lemma all_depths_safe: "tree_keeps D c v \<Longrightarrow> depth_safe n D c v tools cap"
proof (induction n)
  case (Suc n)
  have "tree_step w (snd (delegate (Suc n) D c v cl me tools cap a w))" if "client_keeps cl" "left w < Suc n" for cl me a w
    using run_subagent_step [OF Suc.IH [OF Suc.prems] that(1), of w] that(2)
    by (auto simp: child_tools_def [symmetric] case_prod_unfold split: sum.split option.split)
  then show ?case using Suc.prems by (simp add: depth_safe_def del: delegate.simps)
qed (simp add: depth_safe_def)

interpretation root_run: run_worlds "root_config n D c v cl s" "root_services charged v cl"
    "\<lambda>x y. tree_keeps D c v \<longrightarrow> client_keeps cl \<longrightarrow> sb_max (tr_budget x) < n \<longrightarrow> tree_step x y"
    "\<lambda>x. tree_keeps D c v \<and> client_keeps cl \<and> sb_max (tr_budget x) < n" "\<lambda>x. tree_keeps D c v \<and> client_keeps cl \<and> sb_max (tr_budget x) < n"
  for n :: nat and D :: "'x delegation" and c v cl s charged
proof -
  let ?c = "root_config n D c v cl s" and ?v = "root_services charged v cl"
  let ?P = "\<lambda>x. tree_keeps D c v \<and> client_keeps cl \<and> sb_max (tr_budget x) < n"
  let ?W = "\<lambda>x y. tree_keeps D c v \<longrightarrow> client_keeps cl \<longrightarrow> sb_max (tr_budget x) < n \<longrightarrow> tree_step x y"
  have mono: "tree_step x y \<Longrightarrow> ?W x y" for x y by simp
  have c: "config_keeps ?W ?c"
  proof (cases "tree_keeps D c v")
    case True
    then have "config_keeps tree_step ?c" by (simp add: tree_keeps_def root_config_def config_keeps_def)
    then show ?thesis by (rule config_keeps_mono) (rule mono)
  qed (auto simp: config_keeps_def bus_keeps_def hooks_keep_def split: option.split)
  have v: "services_keep ?W ?v"
  proof (cases "tree_keeps D c v")
    case True
    then have "services_keep tree_step ?v" by (simp add: tree_keeps_def root_services_def services_keep_def)
    then show ?thesis by (rule services_keep_mono) (rule mono)
  qed (auto simp: services_keep_def memory_keeps_def)
  have steps: "tree_step w (snd (v_chat ?v ms ts sys w))" "tree_step w (snd (v_chat_stream ?v ms ts sys w))" if "client_keeps cl" for ms ts sys w
    using that guarded_chat_step [OF that, of "''root''" ms ts sys w] guarded_stream_step [OF that, of "''root''" ms ts sys w]
    by (auto simp: root_services_def client_keeps_def, (metis prod.collapse)+)
  have same: "tree_step w x \<Longrightarrow> sb_max (tr_budget x) = sb_max (tr_budget w)" for w x by (simp add: tree_step_def)
  have m: "model_keeps ?W ?P ?P ?v"
    unfolding model_keeps_def by (auto simp: steps same [OF steps(1)] same [OF steps(2)])
  have "tree_step w (snd (delegate n D c v cl None tools cap a w))" if "?P w" for tools cap a w
    using that all_depths_safe [of D c v n tools cap] unfolding depth_safe_def left_def by (meson diff_le_self le_less_trans)
  then have t: "tools_keep (\<lambda>w x. ?P w \<longrightarrow> ?W w x) ?c"
    by (auto simp: tools_keep_def root_config_def tree_keeps_def)
  show "run_worlds ?c ?v ?W ?P ?P"
    by unfold_locales (rule c v m t | (auto intro: tree_step_trans dest: same)[1])+
qed

text \<open>
  C5: a delegation tree is finite: in the run of a root agent, however the model of every agent answers and whatever
  other collaborators do, delegation never nests deeper than the budget of the tree allows (the depth given to the
  root, one more than the budget, is never exhausted), the budget's limit stays and is never exceeded.
\<close>

theorem delegation_depth_bounded:
  assumes "tree_keeps D c v" "client_keeps cl" "sb_max (tr_budget (a_world s)) < n"
    and "\<not> tr_deep (a_world s)" "sb_used (tr_budget (a_world s)) \<le> sb_max (tr_budget (a_world s))"
    and "run (root_config n D c v cl s) (root_services charged v cl) msg stream schema k verify s = (r, s')"
  shows "\<not> tr_deep (a_world s') \<and> sb_max (tr_budget (a_world s')) = sb_max (tr_budget (a_world s))
    \<and> sb_used (tr_budget (a_world s)) \<le> sb_used (tr_budget (a_world s')) \<and> sb_used (tr_budget (a_world s')) \<le> sb_max (tr_budget (a_world s'))"
proof -
  have "tree_step (a_world s) (a_world s')"
    using root_run.run_keeps [of D c v cl n s charged msg stream schema k verify] assms(1-3,6) unfolding world_act_def by (metis snd_conv)
  then show ?thesis using assms(4,5) by (simp add: tree_step_def)
qed

text \<open>A tree whose every agent delegates again: its budget stops it.\<close>

definition echo_spec :: subagent_spec where
  "echo_spec = \<lparr>sp_name = ''echo'', sp_prompt = ''again'', sp_description = [], sp_model = None\<rparr>"

definition eager_client :: "unit tree llm_client" where
  "eager_client = \<lparr>lc_model = None,
     lc_chat = (\<lambda>ms ts sys w. (Inr (sample_reply [] [sample_call ''1'' ''delegate'' [(''subagent_name'', JStr ''echo''), (''task_prompt'', JStr ''go'')]]), w)),
     lc_stream = (\<lambda>ms ts sys w. (([], None), w))\<rparr>"

definition eager_tree :: "unit delegation" where
  "eager_tree = \<lparr>dg_bound = True, dg_specs = [(''echo'', echo_spec)], dg_repeats = JInt 20, dg_factory = None,
     dg_execute = (\<lambda>i t a w. (\<lparr>rep_outcome = ExecValue (JStr ''ok''), rep_duration = 0, rep_late = False\<rparr>, w))\<rparr>"

definition eager_config :: "unit tree config" where
  "eager_config = \<lparr>c_bus = [], c_hooks = None, c_policy = (\<lambda>n a. Inr \<lparr>allowed = True, reason = [], requires_confirmation = False\<rparr>),
     c_execute = (\<lambda>t a w. (\<lparr>rep_outcome = ExecValue (JStr ''ok''), rep_duration = 0, rep_late = False\<rparr>, w)),
     c_slot_free = (\<lambda>i w. True), c_schedule = (\<lambda>i. i), c_clock = (\<lambda>w. 0), c_sleep = (\<lambda>r w. w),
     c_stamp = (\<lambda>w. ((''id'', ''now''), w)), c_audit = (\<lambda>e w. (Inr (), w)), c_cancelled = (\<lambda>w. False),
     c_checkpoint = None, c_redact = (\<lambda>s. s), c_sha = (\<lambda>s. s), c_float_repr = (\<lambda>r. ''0.0''),
     c_tool_timeout = None, c_validate = True, c_parallel = True, c_max_transient_retries = 2, c_backoff = 0, c_guard = False\<rparr>"

definition eager_services :: "unit tree services" where
  "eager_services = \<lparr>v_chat = lc_chat eager_client, v_chat_stream = lc_stream eager_client, v_classify = (\<lambda>t w. (Inr (default_classify t), w)), v_planner = None,
     v_verifier = None, v_memory = None, v_should_compact = (\<lambda>st. False), v_compact = (\<lambda>st w. (Inr st, w)), v_estimate = (\<lambda>st. 0),
     v_manager_name = [], v_save = None, v_snapshot = None, v_uuid = (\<lambda>w. (''r'', w)), v_clear_cancel = (\<lambda>w. w), v_inbox = (\<lambda>w. ([], w)), v_await = (\<lambda>w. w),
     v_max_verification_retries = 1, v_verification_required = False, v_float_lit = (\<lambda>s. (0, s))\<rparr>"

definition eager_agent :: "unit tree agent" where
  "eager_agent = \<lparr>a_world = \<lparr>tr_world = (), tr_budget = \<lparr>sb_max = 3, sb_used = 0, sb_per_agent = []\<rparr>, tr_breakers = [(''root'', \<lparr>br_max = 20, br_last_key = None, br_count = 0\<rparr>)], tr_root = None, tr_deep = False\<rparr>,
     a_state = empty_state, a_tools = [(''delegate'', sample_tool\<lparr>tool_name := ''delegate''\<rparr>)], a_mode = Mode_MAX, a_max_iterations = 50,
     a_override = None, a_extended = True, a_sticky_max = False, a_run_id = Some ''r'', a_resuming = False, a_pending = None,
     a_remaining = [], a_usage = [], a_structured = None, a_evidence = None, a_effective_verify = False, a_budget = None,
     a_stuck = None, a_circuits = [], a_stop_reason = None, a_plan = None, a_log = []\<rparr>"

lemma eager_keeps: "tree_keeps eager_tree eager_config eager_services" "client_keeps eager_client"
  by (simp_all add: tree_keeps_def client_keeps_def eager_tree_def eager_config_def eager_services_def eager_client_def
    config_keeps_def services_keep_def tools_keep_def bus_keeps_def hooks_keep_def)

theorem delegation_depth_bounded_witness:
  "\<exists>r s'. run (root_config 4 eager_tree eager_config eager_services eager_client eager_agent)
      (root_services True eager_services eager_client) (Some ''go'') False None None None eager_agent = (r, s')
    \<and> \<not> tr_deep (a_world s') \<and> sb_used (tr_budget (a_world s')) \<le> 3"
proof -
  obtain r s' where run: "run (root_config 4 eager_tree eager_config eager_services eager_client eager_agent)
      (root_services True eager_services eager_client) (Some ''go'') False None None None eager_agent = (r, s')" by fastforce
  have "sb_max (tr_budget (a_world eager_agent)) < 4" "\<not> tr_deep (a_world eager_agent)"
    "sb_used (tr_budget (a_world eager_agent)) \<le> sb_max (tr_budget (a_world eager_agent))" "sb_max (tr_budget (a_world eager_agent)) = 3"
    by (simp_all add: eager_agent_def)
  with delegation_depth_bounded [OF eager_keeps _ _ _ run] run show ?thesis by auto
qed

end
