(* ===== verification/Subagent_Pool.thy ===== *)
theory Subagent_Pool
  imports Delegation
begin

text \<open>
  Pools of independent sub-agents (\<open>subagent/pool.py\<close>). The workers run in an order of the executor's own, the schedule,
  each as a whole; they share the budget of the tree, and the results keep the order of the specifications. The client
  that the workers inherit is the parent's, behind a lock that only serialises its calls.
\<close>

section \<open>Clients\<close>

text \<open>The client of an agent is guarded when the agent is a sub-agent, or a root whose calls are charged.\<close>

datatype 'x agent_llm = Plain "'x tree llm_client" | Guarded string "'x tree llm_client"

fun as_client :: "'x agent_llm \<Rightarrow> 'x tree llm_client" where
  "as_client (Plain cl) = cl"
| "as_client (Guarded i cl) = \<lparr>lc_model = Some (guard_model cl), lc_chat = guarded_chat i cl, lc_stream = guarded_stream i cl\<rparr>"

text \<open>\<open>spawn_subagent\<close> unwraps a client that is a guard; what the pool hands it is a wrapper around the guard.\<close>

fun unguarded :: "'x agent_llm \<Rightarrow> 'x tree llm_client" where
  "unguarded (Plain cl) = cl"
| "unguarded (Guarded i cl) = cl"

definition serialized :: "'x agent_llm \<Rightarrow> 'x tree llm_client" where
  "serialized l = (as_client l)\<lparr>lc_model := Some (guard_model (as_client l))\<rparr>"

definition pool_client :: "'x delegation \<Rightarrow> int \<Rightarrow> 'x agent_llm \<Rightarrow> 'x tree llm_client" where
  "pool_client D max_concurrency l = (if dg_factory D = None \<and> max_concurrency > 1 then serialized l else unguarded l)"

section \<open>The pool\<close>

definition pool_init :: "int \<Rightarrow> int result" where
  "pool_init max_concurrency = (if max_concurrency < 1 then Inl (Exn ''ValueError'' ''max_concurrency must be a positive int'') else Inr max_concurrency)"

type_synonym delegation_result = "string \<times> string"

fun pool_jobs :: "(subagent_spec \<Rightarrow> 'x tree \<Rightarrow> delegation_result result \<times> 'x tree) \<Rightarrow> (nat \<times> subagent_spec) list
    \<Rightarrow> (nat, delegation_result result) dict \<Rightarrow> 'x tree \<Rightarrow> (nat, delegation_result result) dict \<times> 'x tree" where
  "pool_jobs f [] d w = (d, w)"
| "pool_jobs f ((i, sp) # jobs) d w = (case f sp w of (r, w1) \<Rightarrow> pool_jobs f jobs (dset d i r) w1)"

fun future_results :: "(nat, delegation_result result) dict \<Rightarrow> nat list \<Rightarrow> delegation_result list result" where
  "future_results d [] = Inr []"
| "future_results d (i # is) = bind_res (case dget d i of None \<Rightarrow> Inl (Exn ''RuntimeError'' []) | Some r \<Rightarrow> r) (\<lambda>x.
     bind_res (future_results d is) (\<lambda>xs. Inr (x # xs)))"

definition run_all :: "(nat \<Rightarrow> nat) \<Rightarrow> int \<Rightarrow> 'x delegation \<Rightarrow> 'x tree config \<Rightarrow> 'x tree services \<Rightarrow> 'x agent_llm \<Rightarrow> string option \<Rightarrow> (string, tool) dict \<Rightarrow> int option
    \<Rightarrow> (string \<Rightarrow> 'x tree llm_client \<Rightarrow> tool \<Rightarrow> obj \<Rightarrow> 'x tree \<Rightarrow> exec_report \<times> 'x tree) \<Rightarrow> subagent_spec list \<Rightarrow> 'x tree
    \<Rightarrow> delegation_result list result \<times> 'x tree" where
  "run_all sched max_concurrency D c v l me tools cap ex specs w =
     (case pool_jobs (\<lambda>sp. run_subagent D c v (pool_client D max_concurrency l) me tools cap ex sp (sp_description sp))
        (sort_key (\<lambda>j. sched (fst j)) (enumerate 0 specs)) [] w of
        (d, w1) \<Rightarrow> (future_results d [0..<length specs], w1))"

definition default_merge :: "delegation_result list \<Rightarrow> string" where
  "default_merge results = py_join ([LF, LF] @ ''--- Sub-agent result ---'' @ [LF, LF]) (map fst results)"

definition merge_results :: "(delegation_result list \<Rightarrow> string) option \<Rightarrow> delegation_result list \<Rightarrow> string" where
  "merge_results merger results = (case merger of Some f \<Rightarrow> f results | None \<Rightarrow> default_merge results)"

text \<open>The parent's state of a pool is that of an agent: its verifier judges the merged answer.\<close>

definition spawn_subagent_pool :: "(nat \<Rightarrow> nat) \<Rightarrow> int \<Rightarrow> (delegation_result list \<Rightarrow> string) option \<Rightarrow> 'x delegation \<Rightarrow> 'x tree config \<Rightarrow> 'x tree services \<Rightarrow> 'x agent_llm
    \<Rightarrow> string option \<Rightarrow> (string \<Rightarrow> 'x tree llm_client \<Rightarrow> tool \<Rightarrow> obj \<Rightarrow> 'x tree \<Rightarrow> exec_report \<times> 'x tree) \<Rightarrow> subagent_spec list
    \<Rightarrow> ('x tree, string) act" where
  "spawn_subagent_pool sched max_concurrency merger D c v l me ex specs s = (case pool_init max_concurrency of
     Inl e \<Rightarrow> (Inl e, s)
   | Inr m \<Rightarrow> (case run_all sched m D c v l me (a_tools s) (a_override s) ex specs (a_world s) of
        (Inl e, w) \<Rightarrow> (Inl e, s\<lparr>a_world := w\<rparr>)
      | (Inr results, w) \<Rightarrow>
          (let merged = merge_results merger results; s1 = s\<lparr>a_world := w\<rparr> in
           case v_verifier v of
             None \<Rightarrow> (Inr merged, s1)
           | Some verifier \<Rightarrow> (case verify_final_answer c verifier merged s1 of
                ((accepted, feedback), s2) \<Rightarrow> if accepted then (Inr merged, s2) else raise_answer_not_verified c feedback s2))))"

section \<open>Order and budget\<close>

text \<open>Every job leaves its result under its index, whatever the order, and the world is changed by the jobs only.\<close>

lemma pool_jobs_entries:
  assumes "pool_jobs f jobs d w = (d', w')" "distinct (map fst jobs)"
  shows "(\<forall>(i, sp) \<in> set jobs. \<exists>x. dget d' i = Some (fst (f sp x))) \<and> (\<forall>i. i \<notin> fst ` set jobs \<longrightarrow> dget d' i = dget d i)"
  using assms
proof (induction f jobs d w rule: pool_jobs.induct)
  case (2 f i sp jobs d w)
  obtain r w1 where r: "f sp w = (r, w1)" by fastforce
  then have rest: "pool_jobs f jobs (dset d i r) w1 = (d', w')" and dist: "distinct (map fst jobs)" "i \<notin> fst ` set jobs"
    using 2(2,3) by auto
  note IH = 2(1) [OF r [symmetric] rest dist(1)]
  have "dget d' i = Some (fst (f sp w))" using IH dist(2) r by simp
  then show ?case using IH dist(2) by auto
qed simp

lemma future_results_all:
  "future_results d is = Inr xs \<Longrightarrow> length xs = length is \<and> (\<forall>k < length is. dget d (is ! k) = Some (Inr (xs ! k)))"
proof (induction "is" arbitrary: xs)
  case (Cons i "is")
  obtain x ys where "dget d i = Some (Inr x)" and ys: "future_results d is = Inr ys" and xs: "xs = x # ys"
    using Cons.prems by (auto simp: bind_res_Inr_iff split: option.splits)
  then show ?case using Cons.IH [OF ys] by (auto simp: less_Suc_eq_0_disj)
qed simp

lemma pool_jobs_step:
  assumes "pool_jobs f jobs d w = (d', w')" "left w \<le> n" "\<And>sp x. left x \<le> n \<Longrightarrow> tree_step x (snd (f sp x))"
  shows "tree_step w w'"
  using assms
proof (induction f jobs d w rule: pool_jobs.induct)
  case (2 f i sp jobs d w)
  obtain r w1 where r: "f sp w = (r, w1)" by fastforce
  then have w1: "tree_step w w1" using 2(4) [OF 2(3), of sp] by simp
  have "tree_step w1 w'" using 2(1) [OF r [symmetric] _ tree_step_within(1) [OF w1 2(3)] 2(4)] 2(2) r by simp
  then show ?case using w1 tree_step_trans by blast
qed simp

lemma pool_client_keeps:
  assumes "client_keeps (unguarded l)"
  shows "client_keeps (pool_client D m l)"
proof (cases l)
  case (Guarded i cl)
  then have cl: "client_keeps cl" using assms by simp
  have "tree_step w (snd (guarded_chat i cl ms ts sys w))" "tree_step w (snd (guarded_stream i cl ms ts sys w))" for ms ts sys w
    using guarded_chat_step [OF cl] guarded_stream_step [OF cl] by (metis prod.collapse)+
  then show ?thesis using cl by (simp add: Guarded pool_client_def serialized_def client_keeps_def)
qed (use assms in \<open>simp add: pool_client_def serialized_def client_keeps_def\<close>)

text \<open>
  C21: a pool that answers has run every specification on its description, and its results are in the order of the
  specifications, whatever order the workers ran in; the workers together stay within the budget of the tree, and
  delegation below them within its depth.
\<close>

theorem pool_ordered_within_budget:
  assumes run: "run_all sched m D c v l me tools cap (child_tools n D c v tools cap) specs w = (Inr results, w')"
    and keeps: "tree_keeps D c v" and cl: "client_keeps (unguarded l)" and n: "left w \<le> n"
  shows "length results = length specs
    \<and> (\<forall>k < length specs. \<exists>x. fst (run_subagent D c v (pool_client D m l) me tools cap (child_tools n D c v tools cap) (specs ! k)
         (sp_description (specs ! k)) x) = Inr (results ! k))
    \<and> tree_step w w'"
proof -
  let ?f = "\<lambda>sp. run_subagent D c v (pool_client D m l) me tools cap (child_tools n D c v tools cap) sp (sp_description sp)"
  let ?jobs = "sort_key (\<lambda>j. sched (fst j)) (enumerate 0 specs)"
  obtain d where jobs: "pool_jobs ?f ?jobs [] w = (d, w')" and res: "future_results d [0..<length specs] = Inr results"
    using run by (auto simp: run_all_def split: prod.splits)
  have "distinct (map fst (enumerate 0 specs))" by simp
  then have "distinct (map fst ?jobs)"
    by (metis distinct_map distinct_sort set_sort)
  note entries = conjunct1 [OF pool_jobs_entries [OF jobs this]]
  have "\<exists>x. fst (?f (specs ! k) x) = Inr (results ! k)" if k: "k < length specs" for k
  proof -
    have "(k, specs ! k) \<in> set ?jobs" using k by (auto simp: in_set_enumerate_eq)
    then obtain x where "dget d k = Some (fst (?f (specs ! k) x))" using entries by fastforce
    moreover have "dget d k = Some (Inr (results ! k))" using future_results_all [OF res] k by fastforce
    ultimately show ?thesis by auto
  qed
  moreover have "length results = length specs" using future_results_all [OF res] by simp
  moreover have "tree_step w w'"
    by (rule pool_jobs_step [OF jobs n]) (rule run_subagent_step [OF all_depths_safe [OF keeps] pool_client_keeps [OF cl]])
  ultimately show ?thesis by blast
qed

text \<open>
  The guard of a parent is not unwrapped behind the pool's lock, so the workers of a guarded parent are charged twice: one
  tool call of one worker uses two of the budget, and is counted by the parent's breaker too.
\<close>

definition pooled_world :: "unit tree" where
  "pooled_world = (a_world eager_agent)\<lparr>tr_breakers := map (\<lambda>i. (i, \<lparr>br_max = 20, br_last_key = None, br_count = 0\<rparr>)) [''root'', ''worker'']\<rparr>"

lemma pool_charges_twice:
  "sb_used (tr_budget (snd (guarded_chat ''worker'' (pool_client eager_tree 3 (Guarded ''root'' eager_client)) [] None None pooled_world))) = 2"
  "sb_used (tr_budget (snd (guarded_chat ''worker'' (pool_client eager_tree 1 (Guarded ''root'' eager_client)) [] None None pooled_world))) = 1"
  by code_simp+

text \<open>Two workers that answer at once, run in the opposite order.\<close>

definition answering_client :: "unit tree llm_client" where
  "answering_client = eager_client\<lparr>lc_chat := (\<lambda>ms ts sys w. (Inr (sample_reply ''done'' []), w))\<rparr>"

definition sample_pool :: "delegation_result list result \<times> unit tree" where
  "sample_pool = run_all (\<lambda>i. 1 - i) 3 eager_tree eager_config eager_services (Plain answering_client) None [] None
     (child_tools 4 eager_tree eager_config eager_services [] None) [echo_spec, echo_spec] pooled_world"

theorem pool_ordered_within_budget_witness:
  "\<exists>w'. sample_pool = (Inr [(''done'', ''r''), (''done'', ''r'')], w') \<and> tree_step pooled_world w'"
proof -
  have "fst sample_pool = Inr [(''done'', ''r''), (''done'', ''r'')]" by code_simp
  then obtain w' where run: "sample_pool = (Inr [(''done'', ''r''), (''done'', ''r'')], w')" by (metis prod.collapse)
  have "client_keeps (unguarded (Plain answering_client))" "left pooled_world \<le> 4"
    by (simp_all add: client_keeps_def answering_client_def eager_client_def left_def pooled_world_def eager_agent_def)
  with pool_ordered_within_budget [OF run [unfolded sample_pool_def] eager_keeps(1)] run show ?thesis by blast
qed

end
