(* ===== verification/Skill_Zip.thy ===== *)
theory Skill_Zip
  imports Skill_Package File_Patch
begin

text \<open>
  Skills from archives (\<open>skills/zip_loader.py\<close> and \<open>add_skill_from_zip\<close> of \<open>skills/__init__.py\<close>): the safe extraction of an
  archive, the loader with its temporary directory, and the acceptance of what passes vetting. An archive is the list of its
  entries, or none when it cannot be read; the path of the temporary directory is an argument.
\<close>

section \<open>Extraction\<close>

record zip_entry =
  ze_name :: string
  ze_link :: bool
  ze_dir :: bool
  ze_size :: int
  ze_data :: string

record zip_limits =
  zl_max_size :: int
  zl_max_entries :: nat
  zl_extensions :: "string list"

definition default_limits :: zip_limits where
  "default_limits = \<lparr>zl_max_size = 10 * 1024 * 1024, zl_max_entries = 500,
     zl_extensions = [''.md'', ''.txt'', ''.json'', ''.py'', ''.sh'', ''.yaml'', ''.yml'']\<rparr>"

text \<open>\<open>os.path.splitext(name)[1]\<close>: leading dots of the last component start no extension.\<close>

definition splitext :: "string \<Rightarrow> string" where
  "splitext name = (let b = last (split_slash [] name); ext = rev (takeWhile (\<lambda>c. c \<noteq> CHR ''.'') (rev b)) in
     if length ext < length b \<and> list_ex (\<lambda>c. c \<noteq> CHR ''.'') (take (length b - length ext - 1) b) then CHR ''.'' # ext else [])"

definition zip_error :: "string \<Rightarrow> string \<Rightarrow> exn" where
  "zip_error zname m = Exn ''ZipSkillError'' (repr_str zname @ '': '' @ m)"

definition extract_entry :: "zip_limits \<Rightarrow> (string \<Rightarrow> int) \<Rightarrow> string \<Rightarrow> path \<Rightarrow> zip_entry \<Rightarrow> fsys \<Rightarrow> int result \<times> fsys" where
  "extract_entry lm bytes zname dest_root info fs =
     (if ze_link info then (Inr 0, fs)
      else case resolve fs dest_root (ze_name info) of
        Inl _ \<Rightarrow> (Inl (zip_error zname (''entry '' @ repr_str (ze_name info) @ '' resolves outside the extraction directory (zip-slip attempt)'')), fs)
      | Inr dest \<Rightarrow>
          if ze_dir info \<or> endswith ''/'' (ze_name info)
          then (case make_dirs fs [] dest of (Inl e, fs') \<Rightarrow> (Inl e, fs') | (Inr _, fs') \<Rightarrow> (Inr 0, fs'))
          else if py_lower (splitext (ze_name info)) \<notin> set (zl_extensions lm) then (Inr 0, fs)
          else (case os_write fs dest (ze_data info) of (Inl e, fs') \<Rightarrow> (Inl e, fs') | (Inr _, fs') \<Rightarrow> (Inr (bytes (ze_data info)), fs')))"

fun extract_entries :: "zip_limits \<Rightarrow> (string \<Rightarrow> int) \<Rightarrow> string \<Rightarrow> path \<Rightarrow> zip_entry list \<Rightarrow> int \<Rightarrow> fsys \<Rightarrow> int result \<times> fsys" where
  "extract_entries lm bytes zname dest_root [] written fs = (Inr written, fs)"
| "extract_entries lm bytes zname dest_root (info # infos) written fs =
     (case extract_entry lm bytes zname dest_root info fs of
        (Inl e, fs') \<Rightarrow> (Inl e, fs')
      | (Inr n, fs') \<Rightarrow>
          if written + n > zl_max_size lm
          then (Inl (zip_error zname (''actual uncompressed size exceeds the limit of '' @ str_of_int (zl_max_size lm)
                  @ '' bytes while extracting '' @ repr_str (ze_name info) @ '' (forged size header?)'')), fs')
          else extract_entries lm bytes zname dest_root infos (written + n) fs')"

definition extract_safely :: "zip_limits \<Rightarrow> (string \<Rightarrow> int) \<Rightarrow> string \<Rightarrow> zip_entry list option \<Rightarrow> path \<Rightarrow> fsys \<Rightarrow> int result \<times> fsys" where
  "extract_safely lm bytes zname archive dest_root fs = (case archive of
     None \<Rightarrow> (Inl (Exn ''ZipSkillError'' (repr_str zname @ '' is not a valid zip'')), fs)
   | Some infos \<Rightarrow>
       if length infos > zl_max_entries lm
       then (Inl (zip_error zname (str_of_nat (length infos) @ '' entries exceeds the limit of '' @ str_of_nat (zl_max_entries lm) @ '' (zip-bomb protection)'')), fs)
       else if sum_list (map ze_size infos) > zl_max_size lm
       then (Inl (zip_error zname (''declared uncompressed size '' @ str_of_int (sum_list (map ze_size infos)) @ '' bytes exceeds the limit of ''
              @ str_of_int (zl_max_size lm) @ '' (zip-bomb protection)'')), fs)
       else extract_entries lm bytes zname dest_root infos 0 fs)"

section \<open>The loader\<close>

record zip_loader =
  zp_path :: string
  zp_archive :: "zip_entry list option"
  zp_limits :: zip_limits
  zp_temp :: "path option"
  zp_skills :: "skill list option"
  zp_closed :: bool

definition loader_open :: "string \<Rightarrow> zip_entry list option option \<Rightarrow> zip_limits \<Rightarrow> zip_loader result" where
  "loader_open zip_path file lm = (case file of
     None \<Rightarrow> Inl (Exn ''ValueError'' (''skill zip is not an existing file: '' @ repr_str zip_path))
   | Some archive \<Rightarrow> Inr \<lparr>zp_path = zip_path, zp_archive = archive, zp_limits = lm, zp_temp = None, zp_skills = None, zp_closed = False\<rparr>)"

definition remove_tree :: "path \<Rightarrow> fsys \<Rightarrow> fsys" where
  "remove_tree p fs = filter (\<lambda>(q, _). take (length p) q \<noteq> p) fs"

definition loader_close :: "zip_loader \<Rightarrow> fsys \<Rightarrow> zip_loader \<times> fsys" where
  "loader_close z fs = (z\<lparr>zp_closed := True, zp_temp := None\<rparr>, case zp_temp z of None \<Rightarrow> fs | Some p \<Rightarrow> remove_tree p fs)"

definition zip_discover :: "(string \<Rightarrow> int) \<Rightarrow> path \<Rightarrow> zip_loader \<Rightarrow> fsys \<Rightarrow> skill list result \<times> zip_loader \<times> fsys" where
  "zip_discover bytes temp z fs =
     (if zp_closed z
      then (Inl (Exn ''RuntimeError'' (''ZipSkillLoader for '' @ repr_str (zp_path z) @ '' is closed; discover() can no longer extract'')), z, fs)
      else case zp_skills z of
        Some sks \<Rightarrow> (Inr sks, z, fs)
      | None \<Rightarrow>
          (let z1 = z\<lparr>zp_temp := Some temp\<rparr> in
           case extract_safely (zp_limits z) bytes (zp_path z) (zp_archive z) temp (dset fs temp Dir) of
             (Inl e, fs1) \<Rightarrow> (Inl e, loader_close z1 fs1)
           | (Inr _, fs1) \<Rightarrow>
               (case bind_res (loader_init fs1 temp) (discover fs1 ''zip'') of
                  Inl e \<Rightarrow> (Inl e, loader_close z1 fs1)
                | Inr sks \<Rightarrow> (Inr sks, z1\<lparr>zp_skills := Some sks\<rparr>, fs1))))"

section \<open>Acceptance\<close>

text \<open>\<open>shutil.copytree\<close>: every node below the source; a link is copied as the file it leads to.\<close>

definition copied :: "fsys \<Rightarrow> path \<Rightarrow> node \<Rightarrow> node" where
  "copied fs q nd = (case nd of Link t \<Rightarrow> (case dget fs (fst (real_comps fs [] q)) of Some (File c) \<Rightarrow> File c | _ \<Rightarrow> Dir) | _ \<Rightarrow> nd)"

fun copy_nodes :: "fsys \<Rightarrow> path \<Rightarrow> path \<Rightarrow> fsys \<Rightarrow> fsys \<Rightarrow> fsys" where
  "copy_nodes src_fs src dst [] fs = fs"
| "copy_nodes src_fs src dst ((q, nd) # rest) fs = copy_nodes src_fs src dst rest
     (if take (length src) q = src then dset fs (dst @ drop (length src) q) (copied src_fs q nd) else fs)"

definition copytree :: "path \<Rightarrow> path \<Rightarrow> fsys \<Rightarrow> fsys" where
  "copytree src dst fs = copy_nodes fs src dst fs fs"

definition path_exists :: "fsys \<Rightarrow> path \<Rightarrow> bool" where
  "path_exists fs q = (case kernel_path fs q of Inl _ \<Rightarrow> False | Inr r \<Rightarrow> is_dir fs r \<or> dget fs r \<noteq> None)"

definition accept_one :: "(fsys \<Rightarrow> skill \<Rightarrow> vet_result result) \<Rightarrow> path \<Rightarrow> skill \<Rightarrow> fsys \<Rightarrow> skill_registry \<Rightarrow> skill option result \<times> fsys \<times> skill_registry" where
  "accept_one vet persist found fs reg = (case vet fs found of
     Inl e \<Rightarrow> (Inl e, fs, reg)
   | Inr r \<Rightarrow>
       if \<not> vr_clean r then (Inr None, fs, reg)
       else case resolve fs persist (sk_name found) of
         Inl e \<Rightarrow> (Inl e, fs, reg)
       | Inr destination \<Rightarrow>
           if path_exists fs destination
           then (Inl (Exn ''FileExistsError'' (''cannot accept skill '' @ repr_str (sk_name found) @ '': '' @ repr_str (path_str destination)
                   @ '' already exists'')), fs, reg)
           else let fs1 = copytree (sk_root found) destination fs in
             case from_directory fs1 destination (sk_source found) of
               Inl e \<Rightarrow> (Inl e, fs1, reg)
             | Inr persistent \<Rightarrow> (case registry_add persistent (Some r) reg of
                  (Inl e, reg1) \<Rightarrow> (Inl e, fs1, reg1) | (Inr _, reg1) \<Rightarrow> (Inr (Some persistent), fs1, reg1)))"

fun accept_all :: "(fsys \<Rightarrow> skill \<Rightarrow> vet_result result) \<Rightarrow> path \<Rightarrow> skill list \<Rightarrow> fsys \<Rightarrow> skill_registry \<Rightarrow> skill list result \<times> fsys \<times> skill_registry" where
  "accept_all vet persist [] fs reg = (Inr [], fs, reg)"
| "accept_all vet persist (sk # sks) fs reg = (case accept_one vet persist sk fs reg of
     (Inl e, fs1, reg1) \<Rightarrow> (Inl e, fs1, reg1)
   | (Inr x, fs1, reg1) \<Rightarrow> (case accept_all vet persist sks fs1 reg1 of
        (Inl e, fs2, reg2) \<Rightarrow> (Inl e, fs2, reg2)
      | (Inr ys, fs2, reg2) \<Rightarrow> (Inr ((case x of None \<Rightarrow> [] | Some y \<Rightarrow> [y]) @ ys), fs2, reg2)))"

definition add_skill_from_zip :: "(fsys \<Rightarrow> skill \<Rightarrow> vet_result result) \<Rightarrow> (string \<Rightarrow> int) \<Rightarrow> path \<Rightarrow> string \<Rightarrow> zip_entry list option option \<Rightarrow> path
    \<Rightarrow> fsys \<Rightarrow> skill_registry \<Rightarrow> skill list result \<times> fsys \<times> skill_registry" where
  "add_skill_from_zip vet bytes temp zip_path file persist_dir fs reg = (case make_dirs fs [] persist_dir of
     (Inl e, fs0) \<Rightarrow> (Inl e, fs0, reg)
   | (Inr _, fs0) \<Rightarrow> (case bind_res (open_root fs0 persist_dir) (\<lambda>persist. bind_res (loader_open zip_path file default_limits) (\<lambda>z. Inr (persist, z))) of
        Inl e \<Rightarrow> (Inl e, fs0, reg)
      | Inr (persist, z) \<Rightarrow> (case zip_discover bytes temp z fs0 of
           (Inl e, z1, fs1) \<Rightarrow> (Inl e, snd (loader_close z1 fs1), reg)
         | (Inr sks, z1, fs1) \<Rightarrow> (case accept_all vet persist sks fs1 reg of
              (out, fs2, reg1) \<Rightarrow> (out, snd (loader_close z1 fs2), reg1)))))"

section \<open>Extraction stays inside its directory\<close>

text \<open>Every path of the file system can be resolved.\<close>

definition no_loops :: "fsys \<Rightarrow> bool" where
  "no_loops fs = (\<forall>cs. snd (real_comps fs [] cs))"

lemma join_real_linkless: "\<forall>q. \<not> is_link fs q \<Longrightarrow> \<exists>r. join_real fs n p cs seen = Some (r, True, seen)"
proof (induction cs arbitrary: p)
  case (Cons name rest)
  consider "dot name" | "name = ''..''" | "proper name" by (auto simp: dot_def proper_def)
  then show ?case using Cons by cases (simp_all add: join_real_dot join_real_up join_real_plain)
qed simp

lemma linkless_no_loops:
  assumes "\<forall>q. \<not> is_link fs q"
  shows "no_loops fs"
  unfolding no_loops_def
proof
  fix cs
  obtain r where "join_real fs (link_fuel fs) [] cs [] = Some (r, True, [])" using join_real_linkless [OF assms] by blast
  then show "snd (real_comps fs [] cs)" by (simp add: real_comps_def)
qed

lemma no_loops_links: "same_links fs fs' \<Longrightarrow> no_loops fs \<Longrightarrow> no_loops fs'"
  by (simp add: no_loops_def real_comps_links [symmetric])

lemma is_dir_dset: "is_dir fs p \<Longrightarrow> nd = Dir \<or> \<not> is_dir fs q \<Longrightarrow> is_dir (dset fs q nd) p"
  by (auto simp: is_dir_def)

lemma set_dset: "(x, nd') \<in> set (dset fs q nd) \<Longrightarrow> (x, nd') \<in> set fs \<or> x = q"
  by (induction fs q nd rule: dset.induct) (auto split: if_splits)

lemma fs_wf_dset:
  assumes "fs_wf fs" and "q \<noteq> []" and "is_dir fs (butlast q)" and "nd = Dir \<or> \<not> is_dir fs q"
  shows "fs_wf (dset fs q nd)"
proof -
  have "x \<noteq> [] \<and> is_dir (dset fs q nd) (butlast x)" if "(x, nd') \<in> set (dset fs q nd)" for x nd'
    using set_dset [OF that] assms is_dir_dset [OF _ assms(4)] by (auto simp: fs_wf_def list_all_iff)
  then show ?thesis by (auto simp: fs_wf_def list_all_iff)
qed

lemma make_dirs_wf:
  assumes "plain fs (p @ cs)" and "fs_wf fs" and "is_dir fs p"
  shows "fs_wf (snd (make_dirs fs p cs)) \<and> (\<forall>x. is_dir fs x \<longrightarrow> is_dir (snd (make_dirs fs p cs)) x)
    \<and> (fst (make_dirs fs p cs) = Inr () \<longrightarrow> is_dir (snd (make_dirs fs p cs)) (p @ cs))"
  using assms
proof (induction cs arbitrary: fs p)
  case (Cons c cs)
  let ?q = "p @ [c]"
  have nolink: "\<not> is_link fs ?q" using Cons.prems(1) by (auto simp: plain_def dest: bspec [where x = "Suc (length p)"])
  consider "dget fs ?q = None" | "dget fs ?q = Some Dir" | s where "dget fs ?q = Some (File s)"
    using not_linkD [OF nolink] by (elim disjE exE)
  then show ?case
  proof cases
    case 1
    let ?fs = "dset fs ?q Dir"
    have "is_link ?fs x \<longleftrightarrow> is_link fs x" for x using 1 by (auto simp: is_link_def)
    then have "plain ?fs (?q @ cs)" using Cons.prems(1) by (simp add: plain_def)
    moreover have "fs_wf ?fs" using Cons.prems by (intro fs_wf_dset) simp_all
    moreover have "is_dir ?fs ?q" by (simp add: is_dir_def)
    ultimately have "fs_wf (snd (make_dirs ?fs ?q cs)) \<and> (\<forall>x. is_dir ?fs x \<longrightarrow> is_dir (snd (make_dirs ?fs ?q cs)) x)
      \<and> (fst (make_dirs ?fs ?q cs) = Inr () \<longrightarrow> is_dir (snd (make_dirs ?fs ?q cs)) (?q @ cs))" by (rule Cons.IH)
    then show ?thesis using 1 is_dir_dset [of fs _ Dir ?q] by (simp add: Let_def)
  next
    case 2
    then show ?thesis using Cons.IH [of fs ?q] Cons.prems by (simp add: Let_def is_dir_def)
  next
    case 3
    then show ?thesis using Cons.prems by (simp add: Let_def)
  qed
qed simp

text \<open>What one step of an extraction may do.\<close>

definition inside :: "path \<Rightarrow> fsys \<Rightarrow> fsys \<Rightarrow> bool" where
  "inside base fs fs' = (fs_wf fs' \<and> is_dir fs' base \<and> same_links fs fs' \<and> (\<forall>p. \<not> prefix base p \<longrightarrow> dget fs' p = dget fs p))"

lemma make_dirs_inside:
  assumes "fs_wf fs" and "is_dir fs base" and "plain fs q" and "prefix base q"
  shows "inside base fs (snd (make_dirs fs [] q))"
proof -
  have "dget (snd (make_dirs fs [] q)) p = dget fs p" if p: "\<not> prefix base p" for p
  proof (rule ccontr)
    assume "dget (snd (make_dirs fs [] q)) p \<noteq> dget fs p"
    then have x: "prefix p q" "p \<noteq> []" "dget fs p = None" using make_dirs_plain [of fs "[]" q] assms(3) by auto
    then have "prefix p base" using assms(4) p prefix_same_cases by blast
    then have "is_dir fs p" using is_dir_take [OF assms(1,2), of "length p"] by (auto simp: prefix_def)
    then show False using x by (simp add: is_dir_def)
  qed
  moreover have "fs_wf (snd (make_dirs fs [] q)) \<and> is_dir (snd (make_dirs fs [] q)) base"
    using make_dirs_wf [of fs "[]" q] assms by (auto simp: is_dir_def)
  ultimately show ?thesis using make_dirs_view [of fs "[]" q] by (simp add: inside_def)
qed

lemma plain_links: "same_links fs fs' \<Longrightarrow> plain fs q \<Longrightarrow> plain fs' q"
  by (simp add: plain_def same_links_is_link [symmetric])

lemma os_write_inside:
  assumes "fs_wf fs" and "is_dir fs base" and "plain fs q" and "prefix base q"
  shows "inside base fs (snd (os_write fs q c))"
proof -
  obtain m fs1 where md: "make_dirs fs [] (butlast q) = (m, fs1)" by fastforce
  have links: "same_links fs fs1" using make_dirs_view [of fs "[]" "butlast q"] md by simp
  have wf: "fs_wf fs1" "is_dir fs1 base" "m = Inr () \<Longrightarrow> is_dir fs1 (butlast q)"
    using make_dirs_wf [of fs "[]" "butlast q"] plain_butlast [OF assms(3)] assms(1,2) md by (auto simp: is_dir_def)
  have frame: "\<forall>p. \<not> prefix base p \<longrightarrow> dget (snd (os_write fs q c)) p = dget fs p"
    using os_write_frame [OF assms(3,4,1,2)] by blast
  show ?thesis
  proof (cases "m = Inr () \<and> (\<exists>r. kernel_path fs1 q = Inr r \<and> \<not> is_dir fs1 r)")
    case False
    then have "snd (os_write fs q c) = fs1" using md by (cases m; cases "kernel_path fs1 q") (auto simp: os_write_def)
    then show ?thesis using links wf frame by (simp add: inside_def)
  next
    case True
    then obtain r where r: "kernel_path fs1 q = Inr r" "\<not> is_dir fs1 r" by blast
    have rq: "r = q" using kernel_path_real [OF r(1)] real_comps_of_plain [OF plain_links [OF links assms(3)]] by simp
    then have out: "snd (os_write fs q c) = dset fs1 q (File c)" using True r md by (simp add: os_write_def)
    have q: "q \<noteq> []" using r(2) rq by (auto simp: is_dir_def)
    have "\<not> is_link fs1 q" using plain_links [OF links assms(3)] q by (auto simp: plain_def dest: bspec [where x = "length q"])
    then have "same_links fs1 (dset fs1 q (File c))" by (intro dset_links) (simp_all add: link_node_def)
    then have "same_links fs (snd (os_write fs q c))" using links same_links_trans out by metis
    moreover have "fs_wf (dset fs1 q (File c))" using wf True q r(2) rq by (intro fs_wf_dset) simp_all
    moreover have "is_dir (dset fs1 q (File c)) base" using is_dir_dset [OF wf(2)] r(2) rq by blast
    ultimately show ?thesis using frame out by (simp add: inside_def)
  qed
qed

lemma inside_refl: "fs_wf fs \<Longrightarrow> is_dir fs base \<Longrightarrow> inside base fs fs"
  by (simp add: inside_def same_links_def)

lemma inside_trans: "inside base f g \<Longrightarrow> inside base g h \<Longrightarrow> inside base f h"
  using same_links_trans by (auto simp: inside_def)

lemma extract_entry_inside:
  assumes "fs_wf fs" and "is_dir fs base" and "no_loops fs"
  shows "inside base fs (snd (extract_entry lm bytes zname base info fs))"
proof (cases "resolve fs base (ze_name info)")
  case (Inl e)
  then show ?thesis using inside_refl assms by (simp add: extract_entry_def)
next
  case (Inr q)
  then have "plain fs q" "prefix base q" using resolve_plain [of fs base "ze_name info" q] assms(3) by (auto simp: no_loops_def)
  then show ?thesis using make_dirs_inside os_write_inside inside_refl assms(1,2) Inr
    by (auto simp: extract_entry_def case_prod_unfold split: sum.split)
qed

lemma extract_entries_inside:
  assumes "fs_wf fs" and "is_dir fs base" and "no_loops fs" and "extract_entries lm bytes zname base infos written fs = (r, fs')"
  shows "inside base fs fs' \<and> (\<forall>n. r = Inr n \<longrightarrow> written \<le> zl_max_size lm \<longrightarrow> n \<le> zl_max_size lm)"
  using assms
proof (induction infos arbitrary: written fs)
  case (Cons info infos)
  obtain q fs1 where one: "extract_entry lm bytes zname base info fs = (q, fs1)" by fastforce
  then have step: "inside base fs fs1" using extract_entry_inside [OF Cons.prems(1-3)] by (metis snd_conv)
  then have pre: "fs_wf fs1" "is_dir fs1 base" "no_loops fs1" using no_loops_links Cons.prems(3) by (auto simp: inside_def)
  show ?case
  proof (cases "\<exists>n. q = Inr n \<and> written + n \<le> zl_max_size lm")
    case True
    then obtain n where n: "q = Inr n" "written + n \<le> zl_max_size lm" by blast
    then show ?thesis using Cons.IH [OF pre, of "written + n"] Cons.prems(4) one inside_trans [OF step] by auto
  next
    case False
    then show ?thesis using Cons.prems(4) one step by (auto split: sum.splits if_splits)
  qed
qed (auto simp: inside_refl)

text \<open>
  C10: on a well-formed file system in which no path runs into a loop of links, extracting an archive into an existing
  directory changes nothing outside that directory and adds no link, whatever the archive contains, also when it
  fails half way; when it succeeds and the size limit is not negative, what was written is within it. (With a loop
  of links on the file system an entry can pass the containment check through it, as a workspace path can.)
\<close>
theorem zip_extraction_confined:
  assumes "fs_wf fs" and "is_dir fs dest" and "no_loops fs" and "extract_safely lm bytes zname archive dest fs = (r, fs')"
  shows "(\<forall>p. \<not> prefix dest p \<longrightarrow> dget fs' p = dget fs p) \<and> (\<forall>p. is_link fs' p \<longleftrightarrow> is_link fs p)
    \<and> (\<forall>n. r = Inr n \<longrightarrow> 0 \<le> zl_max_size lm \<longrightarrow> n \<le> zl_max_size lm)"
proof -
  have "inside dest fs fs' \<and> (\<forall>n. r = Inr n \<longrightarrow> 0 \<le> zl_max_size lm \<longrightarrow> n \<le> zl_max_size lm)"
  proof (cases "\<exists>infos. archive = Some infos \<and> \<not> length infos > zl_max_entries lm \<and> \<not> sum_list (map ze_size infos) > zl_max_size lm")
    case True
    then obtain infos where "extract_entries lm bytes zname dest infos 0 fs = (r, fs')" using assms(4) by (auto simp: extract_safely_def)
    from extract_entries_inside [OF assms(1-3) this] show ?thesis by blast
  next
    case False
    then show ?thesis using assms(4) inside_refl [OF assms(1,2)] by (cases archive) (auto simp: extract_safely_def split: if_splits)
  qed
  then show ?thesis using same_links_is_link by (auto simp: inside_def)
qed

definition slip_archive :: "zip_entry list" where
  "slip_archive = [\<lparr>ze_name = ''fmt/a.md'', ze_link = False, ze_dir = False, ze_size = 2, ze_data = ''hi''\<rparr>,
     \<lparr>ze_name = ''../etc/passwd.md'', ze_link = False, ze_dir = False, ze_size = 1, ze_data = ''x''\<rparr>]"

definition slip_fs :: fsys where
  "slip_fs = [([''t''], Dir), ([''etc''], Dir), ([''etc'', ''passwd.md''], File ''secret'')]"

theorem zip_extraction_confined_witness:
  "\<exists>e fs'. extract_safely default_limits sample_bytes ''a.zip'' (Some slip_archive) [''t''] slip_fs = (Inl e, fs')
     \<and> exn_class e = ''ZipSkillError'' \<and> dget fs' [''etc'', ''passwd.md''] = Some (File ''secret'') \<and> dget fs' [''t'', ''fmt'', ''a.md''] = Some (File ''hi'')"
proof -
  have wf: "fs_wf slip_fs" "is_dir slip_fs [''t'']" by code_simp+
  have "no_loops slip_fs" by (rule linkless_no_loops) (simp add: is_link_def slip_fs_def)
  note confined = zip_extraction_confined [OF wf this, of default_limits sample_bytes "''a.zip''" "Some slip_archive"]
  obtain r fs' where ex: "extract_safely default_limits sample_bytes ''a.zip'' (Some slip_archive) [''t''] slip_fs = (r, fs')" by fastforce
  have "fst (extract_safely default_limits sample_bytes ''a.zip'' (Some slip_archive) [''t''] slip_fs) =
      Inl (zip_error ''a.zip'' (''entry '' @ repr_str ''../etc/passwd.md'' @ '' resolves outside the extraction directory (zip-slip attempt)''))"
    "dget (snd (extract_safely default_limits sample_bytes ''a.zip'' (Some slip_archive) [''t''] slip_fs)) [''t'', ''fmt'', ''a.md''] = Some (File ''hi'')"
    by code_simp+
  moreover have "dget fs' [''etc'', ''passwd.md''] = Some (File ''secret'')" using confined [OF ex] by (simp add: slip_fs_def)
  ultimately show ?thesis using ex by (simp add: zip_error_def)
qed

end
