(* ===== verification/Llm_Client.thy ===== *)
theory Llm_Client
  imports History_Validity Agent_Loop
begin

text \<open>
  The client of model providers (\<open>llm/client.py\<close>): the translation of a conversation to the wire format and of a response
  back, the assembly of streamed tool calls, and the retries. The provider's library is an argument: a call of it
  changes the world and returns a response, or a failure with the status it carries. A response is a record of what the
  client reads of it; an attribute that is absent is \<open>None\<close>.
\<close>

section \<open>Translation of the conversation\<close>

definition get_or :: "obj \<Rightarrow> string \<Rightarrow> json \<Rightarrow> json" where
  "get_or d k x = (case dget d k of Some v \<Rightarrow> v | None \<Rightarrow> x)"

text \<open>\<open>"".join(parts)\<close>.\<close>

fun join_parts :: "json list \<Rightarrow> string result" where
  "join_parts [] = Inr []"
| "join_parts (JStr s # ps) = bind_res (join_parts ps) (\<lambda>r. Inr (s @ r))"
| "join_parts (p # ps) = Inl (Exn ''TypeError'' ''sequence item: expected str instance'')"

definition is_typed :: "string \<Rightarrow> json \<Rightarrow> bool" where
  "is_typed ty b = (case b of JObj d \<Rightarrow> jget d ''type'' = JStr ty | _ \<Rightarrow> False)"

definition text_part :: "json \<Rightarrow> json option" where
  "text_part b = (case b of JObj d \<Rightarrow> if jget d ''type'' = JStr ''text'' then Some (get_or d ''text'' (JStr [])) else None | JStr s \<Rightarrow> Some b | _ \<Rightarrow> None)"

definition flatten_text :: "json list \<Rightarrow> string result" where
  "flatten_text blocks = join_parts (List.map_filter text_part blocks)"

text \<open>What \<open>for block in content or []\<close> visits.\<close>

definition iter_content :: "json \<Rightarrow> json list result" where
  "iter_content content = (if \<not> truthy content then Inr [] else case content of
     JArr bs \<Rightarrow> Inr bs | JObj d \<Rightarrow> Inr (map (\<lambda>(k, _). JStr k) d) | _ \<Rightarrow> Inl (Exn ''TypeError'' ''object is not iterable''))"

definition wire_call :: "json \<Rightarrow> json option" where
  "wire_call b = (case b of
     JObj d \<Rightarrow> if jget d ''type'' = JStr ''tool_use'' then Some (JObj [(''id'', get_or d ''id'' (JStr [])), (''type'', JStr ''function''),
        (''function'', JObj [(''name'', get_or d ''name'' (JStr [])), (''arguments'', JStr (json_dumps (get_or d ''input'' (JObj []))))])]) else None
   | _ \<Rightarrow> None)"

definition block_text :: "json \<Rightarrow> json option" where
  "block_text b = (case b of JObj d \<Rightarrow> if jget d ''type'' = JStr ''text'' then Some (get_or d ''text'' (JStr [])) else None | _ \<Rightarrow> None)"

definition translate_assistant :: "json \<Rightarrow> obj result" where
  "translate_assistant content = (case content of
     JStr s \<Rightarrow> Inr [(''role'', JStr ''assistant''), (''content'', JStr s)]
   | _ \<Rightarrow> bind_res (iter_content content) (\<lambda>bs. bind_res (join_parts (List.map_filter block_text bs)) (\<lambda>t.
       let calls = List.map_filter wire_call bs in
       Inr ([(''role'', JStr ''assistant''), (''content'', if t = [] then JNull else JStr t)]
         @ (if calls = [] then [] else [(''tool_calls'', JArr calls)])))))"

fun translate_blocks :: "json list \<Rightarrow> json list result" where
  "translate_blocks [] = Inr []"
| "translate_blocks (JObj d # bs) = bind_res (translate_blocks bs) (\<lambda>rest. Inr (
     (if jget d ''type'' \<noteq> JStr ''image'' then JObj d
      else let source = (case get_or d ''source'' (JObj []) of JObj s \<Rightarrow> s | _ \<Rightarrow> []) in
        JObj [(''type'', JStr ''image_url''), (''image_url'', JObj [(''url'', JStr (''data:'' @ py_str (get_or source ''media_type'' (JStr ''image/png''))
          @ '';base64,'' @ py_str (get_or source ''data'' (JStr []))))])]) # rest))"
| "translate_blocks (b # bs) = Inl (Exn ''AttributeError'' (''object has no attribute '' @ repr_str ''get''))"

definition tool_message :: "json \<Rightarrow> obj" where
  "tool_message b = (case b of
     JObj d \<Rightarrow> [(''role'', JStr ''tool''), (''tool_call_id'', get_or d ''tool_use_id'' (JStr [])), (''content'', get_or d ''content'' (JStr []))]
   | _ \<Rightarrow> [])"

definition translate_message :: "message \<Rightarrow> obj list result" where
  "translate_message msg = (let role = jget msg ''role''; content = jget msg ''content'' in
     if role = JStr ''assistant'' then bind_res (translate_assistant content) (\<lambda>m. Inr [m])
     else case content of
       JArr bs \<Rightarrow>
         if role = JStr ''user''
         then (let results = filter (is_typed ''tool_result'') bs; extras = filter (\<lambda>b. \<not> is_typed ''tool_result'' b) bs in
               if results \<noteq> []
               then if extras = [] then Inr (map tool_message results)
                    else bind_res (flatten_text extras) (\<lambda>t. Inr (map tool_message results @ [[(''role'', JStr ''user''), (''content'', JStr t)]]))
               else bind_res (translate_blocks bs) (\<lambda>c. Inr [[(''role'', JStr ''user''), (''content'', JArr c)]]))
         else bind_res (flatten_text bs) (\<lambda>t. Inr [[(''role'', role), (''content'', JStr t)]])
     | _ \<Rightarrow> Inr [[(''role'', role), (''content'', content)]])"

fun translate_all :: "message list \<Rightarrow> obj list result" where
  "translate_all [] = Inr []"
| "translate_all (m # ms) = bind_res (translate_message m) (\<lambda>x. bind_res (translate_all ms) (\<lambda>y. Inr (x @ y)))"

definition translate_messages :: "message list \<Rightarrow> string option \<Rightarrow> obj list result" where
  "translate_messages ms sys = bind_res (translate_all ms) (\<lambda>out. Inr ((case sys of
     Some (c # cs) \<Rightarrow> [[(''role'', JStr ''system''), (''content'', JStr (c # cs))]] | _ \<Rightarrow> []) @ out))"

definition translate_tools :: "obj list option \<Rightarrow> json list option" where
  "translate_tools tools = (case tools of
     None \<Rightarrow> None | Some [] \<Rightarrow> None
   | Some ts \<Rightarrow> Some (map (\<lambda>t. JObj [(''type'', JStr ''function''), (''function'', JObj [(''name'', get_or t ''name'' (JStr [])),
       (''description'', get_or t ''description'' (JStr [])), (''parameters'', get_or t ''input_schema'' (JObj []))])]) ts))"

section \<open>Responses\<close>

record raw_function =
  rf_name :: "string option"
  rf_arguments :: "json option"

record raw_call =
  rc_index :: "int option"
  rc_id :: "string option"
  rc_function :: "raw_function option"

record raw_message =
  rm_content :: "string option"
  rm_calls :: "raw_call list"

record raw_choice =
  ch_message :: "raw_message option"
  ch_finish :: "string option"

record raw_response =
  rr_choices :: "raw_choice list"
  rr_usage :: "(int option \<times> int option) option"

text \<open>A call as parsed: its arguments are whatever value the text denotes.\<close>

record parsed_call =
  pc_id :: string
  pc_name :: string
  pc_arguments :: json

record parsed_response =
  pr_content :: string
  pr_calls :: "parsed_call list"
  pr_stop :: "string option"
  pr_usage :: obj

definition or_blank :: "string option \<Rightarrow> string" where
  "or_blank x = (case x of Some s \<Rightarrow> s | None \<Rightarrow> [])"

definition parse_text :: "float_conv \<Rightarrow> string \<Rightarrow> json" where
  "parse_text fl s = (case json_loads fl s of Some v \<Rightarrow> v | None \<Rightarrow> JObj [(''_raw'', JStr s)])"

definition parse_arguments :: "float_conv \<Rightarrow> json option \<Rightarrow> json" where
  "parse_arguments fl raw = (case raw of
     None \<Rightarrow> parse_text fl ''{}'' | Some (JStr s) \<Rightarrow> parse_text fl s | Some v \<Rightarrow> if truthy v then v else JObj [])"

definition parse_call :: "float_conv \<Rightarrow> raw_call \<Rightarrow> parsed_call option" where
  "parse_call fl rc = (case rc_function rc of None \<Rightarrow> None
   | Some fn \<Rightarrow> Some \<lparr>pc_id = or_blank (rc_id rc), pc_name = or_blank (rf_name fn), pc_arguments = parse_arguments fl (rf_arguments fn)\<rparr>)"

definition map_stop_reason :: "string option \<Rightarrow> string option" where
  "map_stop_reason finish = (case finish of None \<Rightarrow> None | Some f \<Rightarrow> Some (
     case dget [(''stop'', ''end_turn''), (''length'', ''max_tokens''), (''tool_calls'', ''tool_use''), (''function_call'', ''tool_use''),
       (''content_filter'', ''end_turn'')] f of Some r \<Rightarrow> r | None \<Rightarrow> f))"

definition parse_usage :: "raw_response \<Rightarrow> obj" where
  "parse_usage raw = (case rr_usage raw of None \<Rightarrow> []
   | Some (inp, out) \<Rightarrow> (case inp of Some i \<Rightarrow> [(''input_tokens'', JInt i)] | None \<Rightarrow> []) @ (case out of Some i \<Rightarrow> [(''output_tokens'', JInt i)] | None \<Rightarrow> []))"

definition parse_response :: "float_conv \<Rightarrow> raw_response \<Rightarrow> parsed_response" where
  "parse_response fl raw = (let choice = (case rr_choices raw of [] \<Rightarrow> None | ch # _ \<Rightarrow> Some ch); message = Option.bind choice ch_message in
     \<lparr>pr_content = (case message of None \<Rightarrow> [] | Some m \<Rightarrow> or_blank (rm_content m)),
      pr_calls = (case message of None \<Rightarrow> [] | Some m \<Rightarrow> List.map_filter (parse_call fl) (rm_calls m)),
      pr_stop = map_stop_reason (Option.bind choice ch_finish), pr_usage = parse_usage raw\<rparr>)"

definition attach_cost :: "(raw_response \<Rightarrow> (rat \<times> string) result) \<Rightarrow> raw_response \<Rightarrow> parsed_response \<Rightarrow> parsed_response" where
  "attach_cost cost raw r = (case cost raw of
     Inl _ \<Rightarrow> r | Inr (x, t) \<Rightarrow> if x > 0 then r\<lparr>pr_usage := dset (pr_usage r) ''cost_usd'' (JFloat x t)\<rparr> else r)"

section \<open>Streams\<close>

record slot =
  sl_id :: string
  sl_name :: string
  sl_args :: "json list"

record stream_state =
  ss_texts :: "string list"
  ss_slots :: "(int, slot) dict"
  ss_stop :: "string option"
  ss_usage :: obj

definition override :: "string option \<Rightarrow> string \<Rightarrow> string" where
  "override new old = (case new of Some (c # cs) \<Rightarrow> c # cs | _ \<Rightarrow> old)"

definition add_fragment :: "raw_call \<Rightarrow> (int, slot) dict \<Rightarrow> (int, slot) dict" where
  "add_fragment rc slots = (case rc_function rc of
     None \<Rightarrow> slots
   | Some fn \<Rightarrow>
       (let index = (case rc_index rc of Some i \<Rightarrow> i | None \<Rightarrow> 0);
            sl = (case dget slots index of Some x \<Rightarrow> x | None \<Rightarrow> \<lparr>sl_id = [], sl_name = [], sl_args = []\<rparr>)
        in dset slots index \<lparr>sl_id = override (rc_id rc) (sl_id sl), sl_name = override (rf_name fn) (sl_name sl),
             sl_args = sl_args sl @ (case rf_arguments fn of Some a \<Rightarrow> if truthy a then [a] else [] | None \<Rightarrow> [])\<rparr>))"

fun update_all :: "obj \<Rightarrow> obj \<Rightarrow> obj" where
  "update_all d [] = d"
| "update_all d ((k, x) # rest) = update_all (dset d k x) rest"

definition stream_chunk :: "raw_response \<Rightarrow> stream_state \<Rightarrow> stream_state" where
  "stream_chunk chunk st = (case rr_choices chunk of
     [] \<Rightarrow> st
   | choice # _ \<Rightarrow>
       \<lparr>ss_texts = ss_texts st @ (case Option.bind (ch_message choice) rm_content of Some (c # cs) \<Rightarrow> [c # cs] | _ \<Rightarrow> []),
        ss_slots = (case ch_message choice of None \<Rightarrow> ss_slots st | Some m \<Rightarrow> fold add_fragment (rm_calls m) (ss_slots st)),
        ss_stop = (case ch_finish choice of Some (c # cs) \<Rightarrow> map_stop_reason (Some (c # cs)) | _ \<Rightarrow> ss_stop st),
        ss_usage = update_all (ss_usage st) (parse_usage chunk)\<rparr>)"

definition call_from_fragments :: "float_conv \<Rightarrow> slot \<Rightarrow> parsed_call result" where
  "call_from_fragments fl sl = bind_res (join_parts (sl_args sl)) (\<lambda>raw_args.
     Inr \<lparr>pc_id = sl_id sl, pc_name = sl_name sl, pc_arguments = (if raw_args = [] then JObj [] else parse_text fl raw_args)\<rparr>)"

fun calls_of_slots :: "float_conv \<Rightarrow> (int \<times> slot) list \<Rightarrow> parsed_call list result" where
  "calls_of_slots fl [] = Inr []"
| "calls_of_slots fl ((_, sl) # rest) = bind_res (call_from_fragments fl sl) (\<lambda>x. bind_res (calls_of_slots fl rest) (\<lambda>xs. Inr (x # xs)))"

definition empty_stream :: stream_state where
  "empty_stream = \<lparr>ss_texts = [], ss_slots = [], ss_stop = None, ss_usage = []\<rparr>"

text \<open>The texts that are yielded, and the final response unless the stream or its assembly fails.\<close>

definition read_stream :: "float_conv \<Rightarrow> raw_response list \<Rightarrow> exn option \<Rightarrow> string list \<times> parsed_response result" where
  "read_stream fl chunks ending = (let st = fold stream_chunk chunks empty_stream in
     (ss_texts st, case ending of Some e \<Rightarrow> Inl e
      | None \<Rightarrow> bind_res (calls_of_slots fl (sort_key fst (ss_slots st))) (\<lambda>calls.
          Inr \<lparr>pr_content = concat (ss_texts st), pr_calls = calls, pr_stop = ss_stop st, pr_usage = ss_usage st\<rparr>)))"

section \<open>Requests and retries\<close>

record litellm_client =
  lt_model :: string
  lt_api_key :: "string option"
  lt_api_base :: "string option"
  lt_max_tokens :: int
  lt_timeout :: "(rat \<times> string) option"
  lt_max_retries :: int
  lt_base_delay :: rat
  lt_max_delay :: rat

definition litellm_init :: "litellm_client \<Rightarrow> litellm_client result" where
  "litellm_init cl =
     (if (case lt_timeout cl of Some (x, _) \<Rightarrow> x \<le> 0 | None \<Rightarrow> False) then Inl (Exn ''ValueError'' ''timeout must be positive'')
      else if lt_max_retries cl < 0 then Inl (Exn ''ValueError'' ''max_retries must be >= 0'')
      else if lt_base_delay cl \<le> 0 \<or> lt_max_delay cl \<le> 0 then Inl (Exn ''ValueError'' ''retry delays must be positive'')
      else Inr cl)"

definition build_request :: "litellm_client \<Rightarrow> message list \<Rightarrow> obj list option \<Rightarrow> string option \<Rightarrow> obj \<Rightarrow> obj result" where
  "build_request cl ms tools sys kwargs = bind_res (translate_messages ms sys) (\<lambda>wire.
     let base = [(''model'', JStr (lt_model cl)), (''messages'', JArr (map JObj wire)), (''max_tokens'', get_or kwargs ''max_tokens'' (JInt (lt_max_tokens cl)))]
        @ (case translate_tools tools of Some ts \<Rightarrow> [(''tools'', JArr ts)] | None \<Rightarrow> [])
        @ (case lt_api_key cl of Some k \<Rightarrow> [(''api_key'', JStr k)] | None \<Rightarrow> [])
        @ (case lt_api_base cl of Some b \<Rightarrow> [(''api_base'', JStr b)] | None \<Rightarrow> [])
        @ (case lt_timeout cl of Some (x, t) \<Rightarrow> [(''timeout'', JFloat x t)] | None \<Rightarrow> [])
     in Inr (update_all base (dpop kwargs ''max_tokens'')))"

record failure =
  fa_exn :: exn
  fa_status :: "int option"

definition is_retryable :: "failure \<Rightarrow> bool" where
  "is_retryable f = (let by_name = list_ex (\<lambda>m. contains m (py_lower (exn_class (fa_exn f))))
       [''timeout'', ''connection'', ''ratelimit'', ''rate_limit'', ''unavailable''] in
     case fa_status f of
       Some st \<Rightarrow> if st \<in> {408, 409, 429} \<or> st \<ge> 500 then True else if 400 \<le> st \<and> st < 500 then False else by_name
     | None \<Rightarrow> by_name)"

text \<open>The provider, the random source and the clock, on the world.\<close>

record ('w, 'r) provider =
  pv_completion :: "obj \<Rightarrow> 'w \<Rightarrow> (failure + 'r) \<times> 'w"
  pv_uniform :: "rat \<Rightarrow> 'w \<Rightarrow> rat \<times> 'w"
  pv_sleep :: "rat \<Rightarrow> 'w \<Rightarrow> 'w"

definition retry_delay :: "litellm_client \<Rightarrow> nat \<Rightarrow> rat" where
  "retry_delay cl attempt = min (lt_base_delay cl * 2 ^ (attempt - 1)) (lt_max_delay cl)"

definition back_off :: "litellm_client \<Rightarrow> ('w, 'r) provider \<Rightarrow> nat \<Rightarrow> 'w \<Rightarrow> 'w" where
  "back_off cl pv attempt w = (let d = retry_delay cl attempt in case pv_uniform pv (d / 4) w of (j, w1) \<Rightarrow> pv_sleep pv (d + j) w1)"

function completion_from :: "litellm_client \<Rightarrow> ('w, 'r) provider \<Rightarrow> obj \<Rightarrow> nat \<Rightarrow> 'w \<Rightarrow> (failure + 'r) \<times> 'w" where
  "completion_from cl pv request attempt w = (case pv_completion pv request w of
     (Inr r, w1) \<Rightarrow> (Inr r, w1)
   | (Inl f, w1) \<Rightarrow> if int attempt \<ge> lt_max_retries cl \<or> \<not> is_retryable f then (Inl f, w1)
       else completion_from cl pv request (attempt + 1) (back_off cl pv (attempt + 1) w1))"
  by pat_completeness auto
termination
  by (relation "measure (\<lambda>(cl, _, _, attempt, _). nat (lt_max_retries cl - int attempt))") auto

declare completion_from.simps [simp del]

definition completion_with_retry :: "litellm_client \<Rightarrow> ('w, 'r) provider \<Rightarrow> obj \<Rightarrow> 'w \<Rightarrow> (failure + 'r) \<times> 'w" where
  "completion_with_retry cl pv request w = completion_from cl pv request 0 w"

definition litellm_chat :: "litellm_client \<Rightarrow> ('w, raw_response) provider \<Rightarrow> (raw_response \<Rightarrow> (rat \<times> string) result) \<Rightarrow> float_conv
    \<Rightarrow> message list \<Rightarrow> obj list option \<Rightarrow> string option \<Rightarrow> obj \<Rightarrow> 'w \<Rightarrow> parsed_response result \<times> 'w" where
  "litellm_chat cl pv cost fl ms tools sys kwargs w = (case build_request cl ms tools sys kwargs of
     Inl e \<Rightarrow> (Inl e, w)
   | Inr request \<Rightarrow> (case completion_with_retry cl pv request w of
        (Inl f, w1) \<Rightarrow> (Inl (fa_exn f), w1) | (Inr raw, w1) \<Rightarrow> (Inr (attach_cost cost raw (parse_response fl raw)), w1)))"

definition litellm_chat_stream :: "litellm_client \<Rightarrow> ('w, raw_response list \<times> exn option) provider \<Rightarrow> float_conv
    \<Rightarrow> message list \<Rightarrow> obj list option \<Rightarrow> string option \<Rightarrow> obj \<Rightarrow> 'w \<Rightarrow> (string list \<times> parsed_response result) \<times> 'w" where
  "litellm_chat_stream cl pv fl ms tools sys kwargs w = (case build_request cl ms tools sys kwargs of
     Inl e \<Rightarrow> (([], Inl e), w)
   | Inr request \<Rightarrow> (case completion_with_retry cl pv (dset request ''stream'' (JBool True)) w of
        (Inl f, w1) \<Rightarrow> (([], Inl (fa_exn f)), w1) | (Inr (chunks, ending), w1) \<Rightarrow> (read_stream fl chunks ending, w1)))"

definition litellm_count_tokens :: "(string \<Rightarrow> string \<Rightarrow> json result) \<Rightarrow> litellm_client \<Rightarrow> string \<Rightarrow> int result" where
  "litellm_count_tokens counter cl s = (case counter (lt_model cl) s of
     Inl _ \<Rightarrow> Inl (Exn ''NotImplementedError'' ''LiteLLM token counting is unavailable'')
   | Inr x \<Rightarrow> (case as_int x of
        Some n \<Rightarrow> if n < 0 then Inl (Exn ''NotImplementedError'' ''LiteLLM returned an invalid token count'') else Inr n
      | None \<Rightarrow> Inl (Exn ''NotImplementedError'' ''LiteLLM returned an invalid token count'')))"

section \<open>A turn survives the wire\<close>

text \<open>The message of the wire format as a response of the provider shows it.\<close>

definition shown_call :: "json \<Rightarrow> raw_call" where
  "shown_call x = (case x of
     JObj d \<Rightarrow> \<lparr>rc_index = None, rc_id = str_opt (jget d ''id''), rc_function = (case jget d ''function'' of
        JObj f \<Rightarrow> Some \<lparr>rf_name = str_opt (jget f ''name''), rf_arguments = dget f ''arguments''\<rparr> | _ \<Rightarrow> None)\<rparr>
   | _ \<Rightarrow> \<lparr>rc_index = None, rc_id = None, rc_function = None\<rparr>)"

definition shown_message :: "obj \<Rightarrow> raw_message" where
  "shown_message m = \<lparr>rm_content = str_opt (jget m ''content''), rm_calls = (case jget m ''tool_calls'' of JArr cs \<Rightarrow> map shown_call cs | _ \<Rightarrow> [])\<rparr>"

definition shown :: "obj \<Rightarrow> raw_response" where
  "shown m = \<lparr>rr_choices = [\<lparr>ch_message = Some (shown_message m), ch_finish = Some ''tool_calls''\<rparr>], rr_usage = None\<rparr>"

definition as_parsed :: "tool_call \<Rightarrow> parsed_call" where
  "as_parsed c = \<lparr>pc_id = call_id c, pc_name = call_name c, pc_arguments = JObj (call_arguments c)\<rparr>"

definition call_block :: "tool_call \<Rightarrow> json" where
  "call_block c = JObj [(''type'', JStr ''tool_use''), (''id'', JStr (call_id c)), (''name'', JStr (call_name c)), (''input'', JObj (call_arguments c))]"

lemma parse_text_dumps: "json_wf fl v \<Longrightarrow> parse_text fl (json_dumps v) = v"
  by (simp add: parse_text_def json_dumps_def json_loads_dumps std_opts_spaced)

lemma wire_call_block: "wire_call (call_block c) = Some (JObj [(''id'', JStr (call_id c)), (''type'', JStr ''function''),
    (''function'', JObj [(''name'', JStr (call_name c)), (''arguments'', JStr (json_dumps (JObj (call_arguments c))))])])"
  by (simp add: wire_call_def call_block_def jget_def get_or_def)

lemma parse_shown_call: "json_wf fl (JObj (call_arguments c)) \<Longrightarrow> parse_call fl (shown_call (the (wire_call (call_block c)))) = Some (as_parsed c)"
  unfolding wire_call_block
  by (simp add: shown_call_def parse_call_def parse_arguments_def as_parsed_def jget_def or_blank_def parse_text_dumps del: json_wf.simps)

lemma map_filter_some: "(\<And>x. x \<in> set xs \<Longrightarrow> f (g x) = Some (h x)) \<Longrightarrow> List.map_filter f (map g xs) = map h xs"
  by (induction xs) (simp_all add: List.map_filter_simps)

lemma map_filter_none: "(\<And>x. x \<in> set xs \<Longrightarrow> f x = None) \<Longrightarrow> List.map_filter f xs = []"
  by (induction xs) (simp_all add: List.map_filter_simps)

declare map_filter_append [simp]

lemma translate_blocks_of_turn:
  "translate_assistant (assistant_content r) = Inr ([(''role'', JStr ''assistant''),
      (''content'', if resp_content r = [] \<and> resp_tool_calls r \<noteq> [] then JNull else JStr (resp_content r))]
     @ (if resp_tool_calls r = [] then [] else [(''tool_calls'', JArr (map (the \<circ> wire_call \<circ> call_block) (resp_tool_calls r)))]))"
proof -
  let ?t = "if resp_content r \<noteq> [] then [JObj [(''type'', JStr ''text''), (''text'', JStr (resp_content r))]] else []"
  let ?bs = "?t @ map call_block (resp_tool_calls r)"
  have calls: "List.map_filter wire_call ?bs = map (the \<circ> wire_call \<circ> call_block) (resp_tool_calls r)"
    using map_filter_some [of "resp_tool_calls r" wire_call call_block "the \<circ> wire_call \<circ> call_block"]
    by (simp add: wire_call_block) (simp add: wire_call_def jget_def List.map_filter_simps)
  have "List.map_filter block_text (map call_block (resp_tool_calls r)) = []"
    by (rule map_filter_none) (auto simp: block_text_def call_block_def jget_def)
  then have "join_parts (List.map_filter block_text ?bs) = Inr (resp_content r)"
    by (simp add: block_text_def jget_def get_or_def List.map_filter_simps)
  moreover have "assistant_content r = (if ?bs = [] then JStr (resp_content r) else JArr ?bs)"
    by (simp add: assistant_content_def call_block_def Let_def)
  ultimately show ?thesis using calls
    by (auto simp: translate_assistant_def iter_content_def Let_def)
qed

text \<open>
  C26: a turn of the assistant survives the wire format: stored in the conversation, translated for the provider and parsed as
  a response again, it has the same text and the same tool calls with the same identifiers, names and arguments.
\<close>

theorem assistant_turn_roundtrip:
  assumes "\<forall>c \<in> set (resp_tool_calls r). json_wf fl (JObj (call_arguments c))"
  shows "\<exists>m. translate_message (assistant_message (assistant_content r)) = Inr [m]
    \<and> pr_content (parse_response fl (shown m)) = resp_content r \<and> pr_calls (parse_response fl (shown m)) = map as_parsed (resp_tool_calls r)"
proof -
  let ?m = "[(''role'', JStr ''assistant''), (''content'', if resp_content r = [] \<and> resp_tool_calls r \<noteq> [] then JNull else JStr (resp_content r))]
     @ (if resp_tool_calls r = [] then [] else [(''tool_calls'', JArr (map (the \<circ> wire_call \<circ> call_block) (resp_tool_calls r)))])"
  have "translate_message (assistant_message (assistant_content r)) = Inr [?m]"
    unfolding translate_message_def assistant_message_def Let_def by (simp add: jget_def translate_blocks_of_turn)
  moreover have "List.map_filter (parse_call fl) (map (shown_call \<circ> (the \<circ> wire_call \<circ> call_block)) (resp_tool_calls r)) = map as_parsed (resp_tool_calls r)"
    by (rule map_filter_some) (use assms parse_shown_call in auto)
  ultimately show ?thesis
    by (intro exI [of _ ?m]) (auto simp: parse_response_def shown_def shown_message_def jget_def or_blank_def List.map_filter_simps)
qed

section \<open>A valid history stays valid on the wire\<close>

text \<open>The rule of providers on wire messages: every requested call is answered by a tool message, in order, before anything else.\<close>

definition wire_requests :: "obj \<Rightarrow> json list" where
  "wire_requests m = (case jget m ''tool_calls'' of JArr cs \<Rightarrow> map (\<lambda>x. case x of JObj d \<Rightarrow> jget d ''id'' | _ \<Rightarrow> JNull) cs | _ \<Rightarrow> [])"

definition is_tool_message :: "obj \<Rightarrow> bool" where
  "is_tool_message m = (jget m ''role'' = JStr ''tool'')"

fun wire_history :: "json list \<Rightarrow> obj list \<Rightarrow> json list option" where
  "wire_history pending [] = Some pending"
| "wire_history pending (m # ms) =
     (if is_tool_message m
      then case pending of [] \<Rightarrow> None | i # rest \<Rightarrow> if jget m ''tool_call_id'' = i then wire_history rest ms else None
      else if pending = [] then wire_history (wire_requests m) ms else None)"

text \<open>Requests stand in turns of the assistant, results in turns of the user, and both carry identifiers.\<close>

definition roled :: "message \<Rightarrow> bool" where
  "roled m = ((requests m \<noteq> [] \<longrightarrow> jget m ''role'' = JStr ''assistant'') \<and> jget m ''role'' \<in> {JStr ''user'', JStr ''assistant''}
     \<and> (replies m \<noteq> [] \<longrightarrow> jget m ''role'' = JStr ''user'')
     \<and> list_all (\<lambda>b. case b of JObj d \<Rightarrow> (jget d ''type'' = JStr ''tool_use'' \<longrightarrow> dhas d ''id'') \<and> (jget d ''type'' = JStr ''tool_result'' \<longrightarrow> dhas d ''tool_use_id'')
         | _ \<Rightarrow> True) (blocks_of m))"

text \<open>
  A turn of results may hold other blocks as well, which go out in a message of their own after the results. The
  results of one request are split when such a turn is followed by another turn of results.
\<close>

definition has_extras :: "message \<Rightarrow> bool" where
  "has_extras m = list_ex (\<lambda>b. \<not> is_typed ''tool_result'' b) (blocks_of m)"

fun split_results :: "message list \<Rightarrow> bool" where
  "split_results (m # m' # ms) \<longleftrightarrow> replies m \<noteq> [] \<and> has_extras m \<and> replies m' \<noteq> [] \<or> split_results (m' # ms)"
| "split_results ms \<longleftrightarrow> False"

lemma get_or_has: "dhas d k \<Longrightarrow> get_or d k x = jget d k"
  by (cases "dget d k") (auto simp: get_or_def jget_def dhas_def dget_def map_of_eq_None_iff)

lemma raw_id_obj [simp]: "raw_id ty key (JObj d) = (if jget d ''type'' = JStr ty then Some (jget d key) else None)"
  by (simp add: raw_id_def)

lemma wire_calls_ids:
  assumes "list_all (\<lambda>b. case b of JObj d \<Rightarrow> jget d ''type'' = JStr ''tool_use'' \<longrightarrow> dhas d ''id'' | _ \<Rightarrow> True) bs"
  shows "map (\<lambda>x. case x of JObj d \<Rightarrow> jget d ''id'' | _ \<Rightarrow> JNull) (List.map_filter wire_call bs) = List.map_filter (raw_id ''tool_use'' ''id'') bs"
  using assms
proof (induction bs)
  case (Cons b bs)
  then show ?case by (cases b) (auto simp: List.map_filter_simps wire_call_def raw_id_def get_or_has jget_def [of "_ # _"])
qed (simp add: List.map_filter_simps)

lemma tool_messages_answer:
  assumes "list_all (\<lambda>b. is_typed ''tool_result'' b \<and> (case b of JObj d \<Rightarrow> dhas d ''tool_use_id'' | _ \<Rightarrow> True)) bs"
    and "prefix (List.map_filter (raw_id ''tool_result'' ''tool_use_id'') bs) p"
  shows "wire_history p (map tool_message bs @ rest) = wire_history (drop (length (List.map_filter (raw_id ''tool_result'' ''tool_use_id'') bs)) p) rest"
  using assms
proof (induction bs arbitrary: p)
  case (Cons b bs)
  then obtain d where b: "b = JObj d" "jget d ''type'' = JStr ''tool_result''" "dhas d ''tool_use_id''"
    by (cases b) (auto simp: is_typed_def)
  then obtain q where p: "p = jget d ''tool_use_id'' # q" "prefix (List.map_filter (raw_id ''tool_result'' ''tool_use_id'') bs) q"
    using Cons.prems(2) by (cases p) (auto simp: List.map_filter_simps)
  then show ?case using Cons.IH [of q] Cons.prems(1) b
    by (simp add: List.map_filter_simps tool_message_def is_tool_message_def jget_def [of "_ # _"] get_or_has)
qed (simp add: List.map_filter_simps)

lemma no_replies: "replies m = [] \<Longrightarrow> jget m ''content'' = JArr bs \<Longrightarrow> filter (is_typed ''tool_result'') bs = []"
proof -
  have "List.map_filter (raw_id ''tool_result'' ''tool_use_id'') bs = [] \<Longrightarrow> filter (is_typed ''tool_result'') bs = []"
  proof (induction bs)
    case (Cons b bs)
    then show ?case by (cases b) (auto simp: List.map_filter_simps raw_id_def is_typed_def split: if_splits)
  qed simp
  then show "replies m = [] \<Longrightarrow> jget m ''content'' = JArr bs \<Longrightarrow> ?thesis" by (simp add: replies_def blocks_of_def)
qed

lemma plain_turn:
  assumes "roled m" "replies m = []" "translate_message m = Inr ws"
  shows "\<exists>w. ws = [w] \<and> \<not> is_tool_message w \<and> wire_requests w = requests m"
proof (cases "jget m ''role'' = JStr ''assistant''")
  case True
  then obtain w where tr: "translate_assistant (jget m ''content'') = Inr w" and ws: "ws = [w]"
    using assms(3) by (auto simp: translate_message_def Let_def bind_res_Inr_iff)
  have ids: "list_all (\<lambda>b. case b of JObj d \<Rightarrow> jget d ''type'' = JStr ''tool_use'' \<longrightarrow> dhas d ''id'' | _ \<Rightarrow> True) (blocks_of m)"
    using assms(1) unfolding roled_def by (auto simp: list_all_iff split: json.splits)
  have strs: "List.map_filter wire_call (map (\<lambda>(k, _). JStr k) d) = []" for d :: obj
    by (rule map_filter_none) (auto simp: wire_call_def)
  have "\<not> is_tool_message w \<and> wire_requests w = requests m"
    using tr wire_calls_ids [OF ids]
    by (cases "jget m ''content''")
      (auto simp: translate_assistant_def iter_content_def bind_res_Inr_iff Let_def requests_def blocks_of_def is_tool_message_def
         wire_requests_def jget_def [of "_ # _"] jget_def [of "_ @ _"] List.map_filter_simps strs split: if_splits)
  then show ?thesis using ws by simp
next
  case False
  then have user: "jget m ''role'' = JStr ''user''" and none: "requests m = []" using assms(1) by (auto simp: roled_def)
  then show ?thesis using assms(3) False no_replies [OF assms(2)]
    by (cases "jget m ''content''")
      (auto simp: translate_message_def Let_def bind_res_Inr_iff is_tool_message_def wire_requests_def jget_def [of "_ # _"])
qed

lemma replies_filter: "replies m = List.map_filter (raw_id ''tool_result'' ''tool_use_id'') (filter (is_typed ''tool_result'') (blocks_of m))"
proof -
  have "List.map_filter (raw_id ''tool_result'' ''tool_use_id'') bs
      = List.map_filter (raw_id ''tool_result'' ''tool_use_id'') (filter (is_typed ''tool_result'') bs)" for bs
  proof (induction bs)
    case (Cons b bs)
    then show ?case by (cases b) (auto simp: List.map_filter_simps raw_id_def is_typed_def)
  qed simp
  then show ?thesis by (simp add: replies_def)
qed

lemma result_turn:
  assumes "roled m" "replies m \<noteq> []" "translate_message m = Inr ws"
  defines "rs \<equiv> filter (is_typed ''tool_result'') (blocks_of m)"
  shows "\<exists>xs. ws = map tool_message rs @ xs \<and> (if has_extras m then \<exists>x. xs = [x] \<and> \<not> is_tool_message x \<and> wire_requests x = [] else xs = [])"
    and "list_all (\<lambda>b. is_typed ''tool_result'' b \<and> (case b of JObj d \<Rightarrow> dhas d ''tool_use_id'' | _ \<Rightarrow> True)) rs"
proof -
  have user: "jget m ''role'' = JStr ''user''" using assms(1,2) by (auto simp: roled_def)
  obtain bs where content: "jget m ''content'' = JArr bs" "blocks_of m = bs"
    using assms(2) by (cases "jget m ''content''") (auto simp: replies_def blocks_of_def List.map_filter_simps)
  have "rs \<noteq> []" using assms(2) replies_filter [of m] by (auto simp: rs_def List.map_filter_simps)
  moreover have "has_extras m \<longleftrightarrow> filter (\<lambda>b. \<not> is_typed ''tool_result'' b) bs \<noteq> []"
    using content(2) by (auto simp: has_extras_def list_ex_iff filter_empty_conv)
  ultimately show "\<exists>xs. ws = map tool_message rs @ xs \<and> (if has_extras m then \<exists>x. xs = [x] \<and> \<not> is_tool_message x \<and> wire_requests x = [] else xs = [])"
    using assms(3) user content unfolding rs_def
    by (auto simp: translate_message_def Let_def bind_res_Inr_iff is_tool_message_def wire_requests_def jget_def [of "_ # _"])
  show "list_all (\<lambda>b. is_typed ''tool_result'' b \<and> (case b of JObj d \<Rightarrow> dhas d ''tool_use_id'' | _ \<Rightarrow> True)) rs"
    using assms(1) unfolding roled_def rs_def list_all_iff by (fastforce simp: is_typed_def split: json.splits)
qed

text \<open>Whether results are still owed after a turn shows in the turn that follows.\<close>

lemma owed_after: "history p ms = Some [] \<Longrightarrow> p = [] \<longleftrightarrow> (case ms of [] \<Rightarrow> True | m # _ \<Rightarrow> replies m = [])"
  by (cases ms) (auto split: if_splits)

lemma translate_all_valid:
  "translate_all ms = Inr ws \<Longrightarrow> list_all roled ms \<Longrightarrow> history p ms = Some [] \<Longrightarrow>
    wire_history p ws = (if split_results ms then None else Some [])"
proof (induction p ms arbitrary: ws rule: history.induct)
  case (2 p m ms)
  obtain xs ys where ws: "ws = xs @ ys" "translate_message m = Inr xs" "translate_all ms = Inr ys"
    using 2(3) by (auto simp: bind_res_Inr_iff)
  have m: "roled m" "list_all roled ms" using 2(4) by auto
  show ?case
  proof (cases "replies m = []")
    case True
    then have "split_results (m # ms) = split_results ms" by (cases ms) auto
    then show ?thesis using plain_turn [OF m(1) True ws(2)] ws 2(2) [of ys] 2(5) m True by (auto split: if_splits)
  next
    case False
    let ?rs = "filter (is_typed ''tool_result'') (blocks_of m)" and ?p = "drop (length (replies m)) p"
    have rest: "prefix (replies m) p" "history ?p ms = Some []" "requests m = []" using 2(5) False by (auto split: if_splits)
    obtain zs where zs: "xs = map tool_message ?rs @ zs"
      "if has_extras m then \<exists>x. zs = [x] \<and> \<not> is_tool_message x \<and> wire_requests x = [] else zs = []"
      using result_turn(1) [OF m(1) False ws(2)] by blast
    have "wire_history p ws = wire_history ?p (zs @ ys)"
      using tool_messages_answer [OF result_turn(2) [OF m(1) False ws(2)], of p "zs @ ys"] rest(1) zs(1) ws(1) replies_filter [of m] by simp
    moreover have "wire_history ?p ys = (if split_results ms then None else Some [])"
      using 2(1) [OF False _ ws(3) m(2) rest(2)] rest(1,3) by simp
    moreover have "split_results (m # ms) \<longleftrightarrow> has_extras m \<and> ?p \<noteq> [] \<or> split_results ms"
      using owed_after [OF rest(2)] False by (cases ms) auto
    ultimately show ?thesis using zs(2) by (auto split: if_splits)
  qed
qed simp

text \<open>
  The turns the agent itself adds to a conversation have this form: tasks, replies of the model, and results, one to a
  turn; so their results are never split.
\<close>

definition agent_turn :: "message \<Rightarrow> bool" where
  "agent_turn m \<longleftrightarrow> (\<exists>t. m = user_message t) \<or> (\<exists>r. m = assistant_message (assistant_content r)) \<or> (\<exists>i out err. m = tool_result_message i out err)"

lemma agent_turn_intros:
  "agent_turn (user_message t)" "agent_turn (assistant_message (assistant_content r))" "agent_turn (tool_result_message i out err)"
  unfolding agent_turn_def by blast+

lemma agent_turn_blocks:
  "blocks_of (user_message t) = []" "jget (user_message t) ''role'' = JStr ''user''"
  "jget (assistant_message x) ''role'' = JStr ''assistant''" "jget (tool_result_message i out err) ''role'' = JStr ''user''"
  "\<exists>d. blocks_of (tool_result_message i out err) = [JObj d] \<and> jget d ''type'' = JStr ''tool_result'' \<and> dhas d ''tool_use_id''"
  "b \<in> set (blocks_of (assistant_message (assistant_content r))) \<Longrightarrow>
     \<exists>d. b = JObj d \<and> (jget d ''type'' = JStr ''text'' \<or> jget d ''type'' = JStr ''tool_use'' \<and> dhas d ''id'')"
  by (auto simp: blocks_of_def user_message_def assistant_message_def tool_result_message_def jget_def assistant_content_def dhas_def Let_def
      split: if_splits)

lemma model_turn_replies: "replies (assistant_message (assistant_content r)) = []"
  unfolding replies_def by (intro map_filter_none) (auto simp: raw_id_def dest!: agent_turn_blocks(6))

lemma agent_turn_roled: "agent_turn m \<Longrightarrow> roled m"
proof -
  have "roled (user_message t)" for t
    by (simp add: roled_def requests_def replies_def agent_turn_blocks(1,2) List.map_filter_simps)
  moreover have "roled (assistant_message (assistant_content r))" for r
    by (auto simp: roled_def model_turn_replies agent_turn_blocks(3) list_all_iff dest!: agent_turn_blocks(6))
  moreover have "roled (tool_result_message i out err)" for i out err
  proof -
    obtain d where d: "blocks_of (tool_result_message i out err) = [JObj d]" "jget d ''type'' = JStr ''tool_result''" "dhas d ''tool_use_id''"
      using agent_turn_blocks(5) by blast
    then show ?thesis by (simp add: roled_def requests_def replies_def agent_turn_blocks(4) List.map_filter_simps)
  qed
  ultimately show "agent_turn m \<Longrightarrow> roled m" unfolding agent_turn_def by blast
qed

lemma agent_turn_extras: "agent_turn m \<Longrightarrow> replies m \<noteq> [] \<Longrightarrow> \<not> has_extras m"
proof -
  assume m: "agent_turn m" "replies m \<noteq> []"
  have "replies (user_message t) = []" for t by (simp add: replies_def agent_turn_blocks(1) List.map_filter_simps)
  then obtain i out err where "m = tool_result_message i out err"
    using m model_turn_replies unfolding agent_turn_def by blast
  then show ?thesis using agent_turn_blocks(5) [of i out err] by (auto simp: has_extras_def is_typed_def)
qed

lemma agent_turns_unsplit: "list_all agent_turn ms \<Longrightarrow> list_all roled ms \<and> \<not> split_results ms"
proof (induction ms rule: split_results.induct)
  case (1 m m' ms)
  then show ?case using agent_turn_roled agent_turn_extras [of m] by auto
qed (simp_all add: agent_turn_roled)

text \<open>
  C14: take a history that pairs every request for tools with its results, with requests in turns of the assistant, results
  in turns of the user, no other roles, and identifiers on both. When it can be translated, it is paired on the wire
  exactly if no turn that holds results beside other blocks is directly followed by another turn of results: the
  translated messages then answer each requested call by its identifier, in order, before anything else follows, and
  answer nothing that was not requested. In particular this holds of every history made of the agent's own turns.
\<close>

theorem translation_keeps_history_valid:
  assumes "translate_messages ms sys = Inr ws" "list_all roled ms \<or> list_all agent_turn ms" "wf_history ms"
  shows "(wire_history [] ws = Some [] \<longleftrightarrow> \<not> split_results ms) \<and> (list_all agent_turn ms \<longrightarrow> wire_history [] ws = Some [])"
proof -
  obtain out where out: "translate_all ms = Inr out" "ws = (case sys of
      Some (c # cs) \<Rightarrow> [[(''role'', JStr ''system''), (''content'', JStr (c # cs))]] | _ \<Rightarrow> []) @ out"
    using assms(1) by (auto simp: translate_messages_def bind_res_Inr_iff)
  have "list_all roled ms" using assms(2) agent_turns_unsplit by blast
  from translate_all_valid [OF out(1) this] have "wire_history [] out = (if split_results ms then None else Some [])"
    using assms(3) by (simp add: wf_history_def)
  moreover have "wire_history [] ws = wire_history [] out"
    using out(2) by (auto simp: is_tool_message_def wire_requests_def jget_def split: option.split list.split)
  ultimately show ?thesis using agent_turns_unsplit [of ms] by simp
qed

section \<open>A streamed response is the response\<close>

text \<open>The fragments of a stream, and what they say of the call at an index.\<close>

definition fragments :: "raw_response list \<Rightarrow> raw_call list" where
  "fragments chunks = concat (map (\<lambda>chunk. case rr_choices chunk of [] \<Rightarrow> [] | ch # _ \<Rightarrow> (case ch_message ch of None \<Rightarrow> [] | Some m \<Rightarrow> rm_calls m)) chunks)"

definition at_index :: "int \<Rightarrow> raw_call \<Rightarrow> bool" where
  "at_index i rc = (rc_function rc \<noteq> None \<and> (case rc_index rc of Some j \<Rightarrow> j | None \<Rightarrow> 0) = i)"

definition fragment_args :: "raw_call \<Rightarrow> json list" where
  "fragment_args rc = (case Option.bind (rc_function rc) rf_arguments of Some a \<Rightarrow> if truthy a then [a] else [] | None \<Rightarrow> [])"

definition merged_slot :: "raw_call list \<Rightarrow> slot" where
  "merged_slot rcs = \<lparr>sl_id = fold (\<lambda>rc. override (rc_id rc)) rcs [], sl_name = fold (\<lambda>rc. override (Option.bind (rc_function rc) rf_name)) rcs [],
     sl_args = concat (map fragment_args rcs)\<rparr>"

definition chunk_texts :: "raw_response \<Rightarrow> string list" where
  "chunk_texts chunk = (case rr_choices chunk of [] \<Rightarrow> [] | ch # _ \<Rightarrow> (case Option.bind (ch_message ch) rm_content of Some (c # cs) \<Rightarrow> [c # cs] | _ \<Rightarrow> []))"

lemma stream_slots: "ss_slots (fold stream_chunk chunks st) = fold add_fragment (fragments chunks) (ss_slots st)"
  by (induction chunks arbitrary: st) (auto simp: fragments_def stream_chunk_def split: list.split option.split)

lemma stream_texts: "ss_texts (fold stream_chunk chunks st) = ss_texts st @ concat (map chunk_texts chunks)"
  by (induction chunks arbitrary: st) (auto simp: chunk_texts_def stream_chunk_def split: list.split option.split)

text \<open>The slot of an index collects the fragments of that index, and only those.\<close>

definition extended :: "raw_call \<Rightarrow> slot \<Rightarrow> slot" where
  "extended rc sl = \<lparr>sl_id = override (rc_id rc) (sl_id sl), sl_name = override (Option.bind (rc_function rc) rf_name) (sl_name sl),
     sl_args = sl_args sl @ fragment_args rc\<rparr>"

lemma merged_slot_snoc: "merged_slot (rcs @ [rc]) = extended rc (merged_slot rcs)"
  by (simp add: merged_slot_def extended_def)

lemma add_fragment_get:
  "dget (add_fragment rc d) i = (if at_index i rc then Some (extended rc (case dget d i of Some x \<Rightarrow> x | None \<Rightarrow> merged_slot [])) else dget d i)"
  by (cases "rc_function rc"; cases "dget d i") (auto simp: add_fragment_def at_index_def extended_def merged_slot_def fragment_args_def Let_def)

lemma slots_collect:
  "dget (fold add_fragment rcs []) i = (if filter (at_index i) rcs = [] then None else Some (merged_slot (filter (at_index i) rcs)))"
proof (induction rcs rule: rev_induct)
  case (snoc rc rcs)
  show ?case
  proof (cases "at_index i rc")
    case True
    then have "filter (at_index i) (rcs @ [rc]) = filter (at_index i) rcs @ [rc]" by simp
    then show ?thesis using True snoc by (simp add: add_fragment_get merged_slot_snoc)
  qed (use snoc in \<open>simp add: add_fragment_get\<close>)
qed simp

lemma add_fragment_wf: "dwf d \<Longrightarrow> dwf (add_fragment rc d)"
  by (simp add: add_fragment_def Let_def dwf_dset split: option.split)

lemma slots_keys: "dwf (fold add_fragment rcs []) \<and> set (map fst (fold add_fragment rcs [])) = {i. \<exists>rc \<in> set rcs. at_index i rc}"
proof -
  have "dwf (fold add_fragment rcs [])"
    by (induction rcs rule: rev_induct) (simp_all add: add_fragment_wf dwf_def [of "[]"])
  moreover have "i \<in> set (map fst (fold add_fragment rcs [])) \<longleftrightarrow> (\<exists>rc \<in> set rcs. at_index i rc)" for i
    using slots_collect [of rcs i] dhas_dget [of "fold add_fragment rcs []" i] by (auto simp: dhas_def filter_empty_conv)
  ultimately show ?thesis by blast
qed

lemma sorted_slots:
  assumes "dwf d" "set (map fst d) = {0..<int n}" "\<And>k. k < n \<Longrightarrow> dget d (int k) = Some (g k)"
  shows "sort_key fst d = map (\<lambda>k. (int k, g k)) [0..<n]"
proof -
  have keys: "map fst (sort_key fst d) = map int [0..<n]"
  proof (rule sorted_distinct_set_unique)
    show "sorted (map fst (sort_key fst d))" by simp
    show "distinct (map fst (sort_key fst d))" using assms(1) by (simp add: dwf_def distinct_map)
    show "sorted (map int [0..<n])" by (simp add: sorted_map)
    show "distinct (map int [0..<n])" by (simp add: distinct_map)
    show "set (map fst (sort_key fst d)) = set (map int [0..<n])" using assms(2) by (auto simp: image_int_atLeastLessThan [of 0, simplified])
  qed
  have "snd x = g (nat (fst x))" if "x \<in> set d" for x
  proof -
    have "dget d (fst x) = Some (snd x)" using assms(1) that by (simp add: dget_def dwf_def)
    moreover have "fst x \<in> {0..<int n}" using that unfolding assms(2) [symmetric] by simp
    ultimately show ?thesis using assms(3) [of "nat (fst x)"] by (simp add: nat_less_iff)
  qed
  then have "map ((\<lambda>i. (i, g (nat i))) \<circ> fst) (sort_key fst d) = sort_key fst d"
    by (intro map_idI) (simp add: prod_eq_iff)
  then have "sort_key fst d = map (\<lambda>i. (i, g (nat i))) (map fst (sort_key fst d))" by simp
  then show ?thesis unfolding keys by simp
qed

lemma calls_of_map: "(\<And>k. k \<in> set ks \<Longrightarrow> call_from_fragments fl (g k) = Inr (h k)) \<Longrightarrow> calls_of_slots fl (map (\<lambda>k. (int k, g k)) ks) = Inr (map h ks)"
  by (induction ks) simp_all

text \<open>
  A value that is not split arrives whole in the fragments: each of them has it or has nothing, and one has it unless
  there is nothing to say. The fragments of a call carry it when its identifier and its name arrive whole and the texts
  of the arguments in the fragments, one after the other, are its arguments, which are not empty.
\<close>

definition arrives :: "string option list \<Rightarrow> string option \<Rightarrow> bool" where
  "arrives vs whole = (list_all (\<lambda>v. v \<in> {None, Some [], whole}) vs \<and> (whole \<in> {None, Some []} \<or> whole \<in> set vs))"

definition argument_text :: "raw_call \<Rightarrow> string option" where
  "argument_text rc = (case Option.bind (rc_function rc) rf_arguments of None \<Rightarrow> Some [] | Some (JStr s) \<Rightarrow> Some s | _ \<Rightarrow> None)"

definition carries :: "raw_call list \<Rightarrow> raw_call \<Rightarrow> bool" where
  "carries rcs whole = (arrives (map rc_id rcs) (rc_id whole) \<and> (case rc_function whole of None \<Rightarrow> False
     | Some fn \<Rightarrow> arrives (map (\<lambda>rc. Option.bind (rc_function rc) rf_name) rcs) (rf_name fn)
         \<and> list_all (\<lambda>rc. argument_text rc \<noteq> None) rcs
         \<and> rf_arguments fn = Some (JStr (concat (map (\<lambda>rc. the (argument_text rc)) rcs)))
         \<and> concat (map (\<lambda>rc. the (argument_text rc)) rcs) \<noteq> []))"

lemma carries_nonempty: "carries rcs whole \<Longrightarrow> rcs \<noteq> []"
  by (rule notI) (simp add: carries_def split: option.splits)

lemma fold_override: "list_all (\<lambda>v. v \<in> {None, Some [], whole}) vs \<Longrightarrow>
    fold override vs old = (if whole \<in> set vs \<and> whole \<notin> {None, Some []} then or_blank whole else old)"
proof (induction vs arbitrary: old)
  case (Cons v vs)
  have "override None x = x" "override (Some []) x = x" "whole \<notin> {None, Some []} \<Longrightarrow> override whole x = or_blank whole" for x
    by (auto simp: override_def or_blank_def split: option.split list.split)
  then show ?case using Cons by auto
qed simp

lemma override_arrives: "arrives vs whole \<Longrightarrow> fold override vs [] = or_blank whole"
proof -
  assume "arrives vs whole"
  then have *: "list_all (\<lambda>v. v \<in> {None, Some [], whole}) vs" "whole \<in> {None, Some []} \<or> whole \<in> set vs"
    by (auto simp: arrives_def)
  have "whole \<in> {None, Some []} \<Longrightarrow> or_blank whole = []" by (auto simp: or_blank_def)
  then show ?thesis using fold_override [OF *(1), of "[]"] *(2) by auto
qed

lemma join_fragments:
  "list_all (\<lambda>rc. argument_text rc \<noteq> None) rcs \<Longrightarrow>
    join_parts (concat (map fragment_args rcs)) = Inr (concat (map (\<lambda>rc. the (argument_text rc)) rcs))"
proof (induction rcs)
  case (Cons rc rcs)
  show ?case
  proof (cases "Option.bind (rc_function rc) rf_arguments")
    case None
    then show ?thesis using Cons by (simp add: argument_text_def fragment_args_def)
  next
    case (Some a)
    then obtain s where "a = JStr s" using Cons.prems by (cases a) (auto simp: argument_text_def)
    then show ?thesis using Cons Some by (simp add: argument_text_def fragment_args_def)
  qed
qed simp

lemma carried_call: "carries rcs whole \<Longrightarrow> \<exists>x. parse_call fl whole = Some x \<and> call_from_fragments fl (merged_slot rcs) = Inr x"
proof -
  assume c: "carries rcs whole"
  then obtain fn where fn: "rc_function whole = Some fn" by (auto simp: carries_def split: option.splits)
  define s where "s = concat (map (\<lambda>rc. the (argument_text rc)) rcs)"
  have args: "rf_arguments fn = Some (JStr s)" "s \<noteq> []" "join_parts (sl_args (merged_slot rcs)) = Inr s"
    using c fn join_fragments [of rcs] by (auto simp: carries_def merged_slot_def s_def [symmetric])
  have "fold (\<lambda>rc. override (rc_id rc)) rcs [] = fold override (map rc_id rcs) []"
    "fold (\<lambda>rc. override (Option.bind (rc_function rc) rf_name)) rcs [] = fold override (map (\<lambda>rc. Option.bind (rc_function rc) rf_name) rcs) []"
    by (simp_all add: fold_map comp_def)
  then have "sl_id (merged_slot rcs) = or_blank (rc_id whole)" "sl_name (merged_slot rcs) = or_blank (rf_name fn)"
    using c fn by (simp_all add: carries_def merged_slot_def override_arrives)
  then show ?thesis using fn args
    by (simp add: parse_call_def call_from_fragments_def parse_arguments_def)
qed

text \<open>
  C15: take a stream that ends normally and carries a response in this way: the texts of the chunks, one after the other, are
  its text; every tool-call fragment has a function part and the index of its call, from 0 on; in the fragments of
  each call the identifier and the name are not split, and the argument texts, one after the other, are its argument
  text, which is not empty. Then, wherever texts and arguments are split and however the fragments of several calls
  interleave, the final event has the text and the tool calls, in order, that the same response has when it arrives
  whole.
\<close>

theorem stream_equals_response:
  assumes whole: "rr_choices raw = ch # chs" "ch_message ch = Some m"
    and calls: "\<forall>k < length (rm_calls m). carries (filter (\<lambda>rc. rc_index rc = Some (int k)) (fragments chunks)) (rm_calls m ! k)"
    and only: "\<forall>rc \<in> set (fragments chunks). rc_function rc \<noteq> None \<and> (\<exists>k < length (rm_calls m). rc_index rc = Some (int k))"
    and texts: "concat (concat (map chunk_texts chunks)) = or_blank (rm_content m)"
  shows "\<exists>r. read_stream fl chunks None = (concat (map chunk_texts chunks), Inr r)
    \<and> pr_content r = pr_content (parse_response fl raw) \<and> pr_calls r = pr_calls (parse_response fl raw)"
proof -
  let ?n = "length (rm_calls m)" and ?d = "fold add_fragment (fragments chunks) []"
  let ?rcs = "\<lambda>k. filter (at_index (int k)) (fragments chunks)"
  have index: "?rcs k = filter (\<lambda>rc. rc_index rc = Some (int k)) (fragments chunks)" for k
    using only by (intro filter_cong) (auto simp: at_index_def)
  have calls: "carries (?rcs k) (rm_calls m ! k)" if "k < ?n" for k using calls that index by simp
  have nonempty: "?rcs k \<noteq> []" if "k < ?n" for k using carries_nonempty [OF calls [OF that]] .
  have keys: "set (map fst ?d) = {i. \<exists>rc \<in> set (fragments chunks). at_index i rc}" by (rule conjunct2 [OF slots_keys])
  have "i \<in> set (map fst ?d)" if "0 \<le> i" "i < int ?n" for i
    using nonempty [of "nat i"] that unfolding keys by (auto simp: filter_empty_conv nat_less_iff)
  moreover have "0 \<le> i \<and> i < int ?n" if "rc \<in> set (fragments chunks)" "at_index i rc" for rc i
    using only that by (auto simp: at_index_def)
  ultimately have "set (map fst ?d) = {0..<int ?n}" unfolding keys by auto
  moreover have "dget ?d (int k) = Some (merged_slot (?rcs k))" if "k < ?n" for k using slots_collect [of "fragments chunks" "int k"] nonempty [OF that] by simp
  ultimately have slots: "sort_key fst ?d = map (\<lambda>k. (int k, merged_slot (?rcs k))) [0..<?n]"
    by (intro sorted_slots conjunct1 [OF slots_keys])
  have "\<forall>k < ?n. \<exists>x. parse_call fl (rm_calls m ! k) = Some x \<and> call_from_fragments fl (merged_slot (?rcs k)) = Inr x"
    using calls carried_call by blast
  then obtain h where h: "\<And>k. k < ?n \<Longrightarrow> parse_call fl (rm_calls m ! k) = Some (h k)" "\<And>k. k < ?n \<Longrightarrow> call_from_fragments fl (merged_slot (?rcs k)) = Inr (h k)"
    by metis
  have "calls_of_slots fl (sort_key fst ?d) = Inr (map h [0..<?n])" unfolding slots by (rule calls_of_map) (simp add: h(2))
  moreover have "List.map_filter (parse_call fl) (rm_calls m) = map h [0..<?n]"
    using map_filter_some [of "[0..<?n]" "parse_call fl" "\<lambda>k. rm_calls m ! k" h] h(1) by (simp add: map_nth)
  ultimately show ?thesis using whole texts
    by (simp add: read_stream_def Let_def stream_slots stream_texts empty_stream_def parse_response_def)
qed

section \<open>Retries\<close>

text \<open>The world after the given number of attempts, if all of them failed in a way worth retrying.\<close>

fun after_failures :: "litellm_client \<Rightarrow> ('w, 'r) provider \<Rightarrow> obj \<Rightarrow> nat \<Rightarrow> 'w \<Rightarrow> 'w option" where
  "after_failures cl pv request 0 w = Some w"
| "after_failures cl pv request (Suc k) w = Option.bind (after_failures cl pv request k w) (\<lambda>x.
     case pv_completion pv request x of
       (Inl f, y) \<Rightarrow> if is_retryable f then Some (back_off cl pv (Suc k) y) else None
     | (Inr _, _) \<Rightarrow> None)"

lemma completion_from_retries:
  assumes "after_failures cl pv request attempt w0 = Some w" "int attempt \<le> lt_max_retries cl" "completion_from cl pv request attempt w = (out, w')"
  shows "\<exists>k x. int k \<le> lt_max_retries cl \<and> after_failures cl pv request k w0 = Some x \<and> pv_completion pv request x = (out, w')
    \<and> (case out of Inr _ \<Rightarrow> True | Inl f \<Rightarrow> int k = lt_max_retries cl \<or> \<not> is_retryable f)"
  using assms
proof (induction cl pv request attempt w rule: completion_from.induct)
  case (1 cl pv request attempt w)
  obtain q w1 where q: "pv_completion pv request w = (q, w1)" by fastforce
  show ?case
  proof (cases "\<exists>f. q = Inl f \<and> int attempt < lt_max_retries cl \<and> is_retryable f")
    case True
    then obtain f where f: "q = Inl f" "int attempt < lt_max_retries cl" "is_retryable f" by blast
    then have "completion_from cl pv request (attempt + 1) (back_off cl pv (attempt + 1) w1) = (out, w')"
      using 1(4) q by (simp add: completion_from.simps [of cl pv request attempt])
    moreover have "after_failures cl pv request (attempt + 1) w0 = Some (back_off cl pv (attempt + 1) w1)" using 1(2) q f by simp
    ultimately show ?thesis using 1(1) [OF q [symmetric] f(1)] f by simp
  next
    case False
    then have "(out, w') = (q, w1)" using 1(4) q by (auto simp: completion_from.simps [of cl pv request attempt] split: sum.splits if_splits)
    then show ?thesis using 1(2,3) q False by (intro exI [of _ attempt] exI [of _ w]) (auto split: sum.split)
  qed
qed

text \<open>
  C31: the provider is asked at most one time more than the retries allow: the outcome of a request is that of one attempt, all
  earlier attempts failed in a way worth retrying, each followed by a pause, and a failure is reported only when it is not
  worth retrying or the retries are used up.
\<close>

theorem completion_retries_bounded:
  assumes "litellm_init cl = Inr cl'" "completion_with_retry cl' pv request w = (out, w')"
  shows "\<exists>k x. int k \<le> lt_max_retries cl \<and> after_failures cl pv request k w = Some x \<and> pv_completion pv request x = (out, w')
    \<and> (case out of Inr _ \<Rightarrow> True | Inl f \<Rightarrow> int k = lt_max_retries cl \<or> \<not> is_retryable f)"
proof -
  have "cl' = cl" "0 \<le> lt_max_retries cl" using assms(1) by (auto simp: litellm_init_def split: if_splits)
  then show ?thesis using completion_from_retries [of cl pv request 0 w w out w'] assms(2) by (simp add: completion_with_retry_def)
qed

lemma pause_bounded:
  assumes "litellm_init cl = Inr cl'" "0 \<le> j" "j \<le> retry_delay cl n / 4"
  shows "0 < retry_delay cl n + j \<and> retry_delay cl n + j \<le> 5 / 4 * lt_max_delay cl"
proof -
  have "0 < retry_delay cl n" "retry_delay cl n \<le> lt_max_delay cl"
    using assms(1) by (auto simp: litellm_init_def retry_delay_def split: if_splits)
  then show ?thesis using assms(2,3) by simp
qed

section \<open>Examples\<close>

definition turn_sample :: llm_response where
  "turn_sample = \<lparr>resp_content = ''hi'', resp_tool_calls = [\<lparr>call_id = ''1'', call_name = ''echo'', call_arguments = [(''q'', JInt 1)]\<rparr>],
     resp_stop_reason = None, resp_usage = [], resp_reasoning = None\<rparr>"

definition turn_floats :: float_conv where
  "turn_floats s = (0, s)"

theorem assistant_turn_roundtrip_witness:
  "\<exists>m. translate_message (assistant_message (assistant_content turn_sample)) = Inr [m]
    \<and> pr_calls (parse_response turn_floats (shown m)) = [\<lparr>pc_id = ''1'', pc_name = ''echo'', pc_arguments = JObj [(''q'', JInt 1)]\<rparr>]"
proof -
  have "\<forall>c \<in> set (resp_tool_calls turn_sample). json_wf turn_floats (JObj (call_arguments c))" by (simp add: turn_sample_def dwf_def)
  from assistant_turn_roundtrip [OF this] show ?thesis by (auto simp: turn_sample_def as_parsed_def)
qed

definition wire_sample :: "message list" where
  "wire_sample = [user_message ''go'', assistant_message (assistant_content turn_sample), tool_result_message ''1'' (JStr ''ok'') False, user_message ''more'']"

theorem translation_keeps_history_valid_witness:
  "\<exists>ws. translate_messages wire_sample (Some ''be brief'') = Inr ws \<and> length ws = 5 \<and> wire_history [] ws = Some []"
proof -
  have len: "(case translate_messages wire_sample (Some ''be brief'') of Inl _ \<Rightarrow> 0 | Inr ws \<Rightarrow> length ws) = 5" by code_simp
  then obtain ws where ws: "translate_messages wire_sample (Some ''be brief'') = Inr ws"
    by (cases "translate_messages wire_sample (Some ''be brief'')") auto
  have turns: "list_all agent_turn wire_sample" by (simp add: wire_sample_def agent_turn_intros)
  have "wf_history wire_sample" by code_simp
  then have "wire_history [] ws = Some []" using translation_keeps_history_valid [OF ws] turns by simp
  moreover have "length ws = 5" using len ws by simp
  ultimately show ?thesis using ws by (intro exI [of _ ws]) simp
qed

text \<open>The split the condition excludes: a note beside the first of two results comes between them on the wire.\<close>

lemma note_splits_results:
  fixes ms :: "message list"
  defines "ms \<equiv> [user_message ''go'', assistant_message (JArr [JObj [(''type'', JStr ''tool_use''), (''id'', JStr ''1'')], JObj [(''type'', JStr ''tool_use''), (''id'', JStr ''2'')]]),
     [(''role'', JStr ''user''), (''content'', JArr [JObj [(''type'', JStr ''tool_result''), (''tool_use_id'', JStr ''1'')], JObj [(''type'', JStr ''text''), (''text'', JStr ''note'')]])],
     tool_result_message ''2'' (JStr ''ok'') False]"
  shows "wf_history ms \<and> list_all roled ms \<and> split_results ms
    \<and> (case translate_messages ms None of Inl _ \<Rightarrow> False | Inr ws \<Rightarrow> wire_history [] ws = None)"
  unfolding ms_def by code_simp

definition whole_call :: "int option \<Rightarrow> string option \<Rightarrow> string option \<Rightarrow> string \<Rightarrow> raw_call" where
  "whole_call i rid n a = \<lparr>rc_index = i, rc_id = rid, rc_function = Some \<lparr>rf_name = n, rf_arguments = Some (JStr a)\<rparr>\<rparr>"

definition chunk_of :: "string option \<Rightarrow> raw_call list \<Rightarrow> raw_response" where
  "chunk_of content calls = \<lparr>rr_choices = [\<lparr>ch_message = Some \<lparr>rm_content = content, rm_calls = calls\<rparr>, ch_finish = None\<rparr>], rr_usage = None\<rparr>"

definition whole_sample :: raw_message where
  "whole_sample = \<lparr>rm_content = Some ''hello'', rm_calls = [whole_call None (Some ''1'') (Some ''echo'') ''[1]'', whole_call None (Some ''2'') (Some ''rm'') ''{}'']\<rparr>"

definition chunks_sample :: "raw_response list" where
  "chunks_sample = [chunk_of (Some ''hel'') [], chunk_of (Some ''lo'') [whole_call (Some 0) (Some ''1'') (Some ''echo'') ''['', whole_call (Some 1) (Some ''2'') (Some ''rm'') ''{''],
     chunk_of None [whole_call (Some 1) None None ''}'', whole_call (Some 0) None None ''1]'']]"

theorem stream_equals_response_witness:
  "\<exists>r. read_stream turn_floats chunks_sample None = ([''hel'', ''lo''], Inr r) \<and> pr_content r = ''hello'' \<and> map pc_id (pr_calls r) = [''1'', ''2'']"
proof -
  let ?raw = "\<lparr>rr_choices = [\<lparr>ch_message = Some whole_sample, ch_finish = None\<rparr>], rr_usage = None\<rparr>"
  have texts: "concat (map chunk_texts chunks_sample) = [''hel'', ''lo'']" by code_simp
  have n: "length (rm_calls whole_sample) = 2" by code_simp
  have "carries (filter (\<lambda>rc. rc_index rc = Some 0) (fragments chunks_sample)) (rm_calls whole_sample ! 0)" by code_simp
  moreover have "carries (filter (\<lambda>rc. rc_index rc = Some 1) (fragments chunks_sample)) (rm_calls whole_sample ! 1)" by code_simp
  ultimately have calls: "\<forall>k < length (rm_calls whole_sample). carries (filter (\<lambda>rc. rc_index rc = Some (int k)) (fragments chunks_sample)) (rm_calls whole_sample ! k)"
    by (auto simp: n less_2_cases_iff)
  have "list_all (\<lambda>rc. rc_function rc \<noteq> None \<and> rc_index rc \<in> {Some (int 0), Some (int 1)}) (fragments chunks_sample)" by code_simp
  then have only: "\<forall>rc \<in> set (fragments chunks_sample). rc_function rc \<noteq> None \<and> (\<exists>k < length (rm_calls whole_sample). rc_index rc = Some (int k))"
    unfolding n list_all_iff by fastforce
  have "concat (concat (map chunk_texts chunks_sample)) = or_blank (rm_content whole_sample)" by code_simp
  then obtain r where "read_stream turn_floats chunks_sample None = (concat (map chunk_texts chunks_sample), Inr r)"
    "pr_content r = pr_content (parse_response turn_floats ?raw)" "pr_calls r = pr_calls (parse_response turn_floats ?raw)"
    using stream_equals_response [of ?raw _ "[]" whole_sample chunks_sample turn_floats, OF _ _ calls only] by auto
  moreover have "pr_content (parse_response turn_floats ?raw) = ''hello''" "map pc_id (pr_calls (parse_response turn_floats ?raw)) = [''1'', ''2'']"
    by code_simp+
  ultimately show ?thesis using texts by auto
qed

text \<open>A provider that fails twice; its world counts the attempts.\<close>

definition flaky :: "(nat, string) provider" where
  "flaky = \<lparr>pv_completion = (\<lambda>_ w. (if w < 2 then Inl \<lparr>fa_exn = Exn ''APITimeoutError'' [], fa_status = None\<rparr> else Inr ''ok'', w + 1)),
     pv_uniform = (\<lambda>d w. (0, w)), pv_sleep = (\<lambda>d w. w)\<rparr>"

definition flaky_client :: litellm_client where
  "flaky_client = \<lparr>lt_model = ''m'', lt_api_key = None, lt_api_base = None, lt_max_tokens = 4096, lt_timeout = None, lt_max_retries = 2,
     lt_base_delay = 1 / 2, lt_max_delay = 8\<rparr>"

theorem completion_retries_bounded_witness:
  "\<exists>out w' k x. completion_with_retry flaky_client flaky [] 0 = (out, w') \<and> int k \<le> 2 \<and> after_failures flaky_client flaky [] k 0 = Some x
    \<and> pv_completion flaky [] x = (out, w')"
proof -
  have "litellm_init flaky_client = Inr flaky_client" "lt_max_retries flaky_client = 2" by (simp_all add: litellm_init_def flaky_client_def)
  then show ?thesis using completion_retries_bounded [of flaky_client flaky_client flaky "[]" 0]
    by (cases "completion_with_retry flaky_client flaky [] 0") fastforce
qed

text \<open>
  The last chunk of a stream that reports usage has no choices, and the usage is lost; complete calls without an index
  are merged into one; arguments that are no object are passed on as they are.
\<close>

lemma usage_chunk_ignored:
  "read_stream turn_floats [chunk_of (Some ''a'') [], \<lparr>rr_choices = [], rr_usage = Some (Some 5, Some 7)\<rparr>] None
    = ([''a''], Inr \<lparr>pr_content = ''a'', pr_calls = [], pr_stop = None, pr_usage = []\<rparr>)"
  by code_simp

lemma unindexed_calls_merge:
  "read_stream turn_floats [chunk_of None [whole_call None (Some ''1'') (Some ''echo'') ''{}''], chunk_of None [whole_call None (Some ''2'') (Some ''rm'') ''{}'']] None
    = ([], Inr \<lparr>pr_content = [], pr_calls = [\<lparr>pc_id = ''2'', pc_name = ''rm'', pc_arguments = JObj [(''_raw'', JStr ''{}{}'')]\<rparr>], pr_stop = None, pr_usage = []\<rparr>)"
  by code_simp

lemma arguments_not_object:
  "map pc_arguments (pr_calls (parse_response turn_floats (chunk_of None [whole_call None (Some ''1'') (Some ''echo'') ''[1]'']))) = [JArr [JInt 1]]"
  by code_simp

end
