(* ===== verification/Llm_Registry.thy ===== *)
theory Llm_Registry
  imports Llm_Client
begin

text \<open>
  Named profiles of models and the client that falls back from one to the next (\<open>llm/registry.py\<close>). A profile file is its
  JSON document; the client that the factory builds for a profile, and its answer, are one function on the world.
\<close>

section \<open>Profiles\<close>

record profile =
  pf_name :: string
  pf_model :: string
  pf_api_base :: "string option"
  pf_max_tokens :: int
  pf_timeout :: json
  pf_secret_key :: "string option"
  pf_fallbacks :: "string list"
  pf_extra :: obj

definition make_profile :: "profile \<Rightarrow> profile result" where
  "make_profile p =
     (if pf_name p = [] \<or> pf_model p = [] then Inl (Exn ''ValueError'' ''profile name and model must be non-empty'')
      else if pf_max_tokens p \<le> 0 then Inl (Exn ''ValueError'' ''max_tokens must be positive'')
      else if pf_timeout p = JNull then Inr p
      else case num_val (pf_timeout p) of
        None \<Rightarrow> Inl (Exn ''TypeError'' ''<= not supported between these instances'')
      | Some x \<Rightarrow> if x \<le> 0 then Inl (Exn ''ValueError'' ''timeout must be positive'') else Inr p)"

definition json_opt :: "string option \<Rightarrow> json" where
  "json_opt x = (case x of Some s \<Rightarrow> JStr s | None \<Rightarrow> JNull)"

definition profile_to_dict :: "profile \<Rightarrow> obj" where
  "profile_to_dict p = [(''name'', JStr (pf_name p)), (''model'', JStr (pf_model p)), (''api_base'', json_opt (pf_api_base p)),
     (''max_tokens'', JInt (pf_max_tokens p)), (''timeout'', pf_timeout p),
     (''secret_key'', json_opt (pf_secret_key p)), (''fallback_profiles'', JArr (map JStr (pf_fallbacks p))), (''extra'', JObj (pf_extra p))]"

definition profile_keys :: "string list" where
  "profile_keys = [''name'', ''model'', ''api_base'', ''max_tokens'', ''timeout'', ''secret_key'', ''fallback_profiles'', ''extra'']"

text \<open>The constructor does not check types; a value of another type than declared is outside the model.\<close>

definition wrong_type :: "'a result" where
  "wrong_type = Inl (Exn ''Unmodelled'' ''a value of another type'')"

definition need_str :: "json \<Rightarrow> string result" where
  "need_str x = (case x of JStr s \<Rightarrow> Inr s | _ \<Rightarrow> wrong_type)"

definition opt_str :: "json \<Rightarrow> string option result" where
  "opt_str x = (case x of JStr s \<Rightarrow> Inr (Some s) | JNull \<Rightarrow> Inr None | _ \<Rightarrow> wrong_type)"

fun need_strs :: "json list \<Rightarrow> string list result" where
  "need_strs [] = Inr []"
| "need_strs (x # xs) = bind_res (need_str x) (\<lambda>s. bind_res (need_strs xs) (\<lambda>ss. Inr (s # ss)))"

definition profile_from_dict :: "obj \<Rightarrow> profile result" where
  "profile_from_dict d =
     (if \<not> list_all (\<lambda>(k, _). k \<in> set profile_keys) d then Inl (Exn ''TypeError'' ''__init__() got an unexpected keyword argument'')
      else if \<not> dhas d ''name'' \<or> \<not> dhas d ''model'' then Inl (Exn ''TypeError'' ''__init__() missing a required positional argument'')
      else bind_res (need_str (jget d ''name'')) (\<lambda>name. bind_res (need_str (jget d ''model'')) (\<lambda>model.
        bind_res (opt_str (jget d ''api_base'')) (\<lambda>base.
        bind_res (opt_str (jget d ''secret_key'')) (\<lambda>secret.
        bind_res (case get_or d ''fallback_profiles'' (JArr []) of JArr xs \<Rightarrow> need_strs xs | _ \<Rightarrow> wrong_type) (\<lambda>fallbacks.
        bind_res (case get_or d ''extra'' (JObj []) of JObj e \<Rightarrow> Inr e | _ \<Rightarrow> wrong_type) (\<lambda>extra.
        bind_res (case get_or d ''max_tokens'' (JInt 4096) of JInt n \<Rightarrow> Inr n | _ \<Rightarrow> wrong_type) (\<lambda>max_tokens.
          make_profile \<lparr>pf_name = name, pf_model = model, pf_api_base = base, pf_max_tokens = max_tokens, pf_timeout = jget d ''timeout'',
            pf_secret_key = secret, pf_fallbacks = fallbacks, pf_extra = extra\<rparr>))))))))"

fun profile_payload :: "profile list \<Rightarrow> obj \<Rightarrow> obj" where
  "profile_payload [] d = d"
| "profile_payload (p # ps) d = profile_payload ps (dset d (pf_name p) (JObj (profile_to_dict p)))"

definition profiles_save :: "profile list \<Rightarrow> json option" where
  "profiles_save ps = Some (JObj (profile_payload ps []))"

fun load_values :: "obj \<Rightarrow> profile list result" where
  "load_values [] = Inr []"
| "load_values ((_, v) # rest) = bind_res (case v of JObj d \<Rightarrow> profile_from_dict d | _ \<Rightarrow> wrong_type) (\<lambda>p. bind_res (load_values rest) (\<lambda>ps. Inr (p # ps)))"

definition profiles_load :: "json option \<Rightarrow> profile list result" where
  "profiles_load file = (case file of
     None \<Rightarrow> Inr [] | Some (JObj d) \<Rightarrow> load_values d | Some _ \<Rightarrow> Inl (Exn ''ValueError'' ''profile store must contain a JSON object''))"

section \<open>The registry and its fallbacks\<close>

type_synonym llm_registry = "(string, profile) dict"

definition register_profile :: "profile \<Rightarrow> bool \<Rightarrow> llm_registry \<Rightarrow> llm_registry result" where
  "register_profile p replace reg = (if dhas reg (pf_name p) \<and> \<not> replace
     then Inl (Exn ''ValueError'' (''profile '' @ repr_str (pf_name p) @ '' is already registered'')) else Inr (dset reg (pf_name p) p))"

definition get_profile :: "llm_registry \<Rightarrow> string \<Rightarrow> profile result" where
  "get_profile reg name = (case dget reg name of Some p \<Rightarrow> Inr p | None \<Rightarrow> Inl (Exn ''KeyError'' (''unknown LLM profile '' @ repr_str name)))"

fun check_known :: "llm_registry \<Rightarrow> string list \<Rightarrow> unit result" where
  "check_known reg [] = Inr ()"
| "check_known reg (n # ns) = bind_res (get_profile reg n) (\<lambda>_. check_known reg ns)"

text \<open>A routed client is the list of names it starts from.\<close>

definition routed :: "string \<Rightarrow> string list" where
  "routed name = [name]"

definition route :: "llm_registry \<Rightarrow> string list \<Rightarrow> string list result" where
  "route reg candidates = (if candidates = [] then Inl (Exn ''ValueError'' ''route requires at least one candidate profile'')
     else bind_res (check_known reg candidates) (\<lambda>_. Inr candidates))"

function fallback_names :: "llm_registry \<Rightarrow> string list \<Rightarrow> string list \<Rightarrow> string list result" where
  "fallback_names reg names [] = Inr names"
| "fallback_names reg names (current # pending) =
     (if current \<in> set names then fallback_names reg names pending
      else case get_profile reg current of
        Inl e \<Rightarrow> Inl e
      | Inr p \<Rightarrow> fallback_names reg (names @ [current]) (pf_fallbacks p @ pending))"
  by pat_completeness auto
termination
proof (relation "measures [\<lambda>(reg, names, _). card (set (map fst reg) - set names), \<lambda>(_, _, pending). length pending]", goal_cases)
  case (3 reg names current pending p)
  then have "current \<in> set (map fst reg)"
    using dhas_dget [of reg current] by (auto simp: get_profile_def dhas_def split: option.splits)
  then have "card (set (map fst reg) - set (names @ [current])) < card (set (map fst reg) - set names)"
    using 3 by (intro psubset_card_mono) auto
  then show ?case by simp
qed auto

fun try_profiles :: "(string \<Rightarrow> 'w \<Rightarrow> (failure + 'r) \<times> 'w) \<Rightarrow> string list \<Rightarrow> failure option \<Rightarrow> 'w \<Rightarrow> (failure + 'r) \<times> 'w" where
  "try_profiles attempt [] last_error w = (Inl (case last_error of Some f \<Rightarrow> f | None \<Rightarrow> \<lparr>fa_exn = Exn ''AssertionError'' [], fa_status = None\<rparr>), w)"
| "try_profiles attempt (name # names) last_error w = (case attempt name w of
     (Inr r, w1) \<Rightarrow> (Inr r, w1)
   | (Inl f, w1) \<Rightarrow> if is_retryable f then try_profiles attempt names (Some f) w1 else (Inl f, w1))"

definition fallback_chat :: "llm_registry \<Rightarrow> string list \<Rightarrow> (string \<Rightarrow> 'w \<Rightarrow> (failure + 'r) \<times> 'w) \<Rightarrow> 'w \<Rightarrow> (failure + 'r) \<times> 'w" where
  "fallback_chat reg start attempt w = (case fallback_names reg [] start of
     Inl e \<Rightarrow> (Inl \<lparr>fa_exn = e, fa_status = None\<rparr>, w) | Inr names \<Rightarrow> try_profiles attempt names None w)"

section \<open>Profiles survive their file\<close>

lemma profile_roundtrip: "make_profile p = Inr p \<Longrightarrow> profile_from_dict (profile_to_dict p) = Inr p"
proof -
  have "need_strs (map JStr xs) = Inr xs" for xs by (induction xs) (simp_all add: need_str_def)
  then show "make_profile p = Inr p \<Longrightarrow> ?thesis"
    by (cases p) (auto simp: profile_from_dict_def profile_to_dict_def profile_keys_def dhas_def jget_def get_or_def need_str_def opt_str_def json_opt_def
      split: option.split)
qed

lemma payload_distinct:
  "distinct (map pf_name ps) \<Longrightarrow> set (map fst d) \<inter> set (map pf_name ps) = {}
    \<Longrightarrow> profile_payload ps d = d @ map (\<lambda>p. (pf_name p, JObj (profile_to_dict p))) ps"
proof (induction ps arbitrary: d)
  case (Cons p ps)
  then have "dset d (pf_name p) (JObj (profile_to_dict p)) = d @ [(pf_name p, JObj (profile_to_dict p))]"
    by (intro dset_fresh) (auto simp: dhas_def)
  then show ?case using Cons by auto
qed simp

text \<open>
  saved profiles are read back unchanged and in order, as long as their names differ; of profiles with the same name the file
  keeps one.
\<close>

theorem profiles_roundtrip:
  assumes "\<forall>p \<in> set ps. make_profile p = Inr p" "distinct (map pf_name ps)"
  shows "profiles_load (profiles_save ps) = Inr ps"
proof -
  have "load_values (map (\<lambda>p. (pf_name p, JObj (profile_to_dict p))) ps) = Inr ps"
    using assms(1) by (induction ps) (simp_all add: profile_roundtrip)
  then show ?thesis using assms(2) by (simp add: profiles_save_def profiles_load_def payload_distinct)
qed

section \<open>The chain of fallbacks\<close>

definition falls_back :: "llm_registry \<Rightarrow> (string \<times> string) set" where
  "falls_back reg = {(a, b). \<exists>p. dget reg a = Some p \<and> b \<in> set (pf_fallbacks p)}"

text \<open>The profiles that the declared fallbacks reach from given ones.\<close>

definition reachable_profiles :: "llm_registry \<Rightarrow> string list \<Rightarrow> string set" where
  "reachable_profiles reg start = (falls_back reg)\<^sup>* `` set start"

lemma fallback_names_invariant:
  assumes "fallback_names reg names pending = Inr ns" "distinct names" "falls_back reg `` set names \<subseteq> set names \<union> set pending"
    and "\<forall>n \<in> set names. dhas reg n"
  shows "distinct ns \<and> prefix names ns \<and> set pending \<subseteq> set ns \<and> falls_back reg `` set ns \<subseteq> set ns \<and> (\<forall>n \<in> set ns. dhas reg n)
    \<and> set ns \<subseteq> set names \<union> (falls_back reg)\<^sup>* `` set pending"
  using assms
proof (induction reg names pending rule: fallback_names.induct)
  case (2 reg names current pending)
  show ?case
  proof (cases "current \<in> set names")
    case True
    then have "falls_back reg `` set names \<subseteq> set names \<union> set pending" "fallback_names reg names pending = Inr ns" using 2(3,5) by auto
    then show ?thesis using 2(1) [OF True _ 2(4) _ 2(6)] True by (auto dest: set_mono_prefix)
  next
    case False
    then obtain p where p: "get_profile reg current = Inr p" and rest: "fallback_names reg (names @ [current]) (pf_fallbacks p @ pending) = Inr ns"
      using 2(3) by (auto split: sum.splits)
    then have d: "dget reg current = Some p" by (auto simp: get_profile_def split: option.splits)
    have succ: "falls_back reg `` {current} = set (pf_fallbacks p)" using d by (auto simp: falls_back_def)
    have dist: "distinct (names @ [current])" using False 2(4) by simp
    have closed: "falls_back reg `` set (names @ [current]) \<subseteq> set (names @ [current]) \<union> set (pf_fallbacks p @ pending)"
      using 2(5) succ by auto
    have known: "\<forall>n \<in> set (names @ [current]). dhas reg n" using 2(6) d by (simp add: dhas_dget)
    note IH = 2(2) [OF False p rest dist closed known]
    have "set ns \<subseteq> set (names @ [current]) \<union> (falls_back reg)\<^sup>* `` set (pf_fallbacks p @ pending)" using IH by blast
    then have up: "set ns \<subseteq> set names \<union> insert current ((falls_back reg)\<^sup>* `` set (pf_fallbacks p @ pending))" by simp
    have "insert current ((falls_back reg)\<^sup>* `` set (pf_fallbacks p @ pending)) \<subseteq> (falls_back reg)\<^sup>* `` set (current # pending)"
      using succ by (auto intro: converse_rtrancl_into_rtrancl)
    then have reached: "set ns \<subseteq> set names \<union> (falls_back reg)\<^sup>* `` set (current # pending)" by (rule order_trans [OF up Un_mono [OF order_refl]])
    have "prefix names ns" "current \<in> set ns" using IH by (auto dest: set_mono_prefix append_prefixD)
    then show ?thesis using IH reached by simp
  qed
qed auto

text \<open>
  The names are those of the profiles that the declared fallbacks reach, each once and the starting profile first,
  however the fallbacks refer to each other (cycles included).
\<close>

lemma fallback_names_exact:
  assumes "fallback_names reg [] (s # start) = Inr ns"
  shows "distinct ns \<and> hd ns = s \<and> set ns = (falls_back reg)\<^sup>* `` set (s # start) \<and> (\<forall>n \<in> set ns. dhas reg n)"
proof -
  note inv = fallback_names_invariant [OF assms]
  have "(falls_back reg)\<^sup>* `` set ns \<subseteq> set ns" using inv by (simp add: Image_closed_trancl)
  moreover obtain p where p: "dget reg s = Some p" and rest: "fallback_names reg [s] (pf_fallbacks p @ start) = Inr ns"
    using assms by (auto simp: get_profile_def split: option.splits)
  have "prefix [s] ns"
    using fallback_names_invariant [OF rest] p by (auto simp: falls_back_def dhas_dget)
  ultimately show ?thesis using inv by (auto simp: Image_iff prefix_def)
qed

lemma fallback_names_unknown:
  "fallback_names reg names pending = Inl e \<Longrightarrow>
    \<exists>n \<in> (falls_back reg)\<^sup>* `` set pending. \<not> dhas reg n \<and> e = Exn ''KeyError'' (''unknown LLM profile '' @ repr_str n)"
proof (induction reg names pending rule: fallback_names.induct)
  case (2 reg names current pending)
  show ?case
  proof (cases "current \<in> set names")
    case True
    then show ?thesis using 2(1) [OF True] 2(3) by (auto intro: ImageI)
  next
    case False
    show ?thesis
    proof (cases "dget reg current")
      case None
      then have "e = Exn ''KeyError'' (''unknown LLM profile '' @ repr_str current)" "\<not> dhas reg current"
        using 2(3) False by (simp_all add: get_profile_def dhas_dget)
      then show ?thesis by (intro bexI [of _ current]) auto
    next
      case (Some p)
      then have p: "get_profile reg current = Inr p" by (simp add: get_profile_def)
      then obtain n where n: "n \<in> (falls_back reg)\<^sup>* `` set (pf_fallbacks p @ pending)" "\<not> dhas reg n"
        "e = Exn ''KeyError'' (''unknown LLM profile '' @ repr_str n)"
        using 2(2) [OF False p] 2(3) False by auto
      have "(current, b) \<in> falls_back reg" if "b \<in> set (pf_fallbacks p)" for b using Some that by (auto simp: falls_back_def)
      then have "n \<in> (falls_back reg)\<^sup>* `` set (current # pending)" using n(1) by (auto intro: converse_rtrancl_into_rtrancl)
      then show ?thesis using n by blast
    qed
  qed
qed simp

text \<open>The world after the first profiles, if each of them failed in a way that is worth another profile.\<close>

fun after_profiles :: "(string \<Rightarrow> 'w \<Rightarrow> (failure + 'r) \<times> 'w) \<Rightarrow> string list \<Rightarrow> 'w \<Rightarrow> 'w option" where
  "after_profiles attempt [] w = Some w"
| "after_profiles attempt (n # ns) w = (case attempt n w of
     (Inl f, w1) \<Rightarrow> if is_retryable f then after_profiles attempt ns w1 else None | (Inr _, _) \<Rightarrow> None)"

lemma try_profiles_first:
  assumes "try_profiles attempt ns e w = (out, w')" "ns \<noteq> []"
  shows "\<exists>k x. k < length ns \<and> after_profiles attempt (take k ns) w = Some x \<and> attempt (ns ! k) x = (out, w')
    \<and> (case out of Inr _ \<Rightarrow> True | Inl f \<Rightarrow> Suc k = length ns \<or> \<not> is_retryable f)"
  using assms
proof (induction attempt ns e w rule: try_profiles.induct)
  case (2 attempt n ns e w)
  obtain q w1 where q: "attempt n w = (q, w1)" by fastforce
  show ?case
  proof (cases "\<exists>f. q = Inl f \<and> is_retryable f \<and> ns \<noteq> []")
    case True
    then obtain f where f: "q = Inl f" "is_retryable f" "ns \<noteq> []" by blast
    then have "try_profiles attempt ns (Some f) w1 = (out, w')" using 2(2) q by simp
    then obtain k x where "k < length ns" "after_profiles attempt (take k ns) w1 = Some x" "attempt (ns ! k) x = (out, w')"
      "case out of Inr _ \<Rightarrow> True | Inl f \<Rightarrow> Suc k = length ns \<or> \<not> is_retryable f"
      using 2(1) [OF q [symmetric] f(1,2) _ f(3)] by blast
    then show ?thesis using q f by (intro exI [of _ "Suc k"] exI [of _ x]) (simp add: sum.case_eq_if)
  next
    case False
    then have "(out, w') = (q, w1)" using 2(2) q by (auto split: sum.splits if_splits)
    then show ?thesis using q False by (intro exI [of _ 0] exI [of _ w]) (auto split: sum.split)
  qed
qed simp

text \<open>
  C27: a fallback client, asked for an answer. When every profile that the declared fallbacks reach from its own profiles is
  registered, it has an order of exactly these profiles, each once and its own first, however the fallbacks refer to
  each other (cycles included), and it asks them in this order: its result and the world are those of one attempt,
  all profiles before it failed in a way worth another profile, and a failure is its result only when it is not worth
  another profile or no profile is left. When some reachable profile is not registered, it raises a \<open>KeyError\<close> for such
  a profile and asks none, not even its own.
\<close>

theorem fallback_chat_asks_reachable:
  "((\<forall>n \<in> reachable_profiles reg (s # start). dhas reg n) \<longrightarrow>
      (\<exists>ns k x out w'. distinct ns \<and> hd ns = s \<and> set ns = reachable_profiles reg (s # start) \<and> k < length ns
        \<and> after_profiles attempt (take k ns) w = Some x \<and> attempt (ns ! k) x = (out, w') \<and> fallback_chat reg (s # start) attempt w = (out, w')
        \<and> (case out of Inr _ \<Rightarrow> True | Inl f \<Rightarrow> Suc k = length ns \<or> \<not> is_retryable f)))
   \<and> (\<not> (\<forall>n \<in> reachable_profiles reg (s # start). dhas reg n) \<longrightarrow>
      (\<exists>n \<in> reachable_profiles reg (s # start). \<not> dhas reg n
        \<and> fallback_chat reg (s # start) attempt w = (Inl \<lparr>fa_exn = Exn ''KeyError'' (''unknown LLM profile '' @ repr_str n), fa_status = None\<rparr>, w)))"
proof (cases "fallback_names reg [] (s # start)")
  case (Inl e)
  obtain n where n: "n \<in> reachable_profiles reg (s # start)" "\<not> dhas reg n" "e = Exn ''KeyError'' (''unknown LLM profile '' @ repr_str n)"
    using fallback_names_unknown [OF Inl] unfolding reachable_profiles_def by blast
  have "fallback_chat reg (s # start) attempt w = (Inl \<lparr>fa_exn = e, fa_status = None\<rparr>, w)" using Inl by (simp add: fallback_chat_def)
  with n show ?thesis by blast
next
  case (Inr ns)
  note names = fallback_names_exact [OF Inr]
  obtain out w' where chat: "fallback_chat reg (s # start) attempt w = (out, w')" by fastforce
  then have run: "try_profiles attempt ns None w = (out, w')" using Inr by (simp add: fallback_chat_def)
  have ns: "ns \<noteq> []" using names by auto
  from try_profiles_first [OF run ns] obtain k x where k: "k < length ns" "after_profiles attempt (take k ns) w = Some x"
    "attempt (ns ! k) x = (out, w')" "case out of Inr _ \<Rightarrow> True | Inl f \<Rightarrow> Suc k = length ns \<or> \<not> is_retryable f"
    by (elim exE conjE)
  have known: "\<forall>n \<in> reachable_profiles reg (s # start). dhas reg n" using names unfolding reachable_profiles_def by simp
  show ?thesis
    using names chat k known unfolding reachable_profiles_def
    by (intro conjI impI exI [of _ ns] exI [of _ k] exI [of _ x] exI [of _ out] exI [of _ w']) simp_all
qed

section \<open>Examples\<close>

definition sample_profile :: "string \<Rightarrow> string list \<Rightarrow> profile" where
  "sample_profile n fs = \<lparr>pf_name = n, pf_model = ''m'', pf_api_base = None, pf_max_tokens = 4096, pf_timeout = JInt 30, pf_secret_key = Some ''KEY'',
     pf_fallbacks = fs, pf_extra = []\<rparr>"

definition cyclic_registry :: llm_registry where
  "cyclic_registry = [(''a'', sample_profile ''a'' [''b'']), (''b'', sample_profile ''b'' [''c'', ''a'']), (''c'', sample_profile ''c'' [''a''])]"

theorem profiles_roundtrip_witness:
  "profiles_load (profiles_save [sample_profile ''a'' [''b''], sample_profile ''b'' []]) = Inr [sample_profile ''a'' [''b''], sample_profile ''b'' []]"
  by (rule profiles_roundtrip) (simp_all add: sample_profile_def make_profile_def)

lemma cyclic_names: "fallback_names cyclic_registry [] [''a''] = Inr [''a'', ''b'', ''c'']"
  by code_simp

lemma cyclic_reach: "(falls_back cyclic_registry)\<^sup>* `` {''a''} = {''a'', ''b'', ''c''}"
  using fallback_names_exact [OF cyclic_names] by simp

theorem fallback_chat_asks_reachable_witness:
  "\<exists>ns k x out w'. distinct ns \<and> hd ns = ''a'' \<and> set ns = {''a'', ''b'', ''c''} \<and> k < length ns
    \<and> after_profiles (\<lambda>n. pv_completion flaky []) (take k ns) 0 = Some x
    \<and> fallback_chat cyclic_registry [''a''] (\<lambda>n. pv_completion flaky []) 0 = (out, w')"
proof -
  have reach: "reachable_profiles cyclic_registry [''a''] = {''a'', ''b'', ''c''}" by (simp add: reachable_profiles_def cyclic_reach)
  then have known: "\<forall>n \<in> reachable_profiles cyclic_registry [''a'']. dhas cyclic_registry n"
    by (simp add: dhas_def cyclic_registry_def)
  note asks = fallback_chat_asks_reachable [of cyclic_registry "''a''" "[]" "\<lambda>n. pv_completion flaky []" 0]
  from mp [OF conjunct1 [OF asks] known, unfolded reach] obtain ns k x out w' where "distinct ns" "hd ns = ''a''" "set ns = {''a'', ''b'', ''c''}" "k < length ns"
    "after_profiles (\<lambda>n. pv_completion flaky []) (take k ns) 0 = Some x"
    "fallback_chat cyclic_registry [''a''] (\<lambda>n. pv_completion flaky []) 0 = (out, w')" by (elim exE conjE)
  then show ?thesis by (intro exI [of _ ns] exI [of _ k] exI [of _ x] exI [of _ out] exI [of _ w'] conjI)
qed

end
