(* ===== verification/Run_Traces.thy ===== *)
theory Run_Traces
  imports Events_Hooks Audit_Log "HOL-Library.Multiset"
begin

text \<open>
  Observers of the event stream (\<open>observability/tracer.py\<close>, \<open>metrics.py\<close>): the tracer, which turns events into a tree of timed
  spans, and the counters. Each event comes with a fresh identifier, the time at which it is handled and the pattern-based redaction of strings
  as arguments; a span is found by its identifier in the list of its run, which is what the dictionary of the tracer refers to.
\<close>

section \<open>Spans\<close>

record span =
  sn_id :: string
  sn_parent :: "string option"
  sn_kind :: string
  sn_name :: string
  sn_start :: rat
  sn_end :: "rat option"
  sn_attrs :: json

record tracer =
  tc_spans :: "(string, span list) dict"
  tc_stacks :: "(string, string list) dict"
  tc_runs :: "(string, string) dict"
  tc_turns :: "(string, string) dict"
  tc_tools :: "(string, (string, string) dict) dict"
  tc_retries :: "(string, (string, string) dict) dict"

definition tracer_init :: tracer where
  "tracer_init = \<lparr>tc_spans = [], tc_stacks = [], tc_runs = [], tc_turns = [], tc_tools = [], tc_retries = []\<rparr>"

record moment =
  mo_id :: string
  mo_now :: rat
  mo_redact :: "string \<Rightarrow> string"

definition at_key :: "(string, 'a list) dict \<Rightarrow> string \<Rightarrow> 'a list" where
  "at_key d k = (case dget d k of Some x \<Rightarrow> x | None \<Rightarrow> [])"

definition new_span :: "moment \<Rightarrow> string option \<Rightarrow> string \<Rightarrow> string \<Rightarrow> obj \<Rightarrow> span" where
  "new_span mo parent kind name payload = \<lparr>sn_id = mo_id mo, sn_parent = parent, sn_kind = kind, sn_name = name, sn_start = mo_now mo, sn_end = None,
     sn_attrs = redact_value (mo_redact mo) (JObj payload)\<rparr>"

definition append_span :: "string \<Rightarrow> span \<Rightarrow> tracer \<Rightarrow> tracer" where
  "append_span run_id s st = st\<lparr>tc_spans := dset (tc_spans st) run_id (at_key (tc_spans st) run_id @ [s]),
     tc_stacks := dset (tc_stacks st) run_id (at_key (tc_stacks st) run_id @ [sn_id s])\<rparr>"

definition epsilon :: rat where
  "epsilon = 1 / 1000000000"

definition ended :: "rat \<Rightarrow> span \<Rightarrow> span" where
  "ended now s = s\<lparr>sn_end := Some (max now (sn_start s + epsilon))\<rparr>"

definition close_span :: "rat \<Rightarrow> string \<Rightarrow> string \<Rightarrow> tracer \<Rightarrow> tracer" where
  "close_span now run_id span_id st = (case List.find (\<lambda>s. sn_id s = span_id) (at_key (tc_spans st) run_id) of
     None \<Rightarrow> st
   | Some s \<Rightarrow>
       if sn_end s \<noteq> None then st
       else st\<lparr>tc_spans := dset (tc_spans st) run_id (map (\<lambda>x. if sn_id x = span_id then ended now x else x) (at_key (tc_spans st) run_id)),
              tc_stacks := (case dget (tc_stacks st) run_id of None \<Rightarrow> tc_stacks st | Some stack \<Rightarrow> dset (tc_stacks st) run_id (remove1 span_id stack))\<rparr>)"

definition finish_all :: "rat \<Rightarrow> string \<Rightarrow> tracer \<Rightarrow> tracer" where
  "finish_all now run_id st = (let st1 = fold (close_span now run_id) (rev (at_key (tc_stacks st) run_id)) st in
     st1\<lparr>tc_turns := dpop (tc_turns st1) run_id, tc_tools := dpop (tc_tools st1) run_id, tc_retries := dpop (tc_retries st1) run_id\<rparr>)"

section \<open>Events\<close>

definition start_trace :: "moment \<Rightarrow> string \<Rightarrow> obj \<Rightarrow> tracer \<Rightarrow> tracer" where
  "start_trace mo run_id payload st =
     (let st1 = (if dhas (tc_runs st) run_id then finish_all (mo_now mo) run_id st else st); s = new_span mo None ''run'' ''kinetic.run'' payload in
      st1\<lparr>tc_spans := dset (tc_spans st1) run_id [s], tc_stacks := dset (tc_stacks st1) run_id [sn_id s], tc_runs := dset (tc_runs st1) run_id (sn_id s),
          tc_tools := dset (tc_tools st1) run_id [], tc_retries := dset (tc_retries st1) run_id []\<rparr>)"

definition start_turn :: "moment \<Rightarrow> string \<Rightarrow> obj \<Rightarrow> tracer \<Rightarrow> tracer" where
  "start_turn mo run_id payload st = (case dget (tc_runs st) run_id of
     None \<Rightarrow> st
   | Some root_id \<Rightarrow>
       (let st1 = (case dget (tc_turns st) run_id of None \<Rightarrow> st | Some current \<Rightarrow> close_span (mo_now mo) run_id current (st\<lparr>tc_turns := dpop (tc_turns st) run_id\<rparr>));
            s = new_span mo (Some root_id) ''turn'' ''kinetic.turn'' payload; st2 = append_span run_id s st1
        in st2\<lparr>tc_turns := dset (tc_turns st2) run_id (sn_id s)\<rparr>))"

definition parent_span :: "string \<Rightarrow> string \<Rightarrow> tracer \<Rightarrow> string" where
  "parent_span run_id root_id st = (case dget (tc_turns st) run_id of Some t \<Rightarrow> t | None \<Rightarrow> root_id)"

definition call_of :: "obj \<Rightarrow> string option" where
  "call_of payload = (case jget payload ''id'' of JStr i \<Rightarrow> Some i | _ \<Rightarrow> None)"

text \<open>The span is appended before the dictionary of the run's calls is looked up, which fails when the run has ended.\<close>

definition start_tool :: "moment \<Rightarrow> string \<Rightarrow> obj \<Rightarrow> tracer \<Rightarrow> unit result \<times> tracer" where
  "start_tool mo run_id payload st = (case (dget (tc_runs st) run_id, call_of payload) of
     (Some root_id, Some (c # cs)) \<Rightarrow>
       (let s = new_span mo (Some (parent_span run_id root_id st)) ''tool_call'' ''kinetic.tool_call'' payload; st1 = append_span run_id s st in
        case dget (tc_tools st1) run_id of
          None \<Rightarrow> (Inl (Exn ''KeyError'' (repr_str run_id)), st1)
        | Some calls \<Rightarrow> (Inr (), st1\<lparr>tc_tools := dset (tc_tools st1) run_id (dset calls (c # cs) (sn_id s))\<rparr>))
   | _ \<Rightarrow> (Inr (), st))"

definition start_retry :: "moment \<Rightarrow> string \<Rightarrow> obj \<Rightarrow> tracer \<Rightarrow> tracer" where
  "start_retry mo run_id payload st = (case (call_of payload, dget (tc_tools st) run_id) of
     (Some cid, Some calls) \<Rightarrow> (case dget calls cid of
        None \<Rightarrow> st
      | Some tool_span \<Rightarrow>
          (let retries = at_key (tc_retries st) run_id;
               st1 = (case dget retries cid of None \<Rightarrow> st | Some previous \<Rightarrow> close_span (mo_now mo) run_id previous st);
               s = new_span mo (Some tool_span) ''retry'' ''kinetic.tool_retry'' payload; st2 = append_span run_id s st1
           in st2\<lparr>tc_retries := dset (tc_retries st2) run_id (dset retries cid (sn_id s))\<rparr>))
   | _ \<Rightarrow> st)"

definition take_call :: "(string, (string, string) dict) dict \<Rightarrow> string \<Rightarrow> string \<Rightarrow> string option \<times> (string, (string, string) dict) dict" where
  "take_call d run_id cid = (case dget d run_id of None \<Rightarrow> (None, d) | Some calls \<Rightarrow> (dget calls cid, dset d run_id (dpop calls cid)))"

definition close_opt :: "rat \<Rightarrow> string \<Rightarrow> string option \<Rightarrow> tracer \<Rightarrow> tracer" where
  "close_opt now run_id x st = (case x of None \<Rightarrow> st | Some i \<Rightarrow> close_span now run_id i st)"

definition finish_tool :: "moment \<Rightarrow> string \<Rightarrow> obj \<Rightarrow> tracer \<Rightarrow> tracer" where
  "finish_tool mo run_id payload st = (case call_of payload of
     None \<Rightarrow> st
   | Some cid \<Rightarrow> (case take_call (tc_retries st) run_id cid of (retry, retries) \<Rightarrow>
       (let st1 = close_opt (mo_now mo) run_id retry (st\<lparr>tc_retries := retries\<rparr>) in
        case take_call (tc_tools st1) run_id cid of (tool, tools) \<Rightarrow> close_opt (mo_now mo) run_id tool (st1\<lparr>tc_tools := tools\<rparr>))))"

definition record_compaction :: "moment \<Rightarrow> string \<Rightarrow> obj \<Rightarrow> tracer \<Rightarrow> tracer" where
  "record_compaction mo run_id payload st = (case dget (tc_runs st) run_id of
     None \<Rightarrow> st
   | Some root_id \<Rightarrow>
       (let s = new_span mo (Some (parent_span run_id root_id st)) ''compaction'' ''kinetic.compaction'' payload
        in close_span (mo_now mo) run_id (sn_id s) (append_span run_id s st)))"

definition trace_event :: "moment \<Rightarrow> event \<Rightarrow> tracer \<Rightarrow> unit result \<times> tracer" where
  "trace_event mo e st = (let payload = event_payload e in case jget payload ''run_id'' of
     JStr (c # cs) \<Rightarrow>
       (let run_id = c # cs; ty = event_type e in
        if ty = ''agent.run_started'' then (Inr (), start_trace mo run_id payload st)
        else if ty = ''agent.turn_started'' then (Inr (), start_turn mo run_id payload st)
        else if ty = ''agent.tool_call_started'' then start_tool mo run_id payload st
        else if ty = ''agent.tool_retry'' then (Inr (), start_retry mo run_id payload st)
        else if ty = ''agent.tool_call_finished'' then (Inr (), finish_tool mo run_id payload st)
        else if ty = ''context.compacted'' then (Inr (), record_compaction mo run_id payload st)
        else if ty \<in> {''agent.run_finished'', ''agent.error'', ''agent.cancelled''} then (Inr (), finish_all (mo_now mo) run_id st)
        else (Inr (), st))
   | _ \<Rightarrow> (Inr (), st))"

section \<open>The tree\<close>

datatype span_tree = Node span "span_tree list"

text \<open>From the last span to the first, each span takes the trees that name it as their parent.\<close>

fun attach :: "span list \<Rightarrow> (string option \<times> span_tree) list" where
  "attach [] = []"
| "attach (s # ss) = (let found = attach ss in
     (sn_parent s, Node s (map snd (filter (\<lambda>(p, _). p = Some (sn_id s)) found))) # filter (\<lambda>(p, _). p \<noteq> Some (sn_id s)) found)"

definition spans_for_run :: "tracer \<Rightarrow> string \<Rightarrow> span list" where
  "spans_for_run st run_id = at_key (tc_spans st) run_id"

definition as_tree :: "tracer \<Rightarrow> string \<Rightarrow> span_tree result" where
  "as_tree st run_id = (let ss = spans_for_run st run_id in
     case dget (tc_runs st) run_id of
       None \<Rightarrow> Inl (Exn ''KeyError'' (''Unknown trace run: '' @ run_id))
     | Some root_id \<Rightarrow>
         if \<not> list_ex (\<lambda>s. sn_id s = root_id) ss then Inl (Exn ''KeyError'' (''Unknown trace run: '' @ run_id))
         else if \<not> list_all (\<lambda>s. case sn_parent s of None \<Rightarrow> True | Some p \<Rightarrow> list_ex (\<lambda>x. sn_id x = p) ss) ss then Inl (Exn ''KeyError'' [])
         else (case List.find (\<lambda>(_, t). case t of Node s _ \<Rightarrow> sn_id s = root_id) (attach ss) of
            Some (_, t) \<Rightarrow> Inr t | None \<Rightarrow> Inl (Exn ''KeyError'' [])))"

section \<open>The tree of every trace\<close>

fun nodes :: "span_tree \<Rightarrow> span list" where
  "nodes (Node s ts) = s # concat (map nodes ts)"

text \<open>Every span lies below one that was opened before it.\<close>

fun below :: "string set \<Rightarrow> span list \<Rightarrow> bool" where
  "below K [] = True"
| "below K (s # ss) = ((\<exists>p \<in> K. sn_parent s = Some p) \<and> below (insert (sn_id s) K) ss)"

lemma below_append: "below K (xs @ ys) = (below K xs \<and> below (K \<union> sn_id ` set xs) ys)"
  by (induction xs arbitrary: K) auto

lemma below_cong: "map sn_id xs = map sn_id ys \<Longrightarrow> map sn_parent xs = map sn_parent ys \<Longrightarrow> below K xs = below K ys"
proof (induction xs arbitrary: K ys)
  case (Cons x xs)
  then obtain y zs where "ys = y # zs" "sn_id y = sn_id x" "sn_parent y = sn_parent x" "map sn_id xs = map sn_id zs" "map sn_parent xs = map sn_parent zs"
    by (cases ys) auto
  then show ?case using Cons.IH [of zs "insert (sn_id x) K"] by simp
qed simp

lemma mset_split: "mset (concat (map g (filter P xs))) + mset (concat (map g (filter (\<lambda>x. \<not> P x) xs))) = mset (concat (map g xs))"
  by (induction xs) (auto simp: ac_simps)

lemma attach_nodes: "mset (concat (map (nodes \<circ> snd) (attach ss))) = mset ss"
proof (induction ss)
  case (Cons s ss)
  let ?f = "attach ss" and ?P = "\<lambda>(p, _). p = Some (sn_id s)"
  have "mset (concat (map (nodes \<circ> snd) (filter ?P ?f))) + mset (concat (map (nodes \<circ> snd) (filter (\<lambda>(p, _). p \<noteq> Some (sn_id s)) ?f)))
      = mset (concat (map (nodes \<circ> snd) ?f))"
    using mset_split [of "nodes \<circ> snd" ?P ?f] by (simp add: case_prod_unfold)
  then show ?case using Cons by (simp add: Let_def comp_def)
qed simp

lemma attach_parents: "below K ss \<Longrightarrow> (p, u) \<in> set (attach ss) \<Longrightarrow> p \<in> Some ` K"
proof (induction ss arbitrary: K p u)
  case (Cons s ss)
  have "(p, u) \<in> set (attach ss) \<Longrightarrow> p \<in> Some ` insert (sn_id s) K" using Cons.IH [of "insert (sn_id s) K" p u] Cons.prems(1) by simp
  then show ?case using Cons.prems by (auto simp: Let_def)
qed simp

lemma attach_rooted: "below {sn_id s} ss \<Longrightarrow> sn_parent s = None \<Longrightarrow> \<exists>ts. attach (s # ss) = [(None, Node s ts)]"
proof -
  assume "below {sn_id s} ss" "sn_parent s = None"
  then have "filter (\<lambda>(p, _). p \<noteq> Some (sn_id s)) (attach ss) = []" using attach_parents [of "{sn_id s}" ss] by (fastforce simp: filter_empty_conv)
  then show ?thesis using \<open>sn_parent s = None\<close> by (simp add: Let_def)
qed

text \<open>What holds of the spans of a run.\<close>

definition spans_ok :: "string set \<Rightarrow> string \<Rightarrow> span list \<Rightarrow> string list \<Rightarrow> string option \<Rightarrow> string list \<Rightarrow> bool" where
  "spans_ok U r_id ss stack turn calls = ((\<exists>s rest. ss = s # rest \<and> sn_id s = r_id \<and> sn_parent s = None \<and> below {r_id} rest)
     \<and> distinct (map sn_id ss) \<and> sn_id ` set ss \<subseteq> U \<and> (\<forall>s \<in> set ss. sn_end s = None \<longrightarrow> sn_id s \<in> set stack)
     \<and> (\<forall>s \<in> set ss. \<forall>e. sn_end s = Some e \<longrightarrow> sn_start s < e) \<and> set_option turn \<union> set calls \<subseteq> sn_id ` set ss)"

definition traced_run :: "string set \<Rightarrow> tracer \<Rightarrow> string \<Rightarrow> bool" where
  "traced_run U st r = (case dget (tc_runs st) r of
     None \<Rightarrow> at_key (tc_spans st) r = [] \<and> at_key (tc_tools st) r = [] \<and> dget (tc_turns st) r = None
   | Some r_id \<Rightarrow> spans_ok U r_id (at_key (tc_spans st) r) (at_key (tc_stacks st) r) (dget (tc_turns st) r) (map snd (at_key (tc_tools st) r)))"

definition trace_ok :: "string set \<Rightarrow> tracer \<Rightarrow> bool" where
  "trace_ok U st = (\<forall>r. traced_run U st r)"

lemma at_key_dset [simp]: "at_key (dset d k x) j = (if j = k then x else at_key d j)"
  by (simp add: at_key_def)

lemma ended_simps [simp]: "sn_id (ended now s) = sn_id s" "sn_parent (ended now s) = sn_parent s" "sn_start (ended now s) = sn_start s"
    "sn_end (ended now s) \<noteq> None"
  by (auto simp: ended_def)

lemma ended_later: "sn_end (ended now s) = Some e \<Longrightarrow> sn_start s < e"
  by (auto simp: ended_def epsilon_def less_max_iff_disj)

lemma spans_ok_mono: "spans_ok U r_id ss stack turn calls \<Longrightarrow> U \<subseteq> U' \<Longrightarrow> spans_ok U' r_id ss stack turn calls"
  by (auto simp: spans_ok_def)

lemma spans_ok_close:
  assumes "spans_ok U r_id ss stack turn calls"
  shows "spans_ok U r_id (map (\<lambda>x. if sn_id x = i then ended now x else x) ss) (remove1 i stack) turn calls"
proof -
  let ?f = "\<lambda>x. if sn_id x = i then ended now x else x"
  obtain s rest where ss: "ss = s # rest" "sn_id s = r_id" "sn_parent s = None" "below {r_id} rest" using assms by (auto simp: spans_ok_def)
  have ids: "map sn_id (map ?f xs) = map sn_id xs" "map sn_parent (map ?f xs) = map sn_parent xs" for xs by auto
  then have "below {r_id} (map ?f rest)" using ss(4) below_cong by blast
  then have rooted: "\<exists>s rest. map ?f ss = s # rest \<and> sn_id s = r_id \<and> sn_parent s = None \<and> below {r_id} rest" using ss by auto
  have same: "sn_id ` set (map ?f ss) = sn_id ` set ss" using ids(1) [of ss] by (metis set_map)
  have opened: "\<forall>x \<in> set (map ?f ss). sn_end x = None \<longrightarrow> sn_id x \<in> set (remove1 i stack)"
    using assms by (auto simp: spans_ok_def in_set_remove1)
  have later: "\<forall>x \<in> set (map ?f ss). \<forall>e. sn_end x = Some e \<longrightarrow> sn_start x < e"
    using assms ended_later by (auto simp: spans_ok_def)
  show ?thesis using assms rooted opened later unfolding spans_ok_def same ids(1) by blast
qed

lemma spans_ok_append:
  assumes "spans_ok U r_id ss stack turn calls" "sn_id s \<notin> U" "sn_parent s = Some p" "p \<in> sn_id ` set ss" "sn_end s = None"
  shows "spans_ok (insert (sn_id s) U) r_id (ss @ [s]) (stack @ [sn_id s]) turn calls"
  using assms by (auto simp: spans_ok_def below_append)

lemma trace_ok_run: "trace_ok U st \<Longrightarrow> dget (tc_runs st) r = Some r_id
    \<Longrightarrow> spans_ok U r_id (at_key (tc_spans st) r) (at_key (tc_stacks st) r) (dget (tc_turns st) r) (map snd (at_key (tc_tools st) r))"
  using spec [of "traced_run U st" r] by (simp add: trace_ok_def traced_run_def)

lemma traced_run_mono: "traced_run U st r \<Longrightarrow> U \<subseteq> U' \<Longrightarrow> traced_run U' st r"
  using spans_ok_mono by (auto simp: traced_run_def split: option.splits)

text \<open>An operation on one run leaves the others as they are.\<close>

lemma trace_ok_one:
  assumes "trace_ok U st" "U \<subseteq> U'" "traced_run U' st' r"
    and "\<And>j. j \<noteq> r \<Longrightarrow> dget (tc_runs st') j = dget (tc_runs st) j \<and> at_key (tc_spans st') j = at_key (tc_spans st) j \<and> at_key (tc_stacks st') j = at_key (tc_stacks st) j
        \<and> dget (tc_turns st') j = dget (tc_turns st) j \<and> at_key (tc_tools st') j = at_key (tc_tools st) j"
  shows "trace_ok U' st'"
proof -
  have "traced_run U' st' j" for j
  proof (cases "j = r")
    case False
    have "traced_run U' st j" using traced_run_mono [OF _ assms(2)] assms(1) by (simp add: trace_ok_def)
    then show ?thesis using assms(4) [OF False] by (auto simp: traced_run_def split: option.splits)
  qed (use assms(3) in simp)
  then show ?thesis by (simp add: trace_ok_def)
qed

lemma close_span_keeps [simp]:
  "tc_runs (close_span now r i st) = tc_runs st" "tc_turns (close_span now r i st) = tc_turns st"
  "tc_tools (close_span now r i st) = tc_tools st" "tc_retries (close_span now r i st) = tc_retries st"
  by (simp_all add: close_span_def split: option.split)

lemma close_span_other: "j \<noteq> r \<Longrightarrow> at_key (tc_spans (close_span now r i st)) j = at_key (tc_spans st) j
    \<and> at_key (tc_stacks (close_span now r i st)) j = at_key (tc_stacks st) j"
  by (auto simp: close_span_def split: option.split)

lemma close_span_miss: "\<nexists>s. List.find (\<lambda>s. sn_id s = i) (at_key (tc_spans st) r) = Some s \<and> sn_end s = None \<Longrightarrow> close_span now r i st = st"
  by (auto simp: close_span_def split: option.split)

lemma close_span_hit: "List.find (\<lambda>s. sn_id s = i) (at_key (tc_spans st) r) = Some s \<Longrightarrow> sn_end s = None
    \<Longrightarrow> at_key (tc_spans (close_span now r i st)) r = map (\<lambda>x. if sn_id x = i then ended now x else x) (at_key (tc_spans st) r)
      \<and> at_key (tc_stacks (close_span now r i st)) r = remove1 i (at_key (tc_stacks st) r)"
  by (auto simp: close_span_def at_key_def [of "tc_stacks st"] split: option.split)

lemma close_span_ok: "trace_ok U st \<Longrightarrow> trace_ok U (close_span now r i st)"
proof -
  assume ok: "trace_ok U st"
  show ?thesis
  proof (rule trace_ok_one [OF ok order_refl, of _ r])
    show "traced_run U (close_span now r i st) r"
    proof (cases "\<exists>s. List.find (\<lambda>s. sn_id s = i) (at_key (tc_spans st) r) = Some s \<and> sn_end s = None")
      case True
      then show ?thesis using ok [unfolded trace_ok_def, rule_format, of r] close_span_hit [of i st r] spans_ok_close
        by (auto simp: traced_run_def split: option.splits)
    next
      case False
      then show ?thesis using ok close_span_miss [OF False] by (simp add: trace_ok_def)
    qed
  qed (use close_span_other in auto)
qed

lemma append_span_ok:
  assumes "trace_ok U st" "dget (tc_runs st) r = Some r_id" "sn_id s \<notin> U" "sn_parent s = Some p" "p \<in> sn_id ` set (at_key (tc_spans st) r)" "sn_end s = None"
  shows "trace_ok (insert (sn_id s) U) (append_span r s st)"
proof (rule trace_ok_one [OF assms(1), of _ _ r])
  show "traced_run (insert (sn_id s) U) (append_span r s st) r"
    using spans_ok_append [OF trace_ok_run [OF assms(1,2)] assms(3-6)] assms(2) by (simp add: traced_run_def append_span_def)
qed (auto simp: append_span_def)

text \<open>The references of a run to its spans: its turn and its calls.\<close>

lemma references_ok:
  assumes "trace_ok U st" "dget (tc_runs st) r = Some r_id" "set_option x \<union> snd ` set calls \<subseteq> sn_id ` set (at_key (tc_spans st) r)"
    and "\<And>j. dget turns j = (if j = r then x else dget (tc_turns st) j)" "\<And>j. at_key tools j = (if j = r then calls else at_key (tc_tools st) j)"
  shows "trace_ok U (st\<lparr>tc_turns := turns, tc_tools := tools, tc_retries := retries\<rparr>)"
proof (rule trace_ok_one [OF assms(1), of _ _ r])
  show "traced_run U (st\<lparr>tc_turns := turns, tc_tools := tools, tc_retries := retries\<rparr>) r"
    using trace_ok_run [OF assms(1,2)] assms(2-5) by (auto simp: traced_run_def spans_ok_def)
qed (auto simp: assms(4,5))

lemma close_opens:
  assumes "trace_ok U st" "x \<in> set (at_key (tc_spans (close_span now r i st)) r)" "sn_end x = None"
  shows "x \<in> set (at_key (tc_spans st) r) \<and> sn_id x \<noteq> i"
proof (cases "\<exists>s. List.find (\<lambda>s. sn_id s = i) (at_key (tc_spans st) r) = Some s \<and> sn_end s = None")
  case True
  then have spans: "at_key (tc_spans (close_span now r i st)) r = map (\<lambda>x. if sn_id x = i then ended now x else x) (at_key (tc_spans st) r)"
    using close_span_hit by blast
  show ?thesis using assms(2,3) unfolding spans by auto
next
  case False
  then have x: "x \<in> set (at_key (tc_spans st) r)" using assms(2) close_span_miss [OF False] by simp
  then obtain r_id where "dget (tc_runs st) r = Some r_id"
    using assms(1) spec [of "traced_run U st" r] by (cases "dget (tc_runs st) r") (auto simp: trace_ok_def traced_run_def)
  then have dist: "distinct (map sn_id (at_key (tc_spans st) r))" using trace_ok_run [OF assms(1)] by (auto simp: spans_ok_def)
  have "sn_id x \<noteq> i"
  proof
    assume "sn_id x = i"
    then have "List.find (\<lambda>s. sn_id s = i) (at_key (tc_spans st) r) \<noteq> None" using x by (auto simp: find_None_iff)
    then obtain y where y: "List.find (\<lambda>s. sn_id s = i) (at_key (tc_spans st) r) = Some y" by blast
    then have "y \<in> set (at_key (tc_spans st) r)" "sn_id y = i" by (auto simp: find_Some_iff)
    then have "y = x" using dist x \<open>sn_id x = i\<close> by (auto simp: distinct_map dest: inj_onD)
    then show False using False y assms(3) by simp
  qed
  then show ?thesis using x by simp
qed

lemma fold_close_keeps [simp]:
  "tc_runs (fold (close_span now r) is st) = tc_runs st" "tc_turns (fold (close_span now r) is st) = tc_turns st"
  "tc_tools (fold (close_span now r) is st) = tc_tools st"
  by (induction "is" arbitrary: st) simp_all

lemma fold_close_ok: "trace_ok U st \<Longrightarrow> trace_ok U (fold (close_span now r) is st)"
  by (induction "is" arbitrary: st) (simp_all add: close_span_ok)

lemma fold_close_opens:
  "trace_ok U st \<Longrightarrow> x \<in> set (at_key (tc_spans (fold (close_span now r) is st)) r) \<Longrightarrow> sn_end x = None
    \<Longrightarrow> x \<in> set (at_key (tc_spans st) r) \<and> sn_id x \<notin> set is"
proof (induction "is" arbitrary: st)
  case (Cons i "is")
  then show ?case using close_opens [of U st x now r i] close_span_ok [of U st now r i] by auto
qed simp

lemma known_run: "trace_ok U st \<Longrightarrow> s \<in> set (at_key (tc_spans st) r) \<Longrightarrow> \<exists>r_id. dget (tc_runs st) r = Some r_id"
  using spec [of "traced_run U st" r] by (cases "dget (tc_runs st) r") (auto simp: trace_ok_def traced_run_def)

lemma finish_all_spans: "at_key (tc_spans (finish_all now r st)) j = at_key (tc_spans (fold (close_span now r) (rev (at_key (tc_stacks st) r)) st)) j"
  by (simp add: finish_all_def Let_def)

lemma finish_all_ended: "trace_ok U st \<Longrightarrow> s \<in> set (at_key (tc_spans (finish_all now r st)) r) \<Longrightarrow> sn_end s \<noteq> None"
proof
  assume ok: "trace_ok U st" and s: "s \<in> set (at_key (tc_spans (finish_all now r st)) r)" and "sn_end s = None"
  then have old: "s \<in> set (at_key (tc_spans st) r)" "sn_id s \<notin> set (at_key (tc_stacks st) r)"
    using fold_close_opens [OF ok, of s now r "rev (at_key (tc_stacks st) r)"] by (auto simp: finish_all_spans)
  obtain r_id where "dget (tc_runs st) r = Some r_id" using known_run [OF ok old(1)] by blast
  then show False using trace_ok_run [OF ok] old \<open>sn_end s = None\<close> by (auto simp: spans_ok_def)
qed

lemma finish_all_ok: "trace_ok U st \<Longrightarrow> trace_ok U (finish_all now r st)"
proof -
  assume ok: "trace_ok U st"
  let ?st = "fold (close_span now r) (rev (at_key (tc_stacks st) r)) st"
  have ok': "trace_ok U ?st" by (rule fold_close_ok [OF ok])
  show ?thesis
  proof (cases "dget (tc_runs st) r")
    case None
    show ?thesis
    proof (rule trace_ok_one [OF ok' order_refl, of _ r])
      show "traced_run U (finish_all now r st) r"
        using None ok' [unfolded trace_ok_def, rule_format, of r] by (simp add: traced_run_def finish_all_def Let_def at_key_def)
    qed (simp add: finish_all_def Let_def at_key_def)
  next
    case (Some r_id)
    show ?thesis unfolding finish_all_def Let_def
      by (rule references_ok [OF ok', of r r_id None "[]"]) (use Some in \<open>auto simp: at_key_def\<close>)
  qed
qed

text \<open>Every event keeps the invariant.\<close>

lemma start_trace_ok: "trace_ok U st \<Longrightarrow> mo_id mo \<notin> U \<Longrightarrow> trace_ok (insert (mo_id mo) U) (start_trace mo r payload st)"
proof -
  assume ok: "trace_ok U st"
  let ?st = "if dhas (tc_runs st) r then finish_all (mo_now mo) r st else st"
  have ok': "trace_ok U ?st" using ok finish_all_ok by simp
  have turns: "dget (tc_turns ?st) r = None"
    using ok [unfolded trace_ok_def, rule_format, of r] by (auto simp: finish_all_def Let_def traced_run_def dhas_dget)
  show ?thesis
  proof (rule trace_ok_one [OF ok', of _ _ r])
    show "traced_run (insert (mo_id mo) U) (start_trace mo r payload st) r"
      using turns by (auto simp: start_trace_def Let_def traced_run_def spans_ok_def new_span_def)
  qed (auto simp: start_trace_def Let_def)
qed

lemma parent_known: "trace_ok U st \<Longrightarrow> dget (tc_runs st) r = Some r_id \<Longrightarrow> parent_span r r_id st \<in> sn_id ` set (at_key (tc_spans st) r)"
  using trace_ok_run [of U st r r_id] by (auto simp: parent_span_def spans_ok_def split: option.split)

lemma new_span_fields [simp]: "sn_id (new_span mo p k n d) = mo_id mo" "sn_parent (new_span mo p k n d) = p" "sn_end (new_span mo p k n d) = None"
  by (simp_all add: new_span_def)

lemma append_span_fields [simp]:
  "tc_runs (append_span r s st) = tc_runs st" "tc_turns (append_span r s st) = tc_turns st" "tc_tools (append_span r s st) = tc_tools st"
  "at_key (tc_spans (append_span r s st)) r = at_key (tc_spans st) r @ [s]"
  by (simp_all add: append_span_def)

lemma close_span_ids [simp]: "sn_id ` set (at_key (tc_spans (close_span now r i st)) j) = sn_id ` set (at_key (tc_spans st) j)"
proof (cases "j = r \<and> (\<exists>s. List.find (\<lambda>s. sn_id s = i) (at_key (tc_spans st) r) = Some s \<and> sn_end s = None)")
  case True
  then have "at_key (tc_spans (close_span now r i st)) j = map (\<lambda>x. if sn_id x = i then ended now x else x) (at_key (tc_spans st) j)"
    using close_span_hit by blast
  moreover have "sn_id (if sn_id x = i then ended now x else x) = sn_id x" for x by simp
  ultimately show ?thesis by (simp only: set_map image_image)
next
  case False
  then show ?thesis using close_span_miss [of i st r now] close_span_other [of j r now i st] by (cases "j = r") simp_all
qed

text \<open>Changing one reference of a run.\<close>

lemma turn_ok:
  assumes "trace_ok U st" "dget (tc_runs st) r = Some r_id" "x \<in> sn_id ` set (at_key (tc_spans st) r)"
  shows "trace_ok U (st\<lparr>tc_turns := dset (tc_turns st) r x\<rparr>)"
  using references_ok [OF assms(1,2), of "Some x" "at_key (tc_tools st) r" "dset (tc_turns st) r x" "tc_tools st" "tc_retries st"]
    trace_ok_run [OF assms(1,2)] assms(3) by (simp add: spans_ok_def)

lemma no_turn_ok: "trace_ok U st \<Longrightarrow> trace_ok U (st\<lparr>tc_turns := dpop (tc_turns st) r\<rparr>)"
proof (rule trace_ok_one [of U st U _ r])
  assume ok: "trace_ok U st"
  show "traced_run U (st\<lparr>tc_turns := dpop (tc_turns st) r\<rparr>) r"
    using ok [unfolded trace_ok_def, rule_format, of r] by (auto simp: traced_run_def spans_ok_def split: option.splits)
qed auto

lemma calls_ok:
  assumes "trace_ok U st" "snd ` set calls \<subseteq> sn_id ` set (at_key (tc_spans st) r)"
  shows "trace_ok U (st\<lparr>tc_tools := dset (tc_tools st) r calls\<rparr>)"
proof (rule trace_ok_one [OF assms(1) order_refl, of _ r])
  show "traced_run U (st\<lparr>tc_tools := dset (tc_tools st) r calls\<rparr>) r"
    using assms(1) [unfolded trace_ok_def, rule_format, of r] assms(2) by (auto simp: traced_run_def spans_ok_def split: option.splits)
qed auto

lemma retries_ok [simp]: "trace_ok U (st\<lparr>tc_retries := d\<rparr>) = trace_ok U st"
  by (simp add: trace_ok_def traced_run_def cong: option.case_cong)

lemma trace_ok_grow: "trace_ok U st \<Longrightarrow> trace_ok (insert x U) st"
  unfolding trace_ok_def using traced_run_mono [of U st _ "insert x U"] by blast

lemma start_turn_ok: "trace_ok U st \<Longrightarrow> mo_id mo \<notin> U \<Longrightarrow> trace_ok (insert (mo_id mo) U) (start_turn mo r payload st)"
proof (cases "dget (tc_runs st) r")
  case None
  assume "trace_ok U st"
  then show ?thesis using None trace_ok_grow by (simp add: start_turn_def)
next
  case (Some r_id)
  assume ok: "trace_ok U st" and new: "mo_id mo \<notin> U"
  let ?st = "case dget (tc_turns st) r of None \<Rightarrow> st | Some current \<Rightarrow> close_span (mo_now mo) r current (st\<lparr>tc_turns := dpop (tc_turns st) r\<rparr>)"
  have ok': "trace_ok U ?st" using ok no_turn_ok close_span_ok by (auto split: option.split)
  have runs: "dget (tc_runs ?st) r = Some r_id" using Some by (auto split: option.split)
  let ?s = "new_span mo (Some r_id) ''turn'' ''kinetic.turn'' payload"
  have "r_id \<in> sn_id ` set (at_key (tc_spans ?st) r)" using trace_ok_run [OF ok' runs] by (auto simp: spans_ok_def)
  then have "trace_ok (insert (mo_id mo) U) (append_span r ?s ?st)" using append_span_ok [OF ok' runs, of ?s r_id] new by simp
  from turn_ok [OF this, of r r_id "mo_id mo"] show ?thesis using Some runs by (simp add: start_turn_def Let_def)
qed

lemma start_tool_ok: "trace_ok U st \<Longrightarrow> mo_id mo \<notin> U \<Longrightarrow> trace_ok (insert (mo_id mo) U) (snd (start_tool mo r payload st))"
proof (cases "(\<exists>r_id. dget (tc_runs st) r = Some r_id) \<and> (\<exists>c cs. call_of payload = Some (c # cs))")
  case False
  assume "trace_ok U st"
  moreover have "start_tool mo r payload st = (Inr (), st)" using False by (auto simp: start_tool_def split: option.split list.split)
  ultimately show ?thesis by (simp add: trace_ok_grow)
next
  case True
  then obtain r_id c cs where runs: "dget (tc_runs st) r = Some r_id" and call: "call_of payload = Some (c # cs)" by blast
  assume ok: "trace_ok U st" and new: "mo_id mo \<notin> U"
  let ?s = "new_span mo (Some (parent_span r r_id st)) ''tool_call'' ''kinetic.tool_call'' payload"
  have ok': "trace_ok (insert (mo_id mo) U) (append_span r ?s st)"
    using append_span_ok [OF ok runs, of ?s "parent_span r r_id st"] new parent_known [OF ok runs] by simp
  show ?thesis
  proof (cases "dget (tc_tools st) r")
    case None
    then show ?thesis using ok' runs call by (simp add: start_tool_def Let_def)
  next
    case (Some calls)
    have "snd ` set calls \<subseteq> sn_id ` set (at_key (tc_spans st) r)"
      using trace_ok_run [OF ok runs] Some by (auto simp: spans_ok_def at_key_def)
    moreover have "snd ` set (dset calls (c # cs) (mo_id mo)) \<subseteq> insert (mo_id mo) (snd ` set calls)"
      by (induction calls "c # cs" "mo_id mo" rule: dset.induct) auto
    ultimately have "snd ` set (dset calls (c # cs) (mo_id mo)) \<subseteq> insert (mo_id mo) (sn_id ` set (at_key (tc_spans st) r))"
      by (rule order_trans [OF _ insert_mono, rotated])
    then have "snd ` set (dset calls (c # cs) (mo_id mo)) \<subseteq> sn_id ` set (at_key (tc_spans (append_span r ?s st)) r)" by simp
    from calls_ok [OF ok' this] show ?thesis using runs call Some by (simp add: start_tool_def Let_def)
  qed
qed

lemma start_retry_ok: "trace_ok U st \<Longrightarrow> mo_id mo \<notin> U \<Longrightarrow> trace_ok (insert (mo_id mo) U) (start_retry mo r payload st)"
proof (cases "\<exists>i calls x. call_of payload = Some i \<and> dget (tc_tools st) r = Some calls \<and> dget calls i = Some x")
  case False
  assume "trace_ok U st"
  moreover have "start_retry mo r payload st = st" using False by (auto simp: start_retry_def split: option.split)
  ultimately show ?thesis by (simp add: trace_ok_grow)
next
  case True
  then obtain i calls x where call: "call_of payload = Some i" "dget (tc_tools st) r = Some calls" "dget calls i = Some x" by blast
  assume ok: "trace_ok U st" and new: "mo_id mo \<notin> U"
  have at: "at_key (tc_tools st) r = calls" using call(2) by (simp add: at_key_def)
  moreover have "(i, x) \<in> set calls" using call(3) by (simp add: dget_def map_of_SomeD)
  ultimately obtain r_id where runs: "dget (tc_runs st) r = Some r_id"
    using ok [unfolded trace_ok_def, rule_format, of r] by (auto simp: traced_run_def split: option.splits)
  let ?st = "case dget (at_key (tc_retries st) r) i of None \<Rightarrow> st | Some previous \<Rightarrow> close_span (mo_now mo) r previous st"
  have ok': "trace_ok U ?st" using ok close_span_ok by (simp split: option.split)
  have runs': "dget (tc_runs ?st) r = Some r_id" using runs by (simp split: option.split)
  have "x \<in> snd ` set calls" using \<open>(i, x) \<in> set calls\<close> by (rule rev_image_eqI) simp
  then have "x \<in> sn_id ` set (at_key (tc_spans st) r)" using trace_ok_run [OF ok runs] at unfolding spans_ok_def by auto
  then have "x \<in> sn_id ` set (at_key (tc_spans ?st) r)" by (cases "dget (at_key (tc_retries st) r) i") simp_all
  then have "trace_ok (insert (mo_id mo) U) (append_span r (new_span mo (Some x) ''retry'' ''kinetic.tool_retry'' payload) ?st)"
    using append_span_ok [OF ok' runs', of "new_span mo (Some x) ''retry'' ''kinetic.tool_retry'' payload" x] new by simp
  then show ?thesis using call by (simp add: start_retry_def Let_def)
qed

lemma take_call_ok: "take_call (tc_tools st) r i = (x, d) \<Longrightarrow> trace_ok U st \<Longrightarrow> trace_ok U (st\<lparr>tc_tools := d\<rparr>)"
proof (cases "dget (tc_tools st) r")
  case (Some calls)
  assume take: "take_call (tc_tools st) r i = (x, d)" and ok: "trace_ok U st"
  have "snd ` set calls \<subseteq> sn_id ` set (at_key (tc_spans st) r)"
    using ok [unfolded trace_ok_def, rule_format, of r] Some by (auto simp: traced_run_def spans_ok_def at_key_def split: option.splits)
  then have "trace_ok U (st\<lparr>tc_tools := dset (tc_tools st) r (dpop calls i)\<rparr>)" by (intro calls_ok [OF ok]) (auto simp: dpop_def)
  then show ?thesis using take Some by (simp add: take_call_def)
qed (cases st, auto simp: take_call_def)

lemma finish_tool_ok: "trace_ok U st \<Longrightarrow> trace_ok U (finish_tool mo r payload st)"
  using close_span_ok take_call_ok by (auto simp: finish_tool_def close_opt_def Let_def split: option.split prod.split)

lemma record_compaction_ok: "trace_ok U st \<Longrightarrow> mo_id mo \<notin> U \<Longrightarrow> trace_ok (insert (mo_id mo) U) (record_compaction mo r payload st)"
proof (cases "dget (tc_runs st) r")
  case (Some r_id)
  assume ok: "trace_ok U st" and new: "mo_id mo \<notin> U"
  let ?s = "new_span mo (Some (parent_span r r_id st)) ''compaction'' ''kinetic.compaction'' payload"
  have "trace_ok (insert (mo_id mo) U) (append_span r ?s st)"
    using append_span_ok [OF ok Some, of ?s "parent_span r r_id st"] new parent_known [OF ok Some] by simp
  then show ?thesis using Some close_span_ok by (simp add: record_compaction_def Let_def)
qed (simp add: record_compaction_def trace_ok_grow)

lemma trace_event_ok: "trace_ok U st \<Longrightarrow> mo_id mo \<notin> U \<Longrightarrow> trace_ok (insert (mo_id mo) U) (snd (trace_event mo e st))"
  by (auto simp: trace_event_def Let_def trace_ok_grow start_trace_ok start_turn_ok start_tool_ok start_retry_ok finish_tool_ok record_compaction_ok finish_all_ok
      split: json.split list.split)

fun trace_all :: "(moment \<times> event) list \<Rightarrow> tracer \<Rightarrow> tracer" where
  "trace_all [] st = st"
| "trace_all ((mo, e) # es) st = trace_all es (snd (trace_event mo e st))"

lemma trace_all_ok: "trace_ok U st \<Longrightarrow> distinct (map (mo_id \<circ> fst) es) \<Longrightarrow> (mo_id \<circ> fst) ` set es \<inter> U = {}
    \<Longrightarrow> trace_ok (U \<union> (mo_id \<circ> fst) ` set es) (trace_all es st)"
proof (induction es arbitrary: U st)
  case (Cons x es)
  obtain mo e where x: "x = (mo, e)" by fastforce
  have "trace_ok (insert (mo_id mo) U) (snd (trace_event mo e st))" using trace_event_ok Cons.prems x by simp
  from Cons.IH [OF this] show ?case using Cons.prems x by (auto simp: image_iff)
qed simp

lemma trace_init_ok: "trace_ok {} tracer_init"
  by (simp add: trace_ok_def traced_run_def tracer_init_def at_key_def)

lemma traced_ok: "distinct (map (mo_id \<circ> fst) es) \<Longrightarrow> trace_ok ((mo_id \<circ> fst) ` set es) (trace_all es tracer_init)"
  using trace_all_ok [OF trace_init_ok] by simp

text \<open>
  C32: whatever events a tracer receives, of any number of interleaved runs, in any order and with boundaries missing or
  repeated, the tree of every run it has seen start exists and holds every span of the run exactly once, and every span that has
  ended has a positive duration.
\<close>

theorem trace_tree_complete:
  assumes "distinct (map (mo_id \<circ> fst) es)" "dhas (tc_runs (trace_all es tracer_init)) r"
  shows "\<exists>u. as_tree (trace_all es tracer_init) r = Inr u \<and> mset (nodes u) = mset (spans_for_run (trace_all es tracer_init) r)
    \<and> (\<forall>s \<in> set (nodes u). \<forall>x. sn_end s = Some x \<longrightarrow> sn_start s < x)"
proof -
  let ?st = "trace_all es tracer_init"
  obtain r_id where runs: "dget (tc_runs ?st) r = Some r_id" using assms(2) by (auto simp: dhas_dget)
  note ok = trace_ok_run [OF traced_ok [OF assms(1)] runs]
  then obtain s rest where ss: "spans_for_run ?st r = s # rest" "sn_id s = r_id" "sn_parent s = None" "below {r_id} rest"
    by (auto simp: spans_ok_def spans_for_run_def)
  obtain ts where at: "attach (s # rest) = [(None, Node s ts)]" using attach_rooted ss by blast
  have known: "list_all (\<lambda>s. case sn_parent s of None \<Rightarrow> True | Some p \<Rightarrow> p \<in> K \<or> list_ex (\<lambda>x. sn_id x = p) xs) xs" if "below K xs" for K xs
    using that
  proof (induction xs arbitrary: K)
    case (Cons y ys)
    then have "list_all (\<lambda>s. case sn_parent s of None \<Rightarrow> True | Some p \<Rightarrow> p \<in> insert (sn_id y) K \<or> list_ex (\<lambda>x. sn_id x = p) ys) ys" by simp
    then show ?case using Cons.prems by (auto simp: list_all_iff split: option.splits)
  qed simp
  have all: "list_all (\<lambda>x. case sn_parent x of None \<Rightarrow> True | Some p \<Rightarrow> list_ex (\<lambda>y. sn_id y = p) (s # rest)) (s # rest)"
    using known [OF ss(4)] ss(2,3) by (auto simp: list_all_iff split: option.splits)
  then have tree: "as_tree ?st r = Inr (Node s ts)"
    using runs ss(1,2) at by (simp add: as_tree_def Let_def)
  have "mset (nodes (Node s ts)) = mset (spans_for_run ?st r)" using attach_nodes [of "s # rest"] at ss(1) by simp
  moreover from this have "set (nodes (Node s ts)) = set (spans_for_run ?st r)" by (rule mset_eq_setD)
  ultimately show ?thesis using tree ok by (auto simp: spans_ok_def spans_for_run_def)
qed

text \<open>
  when a run ends, by finishing, failing or being cancelled, every span of it is closed, with a positive duration.
\<close>

theorem terminal_event_closes_run:
  assumes "distinct (map (mo_id \<circ> fst) es)" "r \<noteq> []" "jget (event_payload e) ''run_id'' = JStr r"
    and "event_type e \<in> {''agent.run_finished'', ''agent.error'', ''agent.cancelled''}"
  shows "\<forall>s \<in> set (spans_for_run (snd (trace_event mo e (trace_all es tracer_init))) r). \<exists>x. sn_end s = Some x \<and> sn_start s < x"
proof
  let ?st = "trace_all es tracer_init"
  fix s assume s: "s \<in> set (spans_for_run (snd (trace_event mo e ?st)) r)"
  have step: "snd (trace_event mo e ?st) = finish_all (mo_now mo) r ?st" using assms(2-4) by (cases r) (auto simp: trace_event_def Let_def)
  have ok: "trace_ok ((mo_id \<circ> fst) ` set es) ?st" by (rule traced_ok [OF assms(1)])
  have in_all: "s \<in> set (at_key (tc_spans (finish_all (mo_now mo) r ?st)) r)" using s unfolding step spans_for_run_def .
  then obtain x where x: "sn_end s = Some x" using finish_all_ended [OF ok] by blast
  obtain r_id where "dget (tc_runs (finish_all (mo_now mo) r ?st)) r = Some r_id" using known_run [OF finish_all_ok [OF ok] in_all] by blast
  from trace_ok_run [OF finish_all_ok [OF ok] this] have "sn_start s < x" using in_all x by (auto simp: spans_ok_def)
  then show "\<exists>x. sn_end s = Some x \<and> sn_start s < x" using x by blast
qed

section \<open>Counters\<close>

record metrics =
  mt_events :: "(string, nat) dict"
  mt_calls :: nat
  mt_failures :: nat
  mt_input :: int
  mt_output :: int
  mt_cost :: rat
  mt_started :: nat
  mt_finished :: nat
  mt_durations :: "(string, rat) dict"
  mt_open :: "(string, rat) dict"

definition metrics_init :: metrics where
  "metrics_init = \<lparr>mt_events = [], mt_calls = 0, mt_failures = 0, mt_input = 0, mt_output = 0, mt_cost = 0, mt_started = 0, mt_finished = 0,
     mt_durations = [], mt_open = []\<rparr>"

definition usage_of :: "obj \<Rightarrow> obj" where
  "usage_of payload = (case jget payload ''usage'' of JObj u \<Rightarrow> u | _ \<Rightarrow> [])"

definition tokens_of :: "obj \<Rightarrow> string \<Rightarrow> int" where
  "tokens_of u k = (case as_int (jget u k) of Some n \<Rightarrow> n | None \<Rightarrow> 0)"

definition run_of :: "obj \<Rightarrow> string option" where
  "run_of payload = (case jget payload ''run_id'' of JStr (c # cs) \<Rightarrow> Some (c # cs) | _ \<Rightarrow> None)"

text \<open>A usage that is no object raises an exception, which the bus swallows; the counters are the same.\<close>

definition count_event :: "rat \<Rightarrow> event \<Rightarrow> metrics \<Rightarrow> metrics" where
  "count_event now e m =
     (let ty = event_type e; payload = event_payload e; run = run_of payload; u = usage_of payload;
          m1 = m\<lparr>mt_events := dset (mt_events m) ty (case dget (mt_events m) ty of Some n \<Rightarrow> n + 1 | None \<Rightarrow> 1)\<rparr> in
      if ty = ''agent.run_started'' \<and> run \<noteq> None then m1\<lparr>mt_started := mt_started m1 + 1, mt_open := dset (mt_open m1) (the run) now\<rparr>
      else if ty = ''agent.run_finished'' \<and> run \<noteq> None then
        m1\<lparr>mt_finished := mt_finished m1 + 1, mt_open := dpop (mt_open m1) (the run),
           mt_durations := (case dget (mt_open m1) (the run) of None \<Rightarrow> mt_durations m1 | Some started \<Rightarrow> dset (mt_durations m1) (the run) (now - started))\<rparr>
      else if ty = ''agent.tool_call_finished'' then m1\<lparr>mt_calls := mt_calls m1 + 1, mt_failures := mt_failures m1 + (if truthy (jget payload ''is_error'') then 1 else 0)\<rparr>
      else if ty = ''llm.usage'' then
        m1\<lparr>mt_input := mt_input m1 + tokens_of u ''input_tokens'', mt_output := mt_output m1 + tokens_of u ''output_tokens'',
           mt_cost := mt_cost m1 + (case num_val (jget u ''cost_usd'') of Some x \<Rightarrow> x | None \<Rightarrow> 0)\<rparr>
      else m1)"

definition metrics_snapshot :: "(rat \<Rightarrow> json) \<Rightarrow> (rat \<Rightarrow> rat) \<Rightarrow> metrics \<Rightarrow> json" where
  "metrics_snapshot number round6 m = (let ds = map snd (mt_durations m) in
     JObj [(''event_counts'', JObj (map (\<lambda>(k, n). (k, JInt (int n))) (sort_key fst (mt_events m)))), (''tool_calls'', JInt (int (mt_calls m))),
       (''tool_failures'', JInt (int (mt_failures m))),
       (''usage'', JObj [(''input_tokens'', JInt (mt_input m)), (''output_tokens'', JInt (mt_output m)), (''cost_usd'', number (round6 (mt_cost m)))]),
       (''runs_started'', JInt (int (mt_started m))), (''runs_finished'', JInt (int (mt_finished m))),
       (''open_runs'', JArr (map JStr (sort (map fst (mt_open m))))),
       (''run_duration_avg'', number (if ds = [] then 0 else sum_list ds / of_nat (length ds))), (''run_duration_max'', number (if ds = [] then 0 else Max (set ds)))])"

lemma counts_exact:
  "dget (mt_events (fold (\<lambda>(now, e). count_event now e) es m)) ty =
     (let n = length (filter (\<lambda>(_, e). event_type e = ty) es) in
      case dget (mt_events m) ty of Some k \<Rightarrow> Some (k + n) | None \<Rightarrow> if n = 0 then None else Some n)"
proof (induction es arbitrary: m)
  case (Cons x es)
  obtain now e where x: "x = (now, e)" by fastforce
  have step: "mt_events (count_event now e m) = dset (mt_events m) (event_type e) (case dget (mt_events m) (event_type e) of Some n \<Rightarrow> n + 1 | None \<Rightarrow> 1)"
    by (simp add: count_event_def Let_def)
  show ?case
    by (cases "event_type e = ty"; cases "dget (mt_events m) ty") (simp_all add: x Cons.IH step)
qed (simp add: Let_def split: option.split)

text \<open>Runs that started and did not finish are open, and only those; a run that finished in between is not.\<close>

lemma open_runs_exact: "dhas (mt_open (count_event now e m)) r \<longleftrightarrow>
    (if run_of (event_payload e) = Some r \<and> event_type e = ''agent.run_started'' then True
     else if run_of (event_payload e) = Some r \<and> event_type e = ''agent.run_finished'' then False else dhas (mt_open m) r)"
proof -
  have "mt_open (count_event now e m) =
      (if event_type e = ''agent.run_started'' \<and> run_of (event_payload e) \<noteq> None then dset (mt_open m) (the (run_of (event_payload e))) now
       else if event_type e = ''agent.run_finished'' \<and> run_of (event_payload e) \<noteq> None then dpop (mt_open m) (the (run_of (event_payload e))) else mt_open m)"
    by (cases "run_of (event_payload e)") (simp_all add: count_event_def Let_def)
  then show ?thesis by (cases "run_of (event_payload e)") (simp_all add: dhas_dget)
qed

section \<open>Examples\<close>

definition traced_event :: "string \<Rightarrow> obj \<Rightarrow> event" where
  "traced_event ty p = \<lparr>event_type = ty, event_payload = (''run_id'', JStr ''r'') # p, event_source = None\<rparr>"

definition sample_moment :: "string \<Rightarrow> rat \<Rightarrow> moment" where
  "sample_moment i t = \<lparr>mo_id = i, mo_now = t, mo_redact = (\<lambda>s. s)\<rparr>"

definition sample_trace :: "(moment \<times> event) list" where
  "sample_trace = [(sample_moment ''a'' 0, traced_event ''agent.run_started'' []), (sample_moment ''b'' 1, traced_event ''agent.turn_started'' []),
     (sample_moment ''c'' 2, traced_event ''agent.tool_call_started'' [(''id'', JStr ''1'')]), (sample_moment ''d'' 3, traced_event ''agent.turn_started'' [])]"

lemma sample_distinct: "distinct (map (mo_id \<circ> fst) sample_trace)"
  by code_simp

theorem trace_tree_complete_witness:
  "\<exists>u. as_tree (trace_all sample_trace tracer_init) ''r'' = Inr u \<and> length (nodes u) = 4"
proof -
  have "dhas (tc_runs (trace_all sample_trace tracer_init)) ''r''" by code_simp
  from trace_tree_complete [OF sample_distinct this] obtain u where u: "as_tree (trace_all sample_trace tracer_init) ''r'' = Inr u"
    "mset (nodes u) = mset (spans_for_run (trace_all sample_trace tracer_init) ''r'')" by blast
  have "length (spans_for_run (trace_all sample_trace tracer_init) ''r'') = 4" by code_simp
  then show ?thesis using u mset_eq_length [OF u(2)] by auto
qed

theorem terminal_event_closes_run_witness:
  "\<forall>s \<in> set (spans_for_run (snd (trace_event (sample_moment ''e'' 4) (traced_event ''agent.error'' []) (trace_all sample_trace tracer_init))) ''r'').
     \<exists>x. sn_end s = Some x \<and> sn_start s < x"
  by (rule terminal_event_closes_run [OF sample_distinct]) (simp_all add: traced_event_def jget_def)

text \<open>
  After a terminal event the run is still known but its calls are not: a tool that starts then, as after a resumption, raises an
  exception in the tracer and leaves a span that is never closed by the end of the call.
\<close>

lemma tool_after_terminal_raises:
  "fst (trace_event (sample_moment ''e'' 4) (traced_event ''agent.tool_call_started'' [(''id'', JStr ''2'')])
     (trace_all (sample_trace @ [(sample_moment ''x'' 4, traced_event ''agent.error'' [])]) tracer_init)) = Inl (Exn ''KeyError'' (repr_str ''r''))"
  by code_simp

end
