(* ===== verification/Plugin_Scanner.thy ===== *)
theory Plugin_Scanner
  imports Skill_Package
begin

text \<open>
  The scan of plugin code (\<open>plugin/scanner.py\<close>, its visitor): syntax trees of Python in the shapes the visitor distinguishes, the
  resolution of names through the imports seen so far, the checks of every kind of node and the traversal. The parser of
  Python is an argument. The flags come from the nodes in preorder, each under the imports before it; a module that imports
  first cannot hide a finding behind the names it chooses.
\<close>

section \<open>Syntax trees\<close>

text \<open>
  Nodes that bind or use names, with their line; a constant has its value when it is a string. A keyword of a call is its value.
  Every other statement or expression is \<open>PyOther\<close> with its children in the order of its fields.
\<close>

datatype pynode =
    PyName string int
  | PyAttribute pynode string int
  | PyConstant "string option" int
  | PyCall pynode "pynode list" "pynode list" int
  | PyImport "(string \<times> string option) list" int
  | PyImportFrom "string option" "(string \<times> string option) list" int
  | PyAssign "pynode list" pynode int
  | PyAnnAssign pynode pynode "pynode option" int
  | PyAugAssign pynode pynode int
  | PyDelete "pynode list" int
  | PySubscript pynode pynode int
  | PyStarred pynode int
  | PySequence "pynode list" int
  | PyOther "pynode list"

fun children :: "pynode \<Rightarrow> pynode list" where
  "children (PyAttribute v a l) = [v]"
| "children (PyCall f args kws l) = f # args @ kws"
| "children (PyAssign ts v l) = ts @ [v]"
| "children (PyAnnAssign t a v l) = t # a # (case v of None \<Rightarrow> [] | Some x \<Rightarrow> [x])"
| "children (PyAugAssign t v l) = [t, v]"
| "children (PyDelete ts l) = ts"
| "children (PySubscript v s l) = [v, s]"
| "children (PyStarred v l) = [v]"
| "children (PySequence es l) = es"
| "children (PyOther ns) = ns"
| "children n = []"

lemma size_member: "m \<in> set ns \<Longrightarrow> size m \<le> size_list size ns"
  by (rule size_list_estimation') auto

lemma size_children [termination_simp]: "m \<in> set (children n) \<Longrightarrow> size m < size n"
  by (cases n rule: children.cases) (auto split: option.splits dest!: size_member)

section \<open>Names\<close>

type_synonym aliases = "(string, string) dict"

fun name_parts :: "pynode \<Rightarrow> string list option" where
  "name_parts (PyName i l) = Some [i]"
| "name_parts (PyAttribute v a l) = map_option (\<lambda>ps. ps @ [a]) (name_parts v)"
| "name_parts n = None"

definition resolve_name :: "aliases \<Rightarrow> pynode \<Rightarrow> string option" where
  "resolve_name al n = (case name_parts n of
     Some (p # ps) \<Rightarrow> Some (py_join ''.'' ((case dget al p of Some q \<Rightarrow> q | None \<Rightarrow> p) # ps)) | _ \<Rightarrow> None)"

definition security_namespace :: string where
  "security_namespace = ''kinetic_sdk.security''"

definition security_write :: "aliases \<Rightarrow> pynode \<Rightarrow> bool" where
  "security_write al target = (case resolve_name al target of
     None \<Rightarrow> False | Some r \<Rightarrow> r = security_namespace \<or> startswith (security_namespace @ ''.'') r)"

definition first_part :: "string \<Rightarrow> string" where
  "first_part s = takeWhile (\<lambda>c. c \<noteq> CHR ''.'') s"

definition last_part :: "string \<Rightarrow> string" where
  "last_part s = rev (first_part (rev s))"

definition network_modules :: "string list" where
  "network_modules = [''socket'', ''urllib'', ''http'', ''requests'', ''httpx'', ''aiohttp'']"

definition dynamic_builtins :: "string list" where
  "dynamic_builtins = [''eval'', ''exec'', ''compile'']"

definition subprocess_calls :: "string list" where
  "subprocess_calls = [''Popen'', ''run'', ''call'', ''check_call'', ''check_output'']"

definition os_shell_calls :: "string list" where
  "os_shell_calls = [''os.system'', ''os.popen'']"

text \<open>What an import binds.\<close>

definition bind_import :: "string \<times> string option \<Rightarrow> aliases \<Rightarrow> aliases" where
  "bind_import nm al = (case nm of
     (name, Some (c # cs)) \<Rightarrow> dset al (c # cs) name | (name, _) \<Rightarrow> dset al (first_part name) (first_part name))"

definition bind_from :: "string \<Rightarrow> string \<times> string option \<Rightarrow> aliases \<Rightarrow> aliases" where
  "bind_from mname nm al = (case nm of
     (name, Some (c # cs)) \<Rightarrow> dset al (c # cs) (mname @ ''.'' @ name) | (name, _) \<Rightarrow> dset al name (mname @ ''.'' @ name))"

fun bind_names :: "pynode \<Rightarrow> aliases \<Rightarrow> aliases" where
  "bind_names (PyImport names l) al = fold bind_import names al"
| "bind_names (PyImportFrom (Some (c # cs)) names l) al = fold (bind_from (c # cs)) names al"
| "bind_names n al = al"

section \<open>Checks\<close>

abbreviation dash :: string where "dash \<equiv> '' '' @ [CHR 0x1A] @ '' ''"

definition flag_at :: "string \<Rightarrow> severity \<Rightarrow> string \<Rightarrow> string \<Rightarrow> int \<Rightarrow> vet_flag" where
  "flag_at location sev category message line =
     \<lparr>vf_severity = sev, vf_category = category, vf_message = message, vf_location = location @ '':'' @ str_of_int line\<rparr>"

definition network_flag :: "string \<Rightarrow> string \<Rightarrow> string \<Rightarrow> int \<Rightarrow> vet_flag list" where
  "network_flag location how mname line = (if first_part mname \<in> set network_modules
     then [flag_at location Warning ''direct_network'' (how @ repr_str mname @ dash @ ''direct network access outside the managed mcp/ channel'') line] else [])"

fun outermost_attributes :: "pynode \<Rightarrow> pynode list" where
  "outermost_attributes (PyAttribute v a l) = [PyAttribute v a l]"
| "outermost_attributes (PySubscript v s l) = outermost_attributes v"
| "outermost_attributes (PyStarred v l) = outermost_attributes v"
| "outermost_attributes (PySequence es l) = concat (map outermost_attributes es)"
| "outermost_attributes n = []"

definition check_write_targets :: "string \<Rightarrow> aliases \<Rightarrow> string \<Rightarrow> pynode list \<Rightarrow> int \<Rightarrow> vet_flag list" where
  "check_write_targets location al verb targets line =
     map (\<lambda>_. flag_at location Critical ''security_tamper'' (verb @ '' the kinetic_sdk.security namespace'' @ dash
         @ ''writing to the SDK'' @ [SQ] @ ''s security module can disable permission checks for every later request'') line)
       (filter (security_write al) (concat (map outermost_attributes targets)))"

fun is_constant :: "pynode \<Rightarrow> bool" where
  "is_constant (PyConstant c l) = True" | "is_constant n = False"

fun is_text :: "pynode \<Rightarrow> bool" where
  "is_text (PyConstant (Some s) l) = True" | "is_text n = False"

fun is_environ :: "pynode \<Rightarrow> bool" where
  "is_environ (PyConstant (Some s) l) = (s = ''environ'')" | "is_environ n = False"

definition check_call :: "string \<Rightarrow> aliases \<Rightarrow> pynode \<Rightarrow> pynode list \<Rightarrow> pynode list \<Rightarrow> int \<Rightarrow> vet_flag list" where
  "check_call location al func args kws line = (case resolve_name al func of
     None \<Rightarrow> []
   | Some r \<Rightarrow>
       if r \<in> set dynamic_builtins then
         (if list_ex (\<lambda>v. \<not> is_constant v) (args @ kws) \<or> args @ kws = []
          then [flag_at location Critical ''code_execution'' (''calls '' @ r @ ''() with non-literal input'' @ dash @ ''dynamic code execution evades static review'') line] else [])
       else if r = ''__import__'' \<or> r = ''importlib.import_module'' then
         (if args = [] \<or> \<not> is_text (hd args)
          then [flag_at location Critical ''dynamic_import'' (''calls '' @ r @ ''() with a non-constant module name'' @ dash @ ''dynamic imports evade static analysis'') line] else [])
       else if r \<in> set os_shell_calls then
         [flag_at location Critical ''process_spawn'' (''calls '' @ r @ ''() directly'' @ dash
            @ ''subprocesses must go through a controlled SDK wrapper (e.g. GitTool), not raw shell calls'') line]
       else if startswith ''subprocess.'' r then
         (if last_part r \<in> set subprocess_calls
          then [flag_at location Critical ''process_spawn'' (''calls '' @ r @ ''() directly'' @ dash
            @ ''subprocesses must go through a controlled SDK wrapper (e.g. GitTool), not raw subprocess'') line] else [])
       else if r = ''setattr'' then
         (if args \<noteq> [] \<and> security_write al (hd args)
          then [flag_at location Critical ''security_tamper'' (''setattr() targeting the kinetic_sdk.security namespace'' @ dash
            @ ''monkey-patching the SDK'' @ [SQ] @ ''s security module can disable permission checks for every later request'') line] else [])
       else if r = ''getattr'' then
         (if length args \<ge> 2 \<and> is_environ (args ! 1) \<and> resolve_name al (hd args) = Some ''os''
          then [flag_at location Critical ''env_access'' (''getattr(os, '' @ repr_str ''environ'' @ '')'' @ dash
            @ ''secrets must go through SecretRegistry like every other SDK module'') line] else [])
       else if r = ''open'' then
         (if args \<noteq> [] \<and> \<not> is_text (hd args)
          then [flag_at location Warning ''dynamic_file_access'' (''open() with a non-literal path'' @ dash @ ''may read/write outside the workspace'') line] else [])
       else [])"

fun flags_of :: "string \<Rightarrow> aliases \<Rightarrow> pynode \<Rightarrow> vet_flag list" where
  "flags_of location al (PyImport names l) = concat (map (\<lambda>(name, _). network_flag location ''imports '' name l) names)"
| "flags_of location al (PyImportFrom mname names l) = network_flag location ''imports from '' (case mname of Some m \<Rightarrow> m | None \<Rightarrow> []) l"
| "flags_of location al (PyAttribute v a l) = (if resolve_name al (PyAttribute v a l) = Some ''os.environ''
     then [flag_at location Critical ''env_access'' (''accesses os.environ directly'' @ dash @ ''secrets must go through SecretRegistry like every other SDK module'') l] else [])"
| "flags_of location al (PyName i l) = (if dget al i = Some ''os.environ''
     then [flag_at location Critical ''env_access'' (''uses os.environ (via from-import)'' @ dash @ ''secrets must go through SecretRegistry like every other SDK module'') l] else [])"
| "flags_of location al (PyAssign ts v l) = check_write_targets location al ''assigns into'' ts l"
| "flags_of location al (PyAnnAssign t a v l) = check_write_targets location al ''assigns into'' [t] l"
| "flags_of location al (PyAugAssign t v l) = check_write_targets location al ''assigns into'' [t] l"
| "flags_of location al (PyDelete ts l) = check_write_targets location al ''deletes'' ts l"
| "flags_of location al (PyCall f args kws l) = check_call location al f args kws l"
| "flags_of location al n = []"

section \<open>Traversal\<close>

record visitor =
  vs_flags :: "vet_flag list"
  vs_aliases :: aliases

text \<open>The visit of one node, which every method of the visitor ends by visiting the children.\<close>

definition enter :: "string \<Rightarrow> pynode \<Rightarrow> visitor \<Rightarrow> visitor" where
  "enter location n vs = \<lparr>vs_flags = vs_flags vs @ flags_of location (vs_aliases vs) n, vs_aliases = bind_names n (vs_aliases vs)\<rparr>"

fun visit :: "string \<Rightarrow> pynode \<Rightarrow> visitor \<Rightarrow> visitor" where
  "visit location n vs = fold (visit location) (children n) (enter location n vs)"

declare visit.simps [simp del]

definition visitor_init :: visitor where
  "visitor_init = \<lparr>vs_flags = [], vs_aliases = []\<rparr>"

definition scan_source :: "(string \<Rightarrow> (string \<times> int) + pynode) \<Rightarrow> string \<Rightarrow> string \<Rightarrow> vet_flag list" where
  "scan_source parse source location = (case parse source of
     Inl (msg, line) \<Rightarrow> [flag_at location Critical ''unparseable'' (''source cannot be parsed as Python ('' @ msg @ '')'') line]
   | Inr tree \<Rightarrow> vs_flags (visit location tree visitor_init))"

section \<open>The nodes in order\<close>

fun preorder :: "pynode \<Rightarrow> pynode list" where
  "preorder n = n # concat (map preorder (children n))"

declare preorder.simps [simp del]

lemma preorder_leaf [simp]: "preorder (PyName i l) = [PyName i l]" "preorder (PyImport names l) = [PyImport names l]"
    "preorder (PyImportFrom m names l) = [PyImportFrom m names l]" "preorder (PyConstant c l) = [PyConstant c l]"
  by (simp_all add: preorder.simps)

lemma fold_visits: "(\<And>c vs. c \<in> set cs \<Longrightarrow> visit loc c vs = fold (enter loc) (preorder c) vs)
    \<Longrightarrow> fold (visit loc) cs vs = fold (enter loc) (concat (map preorder cs)) vs"
  by (induction cs arbitrary: vs) simp_all

lemma visit_preorder: "visit loc n vs = fold (enter loc) (preorder n) vs"
proof (induction n arbitrary: vs rule: preorder.induct)
  case (1 n)
  show ?case by (simp add: visit.simps [of loc n] preorder.simps [of n] fold_visits [OF 1])
qed

text \<open>The flags of a list of nodes, each under the bindings of those before it.\<close>

fun flags_along :: "string \<Rightarrow> aliases \<Rightarrow> pynode list \<Rightarrow> vet_flag list" where
  "flags_along loc al [] = []"
| "flags_along loc al (n # ns) = flags_of loc al n @ flags_along loc (bind_names n al) ns"

lemma fold_enter: "fold (enter loc) ns vs = \<lparr>vs_flags = vs_flags vs @ flags_along loc (vs_aliases vs) ns, vs_aliases = fold bind_names ns (vs_aliases vs)\<rparr>"
  by (induction ns arbitrary: vs) (simp_all add: enter_def)

lemma visited_flags: "vs_flags (visit loc tree visitor_init) = flags_along loc [] (preorder tree)"
  by (simp add: visit_preorder fold_enter visitor_init_def)

lemma flags_along_append: "flags_along loc al (ms @ ns) = flags_along loc al ms @ flags_along loc (fold bind_names ms al) ns"
  by (induction ms arbitrary: al) simp_all

lemma has_critical_append [simp]: "has_critical (xs @ ys) = (has_critical xs \<or> has_critical ys)"
  by (simp add: has_critical_def)

fun is_import :: "pynode \<Rightarrow> bool" where
  "is_import (PyImport names l) = True" | "is_import (PyImportFrom m names l) = True" | "is_import n = False"

lemma bind_other: "\<not> is_import n \<Longrightarrow> bind_names n al = al"
  by (cases n) auto

lemma flags_along_fixed: "list_all (\<lambda>n. \<not> is_import n) ns \<Longrightarrow> flags_along loc al ns = concat (map (flags_of loc al) ns)"
  by (induction ns) (simp_all add: bind_other)

lemma critical_concat: "has_critical (concat (map f ns)) = (\<exists>n \<in> set ns. has_critical (f n))"
  by (induction ns) (auto simp: has_critical_def)

section \<open>What imports mean\<close>

text \<open>
  The names an import statement binds and the paths they stand for, as Python defines them: \<open>import a.b as c\<close> binds \<open>c\<close> to the
  module \<open>a.b\<close>, \<open>import a.b\<close> binds \<open>a\<close> to the module \<open>a\<close>, and \<open>from m import n as k\<close> binds \<open>k\<close> to the member \<open>n\<close> of \<open>m\<close>. A later
  binding of a name replaces an earlier one.
\<close>

fun bindings :: "pynode \<Rightarrow> (string \<times> string list) list" where
  "bindings (PyImport names l) = map (\<lambda>(name, asname). case asname of
     Some k \<Rightarrow> (k, split_on CHR ''.'' name) | None \<Rightarrow> (hd (split_on CHR ''.'' name), [hd (split_on CHR ''.'' name)])) names"
| "bindings (PyImportFrom (Some m) names l) = map (\<lambda>(name, asname).
     (case asname of Some k \<Rightarrow> k | None \<Rightarrow> name, split_on CHR ''.'' m @ [name])) names"
| "bindings n = []"

definition meaning :: "pynode list \<Rightarrow> string \<Rightarrow> string list option" where
  "meaning imps i = map_of (rev (concat (map bindings imps))) i"

text \<open>The imports considered: absolute ones, that name what they bind.\<close>

fun plain_import :: "pynode \<Rightarrow> bool" where
  "plain_import (PyImport names l) = list_all (\<lambda>(name, asname). asname \<noteq> Some []) names"
| "plain_import (PyImportFrom (Some m) names l) = (m \<noteq> [] \<and> list_all (\<lambda>(name, asname). name \<noteq> ''*'' \<and> asname \<noteq> Some []) names)"
| "plain_import n = False"

lemma join_split: "py_join ''.'' (split_on CHR ''.'' q @ ps) = py_join ''.'' (q # ps)"
proof (induction q)
  case Nil
  then show ?case by simp
next
  case (Cons c q)
  then show ?case
    using split_on_nonempty [of "CHR ''.''" q] by (cases "split_on CHR ''.'' q"; cases "tl (split_on CHR ''.'' q)"; cases ps) auto
qed

lemma join_split_all: "py_join ''.'' (split_on CHR ''.'' q) = q"
  using join_split [of q "[]"] by simp

lemma first_part_split: "hd (split_on CHR ''.'' q) = first_part q"
proof (induction q)
  case (Cons c q)
  then show ?case using split_on_nonempty [of "CHR ''.''" q] by (cases "split_on CHR ''.'' q") (auto simp: first_part_def)
qed (simp add: first_part_def)

lemma bind_names_bindings: "plain_import n \<Longrightarrow> bind_names n al = fold (\<lambda>(k, ps) al. dset al k (py_join ''.'' ps)) (bindings n) al"
proof (induction n rule: plain_import.induct)
  case (1 names l)
  have "plain_import (PyImport names l) \<Longrightarrow> ?case"
  proof (induction names arbitrary: al)
    case (Cons nm names)
    obtain name asname where nm: "nm = (name, asname)" by fastforce
    then have "bind_import nm al = (case bindings (PyImport [nm] l) of [(k, ps)] \<Rightarrow> dset al k (py_join ''.'' ps))"
      using Cons.prems by (cases asname) (auto simp: bind_import_def join_split_all first_part_split neq_Nil_conv split: list.split)
    then show ?case using Cons nm by (cases asname) simp_all
  qed simp
  then show ?case using 1 by blast
next
  case (2 m names l)
  then obtain c cs where m: "m = c # cs" by (cases m) auto
  have join: "py_join ''.'' (split_on CHR ''.'' m @ [name]) = m @ ''.'' @ name" for name using join_split [of m "[name]"] by simp
  have "plain_import (PyImportFrom (Some m) names l) \<Longrightarrow> fold (bind_from m) names al =
      fold (\<lambda>(k, ps) al. dset al k (py_join ''.'' ps)) (bindings (PyImportFrom (Some m) names l)) al"
  proof (induction names arbitrary: al)
    case (Cons nm names)
    obtain name asname where nm: "nm = (name, asname)" by fastforce
    then have "bind_from m nm al = dset al (case asname of Some k \<Rightarrow> k | None \<Rightarrow> name) (py_join ''.'' (split_on CHR ''.'' m @ [name]))"
      using Cons.prems by (cases asname) (auto simp: bind_from_def join neq_Nil_conv split: list.split)
    then show ?case using Cons nm by simp
  qed simp
  then show ?case using 2 m by simp
qed simp_all

lemma fold_bindings_get: "dget (fold (\<lambda>(k, ps) al. dset al k (py_join ''.'' ps)) bs al) i
    = (case map_of (rev bs) i of Some ps \<Rightarrow> Some (py_join ''.'' ps) | None \<Rightarrow> dget al i)"
  by (induction bs rule: rev_induct) (auto split: option.split)

text \<open>The table of the scanner says of every name what the imports mean by it.\<close>

lemma aliases_meaning: "list_all plain_import imps \<Longrightarrow> dget (fold bind_names imps []) i = map_option (py_join ''.'') (meaning imps i)"
proof -
  have "list_all plain_import imps \<Longrightarrow>
      fold bind_names imps al = fold (\<lambda>(k, ps) al. dset al k (py_join ''.'' ps)) (concat (map bindings imps)) al" for al
    by (induction imps arbitrary: al) (simp_all add: bind_names_bindings)
  then show "list_all plain_import imps \<Longrightarrow> ?thesis" by (simp add: fold_bindings_get meaning_def dget_def [of "[]"] split: option.split)
qed

lemma meaning_nonempty: "meaning imps i = Some ps \<Longrightarrow> ps \<noteq> []"
proof -
  have split: "split_on CHR ''.'' q = [] \<longleftrightarrow> False" for q using split_on_nonempty by blast
  have "list_all (\<lambda>(k, qs). qs \<noteq> []) (bindings n)" for n
    by (cases n rule: bindings.cases) (auto simp: list_all_iff split split: option.splits)
  then have "list_all (\<lambda>(k, qs). qs \<noteq> []) (rev (concat (map bindings imps)))" by (auto simp: list_all_iff)
  then have all: "\<forall>x \<in> set (rev (concat (map bindings imps))). snd x \<noteq> []" by (simp only: list_all_iff case_prod_unfold)
  assume "meaning imps i = Some ps"
  then have "(i, ps) \<in> set (rev (concat (map bindings imps)))" unfolding meaning_def by (rule map_of_SomeD)
  from bspec [OF all this] show "ps \<noteq> []" by simp
qed

section \<open>Canonical names\<close>

definition dotted :: "string list \<Rightarrow> int \<Rightarrow> pynode" where
  "dotted ps l = fold (\<lambda>a n. PyAttribute n a l) (tl ps) (PyName (hd ps) l)"

text \<open>
  The same code with every imported name written out as the path it stands for. A name that is itself the target of a write
  stays: assigning to it binds it anew. The object whose element or slice is written is read, and written out.
\<close>

fun canon :: "(string \<Rightarrow> string list option) \<Rightarrow> bool \<Rightarrow> pynode \<Rightarrow> pynode" where
  "canon mg w (PyName i l) = (case mg i of Some ps \<Rightarrow> if w then PyName i l else dotted ps l | None \<Rightarrow> PyName i l)"
| "canon mg w (PyAttribute v a l) = PyAttribute (canon mg False v) a l"
| "canon mg w (PyCall f args kws l) = PyCall (canon mg False f) (map (canon mg False) args) (map (canon mg False) kws) l"
| "canon mg w (PyAssign ts v l) = PyAssign (map (canon mg True) ts) (canon mg False v) l"
| "canon mg w (PyAnnAssign t a v l) = PyAnnAssign (canon mg True t) (canon mg False a) (map_option (canon mg False) v) l"
| "canon mg w (PyAugAssign t v l) = PyAugAssign (canon mg True t) (canon mg False v) l"
| "canon mg w (PyDelete ts l) = PyDelete (map (canon mg True) ts) l"
| "canon mg w (PySubscript v s l) = PySubscript (canon mg False v) (canon mg False s) l"
| "canon mg w (PyStarred v l) = PyStarred (canon mg w v) l"
| "canon mg w (PySequence es l) = PySequence (map (canon mg w) es) l"
| "canon mg w (PyOther ns) = PyOther (map (canon mg False) ns)"
| "canon mg w n = n"

text \<open>A write to an element of an object that is an imported name itself, without an attribute: the scanner looks for attributes only.\<close>

fun write_targets :: "pynode \<Rightarrow> pynode list" where
  "write_targets (PyAssign ts v l) = ts"
| "write_targets (PyAnnAssign t a v l) = [t]"
| "write_targets (PyAugAssign t v l) = [t]"
| "write_targets (PyDelete ts l) = ts"
| "write_targets n = []"

fun bare_element :: "(string \<Rightarrow> string list option) \<Rightarrow> bool \<Rightarrow> pynode \<Rightarrow> bool" where
  "bare_element mg inside (PyName i l) = (inside \<and> mg i \<noteq> None)"
| "bare_element mg inside (PySubscript v s l) = bare_element mg True v"
| "bare_element mg inside (PyStarred v l) = bare_element mg inside v"
| "bare_element mg inside (PySequence es l) = list_ex (bare_element mg inside) es"
| "bare_element mg inside n = False"

definition writes_bare_element :: "(string \<Rightarrow> string list option) \<Rightarrow> pynode \<Rightarrow> bool" where
  "writes_bare_element mg n = list_ex (bare_element mg False) (write_targets n)"

fun is_name :: "pynode \<Rightarrow> bool" where
  "is_name (PyName i l) = True" | "is_name n = False"

lemma name_parts_chain: "name_parts (fold (\<lambda>a n. PyAttribute n a l) as n) = map_option (\<lambda>ps. ps @ as) (name_parts n)"
  by (induction as arbitrary: n) (auto simp: option.map_comp comp_def option.map_ident)

lemma name_parts_dotted: "ps \<noteq> [] \<Longrightarrow> name_parts (dotted ps l) = Some ps"
  by (simp add: dotted_def name_parts_chain)

definition expand_first :: "(string \<Rightarrow> string list option) \<Rightarrow> string list \<Rightarrow> string list" where
  "expand_first mg ps = (case mg (hd ps) of Some qs \<Rightarrow> qs | None \<Rightarrow> [hd ps]) @ tl ps"

lemma name_parts_nonempty: "name_parts n = Some ps \<Longrightarrow> ps \<noteq> []"
  by (induction n arbitrary: ps rule: name_parts.induct) auto

lemma join_nested: "qs \<noteq> [] \<Longrightarrow> py_join sep (py_join sep qs # ps) = py_join sep (qs @ ps)"
proof (induction qs)
  case (Cons q qs)
  then show ?case by (cases qs; cases ps) auto
qed simp

text \<open>An alias table that says what the names mean.\<close>

locale name_meaning =
  fixes al :: aliases and mg :: "string \<Rightarrow> string list option"
  assumes table: "dget al i = map_option (py_join ''.'') (mg i)"
    and paths: "mg i = Some ps \<Longrightarrow> ps \<noteq> []"
begin

lemma name_parts_canon: "name_parts (canon mg False n) = map_option (expand_first mg) (name_parts n)"
proof (induction n rule: name_parts.induct)
  case (1 i l)
  then show ?case by (simp add: expand_first_def name_parts_dotted paths split: option.splits)
next
  case (2 v a l)
  then show ?case using name_parts_nonempty [of v] by (cases "name_parts v") (auto simp: expand_first_def split: option.split)
qed simp_all

lemma resolve_canon: "resolve_name [] (canon mg False n) = resolve_name al n"
proof (cases "name_parts n")
  case (Some ps)
  then obtain p qs where ps: "ps = p # qs" using name_parts_nonempty [OF Some] by (cases ps) auto
  have "expand_first mg ps \<noteq> []" using paths [of "hd ps"] by (auto simp: expand_first_def split: option.splits)
  then obtain r rs where e: "expand_first mg ps = r # rs" by (cases "expand_first mg ps") auto
  have "py_join ''.'' (expand_first mg ps) = py_join ''.'' ((case dget al p of Some q \<Rightarrow> q | None \<Rightarrow> p) # qs)"
    using paths [of p] by (auto simp: ps expand_first_def table join_nested split: option.split)
  then show ?thesis using e unfolding ps by (simp add: resolve_name_def name_parts_canon Some ps)
qed (simp add: resolve_name_def name_parts_canon)

lemma write_canon: "security_write [] (canon mg False n) = security_write al n"
  by (simp add: security_write_def resolve_canon)

end

lemma chain_shape: "\<not> is_constant (fold (\<lambda>a n. PyAttribute n a l) as (PyName i l))" "\<not> is_text (fold (\<lambda>a n. PyAttribute n a l) as (PyName i l))"
    "\<not> is_environ (fold (\<lambda>a n. PyAttribute n a l) as (PyName i l))"
  by (induction as rule: rev_induct) simp_all

lemmas dotted_shape = chain_shape [where as = "tl ps" and i = "hd ps" for ps, folded dotted_def]

lemma constant_canon [simp]: "is_constant (canon mg w n) = is_constant n" "is_text (canon mg w n) = is_text n" "is_environ (canon mg w n) = is_environ n"
  by (cases n; simp add: dotted_shape split: option.split)+

lemma targets_canon: "\<not> bare_element mg (\<not> w) n \<Longrightarrow> outermost_attributes (canon mg w n) = map (canon mg False) (outermost_attributes n)"
proof (induction n arbitrary: w rule: outermost_attributes.induct)
  case (4 es l)
  then show ?case by (auto simp: map_concat comp_def list_ex_iff cong: map_cong)
qed (auto split: option.splits)

lemma literals_canon: "list_ex (\<lambda>v. \<not> is_constant v) (map (canon mg False) args @ map (canon mg False) kws) = list_ex (\<lambda>v. \<not> is_constant v) (args @ kws)"
  by (simp add: list_ex_iff bex_Un)

context name_meaning
begin

lemma call_canon: "check_call loc [] (canon mg False f) (map (canon mg False) args) (map (canon mg False) kws) l = check_call loc al f args kws l"
proof (cases "resolve_name al f")
  case None
  then show ?thesis by (simp add: check_call_def resolve_canon)
next
  case (Some r)
  show ?thesis
  proof (cases args rule: remdups_adj.cases)
    case 1
    show ?thesis unfolding check_call_def resolve_canon literals_canon Some by (simp add: 1)
  next
    case (2 x)
    show ?thesis unfolding check_call_def resolve_canon literals_canon Some by (simp add: 2 write_canon)
  next
    case (3 x y zs)
    show ?thesis unfolding check_call_def resolve_canon literals_canon Some by (simp add: 3 write_canon resolve_canon)
  qed
qed

lemma write_targets_canon:
  assumes "list_all (\<lambda>t. \<not> bare_element mg False t) ts"
  shows "check_write_targets loc [] verb (map (canon mg True) ts) l = check_write_targets loc al verb ts l"
proof -
  have "map outermost_attributes (map (canon mg True) ts) = map (map (canon mg False)) (map outermost_attributes ts)"
    using assms targets_canon [of mg True] by (auto simp: list_all_iff)
  then have "concat (map outermost_attributes (map (canon mg True) ts)) = map (canon mg False) (concat (map outermost_attributes ts))"
    by (simp only: map_concat)
  then show ?thesis by (simp add: check_write_targets_def filter_map comp_def write_canon)
qed

lemma flags_canon: "\<not> is_name n \<Longrightarrow> \<not> writes_bare_element mg n \<Longrightarrow> flags_of loc [] (canon mg w n) = flags_of loc al n"
proof -
  have "list_all (\<lambda>t. \<not> bare_element mg False t) (write_targets n)" if "\<not> writes_bare_element mg n"
    using that by (simp add: writes_bare_element_def list_all_iff list_ex_iff)
  then show "\<not> is_name n \<Longrightarrow> \<not> writes_bare_element mg n \<Longrightarrow> ?thesis"
    using write_targets_canon [where ts = "[t]" for t, simplified]
    by (cases n) (simp_all add: call_canon write_targets_canon resolve_canon [of "PyAttribute v a l" for v a l, simplified])
qed

end

lemma children_canon: "\<not> is_name n \<Longrightarrow> c \<in> set (children (canon mg w n)) \<Longrightarrow> \<exists>m \<in> set (children n). \<exists>w. c = canon mg w m"
  by (cases n) (auto split: option.splits)

lemma chain_nodes: "m \<in> set (preorder (fold (\<lambda>a n. PyAttribute n a l) as (PyName i l)))
    \<Longrightarrow> \<exists>bs cs. as = bs @ cs \<and> m = fold (\<lambda>a n. PyAttribute n a l) bs (PyName i l)"
proof (induction as rule: rev_induct)
  case Nil
  then show ?case by (simp add: preorder.simps)
next
  case (snoc a as)
  let ?chain = "\<lambda>as. fold (\<lambda>a n. PyAttribute n a l) as (PyName i l)"
  consider "m = ?chain (as @ [a])" | "m \<in> set (preorder (?chain as))"
    using snoc.prems by (auto simp: preorder.simps [of "PyAttribute v b l" for v b])
  then show ?case
  proof cases
    case 1
    then show ?thesis by (intro exI [of _ "as @ [a]"] exI [of _ "[]"]) simp
  next
    case 2
    then obtain bs cs where "as = bs @ cs" "m = ?chain bs" using snoc.IH by blast
    then show ?thesis by (intro exI [of _ bs] exI [of _ "cs @ [a]"]) simp
  qed
qed

lemma py_join_append: "xs \<noteq> [] \<Longrightarrow> ys \<noteq> [] \<Longrightarrow> py_join sep (xs @ ys) = py_join sep xs @ sep @ py_join sep ys"
proof (induction xs)
  case (Cons x xs)
  then show ?case by (cases xs; cases ys) auto
qed simp

text \<open>Nothing can be imported from below \<open>os.environ\<close>, which is no module.\<close>

definition importable :: "pynode list \<Rightarrow> bool" where
  "importable imps = list_all (\<lambda>(_, ps). \<not> startswith ''os.environ.'' (py_join ''.'' ps)) (concat (map bindings imps))"

lemma importable_get: "importable imps \<Longrightarrow> meaning imps i = Some ps \<Longrightarrow> \<not> startswith ''os.environ.'' (py_join ''.'' ps)"
  unfolding importable_def meaning_def list_all_iff by (drule map_of_SomeD) auto

lemma critical_chain:
  assumes "has_critical (flags_of loc [] (fold (\<lambda>a n. PyAttribute n a l) bs (PyName i l)))"
  shows "py_join ''.'' (i # bs) = ''os.environ''"
proof (cases bs rule: rev_cases)
  case Nil
  then show ?thesis using assms by (simp add: has_critical_def)
next
  case (snoc cs c)
  have "name_parts (fold (\<lambda>a n. PyAttribute n a l) bs (PyName i l)) = Some (i # bs)" by (simp add: name_parts_chain)
  then have "resolve_name [] (fold (\<lambda>a n. PyAttribute n a l) bs (PyName i l)) = Some (py_join ''.'' (i # bs))" by (simp add: resolve_name_def)
  then show ?thesis using assms by (simp add: snoc has_critical_def split: if_splits)
qed

lemma critical_name:
  assumes m: "m \<in> set (preorder (canon mg w (PyName i l)))" and bad: "has_critical (flags_of loc [] m)"
    and below: "\<And>ps. mg i = Some ps \<Longrightarrow> ps \<noteq> [] \<and> \<not> startswith ''os.environ.'' (py_join ''.'' ps)"
  shows "\<exists>ps. mg i = Some ps \<and> py_join ''.'' ps = ''os.environ''"
proof (cases "mg i = None \<or> w")
  case True
  then have "m = PyName i l" using m by (cases "mg i") auto
  then show ?thesis using bad by (simp add: has_critical_def)
next
  case False
  then obtain ps where ps: "mg i = Some ps" "ps \<noteq> []" using below by auto
  from m ps False obtain bs cs where m': "tl ps = bs @ cs" "m = fold (\<lambda>a n. PyAttribute n a l) bs (PyName (hd ps) l)"
    using chain_nodes [of m l "tl ps" "hd ps"] by (auto simp: dotted_def)
  have front: "py_join ''.'' (hd ps # bs) = ''os.environ''" using critical_chain bad m'(2) by simp
  have whole: "ps = hd ps # bs @ cs" unfolding m'(1) [symmetric] using ps(2) by simp
  show ?thesis
  proof (cases "cs = []")
    case True
    then have "py_join ''.'' ps = ''os.environ''" using front whole by (metis append_Nil2)
    then show ?thesis using ps(1) by blast
  next
    case False
    then have "py_join ''.'' ps = ''os.environ'' @ ''.'' @ py_join ''.'' cs"
      using front py_join_append [of "hd ps # bs" cs "''.''"] by (subst whole) simp
    then have "startswith ''os.environ.'' (py_join ''.'' ps)" by (simp add: startswith_def)
    then show ?thesis using below [OF ps(1)] by simp
  qed
qed

text \<open>A node of the canonical code comes from a name, or is the canonical form of a node.\<close>

lemma canon_nodes:
  "m \<in> set (preorder (canon mg w n)) \<Longrightarrow> \<exists>k \<in> set (preorder n). \<exists>w. if is_name k then m \<in> set (preorder (canon mg w k)) else m = canon mg w k"
proof (induction n arbitrary: w rule: preorder.induct)
  case (1 n)
  show ?case
  proof (cases "is_name n \<or> m = canon mg w n")
    case True
    then show ?thesis using 1(2) by (auto simp: preorder.simps [of n])
  next
    case False
    then obtain c where "c \<in> set (children (canon mg w n))" "m \<in> set (preorder c)"
      using 1(2) by (auto simp: preorder.simps [of "canon mg w n"])
    then obtain k w' where "k \<in> set (children n)" "m \<in> set (preorder (canon mg w' k))" using children_canon [of n c mg w] False by blast
    moreover from this have "set (preorder k) \<subseteq> set (preorder n)" by (auto simp: preorder.simps [of n])
    ultimately show ?thesis using 1(1) [of k w'] by blast
  qed
qed

context name_meaning
begin

lemma canon_critical:
  assumes m: "m \<in> set (preorder (canon mg w n))" and bad: "has_critical (flags_of loc [] m)"
    and below: "\<And>i ps. mg i = Some ps \<Longrightarrow> \<not> startswith ''os.environ.'' (py_join ''.'' ps)"
    and bare: "list_all (\<lambda>k. \<not> writes_bare_element mg k) (preorder n)"
  shows "\<exists>k \<in> set (preorder n). has_critical (flags_of loc al k)"
proof -
  from canon_nodes [OF m] obtain k w' where k: "k \<in> set (preorder n)" "if is_name k then m \<in> set (preorder (canon mg w' k)) else m = canon mg w' k"
    by blast
  have "has_critical (flags_of loc al k)"
  proof (cases "is_name k")
    case True
    then obtain i l where i: "k = PyName i l" by (cases k) auto
    then obtain ps where "mg i = Some ps" "py_join ''.'' ps = ''os.environ''"
      using k(2) critical_name [of m mg w' i l loc, OF _ bad] paths below by auto
    then show ?thesis using i by (simp add: table flag_at_def has_critical_def)
  next
    case False
    then show ?thesis using k bad flags_canon [of k] bare by (simp add: list_all_iff)
  qed
  then show ?thesis using k(1) by blast
qed

end

text \<open>The table the scanner builds from plain imports is such a table.\<close>

interpretation imported: name_meaning "fold bind_names (filter plain_import imps) []" "meaning (filter plain_import imps)" for imps
  by unfold_locales (rule aliases_meaning, simp add: list_all_iff, rule meaning_nonempty)

lemma chain_no_import: "\<not> is_import (fold (\<lambda>a n. PyAttribute n a l) as (PyName i l))"
  by (induction as rule: rev_induct) simp_all

lemma canon_no_import:
  assumes "list_all (\<lambda>m. \<not> is_import m) (preorder n)"
  shows "list_all (\<lambda>m. \<not> is_import m) (preorder (canon mg w n))"
  unfolding list_all_iff
proof
  fix m assume "m \<in> set (preorder (canon mg w n))"
  from canon_nodes [OF this] obtain k w' where k: "k \<in> set (preorder n)" "if is_name k then m \<in> set (preorder (canon mg w' k)) else m = canon mg w' k"
    by blast
  have "\<not> is_import k" using assms k(1) by (simp add: list_all_iff)
  show "\<not> is_import m"
  proof (cases k)
    case (PyName i l)
    show ?thesis
    proof (cases "mg i = None \<or> w'")
      case True
      then show ?thesis using k(2) PyName by (cases "mg i") auto
    next
      case False
      then obtain ps where "m \<in> set (preorder (dotted ps l))" using k(2) PyName by auto
      then show ?thesis unfolding dotted_def using chain_nodes [of m l] chain_no_import by blast
    qed
  qed (use k(2) \<open>\<not> is_import k\<close> in auto)
qed

lemma import_nodes: "list_all is_import ns \<Longrightarrow> concat (map preorder ns) = ns"
proof (induction ns)
  case (Cons n ns)
  then show ?case by (cases n) auto
qed simp

lemma list_all_concat_map: "list_all P (concat (map f ns)) = list_all (\<lambda>n. list_all P (f n)) ns"
  by (induction ns) auto

text \<open>
  C17: the names a module chooses in its imports hide nothing. Take a module that begins with its imports and imports nothing later;
  the imports are absolute, name what they bind (no star), and name modules and their members (nothing lies below
  os.environ, which is no module). Take the same code with every imported name written out as the path it stands for by the
  meaning of the import statements, the last binding of a name counting. If no element of an object that is itself an
  imported name is written, and the code that names everything openly is rejected, so is the module with its aliases.
  The excluded forms do hide findings: star imports, imports after a use, and writes to such elements.
\<close>

theorem aliases_hide_nothing:
  assumes first: "list_all plain_import imps" and body: "list_all (\<lambda>n. list_all (\<lambda>m. \<not> is_import m) (preorder n)) body"
    and modules: "importable imps"
    and bare: "list_all (\<lambda>n. list_all (\<lambda>m. \<not> writes_bare_element (meaning imps) m) (preorder n)) body"
    and aliased: "parse aliased = Inr (PyOther (imps @ body))"
    and openly: "parse plainly = Inr (PyOther (map (canon (meaning imps) False) body))"
    and rejected: "has_critical (scan_source parse plainly loc)"
  shows "has_critical (scan_source parse aliased loc)"
proof -
  let ?al = "fold bind_names imps []" and ?open = "map (canon (meaning imps) False) body"
  have all: "filter plain_import imps = imps" using first by (simp add: list_all_iff filter_id_conv)
  have tops: "list_all is_import imps" using first unfolding list_all_iff by (metis is_import.simps(1,2) plain_import.elims(2))
  have outside: "list_all (\<lambda>m. \<not> is_import m) (concat (map preorder body))" using body by (simp add: list_all_concat_map)
  have outside': "list_all (\<lambda>m. \<not> is_import m) (concat (map preorder ?open))"
    unfolding list_all_concat_map using body canon_no_import by (auto simp: list_all_iff)
  have scanned: "scan_source parse aliased loc = flags_along loc [] imps @ concat (map (flags_of loc ?al) (concat (map preorder body)))"
    by (simp add: scan_source_def aliased visited_flags preorder.simps [of "PyOther ns" for ns] import_nodes [OF tops] flags_along_append flags_along_fixed [OF outside])
  have "scan_source parse plainly loc = concat (map (flags_of loc []) (concat (map preorder ?open)))"
    by (simp add: scan_source_def openly visited_flags preorder.simps [of "PyOther ns" for ns] flags_along_fixed [OF outside'] del: map_map)
  then obtain n m where n: "n \<in> set body" "m \<in> set (preorder (canon (meaning imps) False n))" "has_critical (flags_of loc [] m)"
    using rejected by (auto simp: critical_concat simp del: map_map)
  then have "\<exists>k \<in> set (preorder n). has_critical (flags_of loc ?al k)"
    using bare by (intro imported.canon_critical [where imps = imps, unfolded all, OF n(2,3) importable_get [OF modules]]) (auto simp: list_all_iff)
  then show ?thesis using n(1) by (auto simp: scanned critical_concat)
qed

section \<open>Examples\<close>

text \<open>A module under two spellings; the function defined in it runs a process.\<close>

definition spawn_imports :: "pynode list" where
  "spawn_imports = [PyImportFrom (Some ''subprocess'') [(''run'', Some ''r'')] 1]"

definition spawn_body :: "pynode list" where
  "spawn_body = [PyOther [PyCall (PyName ''r'' 3) [PyConstant (Some ''ls'') 3] [] 3]]"

definition spawn_parse :: "string \<Rightarrow> (string \<times> int) + pynode" where
  "spawn_parse source = Inr (PyOther (if source = ''aliased'' then spawn_imports @ spawn_body
     else map (canon (meaning spawn_imports) False) spawn_body))"

lemmas scan_eval = scan_source_def visit.simps visitor_init_def enter_def has_critical_def flag_at_def check_call_def resolve_name_def
  security_write_def security_namespace_def check_write_targets_def bind_import_def bind_from_def first_part_def last_part_def
  dynamic_builtins_def subprocess_calls_def os_shell_calls_def network_flag_def network_modules_def startswith_def

theorem aliases_hide_nothing_witness: "has_critical (scan_source spawn_parse ''aliased'' ''p.py'')"
proof (rule aliases_hide_nothing [where imps = spawn_imports and body = spawn_body and plainly = "''openly''"])
  have r: "meaning spawn_imports i = (if i = ''r'' then Some [''subprocess'', ''run''] else None)" for i
    by (simp add: meaning_def spawn_imports_def)
  show "list_all plain_import spawn_imports" by (simp add: spawn_imports_def)
  show "list_all (\<lambda>n. list_all (\<lambda>m. \<not> is_import m) (preorder n)) spawn_body" by (simp add: spawn_body_def preorder.simps)
  show "importable spawn_imports" by (simp add: spawn_imports_def importable_def startswith_def)
  show "list_all (\<lambda>n. list_all (\<lambda>m. \<not> writes_bare_element (meaning spawn_imports) m) (preorder n)) spawn_body"
    by (simp add: spawn_body_def preorder.simps writes_bare_element_def)
  show "spawn_parse ''aliased'' = Inr (PyOther (spawn_imports @ spawn_body))" by (simp add: spawn_parse_def)
  show "spawn_parse ''openly'' = Inr (PyOther (map (canon (meaning spawn_imports) False) spawn_body))" by (simp add: spawn_parse_def)
  show "has_critical (scan_source spawn_parse ''openly'' ''p.py'')"
    by (simp add: spawn_parse_def spawn_body_def r scan_eval dotted_def)
qed

text \<open>
  Three forms the scanner does not see: a use that stands before the import it refers to, as in a function defined above it;
  a name brought in by a star; and an element assigned in an object imported from the security package, although
  the same assignment through the path of the object is reported.
\<close>

lemma late_import_hides:
  "\<not> has_critical (scan_source (\<lambda>_. Inr (PyOther [PyOther [PyCall (PyAttribute (PyName ''o'' 2) ''system'' 2) [PyConstant (Some ''ls'') 2] [] 2],
      PyImport [(''os'', Some ''o'')] 4])) s loc)"
  by (simp add: scan_eval)

lemma star_import_hides:
  "\<not> has_critical (scan_source (\<lambda>_. Inr (PyOther [PyImportFrom (Some ''os'') [(''*'', None)] 1,
      PyOther [PyCall (PyName ''system'' 2) [PyConstant (Some ''ls'') 2] [] 2]])) s loc)"
  by (simp add: scan_eval)

lemma imported_element_write_hides:
  "\<not> has_critical (scan_source (\<lambda>_. Inr (PyOther [PyImportFrom (Some ''kinetic_sdk.security'') [(''RULES'', None)] 1,
      PyAssign [PySubscript (PyName ''RULES'' 2) (PyConstant (Some ''shell'') 2) 2] (PyConstant None 2) 2])) s loc)"
  "has_critical (scan_source (\<lambda>_. Inr (PyOther [PyImport [(''kinetic_sdk.security'', None)] 1,
      PyAssign [PySubscript (PyAttribute (PyAttribute (PyName ''kinetic_sdk'' 2) ''security'' 2) ''RULES'' 2) (PyConstant (Some ''shell'') 2) 2]
        (PyConstant None 2) 2])) s loc)"
  by (simp_all add: scan_eval)

end
