(* ===== verification/Plugin_Loading.thy ===== *)
theory Plugin_Loading
  imports Plugin_Scanner
begin

text \<open>
  Plugins (\<open>plugin/manifest.py\<close>, \<open>discovery.py\<close>, \<open>scanner.py\<close> from \<open>_find_spec_no_import\<close> on, \<open>loader.py\<close>, \<open>registry.py\<close>): manifests and
  their checks, discovery in both sources, the files that are scanned, the loader and the registry. The file system is the one
  of the workspace, read off the world; importing a module, executing a file, calling a factory and the path finder are
  functions of the host on the world, since they run the plugin. A frozen set is a sorted list without repetitions.
\<close>

section \<open>Manifests\<close>

record plugin_manifest =
  pm_name :: string
  pm_version :: "string option"
  pm_entry :: string
  pm_source :: string
  pm_capabilities :: "string list"
  pm_directory :: "path option"
  pm_isolation :: string
  pm_network :: "string option"
  pm_memory :: string
  pm_cpu :: rat
  pm_pids :: int

definition manifest_error :: "string \<Rightarrow> 'a result" where
  "manifest_error m = Inl (Exn ''PluginManifestError'' m)"

definition known_capabilities :: "string list" where
  "known_capabilities = [''agent'', ''command'', ''hook'', ''mcp'', ''skill'', ''tool'']"

text \<open>
  \<open>^[A-Za-z_]\\w*(\\.[A-Za-z_]\\w*)*:[A-Za-z_]\\w*$\<close>: whether the colon was read, and whether a name has begun; the dollar sign
  also matches before a final line feed.
\<close>

fun entry_match :: "bool \<Rightarrow> bool \<Rightarrow> string \<Rightarrow> bool" where
  "entry_match colon inside [] = (colon \<and> inside)"
| "entry_match colon inside (c # cs) =
     (if \<not> inside then key_start c \<and> entry_match colon True cs
      else if is_word c then entry_match colon True cs
      else if \<not> colon \<and> c = CHR ''.'' then entry_match False False cs
      else if \<not> colon \<and> c = CHR '':'' then entry_match True False cs
      else colon \<and> c = LF \<and> cs = [])"

definition frozen :: "string list \<Rightarrow> string list" where
  "frozen xs = sort (remdups xs)"

definition strs :: "string list \<Rightarrow> string" where
  "strs xs = py_repr (JArr (map JStr xs))"

definition make_manifest :: "fsys \<Rightarrow> plugin_manifest \<Rightarrow> plugin_manifest result" where
  "make_manifest fs pm =
     (let who = ''plugin '' @ repr_str (pm_name pm) @ '': ''; caps = frozen (pm_capabilities pm);
          unknown = filter (\<lambda>x. x \<notin> set known_capabilities) caps in
      if \<not> skill_name_ok (pm_name pm)
      then manifest_error (''invalid plugin name '' @ repr_str (pm_name pm) @ '': must match '' @ repr_str ''^[a-z0-9]+(-[a-z0-9]+)*$'' @ '' and be <= 64 chars'')
      else if (case pm_version pm of Some v \<Rightarrow> is_blank v | None \<Rightarrow> False)
      then manifest_error (who @ ''version must be a non-empty string or None'')
      else if \<not> entry_match False False (pm_entry pm)
      then manifest_error (who @ ''invalid entry_point '' @ repr_str (pm_entry pm) @ '' (expected '' @ repr_str ''module.submodule:factory_function'' @ '')'')
      else if pm_source pm \<notin> {''entry_point'', ''directory''}
      then manifest_error (who @ ''invalid source '' @ repr_str (pm_source pm) @ '' (expected '' @ repr_str ''entry_point'' @ '' or '' @ repr_str ''directory'' @ '')'')
      else if pm_isolation pm \<notin> {''in-process'', ''docker''}
      then manifest_error (who @ ''isolation must be '' @ repr_str ''in-process'' @ '' or '' @ repr_str ''docker'')
      else if pm_isolation pm = ''docker'' \<and> pm_source pm \<noteq> ''directory''
      then manifest_error (who @ ''docker isolation requires a directory plugin'')
      else if is_blank (pm_memory pm) \<or> pm_cpu pm \<le> 0 \<or> pm_pids pm \<le> 0
      then manifest_error (who @ ''docker resource limits must be positive'')
      else if caps = [] then manifest_error (who @ ''declared_capabilities must be non-empty'')
      else if unknown \<noteq> [] then manifest_error (who @ ''unknown capabilities '' @ strs unknown @ '' (known: '' @ strs known_capabilities @ '')'')
      else if pm_source pm = ''directory''
      then (case pm_directory pm of
              None \<Rightarrow> manifest_error (who @ ''source '' @ repr_str ''directory'' @ '' requires a directory path'')
            | Some d \<Rightarrow> Inr (pm\<lparr>pm_capabilities := caps, pm_directory := Some (fst (real_comps fs [] d))\<rparr>))
      else if pm_directory pm \<noteq> None then manifest_error (who @ ''directory must be None for entry-point plugins'')
      else Inr (pm\<lparr>pm_capabilities := caps\<rparr>))"

definition module_spec :: "plugin_manifest \<Rightarrow> string" where
  "module_spec pm = takeWhile (\<lambda>c. c \<noteq> CHR '':'') (pm_entry pm)"

definition factory_name :: "plugin_manifest \<Rightarrow> string" where
  "factory_name pm = drop 1 (dropWhile (\<lambda>c. c \<noteq> CHR '':'') (pm_entry pm))"

text \<open>The conversions of \<open>float\<close> and \<open>int\<close> are arguments; they fail with a \<open>ValueError\<close>.\<close>

definition convert :: "string \<Rightarrow> (string \<Rightarrow> 'a option) \<Rightarrow> string \<Rightarrow> 'a result" where
  "convert what conv s = (case conv s of Some x \<Rightarrow> Inr x | None \<Rightarrow> Inl (Exn ''ValueError'' (what @ repr_str s)))"

definition field_or :: "(string, string) dict \<Rightarrow> string \<Rightarrow> string \<Rightarrow> string" where
  "field_or fm k d = (case dget fm k of Some v \<Rightarrow> v | None \<Rightarrow> d)"

definition plugin_of_fields :: "(string \<Rightarrow> rat option) \<Rightarrow> (string \<Rightarrow> int option) \<Rightarrow> fsys \<Rightarrow> path \<Rightarrow> (string, string) dict \<Rightarrow> plugin_manifest result" where
  "plugin_of_fields to_float to_int fs directory fm =
     (let plugin_md = directory @ [''PLUGIN.md'']; name = field fm ''name''; entry = field fm ''entry_point''; network = field_or fm ''network'' ''none'' in
      if name \<noteq> basename directory
      then manifest_error (path_str plugin_md @ '': frontmatter name '' @ repr_str name @ '' does not match directory name '' @ repr_str (basename directory))
      else if entry = [] then manifest_error (path_str plugin_md @ '': missing required '' @ repr_str ''entry_point'' @ '' key'')
      else bind_res (convert ''could not convert string to float: '' to_float (field_or fm ''cpu_limit'' ''1.0'')) (\<lambda>cpu.
           bind_res (convert ''invalid literal for int() with base 10: '' to_int (field_or fm ''pids_limit'' ''128'')) (\<lambda>pids.
           make_manifest fs \<lparr>pm_name = name, pm_version = (if field fm ''version'' = [] then None else Some (field fm ''version'')),
             pm_entry = entry, pm_source = ''directory'',
             pm_capabilities = filter (\<lambda>x. x \<noteq> []) (map py_strip (split_comma [] (field_or fm ''capabilities'' ''tool''))),
             pm_directory = Some directory, pm_isolation = field_or fm ''isolation'' ''in-process'',
             pm_network = (if network = ''host'' then None else Some network), pm_memory = field_or fm ''memory_limit'' ''512m'',
             pm_cpu = cpu, pm_pids = pids\<rparr>)))"

definition plugin_from_directory :: "(string \<Rightarrow> rat option) \<Rightarrow> (string \<Rightarrow> int option) \<Rightarrow> fsys \<Rightarrow> path \<Rightarrow> plugin_manifest result" where
  "plugin_from_directory to_float to_int fs folder =
     (let directory = fst (real_comps fs [] folder); plugin_md = directory @ [''PLUGIN.md''] in
      if \<not> is_file fs plugin_md then manifest_error (path_str directory @ '': missing required PLUGIN.md'')
      else bind_res (os_read fs plugin_md) (\<lambda>content.
        case split_frontmatter content (path_str plugin_md) of
          Inl e \<Rightarrow> manifest_error (exn_msg e) | Inr (fm, body) \<Rightarrow> plugin_of_fields to_float to_int fs directory fm))"

definition plugin_from_entry_point :: "fsys \<Rightarrow> string \<Rightarrow> string \<Rightarrow> string option \<Rightarrow> plugin_manifest result" where
  "plugin_from_entry_point fs name val version = make_manifest fs \<lparr>pm_name = name, pm_version = version, pm_entry = val, pm_source = ''entry_point'',
     pm_capabilities = [''tool''], pm_directory = None, pm_isolation = ''in-process'', pm_network = Some ''none'', pm_memory = ''512m'', pm_cpu = 1, pm_pids = 128\<rparr>"

section \<open>Discovery\<close>

type_synonym entry_points = "(string \<times> string \<times> string option) list"

fun discover_entry_points :: "fsys \<Rightarrow> entry_points \<Rightarrow> plugin_manifest list result" where
  "discover_entry_points fs [] = Inr []"
| "discover_entry_points fs ((name, val, version) # eps) = bind_res (plugin_from_entry_point fs name val version) (\<lambda>pm.
     bind_res (discover_entry_points fs eps) (\<lambda>pms. Inr (pm # pms)))"

fun discover_folders :: "(string \<Rightarrow> rat option) \<Rightarrow> (string \<Rightarrow> int option) \<Rightarrow> fsys \<Rightarrow> path \<Rightarrow> string list \<Rightarrow> plugin_manifest list result" where
  "discover_folders to_float to_int fs base [] = Inr []"
| "discover_folders to_float to_int fs base (e # es) = (let folder = base @ [e] in
     if \<not> is_folder fs folder \<or> \<not> is_file fs (folder @ [''PLUGIN.md'']) then discover_folders to_float to_int fs base es
     else case plugin_from_directory to_float to_int fs folder of
       Inr pm \<Rightarrow> bind_res (discover_folders to_float to_int fs base es) (\<lambda>pms. Inr (pm # pms))
     | Inl x \<Rightarrow> if exn_class x = ''PluginManifestError'' then discover_folders to_float to_int fs base es else Inl x)"

definition discover_directory_plugins :: "(string \<Rightarrow> rat option) \<Rightarrow> (string \<Rightarrow> int option) \<Rightarrow> fsys \<Rightarrow> path \<Rightarrow> plugin_manifest list result" where
  "discover_directory_plugins to_float to_int fs folder = (let base = fst (real_comps fs [] folder) in
     if \<not> is_folder fs base then Inr [] else discover_folders to_float to_int fs base (entries fs base))"

fun check_duplicates :: "plugin_manifest list \<Rightarrow> (string, plugin_manifest) dict \<Rightarrow> unit result" where
  "check_duplicates [] seen = Inr ()"
| "check_duplicates (pm # pms) seen = (case dget seen (pm_name pm) of
     Some previous \<Rightarrow> manifest_error (''plugin name '' @ repr_str (pm_name pm) @ '' is claimed by both '' @ repr_str (pm_source previous) @ '' and ''
        @ repr_str (pm_source pm) @ '' discovery'' @ dash @ ''rename one of them; refusing to pick a winner silently'')
   | None \<Rightarrow> check_duplicates pms (dset seen (pm_name pm) pm))"

record plugin_registry =
  rg_directory :: "path option"
  rg_entry_points :: entry_points
  rg_reserved :: "string list"
  rg_float :: "string \<Rightarrow> rat option"
  rg_int :: "string \<Rightarrow> int option"

definition discover_plugins :: "plugin_registry \<Rightarrow> fsys \<Rightarrow> plugin_manifest list result" where
  "discover_plugins rg fs =
     bind_res (discover_entry_points fs (rg_entry_points rg)) (\<lambda>eps.
     bind_res (case rg_directory rg of None \<Rightarrow> Inr [] | Some d \<Rightarrow> discover_directory_plugins (rg_float rg) (rg_int rg) fs d) (\<lambda>dirs.
     bind_res (check_duplicates (eps @ dirs) []) (\<lambda>_. Inr (eps @ dirs))))"

section \<open>The files that are scanned\<close>

type_synonym module_origin = "path option \<times> path list option"

fun walk_spec :: "(string \<Rightarrow> path list option \<Rightarrow> module_origin option) \<Rightarrow> string \<Rightarrow> string list \<Rightarrow> module_origin option \<Rightarrow> module_origin option" where
  "walk_spec finder sofar [] spec = spec"
| "walk_spec finder sofar (part # parts) spec = (case spec of
     Some (_, Some locations) \<Rightarrow> walk_spec finder (sofar @ ''.'' @ part) parts (finder (sofar @ ''.'' @ part) (Some locations))
   | _ \<Rightarrow> None)"

definition find_spec_no_import :: "(string \<Rightarrow> path list option \<Rightarrow> module_origin option) \<Rightarrow> string \<Rightarrow> module_origin option" where
  "find_spec_no_import finder name = (case split_on CHR ''.'' name of
     [] \<Rightarrow> None | part # parts \<Rightarrow> walk_spec finder part parts (finder part None))"

definition plugin_load_error :: "plugin_manifest \<Rightarrow> string \<Rightarrow> exn" where
  "plugin_load_error pm m = Exn ''PluginLoadError'' (''plugin '' @ repr_str (pm_name pm) @ '': '' @ m)"

text \<open>\<open>sorted(root.rglob("*.py"))\<close>: every entry below the directory, without following links.\<close>

definition rglob_py :: "fsys \<Rightarrow> path \<Rightarrow> path list" where
  "rglob_py fs base = sort (map fst (filter (\<lambda>(q, _). strict_prefix base q \<and> endswith ''.py'' (last q)) fs))"

definition locate_source_files :: "(string \<Rightarrow> path list option \<Rightarrow> module_origin option) \<Rightarrow> fsys \<Rightarrow> plugin_manifest \<Rightarrow> path list result" where
  "locate_source_files finder fs pm =
     (if pm_source pm = ''directory''
      then (let base = (case pm_directory pm of Some d \<Rightarrow> d | None \<Rightarrow> []); files = rglob_py fs base in
            if files = [] then Inl (plugin_load_error pm (''no Python files found under '' @ path_str base)) else Inr files)
      else let missing = Inl (plugin_load_error pm (''cannot locate module '' @ repr_str (module_spec pm) @ '' on sys.path without importing it'')) in
        case find_spec_no_import finder (module_spec pm) of
          Some (Some origin, _) \<Rightarrow>
            if \<not> is_file fs origin then missing
            else if basename origin = ''__init__.py'' then Inr (rglob_py fs (butlast origin)) else Inr [origin]
        | _ \<Rightarrow> missing)"

record scan_result =
  sr_clean :: bool
  sr_flags :: "vet_flag list"
  sr_files :: "string list"

fun scan_files :: "(string \<Rightarrow> (string \<times> int) + pynode) \<Rightarrow> fsys \<Rightarrow> plugin_manifest \<Rightarrow> path list \<Rightarrow> vet_flag list result" where
  "scan_files parse fs pm [] = Inr []"
| "scan_files parse fs pm (q # qs) = (case os_read fs q of
     Inl e \<Rightarrow> Inl (plugin_load_error pm (''cannot read source file '' @ path_str q @ '': '' @ exn_msg e))
   | Inr source \<Rightarrow> bind_res (scan_files parse fs pm qs) (\<lambda>flags. Inr (scan_source parse source (path_str q) @ flags)))"

definition scan_plugin :: "(string \<Rightarrow> (string \<times> int) + pynode) \<Rightarrow> (string \<Rightarrow> path list option \<Rightarrow> module_origin option) \<Rightarrow> fsys
    \<Rightarrow> plugin_manifest \<Rightarrow> scan_result result" where
  "scan_plugin parse finder fs pm = bind_res (locate_source_files finder fs pm) (\<lambda>files. bind_res (scan_files parse fs pm files) (\<lambda>flags.
     Inr \<lparr>sr_clean = \<not> has_critical flags, sr_flags = flags, sr_files = map path_str files\<rparr>))"

section \<open>The loader\<close>

text \<open>What a factory returns: a manifest, a list of tools and other objects (by the names of their types), or something else.\<close>

datatype 't product = Provided plugin_manifest | Items "(string + 't) list" | Unsuitable string

text \<open>
  The host: \<open>ho_module\<close> makes a module object for a file, whose specification always has a loader; \<open>ho_attach\<close> sets it as an attribute of its
  parent and \<open>ho_exec\<close> is \<open>exec_module\<close> of the loader for source files. That loader runs the bytecode file kept for the source when it accepts it:
  \<open>ho_cache_tag\<close> is the tag of the interpreter in the names of such files (in \<open>__pycache__\<close>, without a cache prefix) and \<open>ho_cache_valid\<close> says which
  are accepted. \<open>ho_stamp\<close> gives the identifier and the time of the audit entry of a number.
\<close>

record ('m, 'f, 't, 'w) plugin_host =
  ho_fs :: "'w \<Rightarrow> fsys"
  ho_parse :: "string \<Rightarrow> (string \<times> int) + pynode"
  ho_finder :: "string \<Rightarrow> path list option \<Rightarrow> module_origin option"
  ho_import :: "string \<Rightarrow> 'w \<Rightarrow> 'm result \<times> 'w"
  ho_module :: "string \<Rightarrow> path \<Rightarrow> 'm"
  ho_attach :: "'m \<Rightarrow> string \<Rightarrow> 'm \<Rightarrow> 'w \<Rightarrow> 'w"
  ho_exec :: "'m \<Rightarrow> path \<Rightarrow> 'w \<Rightarrow> unit result \<times> 'w"
  ho_cache_tag :: string
  ho_cache_valid :: "fsys \<Rightarrow> path \<Rightarrow> path \<Rightarrow> bool"
  ho_factory :: "'m \<Rightarrow> string \<Rightarrow> 'f option"
  ho_call :: "'f \<Rightarrow> 'w \<Rightarrow> 't product result \<times> 'w"
  ho_module_name :: "'m \<Rightarrow> string"
  ho_tool_name :: "'t \<Rightarrow> string"
  ho_scrub :: "string \<Rightarrow> string"
  ho_stamp :: "nat \<Rightarrow> string \<times> string"

text \<open>The loader's part of \<open>sys.modules\<close> and its audit log.\<close>

record ('m, 'w) loading =
  ld_world :: 'w
  ld_modules :: "(string, 'm) dict"
  ld_audit :: "audit_entry list"

definition locate_part :: "fsys \<Rightarrow> plugin_manifest \<Rightarrow> path \<Rightarrow> string \<Rightarrow> bool \<Rightarrow> (path \<times> path) result" where
  "locate_part fs pm current part is_last =
     (if is_file fs (current @ [part, ''__init__.py'']) then Inr (current @ [part, ''__init__.py''], current @ [part])
      else if is_file fs (current @ [part @ ''.py''])
      then if is_last then Inr (current @ [part @ ''.py''], current)
           else Inl (plugin_load_error pm (repr_str part @ '' in '' @ repr_str (module_spec pm) @ '' is a module, not a package''))
      else Inl (plugin_load_error pm (''cannot locate module '' @ repr_str (module_spec pm) @ '' under '' @ path_str (case pm_directory pm of Some d \<Rightarrow> d | None \<Rightarrow> []))))"

fun import_parts :: "('m, 'f, 't, 'w) plugin_host \<Rightarrow> plugin_manifest \<Rightarrow> path \<Rightarrow> string \<Rightarrow> string list \<Rightarrow> 'm option \<Rightarrow> string list \<Rightarrow> 'w \<Rightarrow> (string, 'm) dict
    \<Rightarrow> 'm option result \<times> string list \<times> 'w \<times> (string, 'm) dict" where
  "import_parts ho pm current full [] parent inserted w mods = (Inr parent, inserted, w, mods)"
| "import_parts ho pm current full (part # rest) parent inserted w mods =
     (case locate_part (ho_fs ho w) pm current part (rest = []) of
        Inl e \<Rightarrow> (Inl e, inserted, w, mods)
      | Inr (src, current') \<Rightarrow>
          (let full' = full @ ''.'' @ part; m = ho_module ho full' src; mods' = dset mods full' m; inserted' = inserted @ [full'];
               w1 = (case parent of Some p \<Rightarrow> ho_attach ho p part m w | None \<Rightarrow> w)
           in case ho_exec ho m src w1 of
                (Inl e, w2) \<Rightarrow> (Inl e, inserted', w2, mods')
              | (Inr _, w2) \<Rightarrow> import_parts ho pm current' full' rest (Some m) inserted' w2 mods'))"

definition import_directory_module :: "('m, 'f, 't, 'w) plugin_host \<Rightarrow> plugin_manifest \<Rightarrow> 'w \<Rightarrow> (string, 'm) dict \<Rightarrow> 'm result \<times> 'w \<times> (string, 'm) dict" where
  "import_directory_module ho pm w mods =
     (case import_parts ho pm (case pm_directory pm of Some d \<Rightarrow> d | None \<Rightarrow> [])
             (''kinetic_plugin_'' @ map (\<lambda>c. if c = CHR ''-'' then CHR ''_'' else c) (pm_name pm)) (split_on CHR ''.'' (module_spec pm)) None [] w mods of
        (Inl e, inserted, w', mods') \<Rightarrow> (Inl e, w', fold (\<lambda>n d. dpop d n) inserted mods')
      | (Inr None, inserted, w', mods') \<Rightarrow> (Inl (Exn ''AssertionError'' []), w', mods')
      | (Inr (Some m), inserted, w', mods') \<Rightarrow> (Inr m, w', mods'))"

definition import_module :: "('m, 'f, 't, 'w) plugin_host \<Rightarrow> plugin_manifest \<Rightarrow> 'w \<Rightarrow> (string, 'm) dict \<Rightarrow> 'm result \<times> 'w \<times> (string, 'm) dict" where
  "import_module ho pm w mods = (if pm_source pm = ''directory'' then import_directory_module ho pm w mods
     else case ho_import ho (module_spec pm) w of (r, w') \<Rightarrow> (r, w', mods))"

definition call_factory :: "('m, 'f, 't, 'w) plugin_host \<Rightarrow> plugin_manifest \<Rightarrow> 'm \<Rightarrow> 'w \<Rightarrow> 't product result \<times> 'w" where
  "call_factory ho pm m w = (case ho_factory ho m (factory_name pm) of
     None \<Rightarrow> (Inl (plugin_load_error pm (repr_str (factory_name pm) @ '' is not a callable in module '' @ repr_str (ho_module_name ho m))), w)
   | Some f \<Rightarrow> ho_call ho f w)"

definition build :: "('m, 'f, 't, 'w) plugin_host \<Rightarrow> plugin_manifest \<Rightarrow> 'w \<Rightarrow> (string, 'm) dict \<Rightarrow> 't product result \<times> 'w \<times> (string, 'm) dict" where
  "build ho pm w mods = (case import_module ho pm w mods of
     (Inl e, w1, mods1) \<Rightarrow> (Inl e, w1, mods1)
   | (Inr m, w1, mods1) \<Rightarrow> (case call_factory ho pm m w1 of (r, w2) \<Rightarrow> (r, w2, mods1)))"

text \<open>A manifest from another source is read as one of the same plugin; a manifest from the same source is followed as it is.\<close>

definition adopted :: "fsys \<Rightarrow> plugin_manifest \<Rightarrow> plugin_manifest \<Rightarrow> plugin_manifest result" where
  "adopted fs pm given = (if pm_source given = pm_source pm then Inr given
     else make_manifest fs \<lparr>pm_name = pm_name pm, pm_version = (case pm_version given of Some (c # cs) \<Rightarrow> Some (c # cs) | _ \<Rightarrow> pm_version pm),
       pm_entry = pm_entry given, pm_source = pm_source pm, pm_capabilities = pm_capabilities pm, pm_directory = pm_directory pm,
       pm_isolation = ''in-process'', pm_network = Some ''none'', pm_memory = ''512m'', pm_cpu = 1, pm_pids = 128\<rparr>)"

definition listed_tools :: "plugin_manifest \<Rightarrow> 't product \<Rightarrow> (string + 't) list result" where
  "listed_tools pm x = (case x of
     Items ts \<Rightarrow> Inr ts
   | Provided _ \<Rightarrow> Inl (plugin_load_error pm (''factory '' @ repr_str (pm_entry pm) @ '' returned PluginManifest, expected list[Tool]''))
   | Unsuitable ty \<Rightarrow> Inl (plugin_load_error pm (''factory '' @ repr_str (pm_entry pm) @ '' returned '' @ ty @ '', expected list[Tool]'')))"

definition import_and_build :: "('m, 'f, 't, 'w) plugin_host \<Rightarrow> plugin_manifest \<Rightarrow> 'w \<Rightarrow> (string, 'm) dict
    \<Rightarrow> (string + 't) list result \<times> 'w \<times> (string, 'm) dict" where
  "import_and_build ho pm w mods = (case build ho pm w mods of
     (Inl e, w1, mods1) \<Rightarrow> (Inl e, w1, mods1)
   | (Inr (Provided given), w1, mods1) \<Rightarrow> (case adopted (ho_fs ho w1) pm given of
        Inl e \<Rightarrow> (Inl e, w1, mods1)
      | Inr pm' \<Rightarrow> (case build ho pm' w1 mods1 of (r, w2, mods2) \<Rightarrow> (bind_res r (listed_tools pm), w2, mods2)))
   | (Inr x, w1, mods1) \<Rightarrow> (listed_tools pm x, w1, mods1))"

fun validate_tools :: "plugin_manifest \<Rightarrow> (string + 't) list \<Rightarrow> 't list result" where
  "validate_tools pm [] = Inr []"
| "validate_tools pm (Inl ty # xs) = Inl (plugin_load_error pm (''factory returned a non-Tool object ('' @ ty @ ''); every entry must be a kinetic_sdk.tool.base.Tool''))"
| "validate_tools pm (Inr t # xs) = bind_res (validate_tools pm xs) (\<lambda>ts. Inr (t # ts))"

definition flag_json :: "vet_flag \<Rightarrow> json" where
  "flag_json f = JObj [(''severity'', JStr (case vf_severity f of Critical \<Rightarrow> ''critical'' | Warning \<Rightarrow> ''warning'')), (''category'', JStr (vf_category f)),
     (''message'', JStr (vf_message f)), (''location'', JStr (vf_location f))]"

definition load_fields :: "plugin_manifest \<Rightarrow> scan_result option \<Rightarrow> string \<Rightarrow> string list option \<Rightarrow> string option \<Rightarrow> obj" where
  "load_fields pm result outcome tools error =
     [(''plugin'', JStr (pm_name pm)), (''version'', case pm_version pm of Some v \<Rightarrow> JStr v | None \<Rightarrow> JNull), (''source'', JStr (pm_source pm)),
      (''entry_point'', JStr (pm_entry pm)), (''outcome'', JStr outcome)]
     @ (case result of None \<Rightarrow> [] | Some r \<Rightarrow> [(''scan'', JObj [(''clean'', JBool (sr_clean r)), (''files_scanned'', JArr (map JStr (sr_files r))),
         (''flags'', JArr (map flag_json (sr_flags r)))])])
     @ (case tools of None \<Rightarrow> [] | Some ns \<Rightarrow> [(''tools'', JArr (map JStr ns))])
     @ (case error of None \<Rightarrow> [] | Some e \<Rightarrow> [(''error'', JStr e)])"

definition audit_load :: "('m, 'f, 't, 'w) plugin_host \<Rightarrow> plugin_manifest \<Rightarrow> scan_result option \<Rightarrow> string \<Rightarrow> string list option \<Rightarrow> string option
    \<Rightarrow> ('m, 'w) loading \<Rightarrow> ('m, 'w) loading" where
  "audit_load ho pm result outcome tools error st = (case ho_stamp ho (length (ld_audit st)) of (uid, time) \<Rightarrow>
     st\<lparr>ld_audit := record_in_memory (log_event (ho_scrub ho) uid time ''plugin_load'' (pm_name pm) (load_fields pm result outcome tools error)) (ld_audit st)\<rparr>)"

definition load :: "('m, 'f, 't, 'w) plugin_host \<Rightarrow> plugin_manifest \<Rightarrow> ('m, 'w) loading \<Rightarrow> 't list result \<times> ('m, 'w) loading" where
  "load ho pm st =
     (let unsupported = filter (\<lambda>x. x \<noteq> ''tool'') (pm_capabilities pm);
          error = ''capabilities '' @ strs unsupported @ '' are declared but not supported by this SDK version (only '' @ repr_str ''tool'' @ '' is implemented)'' in
      if unsupported \<noteq> [] then (Inl (plugin_load_error pm error), audit_load ho pm None ''failed'' None (Some error) st)
      else case scan_plugin (ho_parse ho) (ho_finder ho) (ho_fs ho (ld_world st)) pm of
        Inl e \<Rightarrow> (Inl e, st)
      | Inr result \<Rightarrow>
          if \<not> sr_clean result
          then let categories = py_repr (critical_categories (sr_flags result)) in
            (Inl (Exn ''PluginVetError'' (''plugin '' @ repr_str (pm_name pm) @ '' failed static scanning: critical findings in categories '' @ categories
               @ dash @ ''the plugin was NOT imported. (A passing scan is a tripwire result, not a sandbox guarantee.)'')),
             audit_load ho pm (Some result) ''rejected'' None (Some categories) st)
          else case import_and_build ho pm (ld_world st) (ld_modules st) of (r, w, mods) \<Rightarrow>
            (let st1 = st\<lparr>ld_world := w, ld_modules := mods\<rparr> in
             case r of
               Inl e \<Rightarrow> if exn_class e = ''PluginLoadError'' then (Inl e, audit_load ho pm (Some result) ''failed'' None (Some (exn_msg e)) st1)
                 else (Inl (Exn ''PluginLoadError'' (''plugin '' @ repr_str (pm_name pm) @ '' raised during import/factory execution: '' @ exn_text e)),
                       audit_load ho pm (Some result) ''failed'' None (Some (exn_text e)) st1)
             | Inr items \<Rightarrow> (case validate_tools pm items of
                 Inl e \<Rightarrow> (Inl e, st1)
               | Inr ts \<Rightarrow> (Inr ts, audit_load ho pm (Some result) ''loaded'' (Some (map (ho_tool_name ho) ts)) None st1))))"

section \<open>The registry\<close>

fun merge_tools :: "('m, 'f, 't, 'w) plugin_host \<Rightarrow> string list \<Rightarrow> plugin_manifest \<Rightarrow> 't list \<Rightarrow> (string, string) dict \<Rightarrow> 't list
    \<Rightarrow> ((string, string) dict \<times> 't list) result" where
  "merge_tools ho reserved pm [] owners tools = Inr (owners, tools)"
| "merge_tools ho reserved pm (t # ts) owners tools = (let name = ho_tool_name ho t in case dget owners name of
     Some owner \<Rightarrow> Inl (Exn ''PluginLoadError'' (''tool name '' @ repr_str name @ '' is claimed by both plugin '' @ repr_str owner @ '' and plugin ''
        @ repr_str (pm_name pm) @ dash @ ''collisions are rejected, not renamed (see plugin/registry.py docstring)''))
   | None \<Rightarrow> if name \<in> set reserved
       then Inl (Exn ''PluginLoadError'' (''plugin '' @ repr_str (pm_name pm) @ '' declares tool '' @ repr_str name
          @ '' which is reserved by an internal/MCP tool'' @ dash @ ''plugin tools may not shadow existing tools''))
       else merge_tools ho reserved pm ts (dset owners name (pm_name pm)) (tools @ [t]))"

fun load_each :: "('m, 'f, 't, 'w) plugin_host \<Rightarrow> string list \<Rightarrow> string \<Rightarrow> plugin_manifest list \<Rightarrow> (string, string) dict \<Rightarrow> 't list \<Rightarrow> ('m, 'w) loading
    \<Rightarrow> 't list result \<times> ('m, 'w) loading" where
  "load_each ho reserved on_error [] owners tools st = (Inr tools, st)"
| "load_each ho reserved on_error (pm # pms) owners tools st = (case load ho pm st of
     (Inl e, st1) \<Rightarrow> if on_error = ''raise'' then (Inl e, st1) else load_each ho reserved on_error pms owners tools st1
   | (Inr ts, st1) \<Rightarrow> (case merge_tools ho reserved pm ts owners tools of
        Inl e \<Rightarrow> (Inl e, st1) | Inr (owners', tools') \<Rightarrow> load_each ho reserved on_error pms owners' tools' st1))"

definition load_all :: "('m, 'f, 't, 'w) plugin_host \<Rightarrow> plugin_registry \<Rightarrow> string \<Rightarrow> ('m, 'w) loading \<Rightarrow> 't list result \<times> ('m, 'w) loading" where
  "load_all ho rg on_error st =
     (if on_error \<notin> {''raise'', ''skip''}
      then (value_error (''on_error must be '' @ repr_str ''raise'' @ '' or '' @ repr_str ''skip'' @ '', got '' @ repr_str on_error), st)
      else case discover_plugins rg (ho_fs ho (ld_world st)) of
        Inl e \<Rightarrow> (Inl e, st) | Inr pms \<Rightarrow> load_each ho (rg_reserved rg) on_error pms [] [] st)"

section \<open>Manifests that are accepted\<close>

definition manifest_ok :: "plugin_manifest \<Rightarrow> bool" where
  "manifest_ok pm = (skill_name_ok (pm_name pm) \<and> entry_match False False (pm_entry pm) \<and> pm_source pm \<in> {''entry_point'', ''directory''}
     \<and> (pm_source pm = ''directory'') = (pm_directory pm \<noteq> None) \<and> pm_isolation pm \<in> {''in-process'', ''docker''}
     \<and> (pm_isolation pm = ''docker'' \<longrightarrow> pm_source pm = ''directory'') \<and> 0 < pm_cpu pm \<and> 0 < pm_pids pm
     \<and> pm_capabilities pm \<noteq> [] \<and> set (pm_capabilities pm) \<subseteq> set known_capabilities)"

lemma make_manifest_ok: "make_manifest fs x = Inr pm \<Longrightarrow> manifest_ok pm"
  by (auto simp: make_manifest_def manifest_ok_def manifest_error_def Let_def filter_empty_conv split: if_splits option.splits)

lemma plugin_of_fields_ok: "plugin_of_fields to_float to_int fs directory fm = Inr pm \<Longrightarrow> manifest_ok pm"
  unfolding plugin_of_fields_def Let_def
  by (auto simp: manifest_error_def bind_res_Inr_iff dest: make_manifest_ok split: if_splits)

lemma plugin_from_directory_ok:
  assumes "plugin_from_directory to_float to_int fs folder = Inr pm"
  shows "manifest_ok pm"
proof -
  let ?md = "fst (real_comps fs [] folder) @ [''PLUGIN.md'']"
  obtain content where "os_read fs ?md = Inr content"
    using assms by (auto simp: plugin_from_directory_def manifest_error_def Let_def bind_res_Inr_iff split: if_splits)
  then show ?thesis using assms
    by (cases "split_frontmatter content (path_str ?md)")
      (auto simp: plugin_from_directory_def manifest_error_def Let_def split: if_splits dest: plugin_of_fields_ok)
qed

lemma entry_points_ok: "discover_entry_points fs eps = Inr pms \<Longrightarrow> list_all manifest_ok pms"
  by (induction eps arbitrary: pms rule: discover_entry_points.induct) (auto simp: bind_res_Inr_iff plugin_from_entry_point_def intro: make_manifest_ok)

lemma folders_ok: "discover_folders to_float to_int fs base es = Inr pms \<Longrightarrow> list_all manifest_ok pms"
  by (induction es arbitrary: pms) (auto simp: Let_def bind_res_Inr_iff split: if_splits sum.splits dest: plugin_from_directory_ok)

lemma check_duplicates_distinct:
  "check_duplicates pms seen = Inr () \<Longrightarrow> distinct (map pm_name pms) \<and> (\<forall>pm \<in> set pms. dget seen (pm_name pm) = None)"
proof (induction pms arbitrary: seen)
  case (Cons pm pms)
  then have "dget seen (pm_name pm) = None" by (auto simp: manifest_error_def split: option.splits)
  then show ?case using Cons.IH [of "dset seen (pm_name pm) pm"] Cons.prems by (auto split: if_splits)
qed simp

text \<open>
  Whatever the installed packages and the plugin directory declare, discovery returns only manifests that satisfy every rule
  for manifests, and never two of the same name.
\<close>

theorem discovered_plugins_ok:
  assumes "discover_plugins rg fs = Inr pms"
  shows "distinct (map pm_name pms) \<and> (\<forall>pm \<in> set pms. manifest_ok pm)"
proof -
  obtain eps dirs where parts: "discover_entry_points fs (rg_entry_points rg) = Inr eps" "check_duplicates (eps @ dirs) [] = Inr ()" "pms = eps @ dirs"
      "(case rg_directory rg of None \<Rightarrow> Inr [] | Some d \<Rightarrow> discover_directory_plugins (rg_float rg) (rg_int rg) fs d) = Inr dirs"
    using assms by (auto simp: discover_plugins_def bind_res_Inr_iff)
  have "list_all manifest_ok dirs"
    using parts(4) folders_ok by (auto simp: discover_directory_plugins_def Let_def split: option.splits if_splits)
  then show ?thesis using entry_points_ok [OF parts(1)] check_duplicates_distinct [OF parts(2)] parts(3) by (auto simp: list_all_iff)
qed

section \<open>The merged tools\<close>

definition unambiguous :: "('m, 'f, 't, 'w) plugin_host \<Rightarrow> string list \<Rightarrow> (string, string) dict \<Rightarrow> 't list \<Rightarrow> bool" where
  "unambiguous ho reserved owners tools = (distinct (map (ho_tool_name ho) tools) \<and> set (map (ho_tool_name ho) tools) \<inter> set reserved = {}
     \<and> (\<forall>t \<in> set tools. dget owners (ho_tool_name ho t) \<noteq> None))"

lemma merge_tools_ok: "merge_tools ho reserved pm ts owners tools = Inr (owners', tools') \<Longrightarrow> unambiguous ho reserved owners tools
    \<Longrightarrow> unambiguous ho reserved owners' tools'"
proof (induction ts arbitrary: owners tools)
  case (Cons t ts)
  let ?n = "ho_tool_name ho t"
  have fresh: "dget owners ?n = None" "?n \<notin> set reserved" using Cons.prems(1) by (auto simp: Let_def split: option.splits if_splits)
  then have "unambiguous ho reserved (dset owners ?n (pm_name pm)) (tools @ [t])" using Cons.prems(2) by (auto simp: unambiguous_def)
  then show ?case using Cons.IH Cons.prems(1) fresh by (simp add: Let_def)
qed simp

lemma load_each_ok: "load_each ho reserved on_error pms owners tools st = (Inr tools', st') \<Longrightarrow> unambiguous ho reserved owners tools
    \<Longrightarrow> \<exists>owners'. unambiguous ho reserved owners' tools'"
proof (induction pms arbitrary: owners tools st)
  case (Cons pm pms)
  then show ?case by (auto split: prod.splits sum.splits if_splits dest: merge_tools_ok)
qed auto

text \<open>
  C40: The tools the registry returns are unambiguous: no two of them have the same name, be they of one plugin or of several, and
  none has a name that is reserved, whatever plugins failed in between.
\<close>

theorem plugin_tools_unambiguous:
  assumes "load_all ho rg on_error st = (Inr tools, st')"
  shows "distinct (map (ho_tool_name ho) tools) \<and> set (map (ho_tool_name ho) tools) \<inter> set (rg_reserved rg) = {}"
proof -
  obtain pms where "load_each ho (rg_reserved rg) on_error pms [] [] st = (Inr tools, st')"
    using assms by (auto simp: load_all_def value_error_def split: if_splits sum.splits)
  then show ?thesis using load_each_ok by (fastforce simp: unambiguous_def)
qed

section \<open>What is executed was scanned\<close>

text \<open>The file whose code runs when the loader executes a source file: its bytecode file, if there is one and it is accepted.\<close>

definition cache_file :: "string \<Rightarrow> path \<Rightarrow> path" where
  "cache_file tag src = butlast src @ [''__pycache__'', take (length (last src) - 3) (last src) @ ''.'' @ tag @ ''.pyc'']"

definition executed_file :: "('m, 'f, 't, 'w) plugin_host \<Rightarrow> fsys \<Rightarrow> path \<Rightarrow> path" where
  "executed_file ho fs src = (let cached = cache_file (ho_cache_tag ho) src in
     if is_file fs cached \<and> ho_cache_valid ho fs cached src then cached else src)"

text \<open>The host that records the files whose code it runs.\<close>

definition traced :: "('m, 'f, 't, 'w) plugin_host \<Rightarrow> ('m, 'f, 't, 'w \<times> path list) plugin_host" where
  "traced ho = \<lparr>ho_fs = (\<lambda>(w, tr). ho_fs ho w), ho_parse = ho_parse ho, ho_finder = ho_finder ho,
     ho_import = (\<lambda>n (w, tr). case ho_import ho n w of (r, w') \<Rightarrow> (r, w', tr)), ho_module = ho_module ho,
     ho_attach = (\<lambda>p part m (w, tr). (ho_attach ho p part m w, tr)),
     ho_exec = (\<lambda>m src (w, tr). case ho_exec ho m src w of (r, w') \<Rightarrow> (r, w', tr @ [executed_file ho (ho_fs ho w) src])),
     ho_cache_tag = ho_cache_tag ho, ho_cache_valid = ho_cache_valid ho, ho_factory = ho_factory ho,
     ho_call = (\<lambda>f (w, tr). case ho_call ho f w of (r, w') \<Rightarrow> (r, w', tr)), ho_module_name = ho_module_name ho, ho_tool_name = ho_tool_name ho,
     ho_scrub = ho_scrub ho, ho_stamp = ho_stamp ho\<rparr>"

lemma traced_simps [simp]:
  "ho_fs (traced ho) (w, tr) = ho_fs ho w" "ho_parse (traced ho) = ho_parse ho" "ho_finder (traced ho) = ho_finder ho"
  "ho_module (traced ho) = ho_module ho" "ho_attach (traced ho) p part m (w, tr) = (ho_attach ho p part m w, tr)"
  "ho_exec (traced ho) m src (w, tr) = (case ho_exec ho m src w of (r, w') \<Rightarrow> (r, w', tr @ [executed_file ho (ho_fs ho w) src]))" "ho_factory (traced ho) = ho_factory ho"
  "ho_call (traced ho) f (w, tr) = (case ho_call ho f w of (r, w') \<Rightarrow> (r, w', tr))"
  by (simp_all add: traced_def)

lemma entry_parts:
  "entry_match False inside s \<Longrightarrow> list_all (\<lambda>p. p \<noteq> []) (tl (split_on CHR ''.'' (takeWhile (\<lambda>c. c \<noteq> CHR '':'') s)))
    \<and> (inside \<or> hd (split_on CHR ''.'' (takeWhile (\<lambda>c. c \<noteq> CHR '':'') s)) \<noteq> [])"
proof (induction s arbitrary: inside)
  case (Cons c s)
  have word: "\<not> is_word CHR ''.''" "\<not> is_word CHR '':''" "\<not> key_start CHR ''.''" "\<not> key_start CHR '':''"
    by (simp_all add: is_word_def key_start_def code_of_def)
  let ?ps = "split_on CHR ''.'' (takeWhile (\<lambda>c. c \<noteq> CHR '':'') s)"
  obtain w ws where ps: "?ps = w # ws" using split_on_nonempty by (cases ?ps) auto
  show ?case using Cons.prems Cons.IH [of True] Cons.IH [of False] word ps by (auto split: if_splits)
qed simp

lemma split_on_free: "p \<in> set (split_on d s) \<Longrightarrow> d \<notin> set p"
proof (induction s arbitrary: p)
  case (Cons c s)
  then show ?case by (cases "split_on d s") (auto split: if_splits)
qed simp

lemma entry_parts_proper: "entry_match False False (pm_entry pm) \<Longrightarrow> list_all proper (split_on CHR ''.'' (module_spec pm))"
proof -
  assume "entry_match False False (pm_entry pm)"
  from entry_parts [OF this] have "list_all (\<lambda>p. p \<noteq> []) (split_on CHR ''.'' (module_spec pm))"
    unfolding module_spec_def by (cases "split_on CHR ''.'' (takeWhile (\<lambda>c. c \<noteq> CHR '':'') (pm_entry pm))") auto
  then show ?thesis using split_on_free [of _ "CHR ''.''" "module_spec pm"] by (fastforce simp: list_all_iff proper_def)
qed

definition unlinked :: "fsys \<Rightarrow> path \<Rightarrow> bool" where
  "unlinked fs base = (\<forall>q. strict_prefix base q \<longrightarrow> \<not> is_link fs q)"

lemma plain_below: "plain fs base \<Longrightarrow> unlinked fs base \<Longrightarrow> list_all proper cs \<Longrightarrow> plain fs (base @ cs)"
proof (induction cs rule: rev_induct)
  case (snoc c cs)
  then have "\<not> is_link fs (base @ cs @ [c])" by (simp add: unlinked_def strict_prefix_def)
  then show ?case using snoc plain_snoc [of fs "base @ cs" c] by simp
qed simp

lemma executed_is_listed:
  assumes "is_file fs q" "plain fs q" "strict_prefix base q" "endswith ''.py'' (last q)"
  shows "q \<in> set (rglob_py fs base)"
proof -
  have "\<exists>s. dget fs q = Some (File s)" using assms(1) by (auto simp: is_file_def real_comps_of_plain [OF assms(2)] split: option.splits node.splits)
  then have "\<exists>nd. (q, nd) \<in> set fs" by (auto simp: dget_def dest: map_of_SomeD)
  then show ?thesis using assms(3,4) by (force simp: rglob_py_def)
qed

text \<open>No bytecode was shipped with the plugin.\<close>

definition no_bytecode :: "fsys \<Rightarrow> path \<Rightarrow> bool" where
  "no_bytecode fs base = list_all (\<lambda>(q, _). \<not> (strict_prefix base q \<and> endswith ''.pyc'' (last q))) fs"

lemma cache_proper: "list_all proper [''__pycache__'', x @ ''.'' @ tag @ ''.pyc'']"
  by (cases x) (auto simp: proper_def append_eq_Cons_conv Cons_eq_append_conv)

lemma source_executed:
  assumes "no_bytecode fs base" "plain fs base" "unlinked fs base" "list_all proper cs" "src = base @ cs @ [f]"
  shows "executed_file ho fs src = src"
proof -
  define c where "c = cache_file (ho_cache_tag ho) src"
  obtain x where c: "c = base @ (cs @ [''__pycache__'', x @ ''.'' @ ho_cache_tag ho @ ''.pyc''])"
    using assms(5) by (simp add: c_def cache_file_def butlast_append)
  have "plain fs c" unfolding c by (rule plain_below [OF assms(2,3)]) (use assms(4) cache_proper in simp)
  moreover have "dget fs c \<noteq> Some (File s)" for s
    using assms(1) by (auto simp: no_bytecode_def list_all_iff c endswith_def strict_prefix_def dget_def dest!: map_of_SomeD)
  ultimately have "\<not> is_file fs c" by (auto simp: is_file_def real_comps_of_plain split: option.splits node.splits)
  then show ?thesis by (simp add: executed_file_def c_def [symmetric])
qed

lemma locate_part_listed:
  assumes "locate_part fs pm (base @ cs) part is_last = Inr (src, current)" and base: "plain fs base" "unlinked fs base" and cs: "list_all proper cs" "proper part"
  shows "src \<in> set (rglob_py fs base) \<and> (\<exists>ds. current = base @ ds \<and> list_all proper ds) \<and> (\<exists>es f. src = base @ es @ [f] \<and> list_all proper es)"
proof -
  have py: "proper (part @ ''.py'')" "proper ''__init__.py''" by (auto simp: proper_def append_eq_Cons_conv)
  consider "src = base @ cs @ [part, ''__init__.py'']" "current = base @ cs @ [part]" | "src = base @ cs @ [part @ ''.py'']" "current = base @ cs"
    using assms(1) by (auto simp: locate_part_def split: if_splits)
  then show ?thesis
  proof cases
    case 1
    then have "is_file fs src" using assms(1) by (auto simp: locate_part_def split: if_splits)
    moreover have "plain fs src" unfolding 1 by (rule plain_below [OF base]) (use cs py in simp)
    ultimately have "src \<in> set (rglob_py fs base)" by (rule executed_is_listed) (auto simp: 1 endswith_def strict_prefix_def)
    then show ?thesis using 1 cs by (auto intro!: exI [of _ "cs @ [part]"])
  next
    case 2
    then have "is_file fs src" using assms(1) by (auto simp: locate_part_def split: if_splits)
    moreover have "plain fs src" unfolding 2 by (rule plain_below [OF base]) (use cs py in simp)
    ultimately have "src \<in> set (rglob_py fs base)" by (rule executed_is_listed) (auto simp: 2 endswith_def strict_prefix_def)
    then show ?thesis using 2 cs by auto
  qed
qed

lemma import_parts_trace:
  assumes "import_parts (traced ho) pm (base @ cs) full parts parent inserted (w, tr) mods = (r, inserted', (w', tr'), mods')"
    and fs: "\<And>w. ho_fs ho w = fs" and base: "plain fs base" "unlinked fs base" "no_bytecode fs base" and cs: "list_all proper cs" "list_all proper parts"
  shows "set tr' \<subseteq> set tr \<union> set (rglob_py fs base)"
  using assms(1) cs
proof (induction parts arbitrary: cs full parent inserted w tr mods)
  case (Cons part rest)
  show ?case
  proof (cases "locate_part fs pm (base @ cs) part (rest = [])")
    case (Inl e)
    then show ?thesis using Cons.prems(1) by (simp add: fs)
  next
    case (Inr x)
    obtain src current where x: "x = (src, current)" by fastforce
    then obtain ds es f where src: "src \<in> set (rglob_py fs base)" and ds: "current = base @ ds" "list_all proper ds"
      and es: "src = base @ es @ [f]" "list_all proper es"
      using locate_part_listed [OF _ base(1,2), of pm cs part "rest = []" src current] Inr Cons.prems(2,3) by auto
    have runs: "executed_file ho fs src = src" by (rule source_executed [OF base(3,1,2) es(2,1)])
    let ?m = "ho_module ho (full @ CHR ''.'' # part) src"
    define w1 where "w1 = (case parent of Some p \<Rightarrow> ho_attach ho p part ?m w | None \<Rightarrow> w)"
    have w1: "(case parent of None \<Rightarrow> (w, tr) | Some p \<Rightarrow> ho_attach (traced ho) p part ?m (w, tr)) = (w1, tr)" by (simp add: w1_def split: option.split)
    obtain e w2 where ex: "ho_exec ho ?m src w1 = (e, w2)" by fastforce
    show ?thesis
    proof (cases e)
      case (Inl y)
      then show ?thesis using Cons.prems(1) src by (auto simp: fs Let_def Inr x w1 ex runs)
    next
      case e: (Inr y)
      have "import_parts (traced ho) pm (base @ ds) (full @ CHR ''.'' # part) rest (Some ?m) (inserted @ [full @ CHR ''.'' # part]) (w2, tr @ [src])
          (dset mods (full @ CHR ''.'' # part) ?m) = (r, inserted', (w', tr'), mods')"
        using Cons.prems(1) by (simp add: fs Let_def Inr x w1 ex e ds runs)
      from Cons.IH [OF this ds(2)] Cons.prems(3) src show ?thesis by auto
    qed
  qed
qed simp

lemma import_trace:
  assumes "import_module (traced ho) pm (w, tr) mods = (r, (w', tr'), mods')"
    and pm: "pm_source pm = ''directory''" "pm_directory pm = Some base" "entry_match False False (pm_entry pm)"
    and fs: "\<And>w. ho_fs ho w = fs" and base: "plain fs base" "unlinked fs base" "no_bytecode fs base"
  shows "set tr' \<subseteq> set tr \<union> set (rglob_py fs base)"
proof -
  obtain x ins wt mods1 where parts: "import_parts (traced ho) pm (base @ []) (''kinetic_plugin_'' @ map (\<lambda>c. if c = CHR ''-'' then CHR ''_'' else c) (pm_name pm))
      (split_on CHR ''.'' (module_spec pm)) None [] (w, tr) mods = (x, ins, wt, mods1)"
    by (rule prod_cases4)
  obtain u tr1 where wt: "wt = (u, tr1)" by fastforce
  have "tr' = tr1" using assms(1) pm(1,2) parts wt by (auto simp: import_module_def import_directory_module_def split: sum.splits option.splits)
  then show ?thesis using import_parts_trace [OF parts [unfolded wt] fs base] entry_parts_proper [OF pm(3)] by simp
qed

lemma build_trace:
  assumes "build (traced ho) pm (w, tr) mods = (r, (w', tr'), mods')"
    and pm: "pm_source pm = ''directory''" "pm_directory pm = Some base" "entry_match False False (pm_entry pm)"
    and fs: "\<And>w. ho_fs ho w = fs" and base: "plain fs base" "unlinked fs base" "no_bytecode fs base"
  shows "set tr' \<subseteq> set tr \<union> set (rglob_py fs base)" and "r = Inr (Provided g) \<Longrightarrow> \<exists>f w. fst (ho_call ho f w) = Inr (Provided g)"
proof -
  obtain x wt mods1 where "import_module (traced ho) pm (w, tr) mods = (x, wt, mods1)" by (rule prod_cases3)
  moreover obtain w1 tr1 where "wt = (w1, tr1)" by fastforce
  ultimately have imp: "import_module (traced ho) pm (w, tr) mods = (x, (w1, tr1), mods1)" by simp
  have "tr' = tr1" using assms(1) imp by (auto simp: build_def call_factory_def split: sum.splits option.splits prod.splits)
  then show "set tr' \<subseteq> set tr \<union> set (rglob_py fs base)" using import_trace [OF imp pm fs base] by simp
  show "r = Inr (Provided g) \<Longrightarrow> \<exists>f w. fst (ho_call ho f w) = Inr (Provided g)"
    using assms(1) imp by (auto simp: build_def call_factory_def split: sum.splits option.splits prod.splits) (metis fst_conv)+
qed

lemma adopted_same_place:
  assumes "adopted fs pm given = Inr pm'" and "pm_source given \<noteq> ''directory''" and "pm_source pm = ''directory''" "pm_directory pm = Some base" "plain fs base"
  shows "pm_source pm' = ''directory'' \<and> pm_directory pm' = Some base \<and> entry_match False False (pm_entry pm')"
  using assms by (auto simp: adopted_def make_manifest_def manifest_error_def Let_def real_comps_of_plain split: if_splits)

lemma import_and_build_trace:
  assumes run: "import_and_build (traced ho) pm (w, tr) mods = (r, (w', tr'), mods')"
    and pm: "pm_source pm = ''directory''" "pm_directory pm = Some base" "entry_match False False (pm_entry pm)"
    and fs: "\<And>w. ho_fs ho w = fs" and base: "plain fs base" "unlinked fs base" "no_bytecode fs base"
    and provider: "\<And>f w g. fst (ho_call ho f w) = Inr (Provided g) \<Longrightarrow> pm_source g \<noteq> ''directory''"
  shows "set tr' \<subseteq> set tr \<union> set (rglob_py fs base)"
proof -
  obtain x wt mods1 where "build (traced ho) pm (w, tr) mods = (x, wt, mods1)" by (rule prod_cases3)
  moreover obtain w1 tr1 where "wt = (w1, tr1)" by fastforce
  ultimately have b: "build (traced ho) pm (w, tr) mods = (x, (w1, tr1), mods1)" by simp
  note first = build_trace [OF b pm fs base]
  show ?thesis
  proof (cases "\<exists>g pm'. x = Inr (Provided g) \<and> adopted fs pm g = Inr pm'")
    case False
    then have "tr' = tr1" using run b by (auto simp: import_and_build_def fs split: sum.splits product.splits)
    then show ?thesis using first(1) by simp
  next
    case True
    then obtain g pm' where g: "x = Inr (Provided g)" "adopted fs pm g = Inr pm'" by blast
    have "pm_source g \<noteq> ''directory''" using first(2) [OF g(1)] provider by blast
    note pm' = adopted_same_place [OF g(2) this pm(1,2) base(1)]
    obtain y wt mods2 where "build (traced ho) pm' (w1, tr1) mods1 = (y, wt, mods2)" by (rule prod_cases3)
    moreover obtain w2 tr2 where "wt = (w2, tr2)" by fastforce
    ultimately have b': "build (traced ho) pm' (w1, tr1) mods1 = (y, (w2, tr2), mods2)" by simp
    have "tr' = tr2" using run b g b' by (simp add: import_and_build_def fs)
    then show ?thesis using build_trace(1) [OF b' _ _ _ fs base] pm' first(1) by blast
  qed
qed

lemma scan_files_clean: "scan_files parse fs pm qs = Inr flags \<Longrightarrow> \<not> has_critical flags \<Longrightarrow> q \<in> set qs
    \<Longrightarrow> \<exists>source. os_read fs q = Inr source \<and> \<not> has_critical (scan_source parse source (path_str q))"
  by (induction qs arbitrary: flags) (auto simp: bind_res_Inr_iff split: sum.splits)

lemma audit_load_world [simp]: "ld_world (audit_load ho pm result outcome tools error st) = ld_world st"
  by (simp add: audit_load_def split: prod.split)

text \<open>
  C16: take a plugin directory without links and without bytecode files below it, whose files do not change while the plugin is loaded (Python
  writing bytecode included), and a factory that does not answer with the manifest of another directory. Then every file whose code
  the loader itself runs was scanned and found free of critical patterns, whatever the plugin does otherwise and whether loading succeeds or
  fails. What the executed modules import in turn is their own doing and not recorded.
\<close>

theorem plugin_executes_only_scanned:
  assumes pm: "pm_source pm = ''directory''" "pm_directory pm = Some base" "entry_match False False (pm_entry pm)"
    and base: "plain fs base" "unlinked fs base" "no_bytecode fs base" and fs: "\<And>w. ho_fs ho w = fs"
    and provider: "\<And>f w g. fst (ho_call ho f w) = Inr (Provided g) \<Longrightarrow> pm_source g \<noteq> ''directory''"
    and run: "load (traced ho) pm \<lparr>ld_world = (w, []), ld_modules = mods, ld_audit = audit\<rparr> = (r, st)"
    and executed: "src \<in> set (snd (ld_world st))"
  shows "\<exists>source. os_read fs src = Inr source \<and> \<not> has_critical (scan_source (ho_parse ho) source (path_str src))"
proof -
  let ?scan = "scan_plugin (ho_parse ho) (ho_finder ho) fs pm"
  obtain x wt mods1 where "import_and_build (traced ho) pm (w, []) mods = (x, wt, mods1)" by (rule prod_cases3)
  moreover obtain w1 tr1 where "wt = (w1, tr1)" by fastforce
  ultimately have b: "import_and_build (traced ho) pm (w, []) mods = (x, (w1, tr1), mods1)" by simp
  have reached: "\<exists>result. ?scan = Inr result \<and> sr_clean result \<and> snd (ld_world st) = tr1"
    using run executed b by (auto simp: load_def fs Let_def split: if_splits sum.splits)
  then obtain result where result: "?scan = Inr result" "sr_clean result" "snd (ld_world st) = tr1" by blast
  then obtain flags where flags: "scan_files (ho_parse ho) fs pm (rglob_py fs base) = Inr flags" "\<not> has_critical flags"
    using pm(1,2) by (auto simp: scan_plugin_def locate_source_files_def Let_def bind_res_Inr_iff split: if_splits)
  have "set tr1 \<subseteq> set [] \<union> set (rglob_py fs base)" by (rule import_and_build_trace [OF b pm fs base]) (rule provider)
  then have "src \<in> set (rglob_py fs base)" using executed result(3) by auto
  then show ?thesis using scan_files_clean [OF flags] by simp
qed

section \<open>Examples\<close>

lemma unlinkedI: "list_all (\<lambda>(q, nd). \<forall>t. nd \<noteq> Link t) fs \<Longrightarrow> unlinked fs base"
  by (force simp: unlinked_def is_link_def list_all_iff dget_def split: option.splits node.splits dest: map_of_SomeD)

text \<open>A file system with two plugins in the directory \<open>plugins\<close>, and a host whose factories return what the name of the module determines.\<close>

definition plugin_text :: "string \<Rightarrow> string list \<Rightarrow> string" where
  "plugin_text name extra = py_join [LF] ([''---'', ''name: '' @ name, ''entry_point: main:make''] @ extra @ [''---''])"

definition plugin_files :: fsys where
  "plugin_files = [([''plugins''], Dir), ([''plugins'', ''a''], Dir), ([''plugins'', ''a'', ''PLUGIN.md''], File (plugin_text ''a'' [])),
     ([''plugins'', ''a'', ''main.py''], File ''good''), ([''plugins'', ''b''], Dir),
     ([''plugins'', ''b'', ''PLUGIN.md''], File (plugin_text ''b'' [''cpu_limit: many''])), ([''plugins'', ''b'', ''main.py''], File ''good''),
     ([''evil''], Dir), ([''evil'', ''main.py''], File ''bad''), ([''evil'', ''__init__.py''], File ''bad'')]"

definition sample_parse :: "string \<Rightarrow> (string \<times> int) + pynode" where
  "sample_parse source = Inr (PyOther (if source = ''bad'' then [PyCall (PyName ''exec'' 1) [PyName ''x'' 1] [] 1] else []))"

definition sample_host :: "fsys \<Rightarrow> (string \<Rightarrow> string product) \<Rightarrow> (string, string, string, unit) plugin_host" where
  "sample_host fs x = \<lparr>ho_fs = (\<lambda>_. fs), ho_parse = sample_parse, ho_finder = (\<lambda>_ _. None), ho_import = (\<lambda>n w. (Inr n, w)), ho_module = (\<lambda>n _. n),
     ho_attach = (\<lambda>_ _ _ w. w), ho_exec = (\<lambda>_ _ w. (Inr (), w)), ho_cache_tag = ''cpython-312'', ho_cache_valid = (\<lambda>fs cached src. True), ho_factory = (\<lambda>m _. Some m), ho_call = (\<lambda>m w. (Inr (x m), w)),
     ho_module_name = id, ho_tool_name = id, ho_scrub = id, ho_stamp = (\<lambda>n. (str_of_nat n, ''now''))\<rparr>"

definition sample_manifest :: "string \<Rightarrow> path \<Rightarrow> plugin_manifest" where
  "sample_manifest entry directory = \<lparr>pm_name = ''a'', pm_version = None, pm_entry = entry, pm_source = ''directory'', pm_capabilities = [''tool''],
     pm_directory = Some directory, pm_isolation = ''in-process'', pm_network = Some ''none'', pm_memory = ''512m'', pm_cpu = 1, pm_pids = 128\<rparr>"

definition sample_load :: "fsys \<Rightarrow> (string \<Rightarrow> string product) \<Rightarrow> plugin_manifest \<Rightarrow> string list result \<times> (string, unit \<times> path list) loading" where
  "sample_load fs x pm = load (traced (sample_host fs x)) pm \<lparr>ld_world = ((), []), ld_modules = [], ld_audit = []\<rparr>"

definition sample_registry :: "(string \<Rightarrow> rat option) \<Rightarrow> plugin_registry" where
  "sample_registry to_float = \<lparr>rg_directory = Some [''plugins''], rg_entry_points = [(''c'', ''pkg.mod:make'', None)], rg_reserved = [''shell''],
     rg_float = to_float, rg_int = (\<lambda>_. Some 128)\<rparr>"

theorem discovered_plugins_ok_witness:
  "\<exists>pms. discover_plugins (sample_registry (\<lambda>_. Some 1)) plugin_files = Inr pms \<and> map pm_name pms = [''c'', ''a'', ''b''] \<and> (\<forall>pm \<in> set pms. manifest_ok pm)"
proof -
  have "(case discover_plugins (sample_registry (\<lambda>_. Some 1)) plugin_files of Inr pms \<Rightarrow> map pm_name pms = [''c'', ''a'', ''b''] | Inl _ \<Rightarrow> False)" by code_simp
  then obtain pms where pms: "discover_plugins (sample_registry (\<lambda>_. Some 1)) plugin_files = Inr pms" "map pm_name pms = [''c'', ''a'', ''b'']"
    by (auto split: sum.splits)
  have "\<forall>pm \<in> set pms. manifest_ok pm" using discovered_plugins_ok [OF pms(1)] by (rule conjunct2)
  with pms show ?thesis by (intro exI [of _ pms] conjI)
qed

theorem plugin_tools_unambiguous_witness:
  "\<exists>tools st. load_all (sample_host plugin_files (\<lambda>m. Items [Inr m])) (sample_registry (\<lambda>_. Some 1)) ''skip'' \<lparr>ld_world = (), ld_modules = [], ld_audit = []\<rparr> = (Inr tools, st)
     \<and> length tools = 2 \<and> distinct (map (ho_tool_name (sample_host plugin_files (\<lambda>m. Items [Inr m]))) tools)
     \<and> ''shell'' \<notin> set (map (ho_tool_name (sample_host plugin_files (\<lambda>m. Items [Inr m]))) tools)"
proof -
  let ?run = "load_all (sample_host plugin_files (\<lambda>m. Items [Inr m])) (sample_registry (\<lambda>_. Some 1)) ''skip'' \<lparr>ld_world = (), ld_modules = [], ld_audit = []\<rparr>"
  have "(case fst ?run of Inr ts \<Rightarrow> length ts = 2 | Inl _ \<Rightarrow> False)" by code_simp
  then obtain tools st where run: "?run = (Inr tools, st)" "length tools = 2" by (cases ?run) (auto split: sum.splits)
  have "set (rg_reserved (sample_registry (\<lambda>_. Some 1))) = {''shell''}" by (simp add: sample_registry_def)
  then show ?thesis using run plugin_tools_unambiguous [OF run(1)] by (intro exI [of _ tools] exI [of _ st] conjI) simp_all
qed

theorem plugin_executes_only_scanned_witness:
  "[''plugins'', ''a'', ''main.py''] \<in> set (snd (ld_world (snd (sample_load plugin_files (\<lambda>_. Items [Inr ''greet'']) (sample_manifest ''main:make'' [''plugins'', ''a''])))))
   \<and> (\<exists>source. os_read plugin_files [''plugins'', ''a'', ''main.py''] = Inr source \<and> \<not> has_critical (scan_source sample_parse source ''/plugins/a/main.py''))"
proof
  let ?pm = "sample_manifest ''main:make'' [''plugins'', ''a'']" and ?ho = "sample_host plugin_files (\<lambda>_. Items [Inr ''greet''])"
  show run: "[''plugins'', ''a'', ''main.py''] \<in> set (snd (ld_world (snd (sample_load plugin_files (\<lambda>_. Items [Inr ''greet'']) ?pm))))" by code_simp
  have "plain plugin_files [''plugins'', ''a'']"
    using plain_snoc [OF plain_snoc [OF plain_Nil], of "''plugins''" plugin_files "''a''"] by (simp add: proper_def is_link_def plugin_files_def)
  moreover have "unlinked plugin_files [''plugins'', ''a'']" by (rule unlinkedI) (simp add: plugin_files_def)
  moreover have "no_bytecode plugin_files [''plugins'', ''a'']" by code_simp
  moreover have "pm_source ?pm = ''directory''" "pm_directory ?pm = Some [''plugins'', ''a'']" "entry_match False False (pm_entry ?pm)"
    "path_str [''plugins'', ''a'', ''main.py''] = ''/plugins/a/main.py''" "\<And>w. ho_fs ?ho w = plugin_files" "ho_parse ?ho = sample_parse"
    "\<And>f w g. fst (ho_call ?ho f w) = Inr (Provided g) \<Longrightarrow> pm_source g \<noteq> ''directory''"
    by (simp_all add: sample_manifest_def sample_host_def path_str_def is_word_def key_start_def code_of_def)
  ultimately show "\<exists>source. os_read plugin_files [''plugins'', ''a'', ''main.py''] = Inr source \<and> \<not> has_critical (scan_source sample_parse source ''/plugins/a/main.py'')"
    using plugin_executes_only_scanned [of ?pm "[''plugins'', ''a'']" plugin_files ?ho "()" "[]" "[]" "fst (sample_load plugin_files (\<lambda>_. Items [Inr ''greet'']) ?pm)"
        "snd (sample_load plugin_files (\<lambda>_. Items [Inr ''greet'']) ?pm)" "[''plugins'', ''a'', ''main.py'']"] run
    by (simp add: sample_load_def)
qed

text \<open>
  Where the guarantees end. A factory that answers with the manifest of another directory has its code executed unscanned; so has
  a package that is a link, which the search for files does not follow, and a bytecode file shipped in \<open>__pycache__\<close>, which Python runs in place of the
  source when it accepts it (one with an unchecked hash always), while the scan reads the source. A limit that is no number breaks discovery of every plugin.
  A load whose factory returns something else than tools, or whose files cannot be found, leaves no audit entry.
\<close>

lemma provided_manifest_unscanned:
  "case sample_load plugin_files (\<lambda>_. Provided (sample_manifest ''main:make'' [''evil''])) (sample_manifest ''main:make'' [''plugins'', ''a'']) of (r, st) \<Rightarrow>
     [''evil'', ''main.py''] \<in> set (snd (ld_world st))"
  "has_critical (scan_source sample_parse ''bad'' ''/evil/main.py'')"
  by code_simp+

lemma linked_package_unscanned:
  "case sample_load (([''plugins'', ''a'', ''pkg''], Link ''/evil'') # plugin_files) (\<lambda>_. Items [Inr ''greet'']) (sample_manifest ''pkg:make'' [''plugins'', ''a'']) of (r, st) \<Rightarrow>
     r = Inr [''greet''] \<and> snd (ld_world st) = [[''plugins'', ''a'', ''pkg'', ''__init__.py'']]"
  "os_read (([''plugins'', ''a'', ''pkg''], Link ''/evil'') # plugin_files) [''plugins'', ''a'', ''pkg'', ''__init__.py''] = Inr ''bad''"
  by code_simp+

lemma shipped_bytecode_unscanned:
  "case sample_load (([''plugins'', ''a'', ''__pycache__'', ''main.cpython-312.pyc''], File ''code'') # ([''plugins'', ''a'', ''__pycache__''], Dir) # plugin_files)
       (\<lambda>_. Items [Inr ''greet'']) (sample_manifest ''main:make'' [''plugins'', ''a'']) of (r, st) \<Rightarrow>
     r = Inr [''greet''] \<and> snd (ld_world st) = [[''plugins'', ''a'', ''__pycache__'', ''main.cpython-312.pyc'']]"
  by code_simp

lemma malformed_limit_breaks_discovery:
  "(case discover_plugins (sample_registry (\<lambda>s. if s = ''1.0'' then Some 1 else None)) plugin_files of Inl e \<Rightarrow> exn_class e = ''ValueError'' | Inr _ \<Rightarrow> False)"
  by code_simp

lemma failed_load_not_audited:
  "case sample_load plugin_files (\<lambda>_. Items [Inl ''int'']) (sample_manifest ''main:make'' [''plugins'', ''a'']) of (r, st) \<Rightarrow>
     (case r of Inl e \<Rightarrow> exn_class e = ''PluginLoadError'' | Inr _ \<Rightarrow> False) \<and> ld_audit st = []"
  "case sample_load plugin_files (\<lambda>_. Items []) (sample_manifest ''main:make'' [''none'']) of (r, st) \<Rightarrow>
     (case r of Inl e \<Rightarrow> exn_class e = ''PluginLoadError'' | Inr _ \<Rightarrow> False) \<and> ld_audit st = []"
  by code_simp+

end
